(* ===== verification/Prelude.thy ===== *)
theory Prelude
  imports Main "HOL-Library.Char_ord" "HOL-Library.List_Lexorder" "HOL-Library.Code_Target_Nat"
begin

text \<open>
  Shared vocabulary of the development: Rust's saturating machine arithmetic, the ordered map
  that stands for \<open>BTreeMap\<close> (and, where iteration order plays no role, for \<open>HashMap\<close>), decimal
  formatting, and the list facts used by several components.

  Identifiers of the program (\<open>ConnectionId\<close>, \<open>PrincipalId\<close>, \<dots>) are opaque Rust strings that are
  only compared and ordered; they are modelled as \<open>string\<close>, the list of their UTF-8 bytes, whose
  lexicographic order is the order of Rust's \<open>str\<close>.
\<close>

section \<open>Theorem collections\<close>

named_theorems map_laws "lookup laws of the ordered map, for use as simp rules"
named_theorems inv_intros "introduction rules that build a component's invariant"

section \<open>Machine integers\<close>

text \<open>
  Counters of the program are \<open>u32\<close>, \<open>u64\<close> or \<open>usize\<close> and are updated with \<open>saturating_add\<close> and
  \<open>saturating_sub\<close>. They are modelled as \<open>nat\<close>: \<open>saturating_sub\<close> is the truncating subtraction of
  \<open>nat\<close>, \<open>saturating_add\<close> stops at the maximum of the width, and \<open>as u32\<close> wraps.
\<close>

definition u32_max :: nat where
  "u32_max = 2 ^ 32 - 1"

definition u64_max :: nat where
  "u64_max = 2 ^ 64 - 1"

definition sat_add32 :: "nat \<Rightarrow> nat \<Rightarrow> nat" where
  "sat_add32 a b = min (a + b) u32_max"

definition sat_add64 :: "nat \<Rightarrow> nat \<Rightarrow> nat" where
  "sat_add64 a b = min (a + b) u64_max"

definition as_u32 :: "nat \<Rightarrow> nat" where
  "as_u32 n = n mod 2 ^ 32"

lemma sat_add32_le_max: "sat_add32 a b \<le> u32_max"
  by (simp add: sat_add32_def)

lemma sat_add32_exact: "a + b \<le> u32_max \<Longrightarrow> sat_add32 a b = a + b"
  by (simp add: sat_add32_def)

lemma sat_add64_exact: "a + b \<le> u64_max \<Longrightarrow> sat_add64 a b = a + b"
  by (simp add: sat_add64_def)

lemma as_u32_small: "n \<le> u32_max \<Longrightarrow> as_u32 n = n"
  by (simp add: as_u32_def u32_max_def)

section \<open>The ordered map\<close>

text \<open>
  A \<open>BTreeMap\<close> is the list of its entries in strictly increasing key order. \<open>bt_insert\<close> replaces
  the entry of an existing key, as \<open>BTreeMap::insert\<close> does.
\<close>

type_synonym ('k, 'v) btree = "('k \<times> 'v) list"

definition bt_get :: "('k, 'v) btree \<Rightarrow> 'k \<Rightarrow> 'v option" where
  "bt_get m = map_of m"

fun bt_insert :: "'k::linorder \<Rightarrow> 'v \<Rightarrow> ('k, 'v) btree \<Rightarrow> ('k, 'v) btree" where
  "bt_insert k v [] = [(k, v)]"
| "bt_insert k v ((k', v') # m) =
     (if k < k' then (k, v) # (k', v') # m
      else if k = k' then (k, v) # m
      else (k', v') # bt_insert k v m)"

definition bt_remove :: "'k \<Rightarrow> ('k, 'v) btree \<Rightarrow> ('k, 'v) btree" where
  "bt_remove k m = filter (\<lambda>e. fst e \<noteq> k) m"

definition bt_keys :: "('k, 'v) btree \<Rightarrow> 'k list" where
  "bt_keys m = map fst m"

definition bt_values :: "('k, 'v) btree \<Rightarrow> 'v list" where
  "bt_values m = map snd m"

definition bt_wf :: "('k::linorder, 'v) btree \<Rightarrow> bool" where
  "bt_wf m \<longleftrightarrow> sorted_wrt (<) (map fst m)"

definition bt_count :: "('v \<Rightarrow> bool) \<Rightarrow> ('k, 'v) btree \<Rightarrow> nat" where
  "bt_count P m = length (filter P (bt_values m))"

text \<open>
  The contract a client of a map relies on: what a lookup returns after an update, that updates
  keep the representation invariant, and that two well-formed maps with the same lookups are the
  same map (the tree is canonical).
\<close>

locale ordered_map =
  fixes get :: "'m \<Rightarrow> 'k \<Rightarrow> 'v option"
    and ins :: "'k \<Rightarrow> 'v \<Rightarrow> 'm \<Rightarrow> 'm"
    and del :: "'k \<Rightarrow> 'm \<Rightarrow> 'm"
    and wf :: "'m \<Rightarrow> bool"
  assumes get_ins: "get (ins k v m) j = (if j = k then Some v else get m j)"
    and get_del: "get (del k m) j = (if j = k then None else get m j)"
    and wf_ins: "wf m \<Longrightarrow> wf (ins k v m)"
    and wf_del: "wf m \<Longrightarrow> wf (del k m)"
    and map_ext: "wf m \<Longrightarrow> wf m' \<Longrightarrow> (\<And>j. get m j = get m' j) \<Longrightarrow> m = m'"
begin

lemma ins_same: "wf m \<Longrightarrow> get m k = Some v \<Longrightarrow> ins k v m = m"
  by (rule map_ext) (simp_all add: wf_ins get_ins)

lemma ins_del_same: "wf m \<Longrightarrow> get m k = Some v \<Longrightarrow> ins k v (del k m) = m"
  by (rule map_ext) (simp_all add: wf_ins wf_del get_ins get_del)

lemma ins_del: "wf m \<Longrightarrow> ins k v (del k m) = ins k v m"
  by (rule map_ext) (simp_all add: wf_ins wf_del get_ins get_del)

lemma del_ins_fresh: "wf m \<Longrightarrow> get m k = None \<Longrightarrow> del k (ins k v m) = m"
  by (rule map_ext) (simp_all add: wf_ins wf_del get_ins get_del)

lemma ins_ins: "wf m \<Longrightarrow> ins k v (ins k w m) = ins k v m"
  by (rule map_ext) (simp_all add: wf_ins get_ins)

lemma del_del: "wf m \<Longrightarrow> del k (del k m) = del k m"
  by (rule map_ext) (simp_all add: wf_del get_del)

end

text \<open>A map whose entries can be counted by a property of their value.\<close>

locale counted_map = ordered_map get ins del wf
  for get :: "'m \<Rightarrow> 'k \<Rightarrow> 'v option"
    and ins :: "'k \<Rightarrow> 'v \<Rightarrow> 'm \<Rightarrow> 'm"
    and del :: "'k \<Rightarrow> 'm \<Rightarrow> 'm"
    and wf :: "'m \<Rightarrow> bool" +
  fixes cnt :: "('v \<Rightarrow> bool) \<Rightarrow> 'm \<Rightarrow> nat"
  assumes cnt_fresh: "get m k = None \<Longrightarrow> cnt P (ins k v m) = cnt P m + (if P v then 1 else 0)"
    and cnt_del: "wf m \<Longrightarrow> get m k = Some v \<Longrightarrow> cnt P m = cnt P (del k m) + (if P v then 1 else 0)"
begin

lemma cnt_replace:
  assumes "wf m" "get m k = Some w"
  shows "cnt P (ins k v m) + (if P w then 1 else 0) = cnt P m + (if P v then 1 else 0)"
proof -
  have "cnt P (ins k v m) = cnt P (del k m) + (if P v then 1 else 0)"
    using cnt_fresh [of "del k m" k P v] assms by (simp add: get_del ins_del)
  with cnt_del [OF assms, of P] show ?thesis by simp
qed

lemma cnt_pos: "wf m \<Longrightarrow> get m k = Some v \<Longrightarrow> P v \<Longrightarrow> 0 < cnt P m"
  using cnt_del [of m k v P] by simp

end

subsection \<open>The sorted association list provides the contract\<close>

lemma bt_get_Nil [simp]: "bt_get [] k = None"
  by (simp add: bt_get_def)

lemma bt_get_insert [map_laws]:
  "bt_get (bt_insert k v m) j = (if j = k then Some v else bt_get m j)"
  by (induction m) (auto simp: bt_get_def)

lemma bt_get_remove [map_laws]:
  "bt_get (bt_remove k m) j = (if j = k then None else bt_get m j)"
  by (induction m) (auto simp: bt_get_def bt_remove_def)

lemma set_bt_insert: "fst ` set (bt_insert k v m) = insert k (fst ` set m)"
proof (induction m)
  case (Cons e m)
  obtain a b where "e = (a, b)" by (cases e)
  with Cons show ?case by simp blast
qed simp

lemma bt_wf_Nil [simp]: "bt_wf []"
  by (simp add: bt_wf_def)

lemma bt_wf_insert: "bt_wf m \<Longrightarrow> bt_wf (bt_insert k v m)"
proof (induction m)
  case Nil
  then show ?case by (simp add: bt_wf_def)
next
  case (Cons e m)
  obtain k' v' where e: "e = (k', v')" by (cases e)
  have sub: "bt_wf (bt_insert k v m)" using Cons by (simp add: bt_wf_def)
  have keys: "\<forall>x \<in> fst ` set m. k' < x" using Cons.prems by (auto simp: bt_wf_def e)
  have "\<forall>x \<in> fst ` set (bt_insert k v m). k' < x" if "k' < k"
    using keys that by (simp add: set_bt_insert)
  moreover have "\<forall>x \<in> fst ` set m. k < x" if "k < k'"
    using keys that by (meson order_less_trans)
  ultimately show ?case using Cons.prems sub
    by (auto simp: bt_wf_def e)
qed

lemma bt_wf_insert_any: "bt_wf (bt_insert k v m) \<longleftrightarrow> bt_wf (bt_insert k w m)"
proof -
  have "map fst (bt_insert k v m) = map fst (bt_insert k w m)"
    by (induction m) auto
  then show ?thesis by (simp add: bt_wf_def)
qed

lemma bt_insert_twice: "bt_insert k v (bt_insert k w m) = bt_insert k v m"
  by (induction m) auto

lemma bt_wf_remove: "bt_wf m \<Longrightarrow> bt_wf (bt_remove k m)"
  by (simp add: bt_wf_def bt_remove_def sorted_wrt_map sorted_wrt_filter)

lemma bt_wf_distinct: "bt_wf m \<Longrightarrow> distinct (map fst m)"
  by (simp add: bt_wf_def strict_sorted_iff)

lemma bt_get_Some_iff: "bt_wf m \<Longrightarrow> bt_get m k = Some v \<longleftrightarrow> (k, v) \<in> set m"
  by (simp add: bt_get_def bt_wf_distinct)

lemma bt_ext:
  assumes "bt_wf m" "bt_wf m'" "\<And>j. bt_get m j = bt_get m' j"
  shows "m = m'"
proof -
  have "set m = set m'"
    using assms by (auto simp: bt_get_Some_iff [symmetric])
  moreover have "sorted (map fst m)" "sorted (map fst m')"
    using assms by (auto simp: bt_wf_def strict_sorted_iff)
  moreover have "distinct m" "distinct m'"
    using assms(1,2) by (auto dest!: bt_wf_distinct simp: distinct_map)
  moreover have "inj_on fst (set m \<union> set m')"
    using \<open>set m = set m'\<close> bt_wf_distinct [OF assms(1)] by (simp add: distinct_map)
  ultimately show ?thesis
    using bt_wf_distinct [OF assms(1)] bt_wf_distinct [OF assms(2)]
    by (intro map_sorted_distinct_set_unique [of fst]) simp_all
qed

lemma bt_remove_absent: "bt_get m k = None \<Longrightarrow> bt_remove k m = m"
  by (induction m) (auto simp: bt_get_def bt_remove_def split: if_splits)

lemma bt_count_insert_fresh:
  "bt_get m k = None \<Longrightarrow> bt_count P (bt_insert k v m) = bt_count P m + (if P v then 1 else 0)"
  by (induction m) (auto simp: bt_get_def bt_count_def bt_values_def split: if_splits)

lemma bt_count_remove:
  "bt_wf m \<Longrightarrow> bt_get m k = Some v \<Longrightarrow>
   bt_count P m = bt_count P (bt_remove k m) + (if P v then 1 else 0)"
proof (induction m)
  case Nil
  then show ?case by simp
next
  case (Cons e m)
  show ?case
  proof (cases "fst e = k")
    case True
    then have "k \<notin> set (map fst m)" using bt_wf_distinct [OF Cons.prems(1)] by auto
    then have "bt_get m k = None" by (simp add: bt_get_def map_of_eq_None_iff)
    then have "bt_remove k m = m" by (rule bt_remove_absent)
    with True Cons.prems show ?thesis
      by (cases e) (auto simp: bt_get_def bt_count_def bt_values_def bt_remove_def)
  next
    case False
    with Cons show ?thesis
      by (cases e) (auto simp: bt_get_def bt_count_def bt_values_def bt_remove_def bt_wf_def)
  qed
qed

interpretation bt: counted_map "bt_get :: ('k::linorder, 'v) btree \<Rightarrow> _" bt_insert bt_remove bt_wf bt_count
  by unfold_locales
    (simp_all add: map_laws bt_count_insert_fresh bt_wf_insert bt_wf_remove bt_ext bt_count_remove)

lemma bt_count_Nil [simp]: "bt_count P [] = 0"
  by (simp add: bt_count_def bt_values_def)

lemma bt_count_cong: "(\<And>v. v \<in> set (bt_values m) \<Longrightarrow> P v = Q v) \<Longrightarrow> bt_count P m = bt_count Q m"
  unfolding bt_count_def by (metis (mono_tags, lifting) filter_cong)

lemma bt_count_mono: "(\<And>v. P v \<Longrightarrow> Q v) \<Longrightarrow> bt_count P m \<le> bt_count Q m"
  unfolding bt_count_def by (induction m) (auto simp: bt_values_def)

lemma bt_count_zero: "bt_wf m \<Longrightarrow> bt_count P m = 0 \<longleftrightarrow> (\<forall>k v. bt_get m k = Some v \<longrightarrow> \<not> P v)"
  by (force simp: bt_count_def bt_values_def filter_empty_conv bt_get_Some_iff)

lemma bt_values_get: "bt_wf m \<Longrightarrow> v \<in> set (bt_values m) \<longleftrightarrow> (\<exists>k. bt_get m k = Some v)"
  by (force simp: bt_values_def bt_get_Some_iff)

lemma bt_keys_get: "k \<in> set (bt_keys m) \<longleftrightarrow> bt_get m k \<noteq> None"
  by (simp add: bt_keys_def bt_get_def map_of_eq_None_iff)

section \<open>Decimal formatting\<close>

text \<open>\<open>format!("{n}")\<close> and the zero-padded \<open>format!("{n:010}")\<close>.\<close>

fun dec :: "nat \<Rightarrow> string" where
  "dec n = (if n < 10 then [char_of (48 + n)] else dec (n div 10) @ [char_of (48 + n mod 10)])"

declare dec.simps [simp del]

definition pad_left :: "nat \<Rightarrow> string \<Rightarrow> string" where
  "pad_left w s = replicate (w - length s) CHR ''0'' @ s"

text \<open>The value of a digit string; it inverts the formatting, so formatted numbers are distinct.\<close>

definition dec_val :: "string \<Rightarrow> nat" where
  "dec_val s = foldl (\<lambda>a c. a * 10 + (of_char c - 48)) 0 s"

lemma dec_val_snoc: "dec_val (s @ [c]) = dec_val s * 10 + (of_char c - 48)"
  by (simp add: dec_val_def)

lemma dec_val_dec: "dec_val (dec n) = n"
proof (induction n rule: dec.induct)
  case (1 n)
  have digit: "of_char (char_of (48 + d) :: char) = 48 + d" if "d < 10" for d :: nat
    using that by (simp add: of_char_of)
  show ?case
  proof (cases "n < 10")
    case True
    then show ?thesis by (subst dec.simps) (simp add: dec_val_def digit)
  next
    case False
    then have "dec_val (dec n) = n div 10 * 10 + n mod 10"
      using 1 by (subst dec.simps) (simp add: dec_val_snoc digit)
    then show ?thesis by simp
  qed
qed

lemma dec_val_pad: "dec_val (replicate k CHR ''0'' @ s) = dec_val s"
proof (induction k)
  case (Suc k)
  have "dec_val (CHR ''0'' # t) = dec_val t" for t
    by (simp add: dec_val_def)
  with Suc show ?case by simp
qed simp

lemma pad_dec_inject: "pad_left w (dec m) = pad_left w (dec n) \<Longrightarrow> m = n"
  by (metis pad_left_def dec_val_pad dec_val_dec)

section \<open>Lists\<close>

fun find_index :: "('a \<Rightarrow> bool) \<Rightarrow> 'a list \<Rightarrow> nat option" where
  "find_index P [] = None"
| "find_index P (x # xs) = (if P x then Some 0 else map_option Suc (find_index P xs))"

definition remove_at :: "nat \<Rightarrow> 'a list \<Rightarrow> 'a list" where
  "remove_at i xs = take i xs @ drop (Suc i) xs"

lemma remove_at_Cons_0 [simp]: "remove_at 0 (x # xs) = xs"
  by (simp add: remove_at_def)

lemma remove_at_Cons_Suc [simp]: "remove_at (Suc i) (x # xs) = x # remove_at i xs"
  by (simp add: remove_at_def)

lemma find_index_Some:
  "find_index P xs = Some i \<Longrightarrow> i < length xs \<and> P (xs ! i) \<and> (\<forall>j < i. \<not> P (xs ! j))"
proof (induction xs arbitrary: i)
  case (Cons x xs)
  then show ?case
    by (cases i) (auto split: if_splits simp: less_Suc_eq_0_disj nth_Cons')
qed simp

lemma find_index_None: "find_index P xs = None \<longleftrightarrow> (\<forall>x \<in> set xs. \<not> P x)"
  by (induction xs) auto

text \<open>
  The first minimum of a list under a key, as \<open>Iterator::min_by\<close> and \<open>min_by_key\<close> return it, and
  the last maximum, as \<open>max_by_key\<close> returns it.
\<close>

fun first_min :: "('a \<Rightarrow> 'b::linorder) \<Rightarrow> 'a list \<Rightarrow> 'a option" where
  "first_min f [] = None"
| "first_min f (x # xs) =
     (case first_min f xs of None \<Rightarrow> Some x | Some y \<Rightarrow> Some (if f y < f x then y else x))"

fun last_max :: "('a \<Rightarrow> 'b::linorder) \<Rightarrow> 'a list \<Rightarrow> 'a option" where
  "last_max f [] = None"
| "last_max f (x # xs) =
     (case last_max f xs of None \<Rightarrow> Some x | Some y \<Rightarrow> Some (if f y < f x then x else y))"

lemma first_min_None [simp]: "first_min f xs = None \<longleftrightarrow> xs = []"
  by (cases xs) (auto split: option.splits)

lemma first_min_Some: "first_min f xs = Some y \<Longrightarrow> y \<in> set xs \<and> (\<forall>x \<in> set xs. f y \<le> f x)"
proof (induction xs arbitrary: y)
  case (Cons x xs)
  show ?case
  proof (cases "first_min f xs")
    case (Some z)
    have "z \<in> set xs" "\<forall>x \<in> set xs. f z \<le> f x" using Cons.IH [OF Some] by simp_all
    then show ?thesis using Cons.prems Some by (auto split: if_splits)
  qed (use Cons.prems in simp)
qed simp

lemma last_max_None [simp]: "last_max f xs = None \<longleftrightarrow> xs = []"
  by (cases xs) (auto split: option.splits)

lemma last_max_Some: "last_max f xs = Some y \<Longrightarrow> y \<in> set xs \<and> (\<forall>x \<in> set xs. f x \<le> f y)"
proof (induction xs arbitrary: y)
  case (Cons x xs)
  show ?case
  proof (cases "last_max f xs")
    case (Some z)
    have "z \<in> set xs" "\<forall>x \<in> set xs. f x \<le> f z" using Cons.IH [OF Some] by simp_all
    then show ?thesis using Cons.prems Some by (auto split: if_splits)
  qed (use Cons.prems in simp)
qed simp

end
