(* ===== verification/Errors.thy ===== *)
theory Errors
  imports Prelude
begin

text \<open>
  The failure vocabulary shared by the components (\<open>shared/error.rs\<close>): the errors of the ports
  (\<open>PortError\<close>), the closed set of request rejection codes that crosses the process boundary
  (\<open>ApiErrorCode\<close>), its wire names, and the retry policy derived from a code.
\<close>

section \<open>Port errors\<close>

datatype port_error =
    BackendUnavailable string
  | CasConflict string string
  | NotFound string
  | TokenInvalid
  | ProviderTimeout string
  | ArtifactExpired
  | QuotaExceeded string
  | IdempotencyConflict
  | StaleClaim
  | PlanAlreadyConsumed string
  | UnsupportedVersion string

fun port_error_display :: "port_error \<Rightarrow> string" where
  "port_error_display (BackendUnavailable m) = ''backend unavailable: '' @ m"
| "port_error_display (CasConflict entity i) = ''compare-and-set conflict on '' @ entity @ '' '' @ i"
| "port_error_display (NotFound m) = ''not found: '' @ m"
| "port_error_display TokenInvalid = ''token verification failed''"
| "port_error_display (ProviderTimeout m) = ''provider timeout: '' @ m"
| "port_error_display ArtifactExpired = ''artifact expired''"
| "port_error_display (QuotaExceeded m) = ''quota exceeded: '' @ m"
| "port_error_display IdempotencyConflict = ''idempotency conflict: same key, different request payload''"
| "port_error_display StaleClaim = ''stale or expired claim: write rejected''"
| "port_error_display (PlanAlreadyConsumed m) = ''plan already consumed by an apply job: '' @ m"
| "port_error_display (UnsupportedVersion m) = ''unsupported version: '' @ m"

definition is_transient :: "port_error \<Rightarrow> bool" where
  "is_transient e =
     (case e of BackendUnavailable _ \<Rightarrow> True | ProviderTimeout _ \<Rightarrow> True | CasConflict _ _ \<Rightarrow> True | _ \<Rightarrow> False)"

section \<open>Request rejection codes\<close>

datatype api_error_code =
    ApiInvalidArgument
  | ApiTargetRequired
  | ApiTargetConflict
  | ApiTargetUnsupported
  | ApiSessionNotFound
  | ApiSessionLost
  | ApiRuntimeEpochMismatch
  | ApiContextConflict
  | ApiPermissionDenied
  | ApiResourceBusy
  | ApiQueueFull
  | ApiTransactionResolutionRequired
  | ApiCapabilityUnsupported
  | ApiUnsupportedPlan
  | ApiEndpointOverlap
  | ApiSessionQuotaExceeded
  | ApiIdempotencyExpired
  | ApiRollbackFailed
  | ApiCleanupFailed
  | ApiOutcomeUnknown
  | ApiPlanStale
  | ApiSourceChanged
  | ApiTargetConflictRows
  | ApiIdempotencyConflict
  | ApiUnauthenticated
  | ApiNotFound
  | ApiPayloadTooLarge
  | ApiQuotaExceeded
  | ApiRateLimited
  | ApiServiceUnavailable
  | ApiConfigRevisionMismatch

fun code_str :: "api_error_code \<Rightarrow> string" where
  "code_str ApiInvalidArgument = ''invalidArgument''"
| "code_str ApiTargetRequired = ''targetRequired''"
| "code_str ApiTargetConflict = ''targetConflict''"
| "code_str ApiTargetUnsupported = ''targetUnsupported''"
| "code_str ApiSessionNotFound = ''sessionNotFound''"
| "code_str ApiSessionLost = ''sessionLost''"
| "code_str ApiRuntimeEpochMismatch = ''runtimeEpochMismatch''"
| "code_str ApiContextConflict = ''contextConflict''"
| "code_str ApiPermissionDenied = ''permissionDenied''"
| "code_str ApiResourceBusy = ''resourceBusy''"
| "code_str ApiQueueFull = ''queueFull''"
| "code_str ApiTransactionResolutionRequired = ''transactionResolutionRequired''"
| "code_str ApiCapabilityUnsupported = ''capabilityUnsupported''"
| "code_str ApiUnsupportedPlan = ''unsupportedPlan''"
| "code_str ApiEndpointOverlap = ''endpointOverlap''"
| "code_str ApiSessionQuotaExceeded = ''sessionQuotaExceeded''"
| "code_str ApiIdempotencyExpired = ''idempotencyExpired''"
| "code_str ApiRollbackFailed = ''rollbackFailed''"
| "code_str ApiCleanupFailed = ''cleanupFailed''"
| "code_str ApiOutcomeUnknown = ''outcomeUnknown''"
| "code_str ApiPlanStale = ''planStale''"
| "code_str ApiSourceChanged = ''sourceChanged''"
| "code_str ApiTargetConflictRows = ''targetConflictRows''"
| "code_str ApiIdempotencyConflict = ''idempotencyConflict''"
| "code_str ApiUnauthenticated = ''unauthenticated''"
| "code_str ApiNotFound = ''notFound''"
| "code_str ApiPayloadTooLarge = ''payloadTooLarge''"
| "code_str ApiQuotaExceeded = ''quotaExceeded''"
| "code_str ApiRateLimited = ''rateLimited''"
| "code_str ApiServiceUnavailable = ''serviceUnavailable''"
| "code_str ApiConfigRevisionMismatch = ''configRevisionMismatch''"

definition is_pre_dispatch_rejection :: "api_error_code \<Rightarrow> bool" where
  "is_pre_dispatch_rejection c \<longleftrightarrow>
     c \<notin> {ApiRollbackFailed, ApiCleanupFailed, ApiOutcomeUnknown, ApiTargetConflictRows, ApiSourceChanged, ApiPlanStale}"

definition all_codes :: "api_error_code list" where
  "all_codes =
     [ApiInvalidArgument, ApiTargetRequired, ApiTargetConflict,
      ApiTargetUnsupported, ApiSessionNotFound, ApiSessionLost,
      ApiRuntimeEpochMismatch, ApiContextConflict, ApiPermissionDenied,
      ApiResourceBusy, ApiQueueFull, ApiTransactionResolutionRequired,
      ApiCapabilityUnsupported, ApiUnsupportedPlan, ApiEndpointOverlap,
      ApiSessionQuotaExceeded, ApiIdempotencyExpired, ApiRollbackFailed,
      ApiCleanupFailed, ApiOutcomeUnknown, ApiPlanStale,
      ApiSourceChanged, ApiTargetConflictRows, ApiIdempotencyConflict,
      ApiUnauthenticated, ApiNotFound, ApiPayloadTooLarge,
      ApiQuotaExceeded, ApiRateLimited, ApiServiceUnavailable,
      ApiConfigRevisionMismatch]"

datatype retry_disposition = RetryNever | RetrySafeRead | RetryCheckExecution

definition retry_disposition_of :: "api_error_code \<Rightarrow> retry_disposition" where
  "retry_disposition_of c =
     (if c = ApiOutcomeUnknown \<or> c = ApiIdempotencyExpired then RetryCheckExecution
      else if c = ApiNotFound \<or> c = ApiSessionNotFound then RetrySafeRead
      else RetryNever)"

record api_error =
  ae_code :: api_error_code
  ae_message :: string
  ae_request_id :: "string option"
  ae_retry :: retry_disposition

definition api_error_new :: "api_error_code \<Rightarrow> string \<Rightarrow> api_error" where
  "api_error_new c m = \<lparr>ae_code = c, ae_message = m, ae_request_id = None, ae_retry = retry_disposition_of c\<rparr>"

definition api_is_not_found :: "api_error \<Rightarrow> bool" where
  "api_is_not_found e \<longleftrightarrow> ae_code e = ApiNotFound \<or> ae_code e = ApiSessionNotFound"

definition may_retry_without_checking :: "api_error \<Rightarrow> bool" where
  "may_retry_without_checking e \<longleftrightarrow> ae_retry e = RetrySafeRead"

lemma all_codes_complete: "c \<in> set all_codes"
  by (cases c) (simp_all add: all_codes_def)

lemma codes_distinct: "distinct (map code_str all_codes)"
  by code_simp

text \<open>
  The rejection codes form a closed vocabulary: the list of all codes is complete and has no
  duplicate, and no two codes share a wire name, so a peer can read a code back from its name.
\<close>

theorem wire_codes_unambiguous:
  "distinct all_codes \<and> set all_codes = UNIV \<and> inj code_str"
proof -
  have "distinct all_codes" using codes_distinct by (simp add: distinct_map)
  moreover have u: "set all_codes = UNIV" using all_codes_complete by auto
  moreover have "inj code_str" using codes_distinct by (simp add: distinct_map u)
  ultimately show ?thesis by blast
qed

end
