(* ===== verification/Budget_Quota.thy ===== *)
theory Budget_Quota
  imports Prelude
begin

text \<open>
  Resource classes, the quota of one database service, the budget configuration and the per-class
  buckets: \<open>execution/application/budget/dimension.rs\<close>, \<open>execution/runtime/budget/quotas.rs\<close> and
  \<open>execution/runtime/budget/classes.rs\<close>. Arrays of length 4 that the code indexes with
  \<open>ResourceClass::index\<close> are functions from the class.
\<close>

section \<open>Resource classes\<close>

datatype resource_class = Control | Interactive | Metadata | Job

definition all_classes :: "resource_class list" where
  "all_classes = [Control, Interactive, Metadata, Job]"

fun class_index :: "resource_class \<Rightarrow> nat" where
  "class_index Control = 0"
| "class_index Interactive = 1"
| "class_index Metadata = 2"
| "class_index Job = 3"

definition is_control :: "resource_class \<Rightarrow> bool" where
  "is_control c \<longleftrightarrow> c = Control"

definition may_join_shared :: "resource_class \<Rightarrow> bool" where
  "may_join_shared c \<longleftrightarrow> c \<noteq> Control"

fun shared_weight :: "resource_class \<Rightarrow> nat option" where
  "shared_weight Control = None"
| "shared_weight Interactive = Some 4"
| "shared_weight Metadata = Some 2"
| "shared_weight Job = Some 1"

definition may_borrow_reserved :: "resource_class \<Rightarrow> bool" where
  "may_borrow_reserved c \<longleftrightarrow> False"

definition shared_members :: "resource_class list" where
  "shared_members = [Interactive, Metadata, Job]"

lemma all_classes_complete: "c \<in> set all_classes"
  by (cases c) (simp_all add: all_classes_def)

lemma class_index_inject: "class_index a = class_index b \<longleftrightarrow> a = b"
  by (cases a; cases b) simp_all

lemma shared_members_iff: "c \<in> set shared_members \<longleftrightarrow> may_join_shared c"
  by (cases c) (simp_all add: shared_members_def may_join_shared_def)

lemma forall_class: "(\<forall>c. P c) \<longleftrightarrow> P Control \<and> P Interactive \<and> P Metadata \<and> P Job"
  by (metis resource_class.exhaust)

text \<open>The classes are a finite enumeration, so functions from a class are executable and comparable.\<close>

instantiation resource_class :: enum
begin

definition enum_resource_class :: "resource_class list" where
  "enum_resource_class = all_classes"

definition enum_all_resource_class :: "(resource_class \<Rightarrow> bool) \<Rightarrow> bool" where
  "enum_all_resource_class P \<longleftrightarrow> P Control \<and> P Interactive \<and> P Metadata \<and> P Job"

definition enum_ex_resource_class :: "(resource_class \<Rightarrow> bool) \<Rightarrow> bool" where
  "enum_ex_resource_class P \<longleftrightarrow> P Control \<or> P Interactive \<or> P Metadata \<or> P Job"

instance proof
  show "(UNIV :: resource_class set) = set enum_class.enum"
    using all_classes_complete by (auto simp: enum_resource_class_def)
  show "distinct (enum_class.enum :: resource_class list)"
    by (simp add: enum_resource_class_def all_classes_def)
  show "enum_class.enum_all P \<longleftrightarrow> Ball UNIV P" for P :: "resource_class \<Rightarrow> bool"
    using forall_class [of P] by (simp add: enum_all_resource_class_def)
  show "enum_class.enum_ex P \<longleftrightarrow> Bex UNIV P" for P :: "resource_class \<Rightarrow> bool"
    using forall_class [of "\<lambda>c. \<not> P c"] by (auto simp: enum_ex_resource_class_def)
qed

end

type_synonym 'a per_class = "resource_class \<Rightarrow> 'a"

fun arr4 :: "'a \<Rightarrow> 'a \<Rightarrow> 'a \<Rightarrow> 'a \<Rightarrow> 'a per_class" where
  "arr4 a b c d Control = a"
| "arr4 a b c d Interactive = b"
| "arr4 a b c d Metadata = c"
| "arr4 a b c d Job = d"

text \<open>The saturating sum of a four-element array, \<open>iter().fold(0, saturating_add)\<close>.\<close>

definition sat_sum4 :: "nat per_class \<Rightarrow> nat" where
  "sat_sum4 r = foldl (\<lambda>acc c. sat_add32 acc (r c)) 0 all_classes"

definition sum4 :: "nat per_class \<Rightarrow> nat" where
  "sum4 r = r Control + r Interactive + r Metadata + r Job"

lemma sat_sum4_eq: "sat_sum4 r = min (sum4 r) u32_max"
  by (simp add: sat_sum4_def sum4_def all_classes_def sat_add32_def)

section \<open>The quota of one database service\<close>

record service_quota =
  q_total :: nat
  q_reserved :: "nat per_class"
  q_shared :: nat

datatype quota_config_error = QuotaReservedExceedsTotal nat nat

definition quota_new :: "nat \<Rightarrow> nat per_class \<Rightarrow> quota_config_error + service_quota" where
  "quota_new tot reserved =
     (let reserved_sum = sat_sum4 reserved
      in if reserved_sum > tot then Inl (QuotaReservedExceedsTotal tot reserved_sum)
         else Inr \<lparr>q_total = tot, q_reserved = reserved, q_shared = tot - reserved_sum\<rparr>)"

definition reserved_of :: "service_quota \<Rightarrow> resource_class \<Rightarrow> nat" where
  "reserved_of q c = q_reserved q c"

definition capacity_of :: "service_quota \<Rightarrow> resource_class \<Rightarrow> nat" where
  "capacity_of q c =
     (let shared = (if may_join_shared c then q_shared q else 0)
      in sat_add32 (reserved_of q c) shared)"

text \<open>A quota is consistent when its reserved parts and its shared part add up to the total.\<close>

definition quota_ok :: "service_quota \<Rightarrow> bool" where
  "quota_ok q \<longleftrightarrow> sum4 (q_reserved q) + q_shared q = q_total q \<and> q_total q \<le> u32_max"

lemma quota_new_ok:
  assumes "quota_new tot reserved = Inr q" "tot < u32_max"
  shows "quota_ok q" and "q_total q = tot" and "q_reserved q = reserved"
  using assms
  by (auto simp: quota_new_def quota_ok_def sat_sum4_eq Let_def split: if_splits)

lemma capacity_le_total: "quota_ok q \<Longrightarrow> capacity_of q c \<le> q_total q"
  by (cases c)
    (auto simp: capacity_of_def quota_ok_def reserved_of_def sum4_def sat_add32_def Let_def)

lemma capacity_exact:
  "quota_ok q \<Longrightarrow> capacity_of q c = q_reserved q c + (if may_join_shared c then q_shared q else 0)"
  by (cases c)
    (auto simp: capacity_of_def quota_ok_def reserved_of_def sum4_def sat_add32_def Let_def)

section \<open>The budget configuration\<close>

record budget_config =
  service_quota :: service_quota
  service_physical_connections :: nat
  per_user_logical_sessions :: nat
  per_org_logical_sessions :: nat
  per_user_connected_editors :: nat
  queue_cap_per_class_per_service :: nat
  queue_cap_per_user :: nat
  acquire_timeout_ms :: nat
  node_lease_ttl_ms :: nat
  job_max_concurrent_stages :: nat

text \<open>
  \<open>PanicSubtractOverflow\<close> is not an error value of the code: it stands for the \<open>u32\<close> subtraction
  in \<open>validate\<close> that underflows (a panic in a checked build) when \<open>shared\<close> exceeds \<open>total\<close>.
\<close>

datatype budget_config_error =
    ReservedExceedsTotal nat nat
  | MustBePositive string nat
  | PanicSubtractOverflow

definition config_new :: "service_quota \<Rightarrow> budget_config" where
  "config_new q =
     \<lparr>service_quota = q,
      service_physical_connections = q_total q,
      per_user_logical_sessions = 100,
      per_org_logical_sessions = 1000,
      per_user_connected_editors = 5,
      queue_cap_per_class_per_service = 32,
      queue_cap_per_user = 32,
      acquire_timeout_ms = 10000,
      node_lease_ttl_ms = 30000,
      job_max_concurrent_stages = 4\<rparr>"

definition config_from_parts :: "nat \<Rightarrow> nat per_class \<Rightarrow> budget_config" where
  "config_from_parts tot reserved =
     (let reserved_sum = sat_sum4 reserved;
          effective_total = (if reserved_sum > tot then reserved_sum else tot);
          quota = (case quota_new effective_total reserved of
                     Inr quota \<Rightarrow> quota
                   | Inl _ \<Rightarrow> \<lparr>q_total = reserved_sum, q_reserved = reserved, q_shared = 0\<rparr>)
      in config_new quota)"

definition team_default :: budget_config where
  "team_default = config_from_parts 20 (arr4 2 2 1 0)"

definition local_default :: budget_config where
  "local_default = config_from_parts 16 (arr4 1 2 1 0)"

text \<open>The builder methods.\<close>

definition with_physical_connections :: "nat \<Rightarrow> budget_config \<Rightarrow> budget_config" where
  "with_physical_connections v c = c\<lparr>service_physical_connections := v\<rparr>"

definition with_per_user_logical_sessions :: "nat \<Rightarrow> budget_config \<Rightarrow> budget_config" where
  "with_per_user_logical_sessions v c = c\<lparr>per_user_logical_sessions := v\<rparr>"

definition with_per_org_logical_sessions :: "nat \<Rightarrow> budget_config \<Rightarrow> budget_config" where
  "with_per_org_logical_sessions v c = c\<lparr>per_org_logical_sessions := v\<rparr>"

definition with_per_user_connected_editors :: "nat \<Rightarrow> budget_config \<Rightarrow> budget_config" where
  "with_per_user_connected_editors v c = c\<lparr>per_user_connected_editors := v\<rparr>"

definition with_queue_cap_per_class_per_service :: "nat \<Rightarrow> budget_config \<Rightarrow> budget_config" where
  "with_queue_cap_per_class_per_service v c = c\<lparr>queue_cap_per_class_per_service := v\<rparr>"

definition with_queue_cap_per_user :: "nat \<Rightarrow> budget_config \<Rightarrow> budget_config" where
  "with_queue_cap_per_user v c = c\<lparr>queue_cap_per_user := v\<rparr>"

definition with_acquire_timeout_ms :: "nat \<Rightarrow> budget_config \<Rightarrow> budget_config" where
  "with_acquire_timeout_ms v c = c\<lparr>acquire_timeout_ms := v\<rparr>"

definition with_node_lease_ttl_ms :: "nat \<Rightarrow> budget_config \<Rightarrow> budget_config" where
  "with_node_lease_ttl_ms v c = c\<lparr>node_lease_ttl_ms := v\<rparr>"

text \<open>The loop over named fields stops at the first field that is 0.\<close>

fun first_zero :: "(string \<times> nat) list \<Rightarrow> budget_config_error option" where
  "first_zero [] = None"
| "first_zero ((field, value) # rest) =
     (if value = 0 then Some (MustBePositive field value) else first_zero rest)"

definition positive_fields :: "budget_config \<Rightarrow> (string \<times> nat) list" where
  "positive_fields c =
     [(''service_physical_connections'', service_physical_connections c),
      (''per_user_logical_sessions'', per_user_logical_sessions c),
      (''per_org_logical_sessions'', per_org_logical_sessions c),
      (''per_user_connected_editors'', per_user_connected_editors c),
      (''queue_cap_per_class_per_service'', queue_cap_per_class_per_service c),
      (''queue_cap_per_user'', queue_cap_per_user c),
      (''job_max_concurrent_stages'', job_max_concurrent_stages c)]"

definition config_validate :: "budget_config \<Rightarrow> budget_config_error + unit" where
  "config_validate c =
     (let q = service_quota c; reserved_sum = sat_sum4 (q_reserved q)
      in if reserved_sum > q_total q then Inl (ReservedExceedsTotal (q_total q) reserved_sum)
         else if q_shared q \<noteq> q_total q - reserved_sum then
           (if q_shared q > q_total q then Inl PanicSubtractOverflow
            else Inl (ReservedExceedsTotal (q_total q) (q_total q - q_shared q)))
         else case first_zero (positive_fields c) of
                Some e \<Rightarrow> Inl e
              | None \<Rightarrow>
                  if acquire_timeout_ms c = 0 then Inl (MustBePositive ''acquire_timeout_ms'' 0)
                  else if node_lease_ttl_ms c = 0 then Inl (MustBePositive ''node_lease_ttl_ms'' 0)
                  else Inr ())"

definition config_capacity_of :: "budget_config \<Rightarrow> resource_class \<Rightarrow> nat" where
  "config_capacity_of c = capacity_of (service_quota c)"

lemma from_parts_quota:
  "service_quota (config_from_parts tot reserved) =
     \<lparr>q_total = max tot (sat_sum4 reserved), q_reserved = reserved,
      q_shared = tot - sat_sum4 reserved\<rparr>"
  by (auto simp: config_from_parts_def quota_new_def config_new_def Let_def max_def)

lemma from_parts_quota_ok:
  assumes "sum4 reserved \<le> u32_max" "tot \<le> u32_max"
  shows "quota_ok (service_quota (config_from_parts tot reserved))"
  using assms by (simp add: from_parts_quota quota_ok_def sat_sum4_eq max_def)

text \<open>What a positive verdict of \<open>validate\<close> establishes.\<close>

lemma validate_InrD:
  assumes "config_validate c = Inr ()"
  shows "sat_sum4 (q_reserved (service_quota c)) \<le> q_total (service_quota c)"
    and "q_shared (service_quota c) = q_total (service_quota c) - sat_sum4 (q_reserved (service_quota c))"
    and "0 < service_physical_connections c" and "0 < per_user_logical_sessions c"
    and "0 < per_org_logical_sessions c" and "0 < per_user_connected_editors c"
    and "0 < queue_cap_per_class_per_service c" and "0 < queue_cap_per_user c"
    and "0 < job_max_concurrent_stages c"
    and "0 < acquire_timeout_ms c" and "0 < node_lease_ttl_ms c"
  using assms
  by (auto simp: config_validate_def positive_fields_def Let_def split: if_splits option.splits)

section \<open>Per-class buckets\<close>

datatype slot_kind = Reserved | Shared

record class_bucket =
  reserved_in_use :: nat
  shared_in_use :: nat
  served :: nat

definition bucket_default :: class_bucket where
  "bucket_default = \<lparr>reserved_in_use = 0, shared_in_use = 0, served = 0\<rparr>"

definition bucket_reserved_headroom :: "class_bucket \<Rightarrow> service_quota \<Rightarrow> resource_class \<Rightarrow> nat" where
  "bucket_reserved_headroom b q c = reserved_of q c - reserved_in_use b"

definition bucket_occupy :: "slot_kind \<Rightarrow> class_bucket \<Rightarrow> class_bucket" where
  "bucket_occupy slot b =
     (let b' = (case slot of
                  Reserved \<Rightarrow> b\<lparr>reserved_in_use := sat_add32 (reserved_in_use b) 1\<rparr>
                | Shared \<Rightarrow> b\<lparr>shared_in_use := sat_add32 (shared_in_use b) 1\<rparr>)
      in b'\<lparr>served := sat_add64 (served b) 1\<rparr>)"

definition bucket_release :: "slot_kind \<Rightarrow> class_bucket \<Rightarrow> class_bucket" where
  "bucket_release slot b =
     (case slot of
        Reserved \<Rightarrow> b\<lparr>reserved_in_use := reserved_in_use b - 1\<rparr>
      | Shared \<Rightarrow> b\<lparr>shared_in_use := shared_in_use b - 1\<rparr>)"

text \<open>The occupancy of a bucket by slot kind; it lets a proof treat both counters alike.\<close>

definition in_use :: "slot_kind \<Rightarrow> class_bucket \<Rightarrow> nat" where
  "in_use s b = (case s of Reserved \<Rightarrow> reserved_in_use b | Shared \<Rightarrow> shared_in_use b)"

lemma in_use_default [simp]: "in_use s bucket_default = 0"
  by (cases s) (simp_all add: in_use_def bucket_default_def)

lemma in_use_occupy:
  "in_use s b < u32_max \<Longrightarrow> in_use s (bucket_occupy t b) = in_use s b + (if s = t then 1 else 0)"
  by (cases s; cases t) (simp_all add: in_use_def bucket_occupy_def sat_add32_def)

lemma in_use_occupy_other: "s \<noteq> t \<Longrightarrow> in_use s (bucket_occupy t b) = in_use s b"
  by (cases s; cases t) (simp_all add: in_use_def bucket_occupy_def)

lemma in_use_release: "in_use s (bucket_release t b) = in_use s b - (if s = t then 1 else 0)"
  by (cases s; cases t) (simp_all add: in_use_def bucket_release_def)

lemma occupy_release:
  "in_use s b < u32_max \<Longrightarrow> bucket_release s (bucket_occupy s b) = b\<lparr>served := sat_add64 (served b) 1\<rparr>"
  by (cases s) (simp_all add: in_use_def bucket_occupy_def bucket_release_def sat_add32_def)

end
