(* ===== verification/Budget_Queue.thy ===== *)
theory Budget_Queue
  imports Budget_Quota "HOL-Library.Multiset"
begin

text \<open>
  The waiting queue of one resource class (\<open>execution/runtime/budget/queues.rs\<close>): a ring of lanes,
  one per principal, each lane FIFO. The interface locale \<open>waiter_queue\<close> is what the ledger relies
  on; the ring is shown to implement it. The second half is the smooth weighted round robin that
  picks the class to serve from the shared pool, with its exact starvation bounds.
\<close>

section \<open>Waiters, lanes and the class queue\<close>

record waiter =
  w_id :: nat
  w_org :: string
  w_conn :: string
  w_principal :: string
  w_class :: resource_class
  w_slots :: nat
  w_enqueued_at :: nat
  w_deadline :: nat

definition expired_at :: "nat \<Rightarrow> waiter \<Rightarrow> bool" where
  "expired_at now w \<longleftrightarrow> now \<ge> w_deadline w"

definition alive_at :: "nat \<Rightarrow> waiter \<Rightarrow> bool" where
  "alive_at now w \<longleftrightarrow> \<not> expired_at now w"

record lane =
  lane_principal :: string
  lane_waiters :: "waiter list"

record class_queue =
  lanes :: "lane list"
  depth :: nat

definition cq_empty :: class_queue where
  "cq_empty = \<lparr>lanes = [], depth = 0\<rparr>"

fun push_lane :: "waiter \<Rightarrow> lane list \<Rightarrow> lane list" where
  "push_lane w [] = [\<lparr>lane_principal = w_principal w, lane_waiters = [w]\<rparr>]"
| "push_lane w (l # ls) =
     (if lane_principal l = w_principal w then l\<lparr>lane_waiters := lane_waiters l @ [w]\<rparr> # ls
      else l # push_lane w ls)"

definition cq_push :: "waiter \<Rightarrow> class_queue \<Rightarrow> class_queue" where
  "cq_push w q = \<lparr>lanes = push_lane w (lanes q), depth = sat_add64 (depth q) 1\<rparr>"

text \<open>
  \<open>pop\<close> drops empty lanes from the front, takes the head of the first lane that has one and rotates
  that lane to the back while it still holds waiters.
\<close>

fun pop_lanes :: "lane list \<Rightarrow> (waiter \<times> lane list) option" where
  "pop_lanes [] = None"
| "pop_lanes (l # ls) =
     (case lane_waiters l of
        [] \<Rightarrow> pop_lanes ls
      | w # ws \<Rightarrow> Some (w, if ws = [] then ls else ls @ [l\<lparr>lane_waiters := ws\<rparr>]))"

definition cq_pop :: "class_queue \<Rightarrow> waiter option \<times> class_queue" where
  "cq_pop q =
     (case pop_lanes (lanes q) of
        None \<Rightarrow> (None, q\<lparr>lanes := []\<rparr>)
      | Some (w, ls) \<Rightarrow> (Some w, \<lparr>lanes = ls, depth = depth q - 1\<rparr>))"

definition cq_cancel :: "nat \<Rightarrow> class_queue \<Rightarrow> waiter option \<times> class_queue" where
  "cq_cancel i q =
     (case find_index (\<lambda>l. \<exists>w \<in> set (lane_waiters l). w_id w = i) (lanes q) of
        None \<Rightarrow> (None, q)
      | Some k \<Rightarrow>
          (let l = lanes q ! k
           in case find_index (\<lambda>w. w_id w = i) (lane_waiters l) of
                None \<Rightarrow> (None, q)
              | Some p \<Rightarrow>
                  (let removed = lane_waiters l ! p;
                       l' = l\<lparr>lane_waiters := remove_at p (lane_waiters l)\<rparr>;
                       ls = (if lane_waiters l' = [] then remove_at k (lanes q)
                             else (lanes q)[k := l'])
                   in (Some removed, \<lparr>lanes = ls, depth = depth q - 1\<rparr>))))"

fun expire_lanes :: "nat \<Rightarrow> lane list \<Rightarrow> waiter list \<times> lane list" where
  "expire_lanes now [] = ([], [])"
| "expire_lanes now (l # ls) =
     (let (gone, kept) = expire_lanes now ls;
          stay = filter (\<lambda>w. \<not> expired_at now w) (lane_waiters l);
          out = filter (expired_at now) (lane_waiters l)
      in (out @ gone, if stay = [] then kept else l\<lparr>lane_waiters := stay\<rparr> # kept))"

definition cq_expire :: "nat \<Rightarrow> class_queue \<Rightarrow> waiter list \<times> class_queue" where
  "cq_expire now q =
     (let (expired, ls) = expire_lanes now (lanes q)
      in (expired, \<lparr>lanes = ls, depth = depth q - length expired\<rparr>))"

definition depth_for :: "string \<Rightarrow> class_queue \<Rightarrow> nat" where
  "depth_for p q =
     (case find (\<lambda>l. lane_principal l = p) (lanes q) of None \<Rightarrow> 0 | Some l \<Rightarrow> length (lane_waiters l))"

definition cq_is_empty :: "class_queue \<Rightarrow> bool" where
  "cq_is_empty q \<longleftrightarrow> depth q = 0"

definition next_principal :: "class_queue \<Rightarrow> string option" where
  "next_principal q = (case lanes q of [] \<Rightarrow> None | l # _ \<Rightarrow> Some (lane_principal l))"

definition snapshot_waiters :: "class_queue \<Rightarrow> waiter list" where
  "snapshot_waiters q = concat (map lane_waiters (lanes q))"

definition earliest_deadline :: "class_queue \<Rightarrow> nat option" where
  "earliest_deadline q = first_min id (map w_deadline (snapshot_waiters q))"

section \<open>The contract of a waiting queue\<close>

locale waiter_queue =
  fixes push :: "waiter \<Rightarrow> 'q \<Rightarrow> 'q"
    and pop :: "'q \<Rightarrow> waiter option \<times> 'q"
    and cancel :: "nat \<Rightarrow> 'q \<Rightarrow> waiter option \<times> 'q"
    and expire :: "nat \<Rightarrow> 'q \<Rightarrow> waiter list \<times> 'q"
    and size_of :: "'q \<Rightarrow> nat"
    and content :: "'q \<Rightarrow> waiter multiset"
    and inv :: "'q \<Rightarrow> bool"
  assumes size_content: "inv q \<Longrightarrow> size_of q = size (content q)"
    and inv_push: "inv q \<Longrightarrow> size_of q < u64_max \<Longrightarrow> inv (push w q)"
    and content_push: "content (push w q) = add_mset w (content q)"
    and inv_pop: "inv q \<Longrightarrow> inv (snd (pop q))"
    and pop_None: "fst (pop q) = None \<Longrightarrow> content q = {#} \<and> content (snd (pop q)) = {#}"
    and pop_Some: "fst (pop q) = Some w \<Longrightarrow> content q = add_mset w (content (snd (pop q)))"
    and inv_cancel: "inv q \<Longrightarrow> inv (snd (cancel i q))"
    and cancel_None: "fst (cancel i q) = None \<Longrightarrow> snd (cancel i q) = q \<and> (\<forall>w \<in># content q. w_id w \<noteq> i)"
    and cancel_Some: "fst (cancel i q) = Some w \<Longrightarrow>
      w_id w = i \<and> content q = add_mset w (content (snd (cancel i q)))"
    and inv_expire: "inv q \<Longrightarrow> inv (snd (expire now q))"
    and expire_out: "mset (fst (expire now q)) = filter_mset (expired_at now) (content q)"
    and expire_kept: "content (snd (expire now q)) = filter_mset (\<lambda>w. \<not> expired_at now w) (content q)"
begin

lemma pop_if_nonempty: "inv q \<Longrightarrow> size_of q \<noteq> 0 \<Longrightarrow> \<exists>w. fst (pop q) = Some w"
  using pop_None size_content by fastforce

lemma pop_size: "inv q \<Longrightarrow> fst (pop q) = Some w \<Longrightarrow> size_of q = Suc (size_of (snd (pop q)))"
  by (simp add: size_content inv_pop pop_Some)

lemma pop_content_size: "fst (pop q) = Some w \<Longrightarrow> size (content (snd (pop q))) < size (content q)"
  by (simp add: pop_Some)

lemma pop_in: "fst (pop q) = Some w \<Longrightarrow> w \<in># content q"
  by (simp add: pop_Some)

lemma pop_subset: "content (snd (pop q)) \<subseteq># content q"
  by (cases "fst (pop q)") (auto simp: pop_Some dest: pop_None pop_Some)

lemma cancel_size: "inv q \<Longrightarrow> fst (cancel i q) = Some w \<Longrightarrow> size_of q = Suc (size_of (snd (cancel i q)))"
  by (simp add: size_content inv_cancel cancel_Some)

lemma expire_no_expired: "w \<in># content (snd (expire now q)) \<Longrightarrow> \<not> expired_at now w"
  by (simp add: expire_kept)

lemma expire_partition: "content q = mset (fst (expire now q)) + content (snd (expire now q))"
  by (simp add: expire_out expire_kept multiset_partition [symmetric])

end

text \<open>
  The representation invariant of the ring: no empty lane, one lane per principal, every waiter in
  its own principal's lane, and the cached depth is the number of waiters.
\<close>

definition ring_ok :: "lane list \<Rightarrow> bool" where
  "ring_ok ls \<longleftrightarrow> (\<forall>l \<in> set ls. lane_waiters l \<noteq> [] \<and> (\<forall>w \<in> set (lane_waiters l). w_principal w = lane_principal l))
     \<and> distinct (map lane_principal ls)"

definition cq_inv :: "class_queue \<Rightarrow> bool" where
  "cq_inv q \<longleftrightarrow> ring_ok (lanes q) \<and> depth q = length (snapshot_waiters q)"

definition cq_content :: "class_queue \<Rightarrow> waiter multiset" where
  "cq_content q = mset (snapshot_waiters q)"

lemma principals_push:
  "map lane_principal (push_lane w ls) =
     map lane_principal ls @ (if w_principal w \<in> lane_principal ` set ls then [] else [w_principal w])"
  by (induction ls) auto

lemma ring_ok_push: "ring_ok ls \<Longrightarrow> ring_ok (push_lane w ls)"
proof -
  assume ok: "ring_ok ls"
  have "\<forall>l \<in> set (push_lane w ls). lane_waiters l \<noteq> [] \<and> (\<forall>w \<in> set (lane_waiters l). w_principal w = lane_principal l)"
    using ok unfolding ring_ok_def by (induction ls) auto
  moreover have "distinct (map lane_principal (push_lane w ls))"
    using ok by (auto simp: principals_push ring_ok_def)
  ultimately show ?thesis by (simp add: ring_ok_def)
qed

lemma mset_push_lane:
  "mset (concat (map lane_waiters (push_lane w ls))) = add_mset w (mset (concat (map lane_waiters ls)))"
  by (induction ls) auto

lemma pop_lanes_None: "pop_lanes ls = None \<longleftrightarrow> concat (map lane_waiters ls) = []"
  by (induction ls rule: pop_lanes.induct) (auto split: list.splits)

lemma pop_lanes_Some:
  "pop_lanes ls = Some (w, ls') \<Longrightarrow>
   mset (concat (map lane_waiters ls)) = add_mset w (mset (concat (map lane_waiters ls')))"
  by (induction ls rule: pop_lanes.induct) (auto split: list.splits if_splits)

lemma pop_lanes_front:
  "ring_ok (l # ls) \<Longrightarrow>
   pop_lanes (l # ls) = Some (hd (lane_waiters l),
     if tl (lane_waiters l) = [] then ls else ls @ [l\<lparr>lane_waiters := tl (lane_waiters l)\<rparr>])"
  by (cases "lane_waiters l") (auto simp: ring_ok_def)

lemma ring_ok_pop: "ring_ok ls \<Longrightarrow> pop_lanes ls = Some (w, ls') \<Longrightarrow> ring_ok ls'"
proof (cases ls)
  case (Cons l rest)
  assume ok: "ring_ok ls" and "pop_lanes ls = Some (w, ls')"
  then have "ls' = (if tl (lane_waiters l) = [] then rest
                    else rest @ [l\<lparr>lane_waiters := tl (lane_waiters l)\<rparr>])"
    using Cons by (simp add: pop_lanes_front del: pop_lanes.simps)
  with ok Cons show ?thesis
    by (cases "lane_waiters l") (auto simp: ring_ok_def)
qed auto

lemma expire_lanes_out: "fst (expire_lanes now ls) = filter (expired_at now) (concat (map lane_waiters ls))"
  by (induction ls) (auto simp: Let_def split: prod.splits)

lemma expire_lanes_kept:
  "concat (map lane_waiters (snd (expire_lanes now ls))) =
     filter (\<lambda>w. \<not> expired_at now w) (concat (map lane_waiters ls))"
  by (induction ls) (auto simp: Let_def split: prod.splits)

lemma expire_lanes_principals:
  "lane_principal ` set (snd (expire_lanes now ls)) \<subseteq> lane_principal ` set ls"
proof (induction ls)
  case (Cons l ls)
  then show ?case by (cases "expire_lanes now ls") (simp add: Let_def image_iff, blast)
qed simp

lemma ring_ok_Cons:
  "ring_ok (l # ls) \<longleftrightarrow> lane_waiters l \<noteq> [] \<and> (\<forall>w \<in> set (lane_waiters l). w_principal w = lane_principal l)
     \<and> lane_principal l \<notin> lane_principal ` set ls \<and> ring_ok ls"
  by (auto simp: ring_ok_def)

lemma ring_ok_expire: "ring_ok ls \<Longrightarrow> ring_ok (snd (expire_lanes now ls))"
proof (induction ls)
  case (Cons l ls)
  obtain gone kept where e: "expire_lanes now ls = (gone, kept)" by (cases "expire_lanes now ls")
  let ?stay = "filter (\<lambda>w. \<not> expired_at now w) (lane_waiters l)"
  have "ring_ok kept" and new: "lane_principal l \<notin> lane_principal ` set kept"
    using Cons expire_lanes_principals [of now ls] by (auto simp: ring_ok_Cons e)
  moreover have "\<forall>w \<in> set ?stay. w_principal w = lane_principal l"
    using Cons.prems by (simp add: ring_ok_Cons)
  ultimately show ?case by (cases "?stay = []") (simp_all add: e Let_def ring_ok_Cons)
qed simp

lemma mset_remove_at: "i < length xs \<Longrightarrow> add_mset (xs ! i) (mset (remove_at i xs)) = mset xs"
proof (induction xs arbitrary: i)
  case (Cons x xs)
  then show ?case by (cases i) (auto simp: add_mset_commute)
qed simp

lemma set_remove_at: "set (remove_at i xs) \<subseteq> set xs"
  by (auto simp: remove_at_def dest: in_set_takeD in_set_dropD)

lemma mset_concat_update:
  "k < length ls \<Longrightarrow>
   mset (concat (map f (ls[k := l]))) + mset (f (ls ! k)) = mset (concat (map f ls)) + mset (f l)"
proof (induction ls arbitrary: k)
  case (Cons a ls)
  then show ?case by (cases k) (auto simp: ac_simps)
qed simp

lemma mset_concat_remove_at:
  "k < length ls \<Longrightarrow> mset (concat (map f (remove_at k ls))) + mset (f (ls ! k)) = mset (concat (map f ls))"
proof (induction ls arbitrary: k)
  case (Cons a ls)
  then show ?case by (cases k) (auto simp: ac_simps)
qed simp

lemma cq_cancel_absent:
  "fst (cq_cancel i q) = None \<Longrightarrow> snd (cq_cancel i q) = q \<and> (\<forall>w \<in> set (snapshot_waiters q). w_id w \<noteq> i)"
  by (auto simp: cq_cancel_def snapshot_waiters_def Let_def find_index_None
      dest!: find_index_Some split: option.splits)

lemma cq_cancel_present:
  assumes "fst (cq_cancel i q) = Some w"
  obtains k p where "k < length (lanes q)" "p < length (lane_waiters (lanes q ! k))"
    "lane_waiters (lanes q ! k) ! p = w" "w_id w = i"
    "snd (cq_cancel i q) =
       (let l' = (lanes q ! k)\<lparr>lane_waiters := remove_at p (lane_waiters (lanes q ! k))\<rparr>
        in \<lparr>lanes = (if lane_waiters l' = [] then remove_at k (lanes q) else (lanes q)[k := l']),
            depth = depth q - 1\<rparr>)"
proof -
  from assms obtain k p where k: "find_index (\<lambda>l. \<exists>w \<in> set (lane_waiters l). w_id w = i) (lanes q) = Some k"
    and p: "find_index (\<lambda>w. w_id w = i) (lane_waiters (lanes q ! k)) = Some p"
    and w: "lane_waiters (lanes q ! k) ! p = w"
    by (auto simp: cq_cancel_def Let_def split: option.splits)
  show ?thesis
    using find_index_Some [OF k] find_index_Some [OF p] w
    by (intro that [of k p]) (auto simp: cq_cancel_def k p Let_def)
qed

lemma cq_cancel_content:
  assumes "fst (cq_cancel i q) = Some w"
  shows "w_id w = i" and "cq_content q = add_mset w (cq_content (snd (cq_cancel i q)))"
proof -
  from assms obtain k p where k: "k < length (lanes q)" and p: "p < length (lane_waiters (lanes q ! k))"
    and w: "lane_waiters (lanes q ! k) ! p = w" and id: "w_id w = i"
    and s: "snd (cq_cancel i q) =
       (let l' = (lanes q ! k)\<lparr>lane_waiters := remove_at p (lane_waiters (lanes q ! k))\<rparr>
        in \<lparr>lanes = (if lane_waiters l' = [] then remove_at k (lanes q) else (lanes q)[k := l']),
            depth = depth q - 1\<rparr>)"
    by (rule cq_cancel_present)
  show "w_id w = i" by (rule id)
  let ?l = "lanes q ! k"
  have lane: "mset (lane_waiters ?l) = add_mset w (mset (remove_at p (lane_waiters ?l)))"
    using mset_remove_at [OF p] w by simp
  show "cq_content q = add_mset w (cq_content (snd (cq_cancel i q)))"
  proof (cases "remove_at p (lane_waiters ?l) = []")
    case True
    then show ?thesis
      using mset_concat_remove_at [OF k, of lane_waiters] lane
      by (simp add: s Let_def cq_content_def snapshot_waiters_def)
  next
    case False
    then show ?thesis
      using mset_concat_update [OF k, of lane_waiters "?l\<lparr>lane_waiters := remove_at p (lane_waiters ?l)\<rparr>"] lane
      by (simp add: s Let_def cq_content_def snapshot_waiters_def)
  qed
qed

lemma ring_ok_remove_at: "ring_ok ls \<Longrightarrow> ring_ok (remove_at k ls)"
  using set_remove_at [of k ls]
  by (auto simp: ring_ok_def remove_at_def distinct_append simp flip: take_map drop_map
      dest: in_set_takeD in_set_dropD set_take_disj_set_drop_if_distinct [of _ k "Suc k"])

lemma ring_ok_update:
  assumes "ring_ok ls" "k < length ls" "ws \<noteq> []" "set ws \<subseteq> set (lane_waiters (ls ! k))"
  shows "ring_ok (ls[k := (ls ! k)\<lparr>lane_waiters := ws\<rparr>])"
proof -
  have "map lane_principal (ls[k := (ls ! k)\<lparr>lane_waiters := ws\<rparr>]) = map lane_principal ls"
    by (simp add: map_update) (metis assms(2) list_update_id map_update)
  moreover have "\<forall>w \<in> set ws. w_principal w = lane_principal (ls ! k)"
    using assms by (auto simp: ring_ok_def)
  ultimately show ?thesis
    using assms by (auto simp: ring_ok_def dest!: subsetD [OF set_update_subset_insert])
qed

lemma cq_inv_cancel: "cq_inv q \<Longrightarrow> cq_inv (snd (cq_cancel i q))"
proof (cases "fst (cq_cancel i q)")
  case None
  assume "cq_inv q"
  with cq_cancel_absent [OF None] show ?thesis by simp
next
  case (Some w)
  assume inv: "cq_inv q"
  from Some obtain k p where k: "k < length (lanes q)"
    and s: "snd (cq_cancel i q) =
       (let l' = (lanes q ! k)\<lparr>lane_waiters := remove_at p (lane_waiters (lanes q ! k))\<rparr>
        in \<lparr>lanes = (if lane_waiters l' = [] then remove_at k (lanes q) else (lanes q)[k := l']),
            depth = depth q - 1\<rparr>)"
    by (rule cq_cancel_present)
  have "ring_ok (lanes (snd (cq_cancel i q)))"
    using inv k by (auto simp: s Let_def cq_inv_def intro!: ring_ok_remove_at ring_ok_update
        dest: subsetD [OF set_remove_at])
  moreover have "depth (snd (cq_cancel i q)) = length (snapshot_waiters (snd (cq_cancel i q)))"
  proof -
    have "length (snapshot_waiters q) = Suc (length (snapshot_waiters (snd (cq_cancel i q))))"
      using arg_cong [OF cq_cancel_content(2) [OF Some], of size] by (simp add: cq_content_def)
    moreover have "depth (snd (cq_cancel i q)) = depth q - 1" by (simp add: s Let_def)
    ultimately show ?thesis using inv by (simp add: cq_inv_def)
  qed
  ultimately show ?thesis by (simp add: cq_inv_def)
qed

lemma cq_inv_push: "cq_inv q \<Longrightarrow> depth q < u64_max \<Longrightarrow> cq_inv (cq_push w q)"
  using arg_cong [OF mset_push_lane [of w "lanes q"], of size]
  by (simp add: cq_inv_def cq_push_def ring_ok_push snapshot_waiters_def sat_add64_def)

lemma cq_pop_Some:
  "fst (cq_pop q) = Some w \<Longrightarrow> cq_content q = add_mset w (cq_content (snd (cq_pop q)))"
  by (auto simp: cq_pop_def cq_content_def snapshot_waiters_def dest: pop_lanes_Some split: option.splits)

lemma cq_pop_None:
  assumes "fst (cq_pop q) = None"
  shows "cq_content q = {#} \<and> cq_content (snd (cq_pop q)) = {#}"
proof -
  from assms have none: "pop_lanes (lanes q) = None" by (auto simp: cq_pop_def split: option.splits)
  then have "concat (map lane_waiters (lanes q)) = []" by (rule pop_lanes_None [THEN iffD1])
  then show ?thesis by (simp add: cq_pop_def none cq_content_def snapshot_waiters_def)
qed

lemma cq_inv_pop: "cq_inv q \<Longrightarrow> cq_inv (snd (cq_pop q))"
proof (cases "pop_lanes (lanes q)")
  case None
  assume "cq_inv q"
  with None show ?thesis
    by (simp add: cq_pop_def cq_inv_def pop_lanes_None ring_ok_def snapshot_waiters_def)
next
  case (Some e)
  obtain w ls where e: "e = (w, ls)" by (cases e)
  assume inv: "cq_inv q"
  then have "length (snapshot_waiters q) = Suc (length (concat (map lane_waiters ls)))"
    using arg_cong [OF pop_lanes_Some [of "lanes q" w ls], of size] Some e
    by (simp add: snapshot_waiters_def)
  with inv Some e show ?thesis
    by (auto simp: cq_pop_def cq_inv_def snapshot_waiters_def intro: ring_ok_pop)
qed

lemma cq_expire_parts:
  "fst (cq_expire now q) = filter (expired_at now) (snapshot_waiters q)"
  "snapshot_waiters (snd (cq_expire now q)) = filter (\<lambda>w. \<not> expired_at now w) (snapshot_waiters q)"
  by (simp_all add: cq_expire_def snapshot_waiters_def Let_def expire_lanes_out [symmetric]
      expire_lanes_kept [symmetric] split: prod.splits)

lemma cq_inv_expire: "cq_inv q \<Longrightarrow> cq_inv (snd (cq_expire now q))"
proof -
  assume inv: "cq_inv q"
  have "ring_ok (lanes (snd (cq_expire now q)))"
    using ring_ok_expire [of "lanes q" now] inv
    by (cases "expire_lanes now (lanes q)") (simp add: cq_inv_def cq_expire_def)
  moreover have "depth (snd (cq_expire now q)) = depth q - length (fst (cq_expire now q))"
    by (simp add: cq_expire_def Let_def split: prod.splits)
  moreover have "length (snapshot_waiters q) = length (fst (cq_expire now q)) + length (snapshot_waiters (snd (cq_expire now q)))"
    using sum_length_filter_compl [of "expired_at now" "snapshot_waiters q"]
    by (simp add: cq_expire_parts)
  ultimately show ?thesis using inv by (simp add: cq_inv_def)
qed

text \<open>The ring of lanes provides the contract.\<close>

lemma cq_inv_size: "cq_inv q \<Longrightarrow> depth q = size (cq_content q)"
  by (simp add: cq_inv_def cq_content_def)

interpretation cq: waiter_queue cq_push cq_pop cq_cancel cq_expire depth cq_content cq_inv
proof unfold_locales
  fix q w
  show "cq_content (cq_push w q) = add_mset w (cq_content q)"
    by (simp add: cq_content_def snapshot_waiters_def cq_push_def mset_push_lane)
  show "fst (cq_pop q) = None \<Longrightarrow> cq_content q = {#} \<and> cq_content (snd (cq_pop q)) = {#}"
    by (rule cq_pop_None)
qed (auto simp: cq_content_def cq_expire_parts intro: cq_inv_push cq_inv_pop cq_inv_cancel cq_inv_expire
      dest: cq_cancel_absent cq_cancel_content cq_pop_Some cq_inv_size)

end
