(* ===== verification/Budget_Rotation.thy ===== *)
theory Budget_Rotation
  imports Budget_Queue
begin

text \<open>
  Fairness of the waiting queues (\<open>execution/runtime/budget/queues.rs\<close>). Inside a class, principals
  are served in ring order and each principal's waiters first in, first out. Between classes, the
  shared pool is handed out by \<open>SharedRoundRobin\<close>, a smooth weighted round robin with weights
  4 : 2 : 1; the credits it can reach are bounded, which gives the exact number of rounds a
  non-empty class can wait.
\<close>

section \<open>Rotation inside a class\<close>

text \<open>The waiters of one principal, in the order the queue holds them, and the ring of principals.\<close>

definition waiting_of :: "string \<Rightarrow> class_queue \<Rightarrow> waiter list" where
  "waiting_of p q = filter (\<lambda>w. w_principal w = p) (snapshot_waiters q)"

definition ring :: "class_queue \<Rightarrow> string list" where
  "ring q = map lane_principal (lanes q)"

lemma waiting_of_lanes:
  assumes "ring_ok ls"
  shows "filter (\<lambda>w. w_principal w = p) (concat (map lane_waiters ls)) =
         concat (map lane_waiters (filter (\<lambda>l. lane_principal l = p) ls))"
  using assms
proof (induction ls)
  case (Cons l ls)
  have "filter (\<lambda>w. w_principal w = p) (lane_waiters l) = (if lane_principal l = p then lane_waiters l else [])"
    using Cons.prems by (auto simp: ring_ok_Cons filter_empty_conv intro: filter_True)
  with Cons show ?case by (simp add: ring_ok_Cons)
qed simp

lemma no_other_lane:
  "lane_principal l \<notin> lane_principal ` set ls \<Longrightarrow> filter (\<lambda>m. lane_principal m = lane_principal l) ls = []"
  by (force simp: filter_empty_conv image_iff)

lemma waiting_of_push_lane:
  "ring_ok ls \<Longrightarrow> concat (map lane_waiters (filter (\<lambda>l. lane_principal l = p) (push_lane w ls))) =
   concat (map lane_waiters (filter (\<lambda>l. lane_principal l = p) ls)) @ (if w_principal w = p then [w] else [])"
proof (induction ls)
  case (Cons l ls)
  have none: "filter (\<lambda>l. lane_principal l = p) ls = []" if "lane_principal l = p"
    using Cons.prems no_other_lane [of l ls] that by (simp add: ring_ok_Cons)
  with Cons show ?case by (auto simp: ring_ok_Cons)
qed simp

lemma waiting_of_push:
  "cq_inv q \<Longrightarrow> waiting_of p (cq_push w q) = waiting_of p q @ (if w_principal w = p then [w] else [])"
  using ring_ok_push [of "lanes q" w]
  by (simp add: waiting_of_def snapshot_waiters_def cq_push_def cq_inv_def waiting_of_lanes waiting_of_push_lane)

lemma ring_push: "ring (cq_push w q) = ring q @ (if w_principal w \<in> set (ring q) then [] else [w_principal w])"
  by (simp add: ring_def cq_push_def principals_push)

text \<open>
  The head of the ring is served: its oldest waiter leaves, everybody else's waiters stay in order,
  and the served principal goes to the back of the ring if it still waits.
\<close>

lemma pop_serves_front:
  assumes inv: "cq_inv q" and r: "ring q = p # ps"
  shows "\<exists>w ws. waiting_of p q = w # ws \<and> fst (cq_pop q) = Some w
    \<and> waiting_of p (snd (cq_pop q)) = ws
    \<and> (\<forall>p'. p' \<noteq> p \<longrightarrow> waiting_of p' (snd (cq_pop q)) = waiting_of p' q)
    \<and> ring (snd (cq_pop q)) = ps @ (if ws = [] then [] else [p])"
proof -
  from r obtain l ls where q: "lanes q = l # ls" and l: "lane_principal l = p" and ls: "map lane_principal ls = ps"
    by (auto simp: ring_def)
  from inv have ok: "ring_ok (l # ls)" by (simp add: cq_inv_def q)
  then obtain w ws where lw: "lane_waiters l = w # ws" by (cases "lane_waiters l") (auto simp: ring_ok_def)
  let ?rest = "if ws = [] then ls else ls @ [l\<lparr>lane_waiters := ws\<rparr>]"
  have pop: "cq_pop q = (Some w, \<lparr>lanes = ?rest, depth = depth q - 1\<rparr>)"
    by (simp add: cq_pop_def q lw)
  have ok': "ring_ok ?rest" using ring_ok_pop [OF ok, of w] lw by simp
  have others: "filter (\<lambda>l. lane_principal l = p) ls = []"
    using ok l no_other_lane [of l ls] by (simp add: ring_ok_Cons)
  show ?thesis
  proof (intro exI conjI allI impI)
    show "waiting_of p q = w # ws"
      using waiting_of_lanes [OF ok, of p] others l lw by (simp add: waiting_of_def snapshot_waiters_def q)
    show "fst (cq_pop q) = Some w" by (simp add: pop)
    show "waiting_of p (snd (cq_pop q)) = ws"
      using waiting_of_lanes [OF ok', of p] others l by (auto simp: waiting_of_def snapshot_waiters_def pop)
    show "waiting_of p' (snd (cq_pop q)) = waiting_of p' q" if "p' \<noteq> p" for p'
      using waiting_of_lanes [OF ok', of p'] waiting_of_lanes [OF ok, of p'] l that
      by (auto simp: waiting_of_def snapshot_waiters_def pop q)
    show "ring (snd (cq_pop q)) = ps @ (if ws = [] then [] else [p])"
      using ls l by (simp add: ring_def pop)
  qed
qed

text \<open>Popping \<open>n\<close> times in a row.\<close>

fun cq_pops :: "nat \<Rightarrow> class_queue \<Rightarrow> waiter list \<times> class_queue" where
  "cq_pops 0 q = ([], q)"
| "cq_pops (Suc n) q =
     (case cq_pop q of
        (None, q') \<Rightarrow> ([], q')
      | (Some w, q') \<Rightarrow> (let (ws, q'') = cq_pops n q' in (w # ws, q'')))"

lemma cq_pops_Some: "fst (cq_pop q) = Some w \<Longrightarrow> fst (cq_pops (Suc n) q) = w # fst (cq_pops n (snd (cq_pop q)))"
  by (cases "cq_pop q"; cases "cq_pops n (snd (cq_pop q))") auto

text \<open>A principal at position \<open>k\<close> of the ring is served by the \<open>k + 1\<close>-st pop, by its oldest waiter.\<close>

lemma pop_at_position:
  assumes "cq_inv q" and "k < length (ring q)"
  shows "length (fst (cq_pops (Suc k) q)) = Suc k \<and>
         fst (cq_pops (Suc k) q) ! k = hd (waiting_of (ring q ! k) q)"
  using assms
proof (induction k arbitrary: q)
  case 0
  then obtain p ps where r: "ring q = p # ps" by (cases "ring q") auto
  from pop_serves_front [OF 0(1) r] obtain w ws where "waiting_of p q = w # ws" "fst (cq_pop q) = Some w"
    by (elim exE conjE) (rule that)
  then show ?case by (simp add: cq_pops_Some r del: cq_pops.simps(2))
next
  case (Suc k)
  obtain p ps where r: "ring q = p # ps" using Suc.prems(2) by (cases "ring q") simp_all
  from pop_serves_front [OF Suc.prems(1) r] obtain w and ws :: "waiter list" where w: "fst (cq_pop q) = Some w"
    and same: "\<forall>p'. p' \<noteq> p \<longrightarrow> waiting_of p' (snd (cq_pop q)) = waiting_of p' q"
    and r': "ring (snd (cq_pop q)) = ps @ (if ws = [] then [] else [p])"
    by (elim exE conjE) (rule that)
  let ?q = "snd (cq_pop q)"
  have k: "k < length ps" using Suc.prems(2) r by simp
  have "cq_inv ?q" using Suc.prems(1) by (rule cq.inv_pop)
  moreover have "k < length (ring ?q)" using k r' by simp
  ultimately have IH: "length (fst (cq_pops (Suc k) ?q)) = Suc k"
      "fst (cq_pops (Suc k) ?q) ! k = hd (waiting_of (ring ?q ! k) ?q)"
    using Suc.IH [of ?q] by (simp_all del: cq_pops.simps)
  have "distinct (ring q)" using Suc.prems(1) by (simp add: cq_inv_def ring_ok_def ring_def)
  then have "ps ! k \<noteq> p" using k r by auto
  moreover have "ring ?q ! k = ps ! k" using k r' by (simp add: nth_append)
  ultimately have "fst (cq_pops (Suc k) ?q) ! k = hd (waiting_of (ps ! k) q)"
    using IH(2) same by simp
  moreover have "fst (cq_pops (Suc (Suc k)) q) = w # fst (cq_pops (Suc k) ?q)"
    using w by (rule cq_pops_Some)
  ultimately show ?case using IH(1) r by (simp del: cq_pops.simps)
qed

section \<open>The weighted rotation between classes\<close>

text \<open>
  \<open>SharedRoundRobin::pick\<close>: every non-empty shared class earns its weight, the class with the most
  credit is chosen (the first one in the order Interactive, Metadata, Job on a tie) and pays the sum
  of the weights that were earned.
\<close>

type_synonym credits = "int per_class"

definition rr_new :: credits where
  "rr_new = (\<lambda>_. 0)"

definition rr_earn :: "class_queue per_class \<Rightarrow> credits \<Rightarrow> credits \<times> int per_class \<times> int" where
  "rr_earn queues credit =
     foldl (\<lambda>(credit, weights, tot) c.
         if cq_is_empty (queues c) then (credit, weights, tot)
         else (let weight = int (case shared_weight c of None \<Rightarrow> 0 | Some w \<Rightarrow> w)
               in (credit(c := credit c + weight), weights(c := weight), tot + weight)))
       (credit, \<lambda>_. 0, 0) shared_members"

definition rr_choose :: "int per_class \<Rightarrow> credits \<Rightarrow> resource_class option" where
  "rr_choose weights credit =
     foldl (\<lambda>chosen c.
         if weights c = 0 then chosen
         else (case chosen of
                 None \<Rightarrow> Some c
               | Some current \<Rightarrow> if credit c > credit current then Some c else Some current))
       None shared_members"

definition rr_pick :: "class_queue per_class \<Rightarrow> credits \<Rightarrow> resource_class option \<times> credits" where
  "rr_pick queues credit =
     (let (credit, weights, tot) = rr_earn queues credit
      in if tot = 0 then (None, credit)
         else (case rr_choose weights credit of
                 None \<Rightarrow> (None, credit)
               | Some c \<Rightarrow> (Some c, credit(c := credit c - tot))))"

lemmas rr_defs = rr_pick_def rr_earn_def rr_choose_def shared_members_def Let_def

text \<open>
  The credits the rotation can reach: their sum is 0, they stay in a box, and three corners of the
  box are excluded (without the exclusion the box is not inductive).
\<close>

definition rr_inv :: "credits \<Rightarrow> bool" where
  "rr_inv k \<longleftrightarrow> k Interactive + k Metadata + k Job = 0
     \<and> - 5 \<le> k Interactive \<and> k Interactive \<le> 4 \<and> - 4 \<le> k Metadata \<and> k Metadata \<le> 4
     \<and> - 4 \<le> k Job \<and> k Job \<le> 4
     \<and> \<not> (k Interactive = - 5 \<and> k Metadata = 4) \<and> \<not> (k Interactive = 1 \<and> k Metadata = 3)
     \<and> \<not> (k Interactive = 3 \<and> k Metadata = 1)"

lemma rr_inv_new: "rr_inv rr_new"
  by (simp add: rr_inv_def rr_new_def)

lemma rr_inv_pick: "rr_inv k \<Longrightarrow> rr_inv (snd (rr_pick queues k))"
  by (cases "cq_is_empty (queues Interactive)"; cases "cq_is_empty (queues Metadata)";
      cases "cq_is_empty (queues Job)")
    (simp add: rr_defs rr_inv_def; linarith?; (presburger | arith)?)+

lemma rr_pick_None: "fst (rr_pick queues k) = None \<longleftrightarrow> (\<forall>c \<in> set shared_members. cq_is_empty (queues c))"
  by (auto simp: rr_defs)

lemma rr_pick_Some:
  "fst (rr_pick queues k) = Some c \<Longrightarrow> c \<in> set shared_members \<and> \<not> cq_is_empty (queues c)"
  by (auto simp: rr_defs split: if_splits)

text \<open>A class that waits and is passed over earns its weight.\<close>

definition weight_of :: "resource_class \<Rightarrow> int" where
  "weight_of c = int (case shared_weight c of None \<Rightarrow> 0 | Some w \<Rightarrow> w)"

lemma rr_passed_over:
  assumes "may_join_shared c" "\<not> cq_is_empty (queues c)" "fst (rr_pick queues k) \<noteq> Some c"
  shows "snd (rr_pick queues k) c = k c + weight_of c"
  using assms
  by (cases c) (auto simp: rr_defs weight_of_def may_join_shared_def split: if_splits)

fun rr_run :: "class_queue per_class list \<Rightarrow> credits \<Rightarrow> resource_class option list \<times> credits" where
  "rr_run [] k = ([], k)"
| "rr_run (queues # rest) k =
     (let (c, k') = rr_pick queues k; (cs, k'') = rr_run rest k' in (c # cs, k''))"

lemma rr_run_Cons:
  "fst (rr_run (queues # rest) k) = fst (rr_pick queues k) # fst (rr_run rest (snd (rr_pick queues k)))"
  "snd (rr_run (queues # rest) k) = snd (rr_run rest (snd (rr_pick queues k)))"
  by (simp_all add: Let_def split: prod.splits)

lemma rr_inv_run: "rr_inv k \<Longrightarrow> rr_inv (snd (rr_run rounds k))"
  by (induction rounds arbitrary: k) (simp_all add: rr_run_Cons rr_inv_pick del: rr_run.simps(2))

lemma rr_passed_over_run:
  "may_join_shared c \<Longrightarrow> \<forall>queues \<in> set rounds. \<not> cq_is_empty (queues c) \<Longrightarrow>
   Some c \<notin> set (fst (rr_run rounds k)) \<Longrightarrow>
   snd (rr_run rounds k) c = k c + int (length rounds) * weight_of c"
  by (induction rounds arbitrary: k)
    (auto simp: rr_run_Cons rr_passed_over algebra_simps simp del: rr_run.simps(2))

text \<open>The number of consecutive rounds after which a waiting class has been served.\<close>

fun wait_bound :: "resource_class \<Rightarrow> nat" where
  "wait_bound Interactive = 3"
| "wait_bound Metadata = 5"
| "wait_bound Job = 9"
| "wait_bound Control = 0"

lemma rr_no_starvation_from:
  assumes "rr_inv k" "may_join_shared c" "\<forall>queues \<in> set rounds. \<not> cq_is_empty (queues c)"
    and "length rounds = wait_bound c"
  shows "Some c \<in> set (fst (rr_run rounds k))"
proof (rule ccontr)
  assume "Some c \<notin> set (fst (rr_run rounds k))"
  then have "snd (rr_run rounds k) c = k c + int (length rounds) * weight_of c"
    using assms by (intro rr_passed_over_run)
  with rr_inv_run [OF assms(1), of rounds] assms(1,2,4) show False
    by (cases c) (auto simp: rr_inv_def weight_of_def may_join_shared_def)
qed

end
