(* ===== verification/Budget_Ledger.thy ===== *)
theory Budget_Ledger
  imports Budget_Rotation
begin

text \<open>
  The budget ledger: value types (\<open>execution/runtime/budget/records.rs\<close>) and the admission,
  queueing and release operations (\<open>execution/runtime/budget/ledger.rs\<close>). The ledger has no clock;
  every operation takes the time in milliseconds. The invariant \<open>ledger_inv\<close> says that every counter
  of the ledger equals the number of permits it stands for and stays within its limit.
\<close>

section \<open>Value types\<close>

datatype queue_scope = ClassPerService | PerUser

datatype session_scope = SessionPerUser | SessionPerOrganization

datatype denial_reason =
    QueueFull queue_scope nat nat
  | SessionQuotaExceeded session_scope nat nat
  | Exhausted string resource_class nat
  | ServiceDraining string
  | PhysicalExhausted string nat
  | ConnectedEditorsExhausted string nat
  | NodeLost string
  | BatchNotQueueable nat
  | UnknownConnection string

definition is_retryable :: "denial_reason \<Rightarrow> bool" where
  "is_retryable r =
     (case r of Exhausted _ _ _ \<Rightarrow> True | PhysicalExhausted _ _ \<Rightarrow> True
      | ConnectedEditorsExhausted _ _ \<Rightarrow> True | NodeLost _ \<Rightarrow> True | _ \<Rightarrow> False)"

fun queue_scope_name :: "queue_scope \<Rightarrow> string" where
  "queue_scope_name ClassPerService = ''ClassPerService''"
| "queue_scope_name PerUser = ''PerUser''"

fun session_scope_name :: "session_scope \<Rightarrow> string" where
  "session_scope_name SessionPerUser = ''PerUser''"
| "session_scope_name SessionPerOrganization = ''PerOrganization''"

fun class_name :: "resource_class \<Rightarrow> string" where
  "class_name Control = ''Control''"
| "class_name Interactive = ''Interactive''"
| "class_name Metadata = ''Metadata''"
| "class_name Job = ''Job''"

fun denial_message :: "denial_reason \<Rightarrow> string" where
  "denial_message (QueueFull scope cap d) =
     ''queue full ('' @ queue_scope_name scope @ '', cap '' @ dec cap @ '', depth '' @ dec d @ '')''"
| "denial_message (SessionQuotaExceeded scope cap used) =
     ''session quota exceeded ('' @ session_scope_name scope @ '', cap '' @ dec cap @ '', used '' @ dec used @ '')''"
| "denial_message (Exhausted conn c capacity) =
     class_name c @ '' exhausted on '' @ conn @ '' (capacity '' @ dec capacity @ '')''"
| "denial_message (ServiceDraining conn) = conn @ '' is draining''"
| "denial_message (PhysicalExhausted conn cap) =
     ''physical connections exhausted on '' @ conn @ '' (cap '' @ dec cap @ '')''"
| "denial_message (ConnectedEditorsExhausted who cap) =
     ''connected editors exhausted for '' @ who @ '' (cap '' @ dec cap @ '')''"
| "denial_message (NodeLost worker) = ''node '' @ worker @ '' lost''"
| "denial_message (BatchNotQueueable requested) =
     ''batch of '' @ dec requested @ '' permits is not queueable''"
| "denial_message (UnknownConnection conn) = ''unknown connection service '' @ conn"

record permit_record =
  p_id :: string
  p_org :: string
  p_conn :: string
  p_principal :: string
  p_class :: resource_class
  p_slot :: slot_kind
  p_pinned :: bool
  p_worker :: "string option"
  p_waiter :: "nat option"
  p_granted_at :: nat

record port_permit =
  pp_id :: string
  pp_org :: string
  pp_conn :: string
  pp_granted_at :: string

datatype admit_outcome = Granted permit_record | Busy denial_reason | Denied denial_reason

datatype release_result =
    Released permit_record
  | AlreadyReleased permit_record
  | UnknownPermit string

record pump_report =
  granted :: "permit_record list"
  timed_out :: "nat list"

record retirement =
  ret_record :: permit_record
  ret_consumed :: bool
  ret_released_at :: nat

definition mono_timestamp :: "nat \<Rightarrow> string" where
  "mono_timestamp now = pad_left 13 (dec now)"

definition to_port_permit :: "permit_record \<Rightarrow> port_permit" where
  "to_port_permit r =
     \<lparr>pp_id = p_id r, pp_org = p_org r, pp_conn = p_conn r, pp_granted_at = mono_timestamp (p_granted_at r)\<rparr>"

record budget_claim =
  c_org :: string
  c_conn :: string
  c_principal :: string
  c_class :: resource_class
  c_pinned :: bool
  c_slots :: nat
  c_worker :: "string option"

definition claim_single :: "string \<Rightarrow> string \<Rightarrow> string \<Rightarrow> resource_class \<Rightarrow> budget_claim" where
  "claim_single org conn who c =
     \<lparr>c_org = org, c_conn = conn, c_principal = who, c_class = c, c_pinned = False, c_slots = 1,
      c_worker = None\<rparr>"

definition claim_pinned :: "budget_claim \<Rightarrow> budget_claim" where
  "claim_pinned claim = claim\<lparr>c_pinned := True\<rparr>"

definition claim_with_slots :: "nat \<Rightarrow> budget_claim \<Rightarrow> budget_claim" where
  "claim_with_slots n claim = claim\<lparr>c_slots := n\<rparr>"

definition claim_on_worker :: "string \<Rightarrow> budget_claim \<Rightarrow> budget_claim" where
  "claim_on_worker w claim = claim\<lparr>c_worker := Some w\<rparr>"

datatype physical_occupancy = Opening | InUse | Cleaning | IdlePooled | Quarantined | ControlSocket

record session_record =
  s_ticket :: string
  s_org :: string
  s_principal :: string
  s_conn :: string
  s_occupancy :: "physical_occupancy option"
  s_connected_editor :: bool

section \<open>State\<close>

record service_state =
  buckets :: "class_bucket per_class"
  shared_used :: nat
  queues :: "class_queue per_class"
  rr :: credits
  physical :: nat
  user_connected :: "(string, nat) btree"
  draining :: bool

definition service_new :: service_state where
  "service_new =
     \<lparr>buckets = (\<lambda>_. bucket_default), shared_used = 0, queues = (\<lambda>_. cq_empty), rr = rr_new,
      physical = 0, user_connected = [], draining = False\<rparr>"

definition user_queue_depth :: "string \<Rightarrow> service_state \<Rightarrow> nat" where
  "user_queue_depth p s = sum_list (map (\<lambda>c. depth_for p (queues s c)) all_classes)"

definition service_queue_depth :: "service_state \<Rightarrow> nat" where
  "service_queue_depth s = sum_list (map (\<lambda>c. depth (queues s c)) all_classes)"

record ledger =
  config :: budget_config
  services :: "(string, service_state) btree"
  permits :: "(string, permit_record) btree"
  retired :: "(string, retirement) btree"
  sessions :: "(string, session_record) btree"
  user_logical :: "(string, nat) btree"
  org_logical :: "(string, nat) btree"
  draining_nodes :: "string set"
  draining_orgs :: "string set"
  node_leases :: "(string, nat) btree"
  next_waiter :: nat
  next_permit :: nat
  next_session :: nat
  granted_total :: nat
  consumed_total :: nat
  returned_total :: nat

definition ledger_new :: "budget_config \<Rightarrow> ledger" where
  "ledger_new cfg =
     \<lparr>config = cfg, services = [], permits = [], retired = [], sessions = [], user_logical = [],
      org_logical = [], draining_nodes = {}, draining_orgs = {}, node_leases = [], next_waiter = 0,
      next_permit = 0, next_session = 0, granted_total = 0, consumed_total = 0, returned_total = 0\<rparr>"

section \<open>Reads\<close>

definition ensure_service :: "string \<Rightarrow> ledger \<Rightarrow> ledger" where
  "ensure_service conn l =
     (case bt_get (services l) conn of
        Some _ \<Rightarrow> l
      | None \<Rightarrow> l\<lparr>services := bt_insert conn service_new (services l)\<rparr>)"

definition is_draining :: "string \<Rightarrow> ledger \<Rightarrow> bool" where
  "is_draining conn l = (case bt_get (services l) conn of None \<Rightarrow> False | Some s \<Rightarrow> draining s)"

definition ledger_shared_used :: "string \<Rightarrow> ledger \<Rightarrow> nat" where
  "ledger_shared_used conn l = (case bt_get (services l) conn of None \<Rightarrow> 0 | Some s \<Rightarrow> shared_used s)"

definition shared_headroom :: "string \<Rightarrow> ledger \<Rightarrow> nat" where
  "shared_headroom conn l = q_shared (service_quota (config l)) - ledger_shared_used conn l"

definition ledger_reserved_headroom :: "string \<Rightarrow> resource_class \<Rightarrow> ledger \<Rightarrow> nat" where
  "ledger_reserved_headroom conn c l =
     (case bt_get (services l) conn of
        None \<Rightarrow> reserved_of (service_quota (config l)) c
      | Some s \<Rightarrow> bucket_reserved_headroom (buckets s c) (service_quota (config l)) c)"

definition ledger_queue_depth :: "string \<Rightarrow> resource_class \<Rightarrow> ledger \<Rightarrow> nat" where
  "ledger_queue_depth conn c l =
     (case bt_get (services l) conn of None \<Rightarrow> 0 | Some s \<Rightarrow> depth (queues s c))"

definition ledger_user_queue_depth :: "string \<Rightarrow> string \<Rightarrow> ledger \<Rightarrow> nat" where
  "ledger_user_queue_depth conn p l =
     (case bt_get (services l) conn of None \<Rightarrow> 0 | Some s \<Rightarrow> user_queue_depth p s)"

definition ledger_served :: "string \<Rightarrow> resource_class \<Rightarrow> ledger \<Rightarrow> nat" where
  "ledger_served conn c l =
     (case bt_get (services l) conn of None \<Rightarrow> 0 | Some s \<Rightarrow> served (buckets s c))"

definition permits_of :: "string \<Rightarrow> ledger \<Rightarrow> nat" where
  "permits_of p l = bt_count (\<lambda>r. p_principal r = p) (permits l)"

definition permits_on :: "string \<Rightarrow> (string, permit_record) btree \<Rightarrow> nat" where
  "permits_on conn ps = bt_count (\<lambda>r. p_conn r = conn) ps"

definition physical_of :: "string \<Rightarrow> ledger \<Rightarrow> nat" where
  "physical_of conn l =
     sat_add32 (case bt_get (services l) conn of None \<Rightarrow> 0 | Some s \<Rightarrow> physical s)
       (as_u32 (permits_on conn (permits l)))"

definition connected_of :: "string \<Rightarrow> string \<Rightarrow> ledger \<Rightarrow> nat" where
  "connected_of conn p l =
     (case bt_get (services l) conn of
        None \<Rightarrow> 0
      | Some s \<Rightarrow> (case bt_get (user_connected s) p of None \<Rightarrow> 0 | Some n \<Rightarrow> n))"

section \<open>Admission\<close>

definition pick_slot :: "service_state \<Rightarrow> service_quota \<Rightarrow> resource_class \<Rightarrow> slot_kind option" where
  "pick_slot s quota c =
     (if bucket_reserved_headroom (buckets s c) quota c > 0 then Some Reserved
      else if may_join_shared c \<and> shared_used s < q_shared quota then Some Shared
      else None)"

definition permit_id :: "nat \<Rightarrow> string" where
  "permit_id n = ''permit-'' @ pad_left 10 (dec n)"

definition commit_grant ::
    "budget_claim \<Rightarrow> slot_kind \<Rightarrow> nat option \<Rightarrow> nat \<Rightarrow> ledger \<Rightarrow> permit_record \<times> ledger" where
  "commit_grant claim slot waiter now l =
     (let n = sat_add64 (next_permit l) 1;
          r = \<lparr>p_id = permit_id n, p_org = c_org claim, p_conn = c_conn claim,
               p_principal = c_principal claim, p_class = c_class claim, p_slot = slot,
               p_pinned = c_pinned claim, p_worker = c_worker claim, p_waiter = waiter,
               p_granted_at = now\<rparr>
      in (r, l\<lparr>next_permit := n, permits := bt_insert (p_id r) r (permits l),
              granted_total := sat_add64 (granted_total l) 1\<rparr>))"

text \<open>The service side of a grant: the class bucket and, for a shared slot, the pool level.\<close>

definition service_occupy :: "resource_class \<Rightarrow> slot_kind \<Rightarrow> service_state \<Rightarrow> service_state" where
  "service_occupy c slot s =
     (let s' = s\<lparr>buckets := (buckets s)(c := bucket_occupy slot (buckets s c))\<rparr>
      in if slot = Shared then s'\<lparr>shared_used := sat_add32 (shared_used s') 1\<rparr> else s')"

definition try_admit :: "budget_claim \<Rightarrow> nat \<Rightarrow> ledger \<Rightarrow> admit_outcome \<times> ledger" where
  "try_admit claim now l =
     (let conn = c_conn claim; c = c_class claim in
      if c_slots claim \<noteq> 1 then (Denied (BatchNotQueueable (c_slots claim)), l)
      else if (case c_worker claim of Some w \<Rightarrow> w \<in> draining_nodes l | None \<Rightarrow> False) then
        (Denied (NodeLost (the (c_worker claim))), l)
      else if physical_of conn l \<ge> service_physical_connections (config l) then
        (Busy (PhysicalExhausted conn (service_physical_connections (config l))), l)
      else
        (let quota = service_quota (config l); capacity = config_capacity_of (config l) c in
         case bt_get (services l) conn of
           None \<Rightarrow> (Denied (UnknownConnection conn), l)
         | Some s \<Rightarrow>
             (let rest = bt_remove conn (services l);
                  denied = (draining s \<or> c_org claim \<in> draining_orgs l);
                  queued = (\<not> cq_is_empty (queues s c))
              in if denied then (Denied (ServiceDraining conn), l\<lparr>services := bt_insert conn s rest\<rparr>)
                 else if queued then (Busy (Exhausted conn c capacity), l\<lparr>services := bt_insert conn s rest\<rparr>)
                 else case pick_slot s quota c of
                   None \<Rightarrow> (Busy (Exhausted conn c capacity), l\<lparr>services := bt_insert conn s rest\<rparr>)
                 | Some slot \<Rightarrow>
                     (let (r, l') = commit_grant claim slot None now
                            (l\<lparr>services := bt_insert conn (service_occupy c slot s) rest\<rparr>)
                      in (Granted r, l')))))"

text \<open>
  All or nothing: the touched services and the permit table are saved and put back when one claim of
  the batch is refused. \<open>next_permit\<close> is not put back.
\<close>

definition backup_of :: "budget_claim list \<Rightarrow> ledger \<Rightarrow> (string \<times> service_state option) list" where
  "backup_of claims l =
     map (\<lambda>conn. (conn, bt_get (services l) conn))
       (bt_keys (fold (\<lambda>claim m. bt_insert (c_conn claim) () m) claims []))"

definition restore_services ::
    "(string \<times> service_state option) list \<Rightarrow> (string, service_state) btree \<Rightarrow> (string, service_state) btree" where
  "restore_services backup m =
     foldl (\<lambda>m (conn, prior). case prior of Some s \<Rightarrow> bt_insert conn s m | None \<Rightarrow> bt_remove conn m) m backup"

fun admit_each ::
    "budget_claim list \<Rightarrow> nat \<Rightarrow> ledger \<Rightarrow> permit_record list \<Rightarrow> (denial_reason + permit_record list) \<times> ledger" where
  "admit_each [] now l acc = (Inr acc, l)"
| "admit_each (claim # claims) now l acc =
     (case try_admit claim now l of
        (Granted r, l') \<Rightarrow> admit_each claims now l' (acc @ [r])
      | (Busy reason, l') \<Rightarrow> (Inl reason, l')
      | (Denied reason, l') \<Rightarrow> (Inl reason, l'))"

definition try_admit_many ::
    "budget_claim list \<Rightarrow> nat \<Rightarrow> ledger \<Rightarrow> (denial_reason + permit_record list) \<times> ledger" where
  "try_admit_many claims now l =
     (let backup = backup_of claims l in
      case admit_each claims now l [] of
        (Inr rs, l') \<Rightarrow> (Inr rs, l')
      | (Inl reason, l') \<Rightarrow>
          (Inl reason, l'\<lparr>services := restore_services backup (services l'), permits := permits l,
                          granted_total := granted_total l\<rparr>))"

definition enqueue :: "budget_claim \<Rightarrow> nat \<Rightarrow> nat \<Rightarrow> ledger \<Rightarrow> (denial_reason + nat) \<times> ledger" where
  "enqueue claim now deadline l =
     (let conn = c_conn claim; c = c_class claim in
      if c_slots claim \<noteq> 1 then (Inl (BatchNotQueueable (c_slots claim)), l)
      else if (case c_worker claim of Some w \<Rightarrow> w \<in> draining_nodes l | None \<Rightarrow> False) then
        (Inl (NodeLost (the (c_worker claim))), l)
      else
        (let class_cap = queue_cap_per_class_per_service (config l);
             user_cap = queue_cap_per_user (config l);
             i = next_waiter l in
         case bt_get (services l) conn of
           None \<Rightarrow> (Inl (UnknownConnection conn), l)
         | Some s \<Rightarrow>
             (let rest = bt_remove conn (services l);
                  class_depth = depth (queues s c);
                  user_depth = user_queue_depth (c_principal claim) s
              in if as_u32 class_depth \<ge> class_cap then
                   (Inl (QueueFull ClassPerService class_cap class_depth), l\<lparr>services := bt_insert conn s rest\<rparr>)
                 else if as_u32 user_depth \<ge> user_cap then
                   (Inl (QueueFull PerUser user_cap user_depth), l\<lparr>services := bt_insert conn s rest\<rparr>)
                 else
                   (let w = \<lparr>w_id = i, w_org = c_org claim, w_conn = conn, w_principal = c_principal claim,
                             w_class = c, w_slots = c_slots claim, w_enqueued_at = now, w_deadline = deadline\<rparr>;
                        s' = s\<lparr>queues := (queues s)(c := cq_push w (queues s c))\<rparr>
                    in (Inr i, l\<lparr>services := bt_insert conn s' rest, next_waiter := sat_add64 i 1\<rparr>)))))"

fun cancel_classes :: "nat \<Rightarrow> resource_class list \<Rightarrow> service_state \<Rightarrow> bool \<times> service_state" where
  "cancel_classes i [] s = (False, s)"
| "cancel_classes i (c # cs) s =
     (case cq_cancel i (queues s c) of
        (Some _, q) \<Rightarrow> (True, s\<lparr>queues := (queues s)(c := q)\<rparr>)
      | (None, q) \<Rightarrow> cancel_classes i cs (s\<lparr>queues := (queues s)(c := q)\<rparr>))"

fun cancel_services :: "nat \<Rightarrow> (string, service_state) btree \<Rightarrow> bool \<times> (string, service_state) btree" where
  "cancel_services i [] = (False, [])"
| "cancel_services i ((conn, s) # m) =
     (case cancel_classes i all_classes s of
        (True, s') \<Rightarrow> (True, (conn, s') # m)
      | (False, s') \<Rightarrow> (let (found, m') = cancel_services i m in (found, (conn, s') # m')))"

definition cancel :: "nat \<Rightarrow> ledger \<Rightarrow> bool \<times> ledger" where
  "cancel i l = (let (found, m) = cancel_services i (services l) in (found, l\<lparr>services := m\<rparr>))"

section \<open>Release\<close>

definition service_vacate :: "resource_class \<Rightarrow> slot_kind \<Rightarrow> service_state \<Rightarrow> service_state" where
  "service_vacate c slot s =
     (let s' = s\<lparr>buckets := (buckets s)(c := bucket_release slot (buckets s c))\<rparr>
      in if slot = Shared then s'\<lparr>shared_used := shared_used s' - 1\<rparr> else s')"

definition retired_limit :: nat where
  "retired_limit = 4096"

definition evict_retired :: "(string, retirement) btree \<Rightarrow> (string, retirement) btree" where
  "evict_retired m =
     (if length m \<ge> retired_limit then
        (case first_min (\<lambda>e. ret_released_at (snd e)) m of
           Some e \<Rightarrow> bt_remove (fst e) m
         | None \<Rightarrow> m)
      else m)"

definition release :: "port_permit \<Rightarrow> bool \<Rightarrow> nat \<Rightarrow> ledger \<Rightarrow> release_result \<times> ledger" where
  "release permit consumed now l =
     (case bt_get (permits l) (pp_id permit) of
        None \<Rightarrow>
          (case bt_get (retired l) (pp_id permit) of
             Some t \<Rightarrow> (AlreadyReleased (ret_record t), l)
           | None \<Rightarrow> (UnknownPermit (pp_id permit), l))
      | Some r \<Rightarrow>
          (let l1 = l\<lparr>permits := bt_remove (pp_id permit) (permits l)\<rparr>;
               l2 = (case bt_get (services l1) (p_conn r) of
                       Some s \<Rightarrow> l1\<lparr>services := bt_insert (p_conn r) (service_vacate (p_class r) (p_slot r) s) (services l1)\<rparr>
                     | None \<Rightarrow> l1);
               l3 = (if consumed then l2\<lparr>consumed_total := sat_add64 (consumed_total l2) 1\<rparr>
                     else l2\<lparr>returned_total := sat_add64 (returned_total l2) 1\<rparr>);
               t = \<lparr>ret_record = r, ret_consumed = consumed, ret_released_at = now\<rparr>
           in (Released r, l3\<lparr>retired := bt_insert (p_id r) t (evict_retired (retired l3))\<rparr>)))"

end
