(* ===== verification/Budget_Invariant.thy ===== *)
theory Budget_Invariant
  imports Budget_Ledger
begin

text \<open>
  The invariant of the budget ledger and its preservation by admission, queueing, cancellation and
  release. \<open>slots_inv\<close> ties the counters of one service to the permit table, \<open>queue_inv\<close> bounds its
  queues, and \<open>ledger_inv\<close> adds the well-formedness of the maps and of the permit identifiers.
\<close>

section \<open>The invariant\<close>

definition cfg_bounds :: "budget_config \<Rightarrow> bool" where
  "cfg_bounds cfg \<longleftrightarrow>
     (\<forall>c. q_reserved (service_quota cfg) c \<le> u32_max) \<and> q_shared (service_quota cfg) \<le> u32_max
     \<and> service_physical_connections cfg \<le> u32_max
     \<and> queue_cap_per_class_per_service cfg \<le> u32_max \<and> queue_cap_per_user cfg \<le> u32_max"

definition holds_slot :: "string \<Rightarrow> resource_class \<Rightarrow> slot_kind \<Rightarrow> permit_record \<Rightarrow> bool" where
  "holds_slot conn c slot r \<longleftrightarrow> p_conn r = conn \<and> p_class r = c \<and> p_slot r = slot"

definition holds_shared :: "string \<Rightarrow> permit_record \<Rightarrow> bool" where
  "holds_shared conn r \<longleftrightarrow> p_conn r = conn \<and> p_slot r = Shared"

definition slots_inv :: "budget_config \<Rightarrow> (string, permit_record) btree \<Rightarrow> string \<Rightarrow> service_state \<Rightarrow> bool" where
  "slots_inv cfg ps conn s \<longleftrightarrow>
     (\<forall>c slot. in_use slot (buckets s c) = bt_count (holds_slot conn c slot) ps)
     \<and> shared_used s = bt_count (holds_shared conn) ps
     \<and> (\<forall>c. reserved_in_use (buckets s c) \<le> q_reserved (service_quota cfg) c)
     \<and> shared_used s \<le> q_shared (service_quota cfg)
     \<and> physical s + permits_on conn ps \<le> service_physical_connections cfg"

definition waiter_fits :: "string \<Rightarrow> resource_class \<Rightarrow> waiter \<Rightarrow> bool" where
  "waiter_fits conn c w \<longleftrightarrow> w_conn w = conn \<and> w_class w = c \<and> w_slots w = 1"

definition queue_inv :: "budget_config \<Rightarrow> string \<Rightarrow> class_queue per_class \<Rightarrow> bool" where
  "queue_inv cfg conn qs \<longleftrightarrow>
     (\<forall>c. cq_inv (qs c) \<and> depth (qs c) \<le> queue_cap_per_class_per_service cfg
        \<and> (\<forall>w \<in># cq_content (qs c). waiter_fits conn c w))
     \<and> (\<forall>p. sum_list (map (\<lambda>c. depth_for p (qs c)) all_classes) \<le> queue_cap_per_user cfg)"

definition svc_inv :: "budget_config \<Rightarrow> (string, permit_record) btree \<Rightarrow> string \<Rightarrow> service_state \<Rightarrow> bool" where
  "svc_inv cfg ps conn s \<longleftrightarrow> slots_inv cfg ps conn s \<and> queue_inv cfg conn (queues s) \<and> rr_inv (rr s)"

definition issued :: "ledger \<Rightarrow> string \<Rightarrow> bool" where
  "issued l i \<longleftrightarrow> (\<exists>n. 1 \<le> n \<and> n \<le> next_permit l \<and> i = permit_id n)"

definition permits_inv :: "ledger \<Rightarrow> bool" where
  "permits_inv l \<longleftrightarrow> bt_wf (permits l) \<and>
     (\<forall>i r. bt_get (permits l) i = Some r \<longrightarrow>
        p_id r = i \<and> issued l i \<and> (p_slot r = Shared \<longrightarrow> p_class r \<noteq> Control))"

definition retired_inv :: "ledger \<Rightarrow> bool" where
  "retired_inv l \<longleftrightarrow> bt_wf (retired l) \<and> length (retired l) \<le> retired_limit \<and>
     (\<forall>i t. bt_get (retired l) i = Some t \<longrightarrow>
        p_id (ret_record t) = i \<and> issued l i \<and> bt_get (permits l) i = None)"

definition services_inv :: "ledger \<Rightarrow> bool" where
  "services_inv l \<longleftrightarrow> bt_wf (services l)
     \<and> (\<forall>conn s. bt_get (services l) conn = Some s \<longrightarrow> svc_inv (config l) (permits l) conn s)
     \<and> (\<forall>i r. bt_get (permits l) i = Some r \<longrightarrow> bt_get (services l) (p_conn r) \<noteq> None)"

definition ledger_inv :: "ledger \<Rightarrow> bool" where
  "ledger_inv l \<longleftrightarrow> cfg_bounds (config l) \<and> permits_inv l \<and> retired_inv l \<and> services_inv l"

section \<open>Slots of one service\<close>

lemma permit_id_inject: "permit_id m = permit_id n \<Longrightarrow> m = n"
  by (simp add: permit_id_def pad_dec_inject)

lemma not_issued_next:
  assumes "next_permit l < u64_max"
  shows "\<not> issued l (permit_id (sat_add64 (next_permit l) 1))"
  using assms permit_id_inject by (fastforce simp: issued_def sat_add64_def)

lemma slots_inv_grant:
  assumes "slots_inv cfg ps conn s" "cfg_bounds cfg" "bt_get ps i = None"
    and "p_conn r = conn" "p_class r = c" "p_slot r = slot"
    and "physical s + permits_on conn ps < service_physical_connections cfg"
    and "slot = Reserved \<Longrightarrow> reserved_in_use (buckets s c) < q_reserved (service_quota cfg) c"
    and "slot = Shared \<Longrightarrow> shared_used s < q_shared (service_quota cfg)"
  shows "slots_inv cfg (bt_insert i r ps) conn (service_occupy c slot s)"
proof -
  have "bt_count (holds_slot conn c Shared) ps \<le> bt_count (holds_shared conn) ps"
    by (rule bt_count_mono) (simp add: holds_slot_def holds_shared_def)
  then have "shared_in_use (buckets s c) \<le> shared_used s"
    using assms(1) by (simp add: slots_inv_def in_use_def split: slot_kind.splits)
  moreover have "reserved_in_use (buckets s c) < u32_max" if "slot = Reserved"
    using assms(2,8) that by (meson cfg_bounds_def order_less_le_trans)
  moreover have "shared_used s < u32_max" if "slot = Shared"
    using assms(2,9) that by (meson cfg_bounds_def order_less_le_trans)
  ultimately have small: "in_use slot (buckets s c) < u32_max"
    by (cases slot) (simp_all add: in_use_def)
  have used: "in_use t (buckets (service_occupy c slot s) d) =
      in_use t (buckets s d) + (if d = c \<and> t = slot then 1 else 0)" for t d
    using small in_use_occupy_other [of t slot] in_use_occupy [of slot "buckets s c" slot]
    by (auto simp: service_occupy_def Let_def)
  have level: "shared_used (service_occupy c slot s) = shared_used s + (if slot = Shared then 1 else 0)"
    using assms by (auto simp: service_occupy_def Let_def sat_add32_def cfg_bounds_def)
  have "reserved_in_use (buckets (service_occupy c slot s) d) \<le> q_reserved (service_quota cfg) d" for d
    using used [of Reserved d] assms by (auto simp: in_use_def slots_inv_def Suc_le_eq)
  then show ?thesis
    using assms used level
    by (auto simp: slots_inv_def bt.cnt_fresh holds_slot_def holds_shared_def permits_on_def
        service_occupy_def Let_def)
qed

lemma slots_inv_grant_other:
  assumes "slots_inv cfg ps conn s" "bt_get ps i = None" "p_conn r \<noteq> conn"
  shows "slots_inv cfg (bt_insert i r ps) conn s"
  using assms by (simp add: slots_inv_def bt.cnt_fresh holds_slot_def holds_shared_def permits_on_def)

lemma slots_inv_vacate:
  assumes "slots_inv cfg ps (p_conn r) s" "bt_wf ps" "bt_get ps i = Some r"
  shows "slots_inv cfg (bt_remove i ps) (p_conn r) (service_vacate (p_class r) (p_slot r) s)"
proof -
  note del = bt.cnt_del [OF assms(2,3)]
  have used: "in_use t (buckets (service_vacate (p_class r) (p_slot r) s) d) =
      in_use t (buckets s d) - (if d = p_class r \<and> t = p_slot r then 1 else 0)" for t d
    by (simp add: service_vacate_def Let_def in_use_release)
  have "reserved_in_use (buckets (service_vacate (p_class r) (p_slot r) s) d) \<le> q_reserved (service_quota cfg) d" for d
    using used [of Reserved d] assms(1) by (auto simp: in_use_def slots_inv_def intro: le_trans [OF diff_le_self])
  moreover have "shared_used (service_vacate (p_class r) (p_slot r) s) = shared_used s - (if p_slot r = Shared then 1 else 0)"
    by (simp add: service_vacate_def Let_def)
  moreover have "physical (service_vacate (p_class r) (p_slot r) s) = physical s"
    by (simp add: service_vacate_def Let_def)
  ultimately show ?thesis
    using assms(1) used del [of "holds_shared (p_conn r)"] del [of "\<lambda>q. p_conn q = p_conn r"]
      del [of "holds_slot (p_conn r) c slot" for c slot]
    by (auto simp: slots_inv_def permits_on_def holds_slot_def holds_shared_def)
qed

lemma slots_inv_vacate_other:
  assumes "slots_inv cfg ps conn s" "bt_wf ps" "bt_get ps i = Some r" "p_conn r \<noteq> conn"
  shows "slots_inv cfg (bt_remove i ps) conn s"
proof -
  note del = bt.cnt_del [OF assms(2,3)]
  show ?thesis
    using assms(1,4) del [of "holds_shared conn"] del [of "\<lambda>q. p_conn q = conn"]
      del [of "holds_slot conn c slot" for c slot]
    by (simp add: slots_inv_def permits_on_def holds_slot_def holds_shared_def)
qed

lemma slots_inv_new:
  assumes "bt_wf ps" "\<forall>i r. bt_get ps i = Some r \<longrightarrow> p_conn r \<noteq> conn"
  shows "slots_inv cfg ps conn service_new"
proof -
  have "bt_count P ps = 0" if "\<And>r. P r \<Longrightarrow> p_conn r = conn" for P
    using assms that by (auto simp: bt_count_zero)
  from this [of "\<lambda>r. p_conn r = conn"] this [of "holds_shared conn"] this [of "holds_slot conn c t" for c t]
  show ?thesis
    by (simp add: slots_inv_def service_new_def permits_on_def bucket_default_def in_use_def
        holds_slot_def holds_shared_def split: slot_kind.split)
qed

section \<open>Queues of one service\<close>

lemma depth_for_eq:
  assumes "cq_inv q"
  shows "depth_for p q = size (filter_mset (\<lambda>w. w_principal w = p) (cq_content q))"
proof -
  have ok: "ring_ok (lanes q)" using assms by (simp add: cq_inv_def)
  have "depth_for p q = length (concat (map lane_waiters (filter (\<lambda>l. lane_principal l = p) (lanes q))))"
    using ok unfolding depth_for_def
  proof (induction "lanes q" arbitrary: q)
    case (Cons l ls)
    have rest: "ring_ok (lanes \<lparr>lanes = ls, depth = 0\<rparr>)" and new: "lane_principal l \<notin> lane_principal ` set ls"
      using Cons.prems Cons.hyps(2) [symmetric] by (simp_all add: ring_ok_Cons)
    have "filter (\<lambda>m. lane_principal m = p) ls = []" if "lane_principal l = p"
      using no_other_lane [OF new] that by simp
    with Cons.hyps(1) [of "\<lparr>lanes = ls, depth = 0\<rparr>"] rest show ?case
      by (simp add: Cons.hyps(2) [symmetric])
  qed simp
  also have "\<dots> = length (filter (\<lambda>w. w_principal w = p) (snapshot_waiters q))"
    using waiting_of_lanes [OF ok, of p] by (simp add: snapshot_waiters_def)
  finally show ?thesis
    by (metis cq_content_def mset_filter size_mset)
qed

lemma depth_for_mono:
  "cq_inv q \<Longrightarrow> cq_inv q' \<Longrightarrow> cq_content q' \<subseteq># cq_content q \<Longrightarrow> depth_for p q' \<le> depth_for p q"
  by (simp add: depth_for_eq size_mset_mono multiset_filter_mono)

lemma sum_classes: "sum_list (map f all_classes) = sum4 f"
  by (simp add: all_classes_def sum4_def)

lemma sum4_upd: "sum4 f + g = sum4 (f(c := h)) + k \<longleftrightarrow> f c + g = h + k"
  by (cases c) (simp_all add: sum4_def)

lemma sum4_mono: "(\<And>c. f c \<le> g c) \<Longrightarrow> sum4 f \<le> sum4 g"
  by (simp add: sum4_def add_mono)

lemma queue_inv_shrink:
  assumes "queue_inv cfg conn qs" "\<And>c. cq_inv (qs' c)" "\<And>c. cq_content (qs' c) \<subseteq># cq_content (qs c)"
  shows "queue_inv cfg conn qs'"
proof -
  have "depth (qs' c) \<le> depth (qs c)" for c
    using assms by (simp add: queue_inv_def cq_inv_size size_mset_mono)
  moreover have "sum_list (map (\<lambda>c. depth_for p (qs' c)) all_classes) \<le> sum_list (map (\<lambda>c. depth_for p (qs c)) all_classes)" for p
    using assms by (intro sum_list_mono depth_for_mono) (simp_all add: queue_inv_def)
  moreover have "\<forall>w \<in># cq_content (qs' c). waiter_fits conn c w" for c
    using assms(1) mset_subset_eqD [OF assms(3)] by (auto simp: queue_inv_def)
  ultimately show ?thesis
    using assms(1,2) unfolding queue_inv_def by (blast intro: le_trans)
qed

lemma queue_inv_shrink1:
  assumes "queue_inv cfg conn qs" "cq_inv q" "cq_content q \<subseteq># cq_content (qs c)"
  shows "queue_inv cfg conn (qs(c := q))"
  using assms by (intro queue_inv_shrink [OF assms(1)]) (auto simp: queue_inv_def)

lemma queue_inv_new: "queue_inv cfg conn (\<lambda>_. cq_empty)"
  by (simp add: queue_inv_def cq_inv_def cq_empty_def ring_ok_def snapshot_waiters_def cq_content_def
      depth_for_def all_classes_def)

lemma queue_inv_push:
  assumes inv: "queue_inv cfg conn qs" and cfg: "cfg_bounds cfg" and fits: "waiter_fits conn c w"
    and room: "depth (qs c) < queue_cap_per_class_per_service cfg"
    and user: "sum_list (map (\<lambda>c. depth_for (w_principal w) (qs c)) all_classes) < queue_cap_per_user cfg"
  shows "queue_inv cfg conn (qs(c := cq_push w (qs c)))"
proof -
  have lim: "depth (qs c) < u64_max"
    using room cfg by (auto simp: cfg_bounds_def u32_max_def u64_max_def)
  have inv': "cq_inv (cq_push w (qs c))"
    using inv lim by (simp add: queue_inv_def cq.inv_push)
  have more: "depth_for p (cq_push w (qs c)) = depth_for p (qs c) + (if w_principal w = p then 1 else 0)" for p
    using inv inv' by (simp add: queue_inv_def depth_for_eq cq.content_push)
  have "sum4 (\<lambda>d. depth_for p ((qs(c := cq_push w (qs c))) d)) =
      sum4 (\<lambda>d. depth_for p (qs d)) + (if w_principal w = p then 1 else 0)" for p
    using more [of p] by (cases c) (simp_all add: sum4_def)
  moreover have "sum4 (\<lambda>d. depth_for p (qs d)) \<le> queue_cap_per_user cfg" for p
    using inv by (simp add: queue_inv_def sum_classes)
  moreover have "sum4 (\<lambda>d. depth_for (w_principal w) (qs d)) < queue_cap_per_user cfg"
    using user by (simp add: sum_classes)
  ultimately have users: "sum4 (\<lambda>d. depth_for p ((qs(c := cq_push w (qs c))) d)) \<le> queue_cap_per_user cfg" for p
    by (cases "w_principal w = p") (simp_all add: Suc_le_eq)
  have "depth (cq_push w (qs c)) = Suc (depth (qs c))"
    using inv inv' by (simp add: queue_inv_def cq_inv_size cq.content_push)
  then have "cq_inv ((qs(c := cq_push w (qs c))) d)
      \<and> depth ((qs(c := cq_push w (qs c))) d) \<le> queue_cap_per_class_per_service cfg
      \<and> (\<forall>v \<in># cq_content ((qs(c := cq_push w (qs c))) d). waiter_fits conn d v)" for d
    using inv inv' room fits by (cases "d = c") (simp_all add: queue_inv_def cq.content_push)
  then show ?thesis
    unfolding queue_inv_def sum_classes using users by blast
qed

section \<open>Putting a service back\<close>

text \<open>
  The code takes a service out of the table, works on it and inserts it again. A service that is
  taken out keeps the invariant when inserting it would.
\<close>

definition put_service :: "string \<Rightarrow> service_state \<Rightarrow> ledger \<Rightarrow> ledger" where
  "put_service conn s l = l\<lparr>services := bt_insert conn s (services l)\<rparr>"

lemma put_service_simps [simp]:
  "config (put_service conn s l) = config l" "permits (put_service conn s l) = permits l"
  "retired (put_service conn s l) = retired l" "next_permit (put_service conn s l) = next_permit l"
  "services (put_service conn s l) = bt_insert conn s (services l)"
  by (simp_all add: put_service_def)

lemma inv_cong:
  assumes "permits l' = permits l" "next_permit l' = next_permit l" "retired l' = retired l"
  shows "permits_inv l' = permits_inv l" and "retired_inv l' = retired_inv l" and "issued l' = issued l"
  using assms by (simp_all add: permits_inv_def retired_inv_def issued_def fun_eq_iff)

lemma ledger_inv_cong:
  assumes "config l' = config l" "permits l' = permits l" "next_permit l' = next_permit l"
    and "retired l' = retired l" "services l' = services l"
  shows "ledger_inv l' = ledger_inv l"
  using assms inv_cong [of l' l] by (simp add: ledger_inv_def services_inv_def)

lemma ledger_inv_new: "cfg_bounds cfg \<Longrightarrow> ledger_inv (ledger_new cfg)"
  by (simp add: ledger_inv_def ledger_new_def permits_inv_def retired_inv_def services_inv_def)

lemma svc_inv_of:
  "ledger_inv l \<Longrightarrow> bt_get (services l) conn = Some s \<Longrightarrow> svc_inv (config l) (permits l) conn s"
  by (simp add: ledger_inv_def services_inv_def)

lemma ledger_inv_put:
  assumes "ledger_inv l" "svc_inv (config l) (permits l) conn s"
  shows "ledger_inv (put_service conn s l)"
  using assms inv_cong [of "put_service conn s l" l]
  by (simp add: ledger_inv_def services_inv_def map_laws bt_wf_insert)

lemma ledger_inv_put_svc:
  "ledger_inv (put_service conn s l) \<Longrightarrow> svc_inv (config l) (permits l) conn s"
  using svc_inv_of [of "put_service conn s l" conn s] by (simp add: map_laws)

lemma ledger_inv_put_again:
  assumes "ledger_inv (put_service conn s l)" "svc_inv (config l) (permits l) conn s'"
  shows "ledger_inv (put_service conn s' l)"
  using ledger_inv_put [OF assms(1), of conn s'] assms(2) by (simp add: put_service_def bt_insert_twice)

lemma ledger_inv_wf: "ledger_inv l \<Longrightarrow> bt_wf (services l) \<and> bt_wf (permits l)"
  by (simp add: ledger_inv_def services_inv_def permits_inv_def)

lemma put_service_same:
  "ledger_inv l \<Longrightarrow> bt_get (services l) conn = Some s \<Longrightarrow>
   l\<lparr>services := bt_insert conn s (bt_remove conn (services l))\<rparr> = l"
  using bt.ins_del_same [of "services l" conn s] by (simp add: ledger_inv_wf)

lemma ledger_inv_ensure: "ledger_inv l \<Longrightarrow> ledger_inv (ensure_service conn l)"
proof (cases "bt_get (services l) conn")
  case None
  assume inv: "ledger_inv l"
  have "p_conn r \<noteq> conn" if "bt_get (permits l) i = Some r" for i r
  proof -
    have "bt_get (services l) (p_conn r) \<noteq> None"
      using inv that unfolding ledger_inv_def services_inv_def by blast
    with None show ?thesis by auto
  qed
  then have "slots_inv (config l) (permits l) conn service_new"
    using inv by (intro slots_inv_new) (auto simp: ledger_inv_def permits_inv_def)
  then have "svc_inv (config l) (permits l) conn service_new"
    using queue_inv_new rr_inv_new by (simp add: svc_inv_def service_new_def)
  with inv have "ledger_inv (put_service conn service_new l)" by (rule ledger_inv_put)
  with None show ?thesis by (simp add: ensure_service_def put_service_def)
qed (simp add: ensure_service_def)

lemma physical_of_exact:
  assumes "ledger_inv l" "bt_get (services l) conn = Some s"
  shows "physical_of conn l = physical s + permits_on conn (permits l)"
    and "physical_of conn l \<le> service_physical_connections (config l)"
proof -
  have "physical s + permits_on conn (permits l) \<le> service_physical_connections (config l)"
    using svc_inv_of [OF assms] by (simp add: svc_inv_def slots_inv_def)
  moreover from this have "physical s + permits_on conn (permits l) \<le> u32_max"
    using assms(1) by (auto simp: ledger_inv_def cfg_bounds_def intro: le_trans)
  ultimately show "physical_of conn l = physical s + permits_on conn (permits l)"
    and "physical_of conn l \<le> service_physical_connections (config l)"
    using assms(2) by (simp_all add: physical_of_def as_u32_small sat_add32_exact)
qed

section \<open>Grants\<close>

lemma commit_grant_simps:
  "snd (commit_grant claim slot w now l) =
     l\<lparr>next_permit := sat_add64 (next_permit l) 1,
       permits := bt_insert (permit_id (sat_add64 (next_permit l) 1)) (fst (commit_grant claim slot w now l)) (permits l),
       granted_total := sat_add64 (granted_total l) 1\<rparr>"
  "p_id (fst (commit_grant claim slot w now l)) = permit_id (sat_add64 (next_permit l) 1)"
  "p_org (fst (commit_grant claim slot w now l)) = c_org claim"
  "p_conn (fst (commit_grant claim slot w now l)) = c_conn claim"
  "p_principal (fst (commit_grant claim slot w now l)) = c_principal claim"
  "p_class (fst (commit_grant claim slot w now l)) = c_class claim"
  "p_slot (fst (commit_grant claim slot w now l)) = slot"
  "p_waiter (fst (commit_grant claim slot w now l)) = w"
  by (simp_all add: commit_grant_def Let_def)

definition slot_room :: "ledger \<Rightarrow> string \<Rightarrow> service_state \<Rightarrow> resource_class \<Rightarrow> slot_kind \<Rightarrow> bool" where
  "slot_room l conn s c slot \<longleftrightarrow>
     physical s + permits_on conn (permits l) < service_physical_connections (config l)
     \<and> (case slot of
          Reserved \<Rightarrow> reserved_in_use (buckets s c) < q_reserved (service_quota (config l)) c
        | Shared \<Rightarrow> shared_used s < q_shared (service_quota (config l)) \<and> c \<noteq> Control)"

lemma issued_mono: "issued l i \<Longrightarrow> next_permit l \<le> next_permit l' \<Longrightarrow> issued l' i"
  by (auto simp: issued_def)

lemma grant_id_fresh:
  assumes "ledger_inv l" "next_permit l < u64_max"
  shows "bt_get (permits l) (permit_id (sat_add64 (next_permit l) 1)) = None"
  using assms not_issued_next [of l] unfolding ledger_inv_def permits_inv_def by (metis option.exhaust)

lemma ledger_inv_grant:
  assumes inv: "ledger_inv (put_service conn s l)" and lim: "next_permit l < u64_max"
    and claim: "c_conn claim = conn" "c_class claim = c" and room: "slot_room l conn s c slot"
  shows "ledger_inv (put_service conn (service_occupy c slot s) (snd (commit_grant claim slot w now l)))"
    (is "ledger_inv ?l'")
proof -
  let ?n = "sat_add64 (next_permit l) 1" and ?r = "fst (commit_grant claim slot w now l)"
  let ?ps = "bt_insert (permit_id ?n) ?r (permits l)"
  have parts: "cfg_bounds (config l)" "permits_inv l" "retired_inv l" "services_inv (put_service conn s l)"
    using inv inv_cong [of "put_service conn s l" l] by (simp_all add: ledger_inv_def)
  have fresh: "bt_get (permits l) (permit_id ?n) = None" "bt_get (retired l) (permit_id ?n) = None"
    using parts(2,3) not_issued_next [OF lim] unfolding permits_inv_def retired_inv_def by (metis option.exhaust)+
  have iss: "issued ?l' i" if "issued l i" for i
    using that by (rule issued_mono) (use lim in \<open>simp add: commit_grant_simps sat_add64_def\<close>)
  have new: "issued ?l' (permit_id ?n)" using lim by (auto simp: issued_def commit_grant_simps sat_add64_def)
  have "permits_inv ?l'"
    using parts(2) iss new claim room
    by (auto simp: permits_inv_def commit_grant_simps map_laws bt_wf_insert slot_room_def split: if_splits)
  moreover have "retired_inv ?l'"
    using parts(3) iss fresh by (auto simp: retired_inv_def commit_grant_simps map_laws)
  moreover have "svc_inv (config l) ?ps conn (service_occupy c slot s)"
  proof -
    have "svc_inv (config l) (permits l) conn s" using inv by (rule ledger_inv_put_svc)
    then show ?thesis
      using room claim slots_inv_grant [of "config l" "permits l" conn s "permit_id ?n" ?r c slot] parts(1) fresh
      by (auto simp: svc_inv_def slot_room_def commit_grant_simps service_occupy_def Let_def split: slot_kind.splits)
  qed
  moreover have "svc_inv (config l) ?ps d t" if "d \<noteq> conn" "bt_get (services l) d = Some t" for d t
    using svc_inv_of [OF inv, of d t] that slots_inv_grant_other [of "config l" "permits l" d t "permit_id ?n" ?r] fresh claim
    by (simp add: svc_inv_def map_laws commit_grant_simps)
  moreover have "bt_wf (services ?l')"
    using parts(4) bt_wf_insert_any [of conn s "services l" "service_occupy c slot s"]
    by (simp add: services_inv_def commit_grant_simps)
  moreover have "bt_get (services l) (p_conn q) \<noteq> None" if "bt_get (permits l) i = Some q" "p_conn q \<noteq> conn" for i q
  proof -
    have "bt_get (services (put_service conn s l)) (p_conn q) \<noteq> None"
      using parts(4) that(1) unfolding services_inv_def put_service_simps by blast
    with that(2) show ?thesis by (simp add: map_laws)
  qed
  ultimately show ?thesis
    using parts(1) claim by (simp add: ledger_inv_def services_inv_def commit_grant_simps map_laws)
qed

section \<open>The operations keep the invariant\<close>

lemma pick_slot_room:
  assumes "pick_slot s (service_quota (config l)) c = Some slot"
    and "physical s + permits_on conn (permits l) < service_physical_connections (config l)"
  shows "slot_room l conn s c slot"
  using assms by (auto simp: pick_slot_def slot_room_def bucket_reserved_headroom_def reserved_of_def
      may_join_shared_def split: if_splits)

text \<open>The outcomes of \<open>try_admit\<close>: only a grant changes the ledger.\<close>

lemma try_admit_cases:
  assumes inv: "ledger_inv l"
  obtains (Refused) out where "try_admit claim now l = (out, l)" "\<forall>r. out \<noteq> Granted r"
  | (Admitted) s slot where "bt_get (services l) (c_conn claim) = Some s"
      "\<not> draining s" "c_org claim \<notin> draining_orgs l" "cq_is_empty (queues s (c_class claim))"
      "c_slots claim = 1" "\<forall>w. c_worker claim = Some w \<longrightarrow> w \<notin> draining_nodes l"
      "pick_slot s (service_quota (config l)) (c_class claim) = Some slot"
      "physical_of (c_conn claim) l < service_physical_connections (config l)"
      "try_admit claim now l =
         (let (r, l') = commit_grant claim slot None now (put_service (c_conn claim) (service_occupy (c_class claim) slot s) l)
          in (Granted r, l'))"
proof (cases "bt_get (services l) (c_conn claim)")
  case None
  then have "snd (try_admit claim now l) = l" "\<forall>r. fst (try_admit claim now l) \<noteq> Granted r"
    by (simp_all add: try_admit_def Let_def)
  then show ?thesis by (intro Refused [of "fst (try_admit claim now l)"]) (simp_all add: prod_eq_iff)
next
  case (Some s)
  have unmoved: "l\<lparr>services := bt_insert (c_conn claim) s (bt_remove (c_conn claim) (services l))\<rparr> = l"
    using put_service_same [OF inv Some] .
  have put: "l\<lparr>services := bt_insert (c_conn claim) s' (bt_remove (c_conn claim) (services l))\<rparr> = put_service (c_conn claim) s' l" for s'
    using bt.ins_del [of "services l" "c_conn claim" s'] inv by (simp add: put_service_def ledger_inv_wf)
  show ?thesis
  proof (cases "\<exists>r. fst (try_admit claim now l) = Granted r")
    case True
    then obtain slot where "pick_slot s (service_quota (config l)) (c_class claim) = Some slot"
      by (auto simp: try_admit_def Some Let_def split: if_splits option.splits)
    with True Some show ?thesis
      by (intro Admitted [of s slot]) (auto simp: try_admit_def put Let_def split: if_splits option.splits)
  next
    case False
    then have "snd (try_admit claim now l) = l"
      by (auto simp: try_admit_def Some unmoved Let_def split: if_splits option.splits prod.splits)
    with False show ?thesis by (intro Refused [of "fst (try_admit claim now l)"]) (auto simp: prod_eq_iff)
  qed
qed

lemma ledger_inv_try_admit:
  assumes inv: "ledger_inv l" and lim: "next_permit l < u64_max"
  shows "ledger_inv (snd (try_admit claim now l))"
  using inv
proof (cases rule: try_admit_cases [of l claim now])
  case (Admitted s slot)
  let ?s = "service_occupy (c_class claim) slot s"
  have same: "put_service (c_conn claim) s l = l"
    using bt.ins_same [of "services l" "c_conn claim" s] inv Admitted(1) by (simp add: put_service_def ledger_inv_wf)
  have "slot_room l (c_conn claim) s (c_class claim) slot"
    using Admitted(7,8) physical_of_exact(1) [OF inv Admitted(1)] by (intro pick_slot_room) simp_all
  then have "ledger_inv (put_service (c_conn claim) ?s (snd (commit_grant claim slot None now l)))"
    using inv lim by (intro ledger_inv_grant) (simp_all add: same)
  also have "put_service (c_conn claim) ?s (snd (commit_grant claim slot None now l)) =
      snd (commit_grant claim slot None now (put_service (c_conn claim) ?s l))"
    by (simp add: commit_grant_def Let_def put_service_def)
  finally show ?thesis using Admitted(9) by (simp add: case_prod_beta Let_def)
qed (use inv in simp)

lemma ledger_inv_enqueue:
  assumes inv: "ledger_inv l"
  shows "ledger_inv (snd (enqueue claim now deadline l))"
proof (cases "bt_get (services l) (c_conn claim)")
  case None
  with inv show ?thesis by (simp add: enqueue_def Let_def)
next
  case (Some s)
  let ?w = "\<lparr>w_id = next_waiter l, w_org = c_org claim, w_conn = c_conn claim, w_principal = c_principal claim,
             w_class = c_class claim, w_slots = c_slots claim, w_enqueued_at = now, w_deadline = deadline\<rparr>"
  let ?q = "queues s (c_class claim)" and ?cfg = "config l"
  let ?s = "s\<lparr>queues := (queues s)(c_class claim := cq_push ?w ?q)\<rparr>"
  have unmoved: "l\<lparr>services := bt_insert (c_conn claim) s (bt_remove (c_conn claim) (services l))\<rparr> = l"
    using put_service_same [OF inv Some] .
  have put: "l\<lparr>services := bt_insert (c_conn claim) s' (bt_remove (c_conn claim) (services l)), next_waiter := n\<rparr> =
      (put_service (c_conn claim) s' l)\<lparr>next_waiter := n\<rparr>" for s' n
    using bt.ins_del [of "services l" "c_conn claim" s'] inv by (simp add: put_service_def ledger_inv_wf)
  have cfg: "cfg_bounds ?cfg" using inv by (simp add: ledger_inv_def)
  have svc: "svc_inv ?cfg (permits l) (c_conn claim) s" using svc_inv_of [OF inv Some] .
  have small: "as_u32 (depth ?q) = depth ?q" "as_u32 (user_queue_depth p s) = user_queue_depth p s" for p
    using svc cfg
    by (auto intro!: as_u32_small simp: svc_inv_def queue_inv_def cfg_bounds_def user_queue_depth_def intro: le_trans)
  show ?thesis
  proof (cases "c_slots claim = 1 \<and> depth ?q < queue_cap_per_class_per_service ?cfg
      \<and> user_queue_depth (c_principal claim) s < queue_cap_per_user ?cfg
      \<and> \<not> (case c_worker claim of Some w \<Rightarrow> w \<in> draining_nodes l | None \<Rightarrow> False)")
    case True
    then have "queue_inv ?cfg (c_conn claim) (queues ?s)"
      using svc cfg queue_inv_push [of ?cfg "c_conn claim" "queues s" "c_class claim" ?w]
      by (simp add: svc_inv_def waiter_fits_def user_queue_depth_def)
    then have "svc_inv ?cfg (permits l) (c_conn claim) ?s"
      using svc by (simp add: svc_inv_def slots_inv_def)
    then have "ledger_inv (put_service (c_conn claim) ?s l)" by (rule ledger_inv_put [OF inv])
    then have "ledger_inv ((put_service (c_conn claim) ?s l)\<lparr>next_waiter := n\<rparr>)" for n
      by (subst ledger_inv_cong [of _ "put_service (c_conn claim) ?s l"]) simp_all
    with True show ?thesis by (simp add: enqueue_def Some small put Let_def)
  next
    case False
    then have "snd (enqueue claim now deadline l) = l"
      by (auto simp: enqueue_def Some small unmoved Let_def split: if_splits option.splits)
    with inv show ?thesis by simp
  qed
qed

end
