(* ===== verification/Budget_Operations.thy ===== *)
theory Budget_Operations
  imports Budget_Invariant
begin

text \<open>
  Cancellation, release and batch admission: preservation of the invariant and what each operation
  does to the waiters and to the permits.
\<close>

section \<open>The waiters of the ledger\<close>

definition waiting_in :: "service_state \<Rightarrow> waiter multiset" where
  "waiting_in s = sum_list (map (\<lambda>c. cq_content (queues s c)) all_classes)"

definition ledger_waiters :: "ledger \<Rightarrow> waiter multiset" where
  "ledger_waiters l = sum_list (map waiting_in (bt_values (services l)))"

lemma waiting_in_eq:
  "waiting_in s = cq_content (queues s Control) + (cq_content (queues s Interactive)
     + (cq_content (queues s Metadata) + cq_content (queues s Job)))"
  by (simp add: waiting_in_def all_classes_def)

lemma waiting_in_upd:
  "waiting_in (s\<lparr>queues := (queues s)(c := q)\<rparr>) + cq_content (queues s c) = waiting_in s + cq_content q"
  by (cases c) (simp_all add: waiting_in_eq ac_simps)

text \<open>A step that only takes waiters out of queues.\<close>

definition svc_shrunk :: "service_state \<Rightarrow> service_state \<Rightarrow> bool" where
  "svc_shrunk s s' \<longleftrightarrow> (\<exists>qs. s' = s\<lparr>queues := qs\<rparr> \<and>
     (\<forall>c. (cq_inv (queues s c) \<longrightarrow> cq_inv (qs c)) \<and> cq_content (qs c) \<subseteq># cq_content (queues s c)))"

lemma svc_shrunkI:
  "(\<And>c. cq_inv (queues s c) \<Longrightarrow> cq_inv (qs c)) \<Longrightarrow> (\<And>c. cq_content (qs c) \<subseteq># cq_content (queues s c)) \<Longrightarrow>
   svc_shrunk s (s\<lparr>queues := qs\<rparr>)"
  by (auto simp: svc_shrunk_def)

lemma svc_shrunkE:
  assumes "svc_shrunk s s'"
  obtains qs where "s' = s\<lparr>queues := qs\<rparr>" "\<And>c. cq_inv (queues s c) \<Longrightarrow> cq_inv (qs c)"
    "\<And>c. cq_content (qs c) \<subseteq># cq_content (queues s c)"
  using assms by (auto simp: svc_shrunk_def)

lemma svc_shrunk_refl [simp]: "svc_shrunk s s"
  using svc_shrunkI [of s "queues s"] by simp

lemma svc_shrunk_trans:
  assumes "svc_shrunk s t" "svc_shrunk t u"
  shows "svc_shrunk s u"
  using assms(1)
proof (rule svc_shrunkE)
  fix q1 assume t: "t = s\<lparr>queues := q1\<rparr>" "\<And>c. cq_inv (queues s c) \<Longrightarrow> cq_inv (q1 c)"
    "\<And>c. cq_content (q1 c) \<subseteq># cq_content (queues s c)"
  from assms(2) obtain q2 where u: "u = t\<lparr>queues := q2\<rparr>" "\<And>c. cq_inv (queues t c) \<Longrightarrow> cq_inv (q2 c)"
    "\<And>c. cq_content (q2 c) \<subseteq># cq_content (queues t c)" by (rule svc_shrunkE) blast
  have "svc_shrunk s (s\<lparr>queues := q2\<rparr>)"
  proof (rule svc_shrunkI)
    show "cq_content (q2 c) \<subseteq># cq_content (queues s c)" for c
      using subset_mset.order_trans [OF u(3) [of c]] t(3) [of c] by (simp add: t(1))
  qed (use t u in simp)
  then show ?thesis by (simp add: t(1) u(1))
qed

lemma svc_shrunk_inv:
  assumes inv: "svc_inv cfg ps conn s" and sh: "svc_shrunk s s'"
  shows "svc_inv cfg ps conn s'"
  using sh
proof (rule svc_shrunkE)
  fix qs assume s': "s' = s\<lparr>queues := qs\<rparr>" and qs: "\<And>c. cq_inv (queues s c) \<Longrightarrow> cq_inv (qs c)"
    "\<And>c. cq_content (qs c) \<subseteq># cq_content (queues s c)"
  have "queue_inv cfg conn qs"
  proof (rule queue_inv_shrink)
    show old: "queue_inv cfg conn (queues s)" using inv by (simp add: svc_inv_def)
    show "cq_inv (qs c)" for c using qs(1) old by (simp add: queue_inv_def)
  qed (rule qs(2))
  with inv show ?thesis by (simp add: svc_inv_def s' slots_inv_def)
qed

lemma svc_shrunk_upd:
  assumes "cq_inv (queues s c) \<Longrightarrow> cq_inv q" "cq_content q \<subseteq># cq_content (queues s c)"
  shows "svc_shrunk s (s\<lparr>queues := (queues s)(c := q)\<rparr>)"
  using assms by (intro svc_shrunkI) auto

section \<open>Cancellation\<close>

lemma cancel_classes_sound:
  "svc_shrunk s (snd (cancel_classes i cs s)) \<and>
   (if fst (cancel_classes i cs s)
    then \<exists>w. w_id w = i \<and> waiting_in s = add_mset w (waiting_in (snd (cancel_classes i cs s)))
    else snd (cancel_classes i cs s) = s \<and> (\<forall>c \<in> set cs. \<forall>w \<in># cq_content (queues s c). w_id w \<noteq> i))"
proof (induction cs arbitrary: s)
  case (Cons c cs)
  obtain out q where e: "cq_cancel i (queues s c) = (out, q)" by (cases "cq_cancel i (queues s c)")
  show ?case
  proof (cases out)
    case None
    then have "q = queues s c" "\<forall>w \<in># cq_content (queues s c). w_id w \<noteq> i"
      using cq.cancel_None [of i "queues s c"] e by simp_all
    with Cons [of s] None e show ?thesis by simp
  next
    case (Some w)
    then have w: "w_id w = i" "cq_content (queues s c) = add_mset w (cq_content q)"
      using cq.cancel_Some [of i "queues s c" w] e by simp_all
    have "waiting_in s = add_mset w (waiting_in (s\<lparr>queues := (queues s)(c := q)\<rparr>))"
      using waiting_in_upd [of s c q] w(2) by simp
    moreover have "svc_shrunk s (s\<lparr>queues := (queues s)(c := q)\<rparr>)"
      using cq.inv_cancel [of "queues s c" i] w(2) e by (intro svc_shrunk_upd) simp_all
    ultimately show ?thesis using Some e w(1) by auto
  qed
qed simp

definition all_waiting :: "(string, service_state) btree \<Rightarrow> waiter multiset" where
  "all_waiting m = sum_list (map waiting_in (bt_values m))"

text \<open>A table whose services have shrunk, entry by entry.\<close>

definition table_shrunk :: "(string, service_state) btree \<Rightarrow> (string, service_state) btree \<Rightarrow> bool" where
  "table_shrunk m m' \<longleftrightarrow> list_all2 (\<lambda>e e'. fst e' = fst e \<and> svc_shrunk (snd e) (snd e')) m m'"

lemma table_shrunk_get:
  "table_shrunk m m' \<Longrightarrow> rel_option svc_shrunk (bt_get m k) (bt_get m' k)"
  unfolding table_shrunk_def
  by (induction m m' rule: list_all2_induct) (auto simp: bt_get_def)

lemma table_shrunk_wf: "table_shrunk m m' \<Longrightarrow> bt_wf m' = bt_wf m"
proof -
  assume "table_shrunk m m'"
  then have "map fst m' = map fst m"
    unfolding table_shrunk_def by (induction m m' rule: list_all2_induct) auto
  then show ?thesis by (simp add: bt_wf_def)
qed

lemma services_inv_shrunk:
  assumes "ledger_inv l" "table_shrunk (services l) m"
  shows "ledger_inv (l\<lparr>services := m\<rparr>)"
proof -
  have rel: "rel_option svc_shrunk (bt_get (services l) k) (bt_get m k)" for k
    using assms(2) by (rule table_shrunk_get)
  have "svc_inv (config l) (permits l) k s" if "bt_get m k = Some s" for k s
    using rel [of k] that svc_inv_of [OF assms(1), of k] svc_shrunk_inv by (auto simp: option_rel_Some2)
  moreover have "bt_get m k \<noteq> None" if "bt_get (services l) k \<noteq> None" for k
    using rel [of k] that by (cases "bt_get m k") auto
  ultimately show ?thesis
    using assms table_shrunk_wf [OF assms(2)] inv_cong [of "l\<lparr>services := m\<rparr>" l]
    unfolding ledger_inv_def services_inv_def by simp
qed

lemma cancel_services_sound:
  "table_shrunk m (snd (cancel_services i m)) \<and>
   (if fst (cancel_services i m)
    then \<exists>w. w_id w = i \<and> all_waiting m = add_mset w (all_waiting (snd (cancel_services i m)))
    else snd (cancel_services i m) = m \<and> (\<forall>w \<in># all_waiting m. w_id w \<noteq> i))"
proof (induction m)
  case Nil
  show ?case by (simp add: table_shrunk_def all_waiting_def bt_values_def)
next
  case (Cons e m)
  obtain k s where e: "e = (k, s)" by (cases e)
  obtain b s' where c: "cancel_classes i all_classes s = (b, s')" by (cases "cancel_classes i all_classes s")
  note one = cancel_classes_sound [of s i all_classes, unfolded c fst_conv snd_conv]
  have refl: "table_shrunk m m" by (simp add: table_shrunk_def list_all2_same)
  show ?case
  proof (cases b)
    case True
    then show ?thesis
      using one refl by (auto simp: e c table_shrunk_def all_waiting_def bt_values_def)
  next
    case False
    then have s': "s' = s" and none: "\<forall>w \<in># waiting_in s. w_id w \<noteq> i"
      using one by (auto simp: waiting_in_eq all_classes_def)
    obtain b' m' where r: "cancel_services i m = (b', m')" by (cases "cancel_services i m")
    show ?thesis
      using Cons False none
      by (cases b') (auto simp: e c r s' table_shrunk_def all_waiting_def bt_values_def)
  qed
qed

lemma ledger_inv_cancel: "ledger_inv l \<Longrightarrow> ledger_inv (snd (cancel i l))"
  using cancel_services_sound [of "services l" i]
  by (simp add: cancel_def services_inv_shrunk case_prod_beta)

lemma cancel_found:
  "fst (cancel i l) \<Longrightarrow> \<exists>w. w_id w = i \<and> ledger_waiters l = add_mset w (ledger_waiters (snd (cancel i l)))"
  using cancel_services_sound [of "services l" i]
  by (simp add: cancel_def ledger_waiters_def all_waiting_def split: prod.splits)

lemma cancel_not_found:
  "\<not> fst (cancel i l) \<Longrightarrow> snd (cancel i l) = l \<and> (\<forall>w \<in># ledger_waiters l. w_id w \<noteq> i)"
  using cancel_services_sound [of "services l" i]
  by (simp add: cancel_def ledger_waiters_def all_waiting_def split: prod.splits)

section \<open>Release\<close>

lemma evict_retired_room: "bt_wf m \<Longrightarrow> length m \<le> retired_limit \<Longrightarrow> length (evict_retired m) < retired_limit"
proof (cases "length m \<ge> retired_limit")
  case True
  assume wf: "bt_wf m" and le: "length m \<le> retired_limit"
  have "m \<noteq> []" using True by (auto simp: retired_limit_def)
  then obtain e where e: "first_min (\<lambda>e. ret_released_at (snd e)) m = Some e"
    by (cases "first_min (\<lambda>e. ret_released_at (snd e)) m") auto
  then have "e \<in> set m" using first_min_Some [OF e] by simp
  then have "length (bt_remove (fst e) m) < length m"
    unfolding bt_remove_def by (rule length_filter_less) simp
  with True e le show ?thesis by (simp add: evict_retired_def)
qed (simp add: evict_retired_def)

lemma bt_wf_evict: "bt_wf m \<Longrightarrow> bt_wf (evict_retired m)"
  by (simp add: evict_retired_def bt_wf_remove split: option.split)

lemma bt_get_evict: "bt_get (evict_retired m) k = Some t \<Longrightarrow> bt_get m k = Some t"
  by (auto simp: evict_retired_def map_laws split: if_splits option.splits)

lemma length_bt_insert: "length (bt_insert k v m) \<le> Suc (length m)"
  by (induction m) auto

text \<open>A live permit is found, its slot is vacated on the service it was taken from, and it retires.\<close>

lemma release_live:
  assumes inv: "ledger_inv l" and live: "bt_get (permits l) (pp_id permit) = Some r"
  obtains s where "bt_get (services l) (p_conn r) = Some s" and "p_id r = pp_id permit"
    and "release permit consumed now l = (Released r,
      (put_service (p_conn r) (service_vacate (p_class r) (p_slot r) s) l)
        \<lparr>permits := bt_remove (p_id r) (permits l),
         retired := bt_insert (p_id r) \<lparr>ret_record = r, ret_consumed = consumed, ret_released_at = now\<rparr> (evict_retired (retired l)),
         consumed_total := (if consumed then sat_add64 (consumed_total l) 1 else consumed_total l),
         returned_total := (if consumed then returned_total l else sat_add64 (returned_total l) 1)\<rparr>)"
proof -
  have id: "p_id r = pp_id permit" using inv live by (simp add: ledger_inv_def permits_inv_def)
  have "bt_get (services l) (p_conn r) \<noteq> None"
    using inv live unfolding ledger_inv_def services_inv_def by blast
  then obtain s where s: "bt_get (services l) (p_conn r) = Some s" by auto
  show ?thesis
    by (rule that [OF s id]) (simp add: release_def live s id Let_def put_service_def)
qed

lemma release_removes: "permits (snd (release permit consumed now l)) = bt_remove (pp_id permit) (permits l)"
  by (cases "bt_get (permits l) (pp_id permit)") (auto simp: release_def Let_def bt_remove_absent split: option.split)

lemma ledger_inv_release:
  assumes inv: "ledger_inv l"
  shows "ledger_inv (snd (release permit consumed now l))"
proof (cases "bt_get (permits l) (pp_id permit)")
  case None
  then show ?thesis using inv by (simp add: release_def split: option.split)
next
  case (Some r)
  obtain s where s: "bt_get (services l) (p_conn r) = Some s" and id: "p_id r = pp_id permit"
    and rel: "release permit consumed now l = (Released r,
      (put_service (p_conn r) (service_vacate (p_class r) (p_slot r) s) l)
        \<lparr>permits := bt_remove (p_id r) (permits l),
         retired := bt_insert (p_id r) \<lparr>ret_record = r, ret_consumed = consumed, ret_released_at = now\<rparr> (evict_retired (retired l)),
         consumed_total := (if consumed then sat_add64 (consumed_total l) 1 else consumed_total l),
         returned_total := (if consumed then returned_total l else sat_add64 (returned_total l) 1)\<rparr>)"
    using release_live [OF inv Some] by blast
  let ?l' = "snd (release permit consumed now l)" and ?ps = "bt_remove (p_id r) (permits l)"
  have live: "bt_get (permits l) (p_id r) = Some r" using Some id by simp
  have parts: "cfg_bounds (config l)" "permits_inv l" "retired_inv l" "services_inv l"
    using inv by (simp_all add: ledger_inv_def)
  have iss: "issued ?l' = issued l" by (simp add: rel issued_def fun_eq_iff)
  have wf: "bt_wf (permits l)" using parts(2) by (simp add: permits_inv_def)
  have "permits_inv ?l'"
    using parts(2) iss by (simp add: permits_inv_def rel map_laws bt_wf_remove)
  moreover have "retired_inv ?l'"
  proof -
    have "length (retired ?l') \<le> retired_limit"
    proof -
      have "length (retired ?l') \<le> Suc (length (evict_retired (retired l)))"
        by (simp add: rel length_bt_insert)
      also have "\<dots> \<le> retired_limit"
        using evict_retired_room [of "retired l"] parts(3) by (simp add: retired_inv_def)
      finally show ?thesis .
    qed
    moreover have "issued l (p_id r)" using parts(2) live unfolding permits_inv_def by blast
    ultimately show ?thesis
      using parts(3) iss
      by (auto simp: retired_inv_def rel map_laws bt_wf_insert bt_wf_evict dest!: bt_get_evict split: if_splits)
  qed
  moreover have "svc_inv (config l) ?ps (p_conn r) (service_vacate (p_class r) (p_slot r) s)"
    using svc_inv_of [OF inv s] slots_inv_vacate [OF _ wf live, of "config l" s]
    by (simp add: svc_inv_def service_vacate_def Let_def)
  moreover have "svc_inv (config l) ?ps d t" if "d \<noteq> p_conn r" "bt_get (services l) d = Some t" for d t
    using svc_inv_of [OF inv that(2)] slots_inv_vacate_other [OF _ wf live, of "config l" d t] that(1)
    by (auto simp: svc_inv_def)
  moreover have "bt_get (services l) (p_conn q) \<noteq> None" if "bt_get (permits l) i = Some q" for i q
    using parts(4) that unfolding services_inv_def by blast
  ultimately show ?thesis
    using parts(1,4) by (simp add: ledger_inv_def services_inv_def rel map_laws bt_wf_insert)
qed

section \<open>Batch admission\<close>

text \<open>What one admission can change at all.\<close>

definition rest_of :: "ledger \<Rightarrow> ledger" where
  "rest_of l = l\<lparr>services := [], permits := [], next_permit := 0, granted_total := 0\<rparr>"

definition admit_frame :: "string set \<Rightarrow> ledger \<Rightarrow> ledger \<Rightarrow> bool" where
  "admit_frame conns l l' \<longleftrightarrow> rest_of l' = rest_of l
     \<and> (bt_wf (services l) \<longrightarrow> bt_wf (services l'))
     \<and> (\<forall>d. d \<notin> conns \<longrightarrow> bt_get (services l') d = bt_get (services l) d)"

lemma admit_frame_refl: "admit_frame conns l l"
  by (simp add: admit_frame_def)

lemma admit_frame_trans: "admit_frame A l l' \<Longrightarrow> admit_frame A l' l'' \<Longrightarrow> admit_frame A l l''"
  by (simp add: admit_frame_def)

lemma admit_frame_intro:
  assumes "c \<in> conns" "rest_of l' = rest_of l" "services l' = bt_insert c s (bt_remove c (services l))"
  shows "admit_frame conns l l'"
  using assms by (auto simp: admit_frame_def bt_wf_insert bt_wf_remove map_laws)

lemma try_admit_frame: "c_conn claim \<in> conns \<Longrightarrow> admit_frame conns l (snd (try_admit claim now l))"
  by (auto simp: try_admit_def commit_grant_def Let_def rest_of_def
      intro: admit_frame_refl admit_frame_intro [of "c_conn claim"] split: option.split)

lemma admit_each_frame:
  "c_conn ` set claims \<subseteq> conns \<Longrightarrow> admit_frame conns l (snd (admit_each claims now l acc))"
proof (induction claims arbitrary: l acc)
  case Nil
  show ?case by (simp add: admit_frame_refl)
next
  case (Cons claim claims)
  obtain out l' where e: "try_admit claim now l = (out, l')" by (cases "try_admit claim now l")
  have "admit_frame conns l l'"
    using try_admit_frame [of claim conns l now] Cons.prems e by simp
  with Cons e show ?case by (cases out) (auto intro: admit_frame_trans)
qed

lemma restore_services_get:
  "bt_get (restore_services (map (\<lambda>c. (c, bt_get m0 c)) ks) m) d = (if d \<in> set ks then bt_get m0 d else bt_get m d)"
  unfolding restore_services_def
  by (induction ks arbitrary: m) (auto simp: map_laws split: option.split)

lemma restore_services_wf: "bt_wf m \<Longrightarrow> bt_wf (restore_services b m)"
  unfolding restore_services_def
  by (induction b arbitrary: m) (auto simp: bt_wf_insert bt_wf_remove split: option.split)

lemma backup_keys:
  "set (bt_keys (fold (\<lambda>claim m. bt_insert (c_conn claim) () m) claims m)) = c_conn ` set claims \<union> set (bt_keys m)"
  by (induction claims arbitrary: m) (auto simp: bt_keys_get map_laws split: if_splits)

lemma try_admit_many_refused:
  assumes wf: "bt_wf (services l)" and ref: "fst (try_admit_many claims now l) = Inl reason"
  shows "\<exists>n. snd (try_admit_many claims now l) = l\<lparr>next_permit := n\<rparr>"
proof -
  let ?l' = "snd (admit_each claims now l [])"
  let ?S = "restore_services (backup_of claims l) (services ?l')"
  have r: "fst (admit_each claims now l []) = Inl reason"
    using ref by (auto simp: try_admit_many_def Let_def split: prod.splits sum.splits)
  have fr: "admit_frame (c_conn ` set claims) l ?l'" by (rule admit_each_frame) simp
  have "?S = services l"
  proof (rule bt_ext)
    show "bt_wf ?S" using fr wf by (simp add: admit_frame_def restore_services_wf)
    show "bt_get ?S d = bt_get (services l) d" for d
      using fr backup_keys [of claims "[]"]
      unfolding backup_of_def restore_services_get by (auto simp: admit_frame_def bt_keys_def)
  qed (rule wf)
  moreover have "?l'\<lparr>services := services l, permits := permits l, granted_total := granted_total l\<rparr>
      = l\<lparr>next_permit := next_permit ?l'\<rparr>"
    using fr by (cases ?l', cases l) (simp add: admit_frame_def rest_of_def)
  ultimately have "snd (try_admit_many claims now l) = l\<lparr>next_permit := next_permit ?l'\<rparr>"
    using r by (simp add: try_admit_many_def Let_def case_prod_beta split: sum.splits)
  then show ?thesis by blast
qed

text \<open>What a grant looks like from outside.\<close>

lemma try_admit_granted:
  assumes inv: "ledger_inv l" and lim: "next_permit l < u64_max" and gr: "try_admit claim now l = (Granted r, l')"
  shows "p_org r = c_org claim" "p_conn r = c_conn claim" "p_principal r = c_principal claim"
    and "p_class r = c_class claim" "p_waiter r = None"
    and "bt_get (permits l) (p_id r) = None" "permits l' = bt_insert (p_id r) r (permits l)"
    and "next_permit l' = Suc (next_permit l)"
proof -
  obtain s slot where
    "try_admit claim now l =
       (let (r, l') = commit_grant claim slot None now (put_service (c_conn claim) (service_occupy (c_class claim) slot s) l)
        in (Granted r, l'))"
  proof (cases rule: try_admit_cases [OF inv, of claim now])
    case 1
    with gr show thesis by simp
  next
    case (2 s slot)
    from that [OF 2(9)] show thesis .
  qed
  then have r: "r = fst (commit_grant claim slot None now (put_service (c_conn claim) (service_occupy (c_class claim) slot s) l))"
    and l': "l' = snd (commit_grant claim slot None now (put_service (c_conn claim) (service_occupy (c_class claim) slot s) l))"
    using gr by (simp_all add: case_prod_beta Let_def)
  show "p_org r = c_org claim" "p_conn r = c_conn claim" "p_principal r = c_principal claim"
    "p_class r = c_class claim" "p_waiter r = None"
    by (simp_all add: r commit_grant_simps)
  have "\<not> issued l (p_id r)" using not_issued_next [OF lim] by (simp add: r commit_grant_simps)
  then show "bt_get (permits l) (p_id r) = None"
    using inv unfolding ledger_inv_def permits_inv_def by (metis option.exhaust)
  show "permits l' = bt_insert (p_id r) r (permits l)" "next_permit l' = Suc (next_permit l)"
    using lim by (simp_all add: r l' commit_grant_simps sat_add64_def)
qed

definition admitted_as :: "ledger \<Rightarrow> budget_claim \<Rightarrow> permit_record \<Rightarrow> bool" where
  "admitted_as l claim r \<longleftrightarrow> p_conn r = c_conn claim \<and> p_class r = c_class claim \<and> p_org r = c_org claim
     \<and> p_principal r = c_principal claim \<and> bt_get (permits l) (p_id r) = Some r"

lemma admit_each_granted:
  assumes "ledger_inv l" "next_permit l + length claims \<le> u64_max"
    and "admit_each claims now l acc = (Inr rs, l')"
  shows "ledger_inv l' \<and> (\<exists>new. rs = acc @ new \<and> list_all2 (admitted_as l') claims new)
    \<and> (\<forall>i r. bt_get (permits l) i = Some r \<longrightarrow> bt_get (permits l') i = Some r)
    \<and> bt_count (\<lambda>_. True) (permits l') = bt_count (\<lambda>_. True) (permits l) + length claims"
  using assms
proof (induction claims arbitrary: l acc)
  case (Cons claim claims)
  from Cons.prems(3) obtain r l1 where e: "try_admit claim now l = (Granted r, l1)"
    by (cases "fst (try_admit claim now l)"; cases "try_admit claim now l") auto
  have lim: "next_permit l < u64_max" using Cons.prems(2) by simp
  note g = try_admit_granted [OF Cons.prems(1) lim e]
  have inv1: "ledger_inv l1" using ledger_inv_try_admit [OF Cons.prems(1) lim, of claim now] e by simp
  have IH: "ledger_inv l' \<and> (\<exists>new. rs = (acc @ [r]) @ new \<and> list_all2 (admitted_as l') claims new)
    \<and> (\<forall>i r. bt_get (permits l1) i = Some r \<longrightarrow> bt_get (permits l') i = Some r)
    \<and> bt_count (\<lambda>_. True) (permits l') = bt_count (\<lambda>_. True) (permits l1) + length claims"
    using Cons.prems(2,3) e g(8) inv1 by (intro Cons.IH) simp_all
  have keep: "bt_get (permits l1) i = Some q" if "bt_get (permits l) i = Some q" for i q
    using that g(6,7) by (auto simp: map_laws)
  have "admitted_as l' claim r"
    using IH g by (simp add: admitted_as_def map_laws)
  moreover have "bt_count (\<lambda>_. True) (permits l1) = Suc (bt_count (\<lambda>_. True) (permits l))"
    using g(6,7) by (simp add: bt.cnt_fresh)
  ultimately show ?case using IH keep by (auto intro: exI [of _ "r # new" for new])
qed simp

end
