(* ===== verification/Budget_Dispatch.thy ===== *)
theory Budget_Dispatch
  imports Budget_Operations
begin

text \<open>
  The scheduler of the waiting queues (\<open>execution/runtime/budget/dispatch.rs\<close>). \<open>pump\<close> expires waiters,
  then serves each class from its reserved slots and finally the shared pool by weighted rotation.
  Its two loops are partial functions, so that a run that does not end is the value None; under the
  ledger invariant they are total.
\<close>

section \<open>Definitions\<close>

type_synonym dispatch_state = "ledger \<times> service_state \<times> pump_report"

definition claim_of_waiter :: "waiter \<Rightarrow> budget_claim" where
  "claim_of_waiter w =
     \<lparr>c_org = w_org w, c_conn = w_conn w, c_principal = w_principal w, c_class = w_class w,
      c_pinned = False, c_slots = w_slots w, c_worker = None\<rparr>"

definition service_full :: "budget_config \<Rightarrow> string \<Rightarrow> ledger \<Rightarrow> service_state \<Rightarrow> bool" where
  "service_full cfg conn l s \<longleftrightarrow>
     sat_add32 (physical s) (as_u32 (permits_on conn (permits l))) \<ge> service_physical_connections cfg"

definition grant_waiter ::
    "resource_class \<Rightarrow> slot_kind \<Rightarrow> waiter \<Rightarrow> nat \<Rightarrow> dispatch_state \<Rightarrow> dispatch_state" where
  "grant_waiter c slot w now st =
     (case st of (l, s, report) \<Rightarrow>
        (let (r, l') = commit_grant (claim_of_waiter w) slot (Some (w_id w)) now l
         in (l', service_occupy c slot s, report\<lparr>granted := granted report @ [r]\<rparr>)))"

text \<open>
  One pass over the classes: whether the function returned early, whether something was granted, and
  the new state.
\<close>

fun reserved_pass ::
    "budget_config \<Rightarrow> string \<Rightarrow> nat \<Rightarrow> resource_class list \<Rightarrow> bool \<Rightarrow> dispatch_state \<Rightarrow> bool \<times> bool \<times> dispatch_state" where
  "reserved_pass cfg conn now [] granted_any st = (False, granted_any, st)"
| "reserved_pass cfg conn now (c # cs) granted_any (l, s, report) =
     (if service_full cfg conn l s then (True, granted_any, (l, s, report))
      else if bucket_reserved_headroom (buckets s c) (service_quota cfg) c = 0 \<or> cq_is_empty (queues s c) then
        reserved_pass cfg conn now cs granted_any (l, s, report)
      else case cq_pop (queues s c) of
        (None, q) \<Rightarrow> reserved_pass cfg conn now cs granted_any (l, s\<lparr>queues := (queues s)(c := q)\<rparr>, report)
      | (Some w, q) \<Rightarrow>
          reserved_pass cfg conn now cs True
            (grant_waiter c Reserved w now (l, s\<lparr>queues := (queues s)(c := q)\<rparr>, report)))"

partial_function (option) reserved_loop ::
    "budget_config \<Rightarrow> string \<Rightarrow> nat \<Rightarrow> dispatch_state \<Rightarrow> (bool \<times> dispatch_state) option" where
  "reserved_loop cfg conn now st =
     (case reserved_pass cfg conn now all_classes False st of
        (returned, granted_any, st') \<Rightarrow>
          if returned then Some (True, st')
          else if granted_any then reserved_loop cfg conn now st'
          else Some (False, st'))"

partial_function (option) shared_loop ::
    "budget_config \<Rightarrow> string \<Rightarrow> nat \<Rightarrow> dispatch_state \<Rightarrow> dispatch_state option" where
  "shared_loop cfg conn now st =
     (case st of (l, s, report) \<Rightarrow>
        if shared_used s < q_shared (service_quota cfg) then
          if service_full cfg conn l s then Some st
          else (case rr_pick (queues s) (rr s) of
                  (None, credit) \<Rightarrow> Some (l, s\<lparr>rr := credit\<rparr>, report)
                | (Some c, credit) \<Rightarrow>
                    (case cq_pop (queues s c) of
                       (None, q) \<Rightarrow>
                         shared_loop cfg conn now (l, s\<lparr>rr := credit, queues := (queues s)(c := q)\<rparr>, report)
                     | (Some w, q) \<Rightarrow>
                         shared_loop cfg conn now
                           (grant_waiter c Shared w now (l, s\<lparr>rr := credit, queues := (queues s)(c := q)\<rparr>, report))))
        else Some st)"

declare reserved_loop.simps [code] shared_loop.simps [code]

definition dispatch_service ::
    "budget_config \<Rightarrow> string \<Rightarrow> nat \<Rightarrow> dispatch_state \<Rightarrow> dispatch_state option" where
  "dispatch_service cfg conn now st =
     (case reserved_loop cfg conn now st of
        None \<Rightarrow> None
      | Some (returned, st') \<Rightarrow> if returned then Some st' else shared_loop cfg conn now st')"

fun expire_classes :: "nat \<Rightarrow> resource_class list \<Rightarrow> service_state \<Rightarrow> nat list \<times> service_state" where
  "expire_classes now [] s = ([], s)"
| "expire_classes now (c # cs) s =
     (let (gone, q) = cq_expire now (queues s c);
          (ids, s') = expire_classes now cs (s\<lparr>queues := (queues s)(c := q)\<rparr>)
      in (map w_id gone @ ids, s'))"

fun pump_services ::
    "string list \<Rightarrow> budget_config \<Rightarrow> nat \<Rightarrow> ledger \<times> pump_report \<Rightarrow> (ledger \<times> pump_report) option" where
  "pump_services [] cfg now (l, report) = Some (l, report)"
| "pump_services (conn # conns) cfg now (l, report) =
     (case bt_get (services l) conn of
        None \<Rightarrow> pump_services conns cfg now (l, report)
      | Some s \<Rightarrow>
          (let l1 = l\<lparr>services := bt_remove conn (services l)\<rparr>;
               (ids, s1) = expire_classes now all_classes s;
               report1 = report\<lparr>timed_out := timed_out report @ ids\<rparr>
           in case (if draining s1 then Some (l1, s1, report1)
                    else dispatch_service cfg conn now (l1, s1, report1)) of
                None \<Rightarrow> None
              | Some (l2, s2, report2) \<Rightarrow>
                  pump_services conns cfg now (l2\<lparr>services := bt_insert conn s2 (services l2)\<rparr>, report2)))"

definition pump :: "nat \<Rightarrow> ledger \<Rightarrow> (ledger \<times> pump_report) option" where
  "pump now l = pump_services (bt_keys (services l)) (config l) now (l, \<lparr>granted = [], timed_out = []\<rparr>)"

section \<open>One grant\<close>

text \<open>A served waiter becomes a permit of the same owner, service and class.\<close>

definition served_by :: "waiter \<Rightarrow> permit_record \<Rightarrow> bool" where
  "served_by w r \<longleftrightarrow> p_waiter r = Some (w_id w) \<and> p_conn r = w_conn w \<and> p_class r = w_class w
     \<and> p_principal r = w_principal w \<and> p_org r = w_org w"

definition add_permits :: "permit_record list \<Rightarrow> (string, permit_record) btree \<Rightarrow> (string, permit_record) btree" where
  "add_permits rs m = foldl (\<lambda>m r. bt_insert (p_id r) r m) m rs"

lemma add_permits_simps [simp]:
  "add_permits [] m = m" "add_permits (r # rs) m = add_permits rs (bt_insert (p_id r) r m)"
  "add_permits (rs @ rs') m = add_permits rs' (add_permits rs m)"
  by (simp_all add: add_permits_def)

text \<open>The invariant of a dispatch in progress, and what a dispatch may do.\<close>

definition dinv :: "budget_config \<Rightarrow> string \<Rightarrow> dispatch_state \<Rightarrow> bool" where
  "dinv cfg conn st \<longleftrightarrow>
     (case st of (l, s, report) \<Rightarrow> config l = cfg \<and> ledger_inv (put_service conn s l)
        \<and> next_permit l + size (waiting_in s) \<le> u64_max)"

text \<open>A permit whose number was drawn between two states of the ledger.\<close>

definition issued_between :: "ledger \<Rightarrow> ledger \<Rightarrow> permit_record \<Rightarrow> bool" where
  "issued_between l l' r \<longleftrightarrow> (\<exists>n. next_permit l < n \<and> n \<le> next_permit l' \<and> p_id r = permit_id n)"

lemma issued_between_widen:
  "issued_between l1 l2 r \<Longrightarrow> next_permit l0 \<le> next_permit l1 \<Longrightarrow> next_permit l2 \<le> next_permit l3 \<Longrightarrow> issued_between l0 l3 r"
  unfolding issued_between_def by (meson le_less_trans le_trans)

lemma issued_between_services [simp]: "issued_between (l\<lparr>services := m\<rparr>) l' = issued_between l l'"
  by (simp add: fun_eq_iff issued_between_def)

lemma all_issued_between:
  assumes "list_all (issued_between l1 l2) new" "list_all (issued_between l2 l3) new'"
    and "next_permit l1 \<le> next_permit l2" "next_permit l2 \<le> next_permit l3"
  shows "list_all (issued_between l1 l3) (new @ new')"
  using assms by (auto simp: list_all_iff intro: issued_between_widen)

definition drel :: "dispatch_state \<Rightarrow> dispatch_state \<Rightarrow> bool" where
  "drel st st' \<longleftrightarrow>
     (case (st, st') of ((l, s, report), (l', s', report')) \<Rightarrow>
        \<exists>ws new. list_all2 served_by ws new \<and> waiting_in s = mset ws + waiting_in s'
          \<and> granted report' = granted report @ new \<and> timed_out report' = timed_out report
          \<and> permits l' = add_permits new (permits l) \<and> services l' = services l \<and> config l' = config l
          \<and> next_permit l' = next_permit l + length new \<and> next_waiter l' = next_waiter l
          \<and> draining s' = draining s \<and> physical s' = physical s
          \<and> (\<forall>P. bt_count P (permits l') = bt_count P (permits l) + length (filter P new)) \<and> rest_of l' = rest_of l
          \<and> list_all (issued_between l l') new)"

lemma drel_refl [simp]: "drel st st"
  by (cases st) (auto simp: drel_def intro!: exI [of _ "[]"])

lemma drel_trans: "drel a b \<Longrightarrow> drel b c \<Longrightarrow> drel a c"
proof -
  assume ab: "drel a b" and bc: "drel b c"
  obtain l s r l' s' r' l'' s'' r'' where st: "a = (l, s, r)" "b = (l', s', r')" "c = (l'', s'', r'')"
    by (cases a; cases b; cases c)
  from ab obtain ws new where 1: "list_all2 served_by ws new" "waiting_in s = mset ws + waiting_in s'"
    "granted r' = granted r @ new" "timed_out r' = timed_out r" "permits l' = add_permits new (permits l)"
    "services l' = services l" "config l' = config l" "next_permit l' = next_permit l + length new"
    "next_waiter l' = next_waiter l" "draining s' = draining s" "physical s' = physical s"
    "\<forall>P. bt_count P (permits l') = bt_count P (permits l) + length (filter P new)" "rest_of l' = rest_of l" "list_all (issued_between l l') new"
    by (auto simp: drel_def st)
  from bc obtain ws' new' where 2: "list_all2 served_by ws' new'" "waiting_in s' = mset ws' + waiting_in s''"
    "granted r'' = granted r' @ new'" "timed_out r'' = timed_out r'" "permits l'' = add_permits new' (permits l')"
    "services l'' = services l'" "config l'' = config l'" "next_permit l'' = next_permit l' + length new'"
    "next_waiter l'' = next_waiter l'" "draining s'' = draining s'" "physical s'' = physical s'"
    "\<forall>P. bt_count P (permits l'') = bt_count P (permits l') + length (filter P new')" "rest_of l'' = rest_of l'" "list_all (issued_between l' l'') new'"
    by (auto simp: drel_def st)
  have "\<forall>P. bt_count P (permits l'') = bt_count P (permits l) + length (filter P (new @ new'))"
    using 1(12) 2(12) by simp
  moreover have "list_all (issued_between l l'') (new @ new')"
    using all_issued_between [OF 1(14) 2(14)] 1(8) 2(8) by simp
  ultimately show ?thesis
    unfolding drel_def st prod.case
    by (intro exI [of _ "ws @ ws'"] exI [of _ "new @ new'"] conjI)
      (simp_all add: 1 2 list_all2_appendI)
qed

lemma drel_size:
  assumes "drel (l, s, r) (l', s', r')"
  shows "size (waiting_in s') \<le> size (waiting_in s)"
  using assms by (auto simp: drel_def)

lemma dinv_svc: "dinv cfg conn (l, s, report) \<Longrightarrow> svc_inv cfg (permits l) conn s \<and> cfg_bounds cfg"
  using ledger_inv_put_svc [of conn s l] by (auto simp: dinv_def ledger_inv_def)

lemma service_full_exact:
  assumes "dinv cfg conn (l, s, report)"
  shows "service_full cfg conn l s \<longleftrightarrow> physical s + permits_on conn (permits l) \<ge> service_physical_connections cfg"
proof -
  have le: "physical s + permits_on conn (permits l) \<le> u32_max"
    using dinv_svc [OF assms] by (auto simp: svc_inv_def slots_inv_def cfg_bounds_def)
  then have "as_u32 (permits_on conn (permits l)) = permits_on conn (permits l)"
    by (intro as_u32_small) simp
  with le show ?thesis by (simp add: service_full_def sat_add32_exact)
qed

text \<open>Removing waiters or moving credits of the checked-out service.\<close>

lemma dinv_requeue:
  assumes inv: "dinv cfg conn (l, s, report)" and q: "cq_inv q" "cq_content q \<subseteq># cq_content (queues s c)"
    and rr: "rr_inv credit"
  shows "dinv cfg conn (l, s\<lparr>rr := credit, queues := (queues s)(c := q)\<rparr>, report)"
proof -
  let ?s = "s\<lparr>rr := credit, queues := (queues s)(c := q)\<rparr>"
  have "queue_inv cfg conn ((queues s)(c := q))"
    using dinv_svc [OF inv] q by (intro queue_inv_shrink1) (simp_all add: svc_inv_def)
  then have "svc_inv cfg (permits l) conn ?s"
    using dinv_svc [OF inv] rr by (simp add: svc_inv_def slots_inv_def)
  then have "ledger_inv (put_service conn ?s l)"
    using inv ledger_inv_put_again [of conn s l ?s] by (simp add: dinv_def)
  moreover have "size (waiting_in ?s) \<le> size (waiting_in s)"
    using size_mset_mono [OF q(2)] by (cases c) (simp_all add: waiting_in_eq)
  ultimately show ?thesis using inv by (simp add: dinv_def)
qed

lemma waiting_in_rr [simp]: "waiting_in (s\<lparr>rr := credit\<rparr>) = waiting_in s"
  by (simp add: waiting_in_eq)

lemma service_occupy_simps [simp]:
  "queues (service_occupy c slot s) = queues s" "draining (service_occupy c slot s) = draining s"
  "physical (service_occupy c slot s) = physical s" "rr (service_occupy c slot s) = rr s"
  by (simp_all add: service_occupy_def Let_def)

lemma waiting_in_occupy [simp]: "waiting_in (service_occupy c slot s) = waiting_in s"
  by (simp add: waiting_in_eq)

lemma pop_grant_step:
  defines "st' \<equiv> \<lambda>c slot w now l s credit q report.
      grant_waiter c slot w now (l, s\<lparr>rr := credit, queues := (queues s)(c := q)\<rparr>, report)"
  assumes inv: "dinv cfg conn (l, s, report)" and pop: "cq_pop (queues s c) = (Some w, q)"
    and room: "\<not> service_full cfg conn l s" and rr: "rr_inv credit"
    and slot: "slot = Reserved \<and> bucket_reserved_headroom (buckets s c) (service_quota cfg) c \<noteq> 0
       \<or> slot = Shared \<and> shared_used s < q_shared (service_quota cfg) \<and> c \<noteq> Control"
  shows "dinv cfg conn (st' c slot w now l s credit q report)"
    and "drel (l, s, report) (st' c slot w now l s credit q report)"
    and "size (waiting_in (fst (snd (st' c slot w now l s credit q report)))) < size (waiting_in s)"
proof -
  let ?st = "st' c slot w now l s credit q report"
  let ?s1 = "s\<lparr>rr := credit, queues := (queues s)(c := q)\<rparr>" and ?claim = "claim_of_waiter w"
  let ?r = "fst (commit_grant ?claim slot (Some (w_id w)) now l)"
  let ?l' = "snd (commit_grant ?claim slot (Some (w_id w)) now l)"
  have st: "?st = (?l', service_occupy c slot ?s1, report\<lparr>granted := granted report @ [?r]\<rparr>)"
    by (simp add: st'_def grant_waiter_def case_prod_beta Let_def)
  have content: "cq_content (queues s c) = add_mset w (cq_content q)"
    using cq.pop_Some [of "queues s c" w] pop by simp
  have q: "cq_inv q" using cq.inv_pop [of "queues s c"] dinv_svc [OF inv] pop by (simp add: svc_inv_def queue_inv_def)
  have fits: "waiter_fits conn c w"
    using dinv_svc [OF inv] content by (simp add: svc_inv_def queue_inv_def)
  have inv1: "dinv cfg conn (l, ?s1, report)"
    using content by (intro dinv_requeue [OF inv q _ rr]) simp
  have waiting: "waiting_in s = add_mset w (waiting_in ?s1)"
    using content by (cases c) (simp_all add: waiting_in_eq)
  have lim: "next_permit l < u64_max" using inv by (simp add: dinv_def waiting)
  have cfg: "config l = cfg" using inv by (simp add: dinv_def)
  have "physical s + permits_on conn (permits l) < service_physical_connections cfg"
    using room service_full_exact [OF inv] by simp
  then have "slot_room l conn ?s1 c slot"
    using slot by (auto simp: slot_room_def cfg bucket_reserved_headroom_def reserved_of_def)
  then have "ledger_inv (put_service conn (service_occupy c slot ?s1) ?l')"
    using inv1 lim fits by (intro ledger_inv_grant) (simp_all add: dinv_def waiter_fits_def claim_of_waiter_def)
  moreover have "next_permit ?l' + size (waiting_in ?s1) \<le> u64_max"
    using inv lim by (simp add: dinv_def waiting commit_grant_simps sat_add64_def)
  ultimately show "dinv cfg conn ?st"
    by (simp add: dinv_def st cfg commit_grant_simps)
  have "served_by w ?r"
    using fits by (simp add: served_by_def commit_grant_simps waiter_fits_def claim_of_waiter_def)
  moreover have "bt_get (permits l) (permit_id (sat_add64 (next_permit l) 1)) = None"
    using inv lim grant_id_fresh [of "put_service conn s l"] by (simp add: dinv_def)
  then have "\<forall>P. bt_count P (permits ?l') = bt_count P (permits l) + length (filter P [?r])"
    by (simp add: commit_grant_simps bt.cnt_fresh)
  moreover have "rest_of ?l' = rest_of l" by (simp add: rest_of_def commit_grant_simps)
  moreover have "list_all (issued_between l ?l') [?r]"
    using lim by (auto simp: issued_between_def commit_grant_simps sat_add64_def)
  ultimately show "drel (l, s, report) ?st"
    using lim unfolding drel_def st prod.case
    by (intro exI [of _ "[w]"] exI [of _ "[?r]"])
      (simp add: waiting commit_grant_simps sat_add64_def)
  show "size (waiting_in (fst (snd ?st))) < size (waiting_in s)"
    by (simp add: st waiting)
qed

section \<open>The loops\<close>

lemma pop_nonempty:
  "dinv cfg conn (l, s, report) \<Longrightarrow> \<not> cq_is_empty (queues s c) \<Longrightarrow> \<exists>w q. cq_pop (queues s c) = (Some w, q)"
  using dinv_svc [of cfg conn l s report] cq.pop_if_nonempty [of "queues s c"]
  by (cases "cq_pop (queues s c)") (auto simp: svc_inv_def queue_inv_def cq_is_empty_def)

text \<open>A class that a pass leaves alone although the service has room.\<close>

definition reserved_idle :: "budget_config \<Rightarrow> service_state \<Rightarrow> resource_class \<Rightarrow> bool" where
  "reserved_idle cfg s c \<longleftrightarrow>
     bucket_reserved_headroom (buckets s c) (service_quota cfg) c = 0 \<or> cq_is_empty (queues s c)"

lemma reserved_pass_sound:
  assumes "dinv cfg conn st" "reserved_pass cfg conn now cs any st = (returned, any', st')"
  shows "dinv cfg conn st' \<and> drel st st' \<and> (any \<longrightarrow> any')
    \<and> (any' \<and> \<not> any \<longrightarrow> size (waiting_in (fst (snd st'))) < size (waiting_in (fst (snd st))))
    \<and> (returned \<longrightarrow> service_full cfg conn (fst st') (fst (snd st')))
    \<and> (\<not> returned \<and> \<not> any' \<longrightarrow> st' = st \<and> (\<forall>c \<in> set cs. reserved_idle cfg (fst (snd st)) c))"
  using assms
proof (induction cfg conn now cs any st rule: reserved_pass.induct)
  case (1 cfg conn now any st)
  then show ?case by simp
next
  case (2 cfg conn now c cs any l s report)
  consider (full) "service_full cfg conn l s"
    | (idle) "\<not> service_full cfg conn l s" "reserved_idle cfg s c"
    | (busy) w q where "\<not> service_full cfg conn l s" "\<not> reserved_idle cfg s c" "cq_pop (queues s c) = (Some w, q)"
    using pop_nonempty [OF 2(4), of c] unfolding reserved_idle_def by blast
  then show ?case
  proof cases
    case full
    with 2 show ?thesis by auto
  next
    case idle
    with 2(1,4,5) show ?thesis by (auto simp: reserved_idle_def)
  next
    case busy
    let ?st = "grant_waiter c Reserved w now (l, s\<lparr>queues := (queues s)(c := q)\<rparr>, report)"
    have rr: "rr_inv (rr s)" using dinv_svc [OF 2(4)] by (simp add: svc_inv_def)
    have slot: "Reserved = Reserved \<and> bucket_reserved_headroom (buckets s c) (service_quota cfg) c \<noteq> 0
       \<or> Reserved = Shared \<and> shared_used s < q_shared (service_quota cfg) \<and> c \<noteq> Control"
      using busy(2) by (simp add: reserved_idle_def)
    note step = pop_grant_step [OF 2(4) busy(3,1) rr slot, of now, simplified]
    have run: "reserved_pass cfg conn now cs True ?st = (returned, any', st')"
      using 2(5) busy by (simp add: reserved_idle_def)
    obtain l1 s1 r1 where e: "?st = (l1, s1, r1)" by (cases ?st)
    have "dinv cfg conn st' \<and> drel ?st st' \<and> any'
       \<and> (returned \<longrightarrow> service_full cfg conn (fst st') (fst (snd st')))"
      using 2(3) [OF _ _ busy(3) [symmetric] refl step(1) run] busy by (auto simp: reserved_idle_def)
    moreover from this have "size (waiting_in (fst (snd st'))) \<le> size (waiting_in (fst (snd ?st)))"
      by (cases st') (auto simp: e intro: drel_size)
    ultimately show ?thesis
      using step(2,3) by (auto intro: drel_trans)
  qed
qed

lemma reserved_loop_sound:
  assumes "dinv cfg conn st"
  shows "\<exists>returned st'. reserved_loop cfg conn now st = Some (returned, st') \<and> dinv cfg conn st' \<and> drel st st'
    \<and> (if returned then service_full cfg conn (fst st') (fst (snd st'))
       else \<forall>c. reserved_idle cfg (fst (snd st')) c)"
  using assms
proof (induction "size (waiting_in (fst (snd st)))" arbitrary: st rule: less_induct)
  case less
  obtain returned any' st1 where p: "reserved_pass cfg conn now all_classes False st = (returned, any', st1)"
    by (cases "reserved_pass cfg conn now all_classes False st")
  note one = reserved_pass_sound [OF less.prems p]
  have loop: "reserved_loop cfg conn now st =
      (if returned then Some (True, st1) else if any' then reserved_loop cfg conn now st1 else Some (False, st1))"
    by (subst reserved_loop.simps) (simp add: p)
  show ?case
  proof (cases "\<not> returned \<and> any'")
    case True
    then obtain b st' where "reserved_loop cfg conn now st1 = Some (b, st')" "dinv cfg conn st'" "drel st1 st'"
      "if b then service_full cfg conn (fst st') (fst (snd st')) else \<forall>c. reserved_idle cfg (fst (snd st')) c"
      using less.hyps [of st1] one by auto
    with True one loop show ?thesis by (auto intro: drel_trans)
  next
    case False
    show ?thesis
    proof (cases returned)
      case True
      with one loop show ?thesis by auto
    next
      case False
      with \<open>\<not> (\<not> returned \<and> any')\<close> have "\<not> any'" by simp
      with False one have idle: "\<forall>c. reserved_idle cfg (fst (snd st)) c" and same: "st1 = st"
        using all_classes_complete by blast+
      with False \<open>\<not> any'\<close> loop have "reserved_loop cfg conn now st = Some (False, st)" by simp
      with idle less.prems show ?thesis by (intro exI [of _ False] exI [of _ st]) simp
    qed
  qed
qed

text \<open>The shared pool has nothing to hand out: it is used up, or nobody waits for it.\<close>

definition shared_idle :: "budget_config \<Rightarrow> service_state \<Rightarrow> bool" where
  "shared_idle cfg s \<longleftrightarrow> q_shared (service_quota cfg) \<le> shared_used s \<or> (\<forall>c \<in> set shared_members. cq_is_empty (queues s c))"

lemma reserved_idle_shared_grant:
  assumes "reserved_idle cfg s d" "\<not> cq_is_empty (queues s c)"
  shows "reserved_idle cfg (fst (snd (grant_waiter c Shared w now (l, s\<lparr>rr := credit, queues := (queues s)(c := q)\<rparr>, report)))) d"
  using assms
  by (auto simp: reserved_idle_def grant_waiter_def case_prod_beta Let_def service_occupy_def
      bucket_reserved_headroom_def bucket_occupy_def)

lemma shared_loop_sound:
  assumes "dinv cfg conn st"
  shows "\<exists>st'. shared_loop cfg conn now st = Some st' \<and> dinv cfg conn st' \<and> drel st st'
    \<and> (service_full cfg conn (fst st') (fst (snd st')) \<or> shared_idle cfg (fst (snd st')))
    \<and> (\<forall>c. reserved_idle cfg (fst (snd st)) c \<longrightarrow> reserved_idle cfg (fst (snd st')) c)"
  using assms
proof (induction "size (waiting_in (fst (snd st)))" arbitrary: st rule: less_induct)
  case less
  obtain l s report where st: "st = (l, s, report)" by (cases st)
  note inv = less.prems [unfolded st]
  note loop = shared_loop.simps [of cfg conn now "(l, s, report)", unfolded prod.case]
  obtain pick credit where p: "rr_pick (queues s) (rr s) = (pick, credit)" by (cases "rr_pick (queues s) (rr s)")
  have rr: "rr_inv credit" using rr_inv_pick [of "rr s" "queues s"] dinv_svc [OF inv] p by (simp add: svc_inv_def)
  consider (used) "\<not> shared_used s < q_shared (service_quota cfg)"
    | (full) "shared_used s < q_shared (service_quota cfg)" "service_full cfg conn l s"
    | (none) "shared_used s < q_shared (service_quota cfg)" "\<not> service_full cfg conn l s" "pick = None"
    | (some) c w q where "shared_used s < q_shared (service_quota cfg)" "\<not> service_full cfg conn l s" "pick = Some c"
        "c \<noteq> Control" "\<not> cq_is_empty (queues s c)" "cq_pop (queues s c) = (Some w, q)"
  proof (cases pick)
    case None
    then show thesis using used full none by blast
  next
    case (Some a)
    then have "a \<noteq> Control" "\<not> cq_is_empty (queues s a)"
      using rr_pick_Some [of "queues s" "rr s" a] p by (simp_all add: shared_members_iff may_join_shared_def)
    moreover from this obtain w q where "cq_pop (queues s a) = (Some w, q)" using pop_nonempty [OF inv] by blast
    ultimately show thesis using used full some [OF _ _ Some] by blast
  qed
  then show ?case
  proof cases
    case used
    then have "shared_loop cfg conn now st = Some st" unfolding st by (subst loop) simp
    with used less.prems show ?thesis by (simp add: st shared_idle_def)
  next
    case full
    then have "shared_loop cfg conn now st = Some st" unfolding st by (subst loop) simp
    with full less.prems show ?thesis by (simp add: st)
  next
    case none
    let ?s = "s\<lparr>rr := credit\<rparr>"
    have "shared_loop cfg conn now st = Some (l, ?s, report)" using none p unfolding st by (subst loop) simp
    moreover have "dinv cfg conn (l, ?s, report)"
      using dinv_requeue [OF inv _ _ rr, of "queues s Job" Job] dinv_svc [OF inv] by (simp add: svc_inv_def queue_inv_def)
    moreover have "drel (l, s, report) (l, ?s, report)"
      by (simp add: drel_def)
    moreover have "shared_idle cfg ?s"
      using rr_pick_None [of "queues s" "rr s"] none p by (simp add: shared_idle_def)
    ultimately show ?thesis by (auto simp: st reserved_idle_def)
  next
    case (some c w q)
    let ?st = "grant_waiter c Shared w now (l, s\<lparr>rr := credit, queues := (queues s)(c := q)\<rparr>, report)"
    have slot: "Shared = Reserved \<and> bucket_reserved_headroom (buckets s c) (service_quota cfg) c \<noteq> 0
       \<or> Shared = Shared \<and> shared_used s < q_shared (service_quota cfg) \<and> c \<noteq> Control"
      using some by simp
    note step = pop_grant_step [OF inv some(6,2) rr slot, of now]
    obtain st' where "shared_loop cfg conn now ?st = Some st'" "dinv cfg conn st'" "drel ?st st'"
      "service_full cfg conn (fst st') (fst (snd st')) \<or> shared_idle cfg (fst (snd st'))"
      "\<forall>c. reserved_idle cfg (fst (snd ?st)) c \<longrightarrow> reserved_idle cfg (fst (snd st')) c"
      using less.hyps [of ?st] step(1,3) by (auto simp: st)
    moreover have "shared_loop cfg conn now st = shared_loop cfg conn now ?st"
      using some p unfolding st by (subst loop) simp
    ultimately show ?thesis
      using step(2) reserved_idle_shared_grant [OF _ some(5)] by (auto simp: st intro: drel_trans)
  qed
qed

lemma dispatch_service_sound:
  assumes "dinv cfg conn st"
  shows "\<exists>st'. dispatch_service cfg conn now st = Some st' \<and> dinv cfg conn st' \<and> drel st st'
    \<and> (service_full cfg conn (fst st') (fst (snd st'))
       \<or> shared_idle cfg (fst (snd st')) \<and> (\<forall>c. reserved_idle cfg (fst (snd st')) c))"
proof -
  obtain b st1 where 1: "reserved_loop cfg conn now st = Some (b, st1)" "dinv cfg conn st1" "drel st st1"
    "if b then service_full cfg conn (fst st1) (fst (snd st1)) else \<forall>c. reserved_idle cfg (fst (snd st1)) c"
    using reserved_loop_sound [OF assms] by blast
  show ?thesis
  proof (cases b)
    case True
    with 1 show ?thesis by (simp add: dispatch_service_def)
  next
    case False
    obtain st' where "shared_loop cfg conn now st1 = Some st'" "dinv cfg conn st'" "drel st1 st'"
      "service_full cfg conn (fst st') (fst (snd st')) \<or> shared_idle cfg (fst (snd st'))"
      "\<forall>c. reserved_idle cfg (fst (snd st1)) c \<longrightarrow> reserved_idle cfg (fst (snd st')) c"
      using shared_loop_sound [OF 1(2)] by blast
    with False 1 show ?thesis by (auto simp: dispatch_service_def intro: drel_trans)
  qed
qed

section \<open>Expiry\<close>

lemma expire_classes_sound:
  "svc_shrunk s (snd (expire_classes now cs s))
   \<and> (\<exists>gone. fst (expire_classes now cs s) = map w_id gone \<and> (\<forall>w \<in> set gone. expired_at now w)
        \<and> waiting_in s = mset gone + waiting_in (snd (expire_classes now cs s)))
   \<and> (\<forall>c. cq_content (queues (snd (expire_classes now cs s)) c) \<subseteq># cq_content (queues s c))
   \<and> (\<forall>c \<in> set cs. \<forall>w \<in># cq_content (queues (snd (expire_classes now cs s)) c). \<not> expired_at now w)"
proof (induction cs arbitrary: s)
  case Nil
  show ?case by (auto intro: exI [of _ "[]"])
next
  case (Cons c cs)
  obtain out q where e: "cq_expire now (queues s c) = (out, q)" by (cases "cq_expire now (queues s c)")
  let ?s = "s\<lparr>queues := (queues s)(c := q)\<rparr>"
  have parts: "cq_content (queues s c) = mset out + cq_content q"
    using cq.expire_partition [of "queues s c" now] e by simp
  have kept: "\<not> expired_at now w" if "w \<in># cq_content q" for w
    using cq.expire_no_expired [of w now "queues s c"] that e by simp
  have out: "\<forall>w \<in> set out. expired_at now w"
    using arg_cong [OF cq.expire_out [of now "queues s c"], of set_mset] e by auto
  have "svc_shrunk s ?s"
    using cq.inv_expire [of "queues s c" now] e parts by (intro svc_shrunk_upd) simp_all
  moreover have split: "waiting_in s = mset out + waiting_in ?s"
    using parts by (cases c) (simp_all add: waiting_in_eq ac_simps)
  moreover obtain ids s' where r: "expire_classes now cs ?s = (ids, s')" by (cases "expire_classes now cs ?s")
  note IH = Cons [of ?s, unfolded r fst_conv snd_conv]
  have full: "expire_classes now (c # cs) s = (map w_id out @ ids, s')" by (simp add: e r)
  obtain gone where g: "ids = map w_id gone" "\<forall>w \<in> set gone. expired_at now w" "waiting_in ?s = mset gone + waiting_in s'"
    using IH by blast
  have sub: "cq_content (queues s' d) \<subseteq># cq_content (queues s d)" for d
  proof -
    have "cq_content (queues ?s d) \<subseteq># cq_content (queues s d)" using parts by simp
    with IH show ?thesis using subset_mset.order_trans by blast
  qed
  have "cq_content (queues s' c) \<subseteq># cq_content (queues ?s c)" using IH by blast
  then have "cq_content (queues s' c) \<subseteq># cq_content q" by simp
  then have "\<forall>w \<in># cq_content (queues s' c). \<not> expired_at now w"
    using kept by (meson mset_subset_eqD)
  moreover have "svc_shrunk s s'" using IH svc_shrunk_trans [OF \<open>svc_shrunk s ?s\<close>] by blast
  moreover have "\<exists>gone. map w_id out @ ids = map w_id gone \<and> (\<forall>w \<in> set gone. expired_at now w)
      \<and> waiting_in s = mset gone + waiting_in s'"
    using g out split by (intro exI [of _ "out @ gone"]) auto
  ultimately show ?case
    unfolding full fst_conv snd_conv using IH sub by (metis set_ConsD)
qed

section \<open>The whole pump\<close>

lemma all_waiting_insert: "bt_get m k = None \<Longrightarrow> all_waiting (bt_insert k s m) = waiting_in s + all_waiting m"
  by (induction m) (auto simp: all_waiting_def bt_values_def bt_get_def split: if_splits)

lemma all_waiting_remove:
  "bt_wf m \<Longrightarrow> bt_get m k = Some s \<Longrightarrow> all_waiting m = waiting_in s + all_waiting (bt_remove k m)"
  using all_waiting_insert [of "bt_remove k m" k s] by (simp add: map_laws bt.ins_del_same)

lemma ledger_waiters_all: "ledger_waiters l = all_waiting (services l)"
  by (simp add: ledger_waiters_def all_waiting_def)

definition settled :: "nat \<Rightarrow> ledger \<Rightarrow> string \<Rightarrow> bool" where
  "settled now l conn \<longleftrightarrow>
     (\<forall>s. bt_get (services l) conn = Some s \<longrightarrow>
        (\<forall>w \<in># waiting_in s. \<not> expired_at now w)
        \<and> (draining s \<or> service_full (config l) conn l s
             \<or> shared_idle (config l) s \<and> (\<forall>c. reserved_idle (config l) s c)))"

definition pump_rel :: "nat \<Rightarrow> string set \<Rightarrow> ledger \<times> pump_report \<Rightarrow> ledger \<times> pump_report \<Rightarrow> bool" where
  "pump_rel now K a b \<longleftrightarrow> (case (a, b) of ((l, report), (l', report')) \<Rightarrow>
     (\<exists>ws gone new. list_all2 served_by ws new
        \<and> ledger_waiters l = mset ws + mset gone + ledger_waiters l'
        \<and> (\<forall>w \<in> set gone. expired_at now w)
        \<and> (\<forall>w \<in> set ws. \<not> expired_at now w \<and> w_conn w \<in> K \<and> \<not> is_draining (w_conn w) l)
        \<and> granted report' = granted report @ new \<and> timed_out report' = timed_out report @ map w_id gone
        \<and> permits l' = add_permits new (permits l) \<and> next_permit l' = next_permit l + length new
        \<and> (\<forall>P. bt_count P (permits l') = bt_count P (permits l) + length (filter P new))
        \<and> list_all (issued_between l l') new)
     \<and> config l' = config l \<and> rest_of l' = rest_of l
     \<and> (\<forall>k. k \<notin> K \<longrightarrow> bt_get (services l') k = bt_get (services l) k \<and> permits_on k (permits l') = permits_on k (permits l))
     \<and> (\<forall>k. rel_option (\<lambda>s s'. draining s' = draining s \<and> physical s' = physical s) (bt_get (services l) k) (bt_get (services l') k)))"

lemma pump_rel_refl: "pump_rel now {} a a"
  by (cases a) (auto simp: pump_rel_def option.rel_refl intro!: exI [of _ "[]"])

lemma is_draining_rel:
  "rel_option (\<lambda>s s'. draining s' = draining s \<and> physical s' = physical s) (bt_get (services l) k) (bt_get (services l') k) \<Longrightarrow>
   is_draining k l' = is_draining k l"
  by (auto simp: is_draining_def option_rel_Some1 split: option.splits)

lemma pump_rel_trans:
  assumes ab: "pump_rel now A a b" and bc: "pump_rel now B b c"
  shows "pump_rel now (A \<union> B) a c"
proof -
  obtain l r l' r' l'' r'' where st: "a = (l, r)" "b = (l', r')" "c = (l'', r'')"
    by (cases a; cases b; cases c)
  from ab obtain ws gone new where 1: "list_all2 served_by ws new"
    "ledger_waiters l = mset ws + mset gone + ledger_waiters l'" "\<forall>w \<in> set gone. expired_at now w"
    "\<forall>w \<in> set ws. \<not> expired_at now w \<and> w_conn w \<in> A \<and> \<not> is_draining (w_conn w) l"
    "granted r' = granted r @ new" "timed_out r' = timed_out r @ map w_id gone"
    "permits l' = add_permits new (permits l)" "next_permit l' = next_permit l + length new"
    "\<forall>P. bt_count P (permits l') = bt_count P (permits l) + length (filter P new)" "list_all (issued_between l l') new"
    by (auto simp: pump_rel_def st)
  from bc obtain ws' gone' new' where 2: "list_all2 served_by ws' new'"
    "ledger_waiters l' = mset ws' + mset gone' + ledger_waiters l''" "\<forall>w \<in> set gone'. expired_at now w"
    "\<forall>w \<in> set ws'. \<not> expired_at now w \<and> w_conn w \<in> B \<and> \<not> is_draining (w_conn w) l'"
    "granted r'' = granted r' @ new'" "timed_out r'' = timed_out r' @ map w_id gone'"
    "permits l'' = add_permits new' (permits l')" "next_permit l'' = next_permit l' + length new'"
    "\<forall>P. bt_count P (permits l'') = bt_count P (permits l') + length (filter P new')" "list_all (issued_between l' l'') new'"
    by (auto simp: pump_rel_def st)
  have keep: "rel_option (\<lambda>s s'. draining s' = draining s \<and> physical s' = physical s) (bt_get (services l) k) (bt_get (services l') k)"
    "rel_option (\<lambda>s s'. draining s' = draining s \<and> physical s' = physical s) (bt_get (services l') k) (bt_get (services l'') k)" for k
    using ab bc by (simp_all add: pump_rel_def st)
  have "rel_option (\<lambda>s s'. draining s' = draining s \<and> physical s' = physical s) (bt_get (services l) k) (bt_get (services l'') k)" for k
    using keep(1) [of k] keep(2) [of k]
    by (cases "bt_get (services l) k"; cases "bt_get (services l') k"; cases "bt_get (services l'') k") auto
  moreover have "is_draining k l' = is_draining k l" for k
    using keep(1) [of k] by (rule is_draining_rel)
  then have "\<forall>w \<in> set (ws @ ws'). \<not> expired_at now w \<and> w_conn w \<in> A \<union> B \<and> \<not> is_draining (w_conn w) l"
    using 1(4) 2(4) by auto
  moreover have "\<forall>w \<in> set (gone @ gone'). expired_at now w" using 1(3) 2(3) by auto
  moreover have "list_all2 served_by (ws @ ws') (new @ new')" using 1(1) 2(1) by (rule list_all2_appendI)
  moreover have "\<forall>P. bt_count P (permits l'') = bt_count P (permits l) + length (filter P (new @ new'))"
    using 1(9) 2(9) by simp
  moreover have "list_all (issued_between l l'') (new @ new')"
    using all_issued_between [OF 1(10) 2(10)] 1(8) 2(8) by simp
  moreover have "config l'' = config l \<and> rest_of l'' = rest_of l"
    using ab bc by (simp add: pump_rel_def st)
  moreover have "\<forall>k. k \<notin> A \<union> B \<longrightarrow>
      bt_get (services l'') k = bt_get (services l) k \<and> permits_on k (permits l'') = permits_on k (permits l)"
    using ab bc unfolding pump_rel_def st prod.case by (metis Un_iff)
  ultimately show ?thesis
    unfolding st pump_rel_def prod.case
    by - (rule conjI, rule exI [of _ "ws @ ws'"], rule exI [of _ "gone @ gone'"], rule exI [of _ "new @ new'"],
        simp_all add: 1(2,5-8) 2(2,5-8))
qed

lemma settled_keep:
  assumes "pump_rel now K (l, r) (l', r')" "k \<notin> K" "settled now l k"
  shows "settled now l' k"
  using assms by (simp add: pump_rel_def settled_def service_full_def)

text \<open>One service: taken out, expired, dispatched unless it drains, and put back.\<close>

lemma expire_step:
  assumes inv: "ledger_inv l" and get: "bt_get (services l) conn = Some s"
    and lim: "next_permit l + size (ledger_waiters l) \<le> u64_max"
    and e: "expire_classes now all_classes s = (ids, s1)"
  shows "dinv (config l) conn (l\<lparr>services := bt_remove conn (services l)\<rparr>, s1, report)"
    and "\<exists>gone. ids = map w_id gone \<and> (\<forall>w \<in> set gone. expired_at now w) \<and> waiting_in s = mset gone + waiting_in s1"
    and "\<forall>w \<in># waiting_in s1. \<not> expired_at now w" and "draining s1 = draining s" and "physical s1 = physical s"
proof -
  let ?l = "l\<lparr>services := bt_remove conn (services l)\<rparr>"
  note ex = expire_classes_sound [of s now all_classes, unfolded e fst_conv snd_conv]
  show "\<exists>gone. ids = map w_id gone \<and> (\<forall>w \<in> set gone. expired_at now w) \<and> waiting_in s = mset gone + waiting_in s1"
    using ex by blast
  then have "size (waiting_in s1) \<le> size (waiting_in s)" by auto
  moreover have "size (waiting_in s) \<le> size (ledger_waiters l)"
    using all_waiting_remove [OF _ get] inv by (simp add: ledger_waiters_all ledger_inv_wf)
  moreover have "put_service conn s1 ?l = put_service conn s1 l"
    using bt.ins_del [of "services l" conn s1] inv by (simp add: put_service_def ledger_inv_wf)
  moreover have "ledger_inv (put_service conn s1 l)"
    using svc_shrunk_inv [OF svc_inv_of [OF inv get]] ex by (intro ledger_inv_put [OF inv]) blast
  ultimately show "dinv (config l) conn (?l, s1, report)"
    using lim by (simp add: dinv_def)
  show "\<forall>w \<in># waiting_in s1. \<not> expired_at now w"
    using ex all_classes_complete by (auto simp: waiting_in_eq)
  show "draining s1 = draining s" "physical s1 = physical s" using ex by (auto simp: svc_shrunk_def)
qed

lemma add_services_simps [simp]: "next_permit (l\<lparr>services := m\<rparr>) = next_permit l"
  by simp

lemma pump_one:
  fixes report :: pump_report
  assumes inv: "ledger_inv l" and get: "bt_get (services l) conn = Some s"
    and lim: "next_permit l + size (ledger_waiters l) \<le> u64_max"
    and e: "expire_classes now all_classes s = (ids, s1)"
  defines "st \<equiv> (l\<lparr>services := bt_remove conn (services l)\<rparr>, s1, report\<lparr>timed_out := timed_out report @ ids\<rparr>)"
  shows "\<exists>l2 s2 report2. (if draining s1 then Some st else dispatch_service (config l) conn now st) = Some (l2, s2, report2)
    \<and> ledger_inv (put_service conn s2 l2) \<and> next_permit l2 + size (ledger_waiters (put_service conn s2 l2)) \<le> u64_max
    \<and> pump_rel now {conn} (l, report) (put_service conn s2 l2, report2) \<and> settled now (put_service conn s2 l2) conn"
proof -
  note step = expire_step [OF inv get lim e]
  have inv1: "dinv (config l) conn st" unfolding st_def by (rule step(1))
  have "\<exists>l2 s2 report2. (if draining s1 then Some st else dispatch_service (config l) conn now st) = Some (l2, s2, report2)
      \<and> dinv (config l) conn (l2, s2, report2) \<and> drel st (l2, s2, report2)
      \<and> (draining s1 \<or> service_full (config l) conn l2 s2 \<or> shared_idle (config l) s2 \<and> (\<forall>c. reserved_idle (config l) s2 c))
      \<and> (draining s1 \<longrightarrow> (l2, s2, report2) = st)"
    using dispatch_service_sound [OF inv1, of now] inv1
    by (cases "draining s1") (auto simp: st_def)
  then obtain l2 s2 report2 where
    run: "(if draining s1 then Some st else dispatch_service (config l) conn now st) = Some (l2, s2, report2)"
    and inv2: "dinv (config l) conn (l2, s2, report2)" and rel: "drel st (l2, s2, report2)"
    and fin: "draining s1 \<or> service_full (config l) conn l2 s2 \<or> shared_idle (config l) s2 \<and> (\<forall>c. reserved_idle (config l) s2 c)"
    and drained: "draining s1 \<longrightarrow> (l2, s2, report2) = st"
    by blast
  let ?l' = "put_service conn s2 l2"
  obtain ws new where d: "list_all2 served_by ws new" "waiting_in s1 = mset ws + waiting_in s2"
    "granted report2 = granted report @ new" "timed_out report2 = timed_out report @ ids"
    "permits l2 = add_permits new (permits l)" "services l2 = bt_remove conn (services l)" "config l2 = config l"
    "next_permit l2 = next_permit l + length new" "rest_of l2 = rest_of l" "draining s2 = draining s1"
    "\<forall>P. bt_count P (permits l2) = bt_count P (permits l) + length (filter P new)" "physical s2 = physical s1"
    "list_all (issued_between l l2) new"
    using rel by (auto simp: drel_def st_def rest_of_def)
  obtain gone where g: "ids = map w_id gone" "\<forall>w \<in> set gone. expired_at now w" "waiting_in s = mset gone + waiting_in s1"
    using step(2) by blast
  have wf: "bt_wf (services l)" using inv by (simp add: ledger_inv_wf)
  have waiting: "ledger_waiters l = mset ws + mset gone + ledger_waiters ?l'"
    using all_waiting_remove [OF wf get] all_waiting_insert [of "bt_remove conn (services l)" conn s2] d(2) g(3)
    by (simp add: ledger_waiters_all d(6) map_laws ac_simps)
  have fits: "w_conn w = conn" if "w \<in> set ws" for w
  proof -
    have "w \<in># waiting_in s1" using d(2) that by simp
    then show ?thesis using dinv_svc [of "config l" conn] inv1
      by (auto simp: st_def svc_inv_def queue_inv_def waiting_in_eq waiter_fits_def)
  qed
  have empty: "ws = []" if "draining s"
  proof -
    have "waiting_in s2 = waiting_in s1" using drained that step(4) by (simp add: st_def)
    then show ?thesis using d(2) by simp
  qed
  have kept: "\<forall>k. k \<notin> {conn} \<longrightarrow> bt_get (services ?l') k = bt_get (services l) k \<and> permits_on k (permits ?l') = permits_on k (permits l)"
  proof -
    have "p_conn r = conn" if "r \<in> set new" for r
    proof -
      have "\<exists>w \<in> set ws. served_by w r"
        using d(1) that by (induction ws new rule: list_all2_induct) auto
      then show ?thesis using fits by (auto simp: served_by_def)
    qed
    then have "filter (\<lambda>r. p_conn r = k) new = []" if "k \<noteq> conn" for k
      using that by (auto simp: filter_empty_conv)
    then show ?thesis using d(11) by (auto simp: map_laws d(6) permits_on_def)
  qed
  have "\<forall>w \<in> set ws. \<not> expired_at now w \<and> w_conn w \<in> {conn} \<and> \<not> is_draining (w_conn w) l"
    using fits step(3) d(2) empty get by (auto simp: is_draining_def)
  moreover have "rel_option (\<lambda>s s'. draining s' = draining s \<and> physical s' = physical s) (bt_get (services l) k) (bt_get (services ?l') k)" for k
    using d(6,10,12) step(4,5) get by (auto simp: map_laws option.rel_refl)
  moreover have "list_all (issued_between l ?l') new" using d(13) by (simp add: issued_between_def put_service_def list_all_iff)
  ultimately have "pump_rel now {conn} (l, report) (?l', report2)"
    using d(1,3-5,7-9,11) g(1,2) waiting kept unfolding pump_rel_def prod.case
    by - (rule conjI, rule exI [of _ ws], rule exI [of _ gone], rule exI [of _ new],
        simp_all add: put_service_def rest_of_def, auto)
  moreover have "settled now ?l' conn"
    using fin step(3) d(2,7,10) by (auto simp: settled_def map_laws service_full_def)
  moreover have "next_permit l2 + size (ledger_waiters ?l') \<le> u64_max"
    using lim d(8) list_all2_lengthD [OF d(1)] by (simp add: waiting)
  moreover have "ledger_inv ?l'" using inv2 by (simp add: dinv_def)
  ultimately show ?thesis using run by blast
qed

lemma pump_services_sound:
  assumes "ledger_inv l" "next_permit l + size (ledger_waiters l) \<le> u64_max"
    and "distinct conns" "\<forall>k \<in> set conns. bt_get (services l) k \<noteq> None"
  shows "\<exists>l' report'. pump_services conns (config l) now (l, report) = Some (l', report') \<and> ledger_inv l'
    \<and> next_permit l' + size (ledger_waiters l') \<le> u64_max
    \<and> pump_rel now (set conns) (l, report) (l', report') \<and> (\<forall>k \<in> set conns. settled now l' k)"
  using assms
proof (induction conns arbitrary: l report)
  case Nil
  then show ?case using pump_rel_refl by simp
next
  case (Cons conn conns)
  then obtain s where get: "bt_get (services l) conn = Some s" by auto
  obtain ids s1 where e: "expire_classes now all_classes s = (ids, s1)" by (cases "expire_classes now all_classes s")
  obtain l2 s2 report2 where
    run: "(if draining s1 then Some (l\<lparr>services := bt_remove conn (services l)\<rparr>, s1, report\<lparr>timed_out := timed_out report @ ids\<rparr>)
           else dispatch_service (config l) conn now
             (l\<lparr>services := bt_remove conn (services l)\<rparr>, s1, report\<lparr>timed_out := timed_out report @ ids\<rparr>))
         = Some (l2, s2, report2)"
    and inv2: "ledger_inv (put_service conn s2 l2)"
    and lim2: "next_permit l2 + size (ledger_waiters (put_service conn s2 l2)) \<le> u64_max"
    and rel: "pump_rel now {conn} (l, report) (put_service conn s2 l2, report2)"
    and ok: "settled now (put_service conn s2 l2) conn"
    using pump_one [OF Cons.prems(1) get Cons.prems(2) e, of report] by blast
  let ?l' = "put_service conn s2 l2"
  have cfg: "config l2 = config l" using rel by (simp add: pump_rel_def)
  have here: "bt_get (services ?l') k \<noteq> None" if "k \<in> set conns" for k
    using rel Cons.prems(3,4) that unfolding pump_rel_def prod.case by (metis distinct.simps(2) list.set_intros(2) singletonD)
  obtain l' report' where rest: "pump_services conns (config ?l') now (?l', report2) = Some (l', report')"
    "ledger_inv l'" "next_permit l' + size (ledger_waiters l') \<le> u64_max"
    "pump_rel now (set conns) (?l', report2) (l', report')" "\<forall>k \<in> set conns. settled now l' k"
    using Cons.IH [OF inv2 _ _ _, of report2] lim2 here Cons.prems(3) by auto
  have "pump_services (conn # conns) (config l) now (l, report) = Some (l', report')"
    using run rest(1) cfg by (simp add: get e Let_def put_service_def)
  moreover have "pump_rel now (set (conn # conns)) (l, report) (l', report')"
    using pump_rel_trans [OF rel rest(4)] by simp
  moreover have "settled now l' conn"
    using settled_keep [OF rest(4) _ ok] Cons.prems(3) by simp
  ultimately show ?case using rest(2,3,5) by auto
qed

lemma pump_sound:
  assumes "ledger_inv l" "next_permit l + size (ledger_waiters l) \<le> u64_max"
  shows "\<exists>l' report. pump now l = Some (l', report) \<and> ledger_inv l'
    \<and> next_permit l' + size (ledger_waiters l') \<le> u64_max
    \<and> pump_rel now (set (bt_keys (services l))) (l, \<lparr>granted = [], timed_out = []\<rparr>) (l', report)
    \<and> (\<forall>k. settled now l' k)"
proof -
  have "distinct (bt_keys (services l))"
    using bt_wf_distinct [of "services l"] assms(1) by (simp add: bt_keys_def ledger_inv_wf)
  then obtain l' report where run: "pump now l = Some (l', report)" "ledger_inv l'"
    "next_permit l' + size (ledger_waiters l') \<le> u64_max"
    "pump_rel now (set (bt_keys (services l))) (l, \<lparr>granted = [], timed_out = []\<rparr>) (l', report)"
    "\<forall>k \<in> set (bt_keys (services l)). settled now l' k"
    using pump_services_sound [OF assms, of "bt_keys (services l)" now "\<lparr>granted = [], timed_out = []\<rparr>"]
    by (auto simp: pump_def bt_keys_get)
  have "settled now l' k" for k
  proof (cases "k \<in> set (bt_keys (services l))")
    case False
    then have "bt_get (services l') k = None"
      using run(4) by (auto simp: pump_rel_def bt_keys_get)
    then show ?thesis by (simp add: settled_def)
  qed (use run(5) in blast)
  with run show ?thesis by blast
qed

end
