(* ===== verification/Budget_Sessions.thy ===== *)
theory Budget_Sessions
  imports Budget_Dispatch
begin

text \<open>
  Logical and physical sessions, draining, node leases and snapshots of the budget ledger
  (\<open>execution/runtime/budget/sessions.rs\<close>), with the invariant that ties the logical counters and the
  physical occupancy to the session table.
\<close>

section \<open>Definitions\<close>

definition session_id :: "nat \<Rightarrow> string" where
  "session_id n = ''dbs-'' @ pad_left 10 (dec n)"

definition counter_of :: "(string, nat) btree \<Rightarrow> string \<Rightarrow> nat" where
  "counter_of m k = (case bt_get m k of None \<Rightarrow> 0 | Some n \<Rightarrow> n)"

definition open_session :: "string \<Rightarrow> string \<Rightarrow> string \<Rightarrow> ledger \<Rightarrow> (denial_reason + string) \<times> ledger" where
  "open_session org who conn l =
     (let user_cap = per_user_logical_sessions (config l);
          user_used = counter_of (user_logical l) who;
          org_cap = per_org_logical_sessions (config l);
          org_used = counter_of (org_logical l) org
      in if user_used \<ge> user_cap then (Inl (SessionQuotaExceeded SessionPerUser user_cap user_used), l)
         else if org_used \<ge> org_cap then (Inl (SessionQuotaExceeded SessionPerOrganization org_cap org_used), l)
         else
           (let l1 = ensure_service conn l;
                n = sat_add64 (next_session l1) 1;
                ticket = session_id n;
                r = \<lparr>s_ticket = ticket, s_org = org, s_principal = who, s_conn = conn,
                     s_occupancy = None, s_connected_editor = False\<rparr>
            in (Inr ticket,
                l1\<lparr>next_session := n, sessions := bt_insert ticket r (sessions l1),
                   user_logical := bt_insert who (user_used + 1) (user_logical l1),
                   org_logical := bt_insert org (org_used + 1) (org_logical l1)\<rparr>)))"

definition bump_connected :: "string \<Rightarrow> service_state \<Rightarrow> service_state" where
  "bump_connected who s = s\<lparr>user_connected := bt_insert who (counter_of (user_connected s) who + 1) (user_connected s)\<rparr>"

definition connect_editor :: "string \<Rightarrow> ledger \<Rightarrow> (denial_reason + unit) \<times> ledger" where
  "connect_editor ticket l =
     (case bt_get (sessions l) ticket of
        None \<Rightarrow> (Inl (UnknownConnection ticket), l)
      | Some r \<Rightarrow>
          if s_connected_editor r then (Inr (), l)
          else
            (let used = connected_of (s_conn r) (s_principal r) l;
                 cap = per_user_connected_editors (config l)
             in if used \<ge> cap then (Inl (ConnectedEditorsExhausted (s_principal r) cap), l)
                else
                  (let l1 = (case bt_get (services l) (s_conn r) of
                               Some s \<Rightarrow> l\<lparr>services := bt_insert (s_conn r) (bump_connected (s_principal r) s) (services l)\<rparr>
                             | None \<Rightarrow> l)
                   in (Inr (), l1\<lparr>sessions := bt_insert ticket (r\<lparr>s_connected_editor := True\<rparr>) (sessions l1)\<rparr>))))"

definition attach_physical :: "string \<Rightarrow> physical_occupancy \<Rightarrow> ledger \<Rightarrow> (denial_reason + unit) \<times> ledger" where
  "attach_physical ticket occ l =
     (case bt_get (sessions l) ticket of
        None \<Rightarrow> (Inl (UnknownConnection ticket), l)
      | Some r \<Rightarrow>
          if s_occupancy r \<noteq> None then (Inr (), l)
          else
            (let cap = service_physical_connections (config l);
                 editor_cap = per_user_connected_editors (config l)
             in if physical_of (s_conn r) l \<ge> cap then (Inl (PhysicalExhausted (s_conn r) cap), l)
                else if connected_of (s_conn r) (s_principal r) l \<ge> editor_cap then
                  (Inl (ConnectedEditorsExhausted (s_principal r) editor_cap), l)
                else
                  (let l1 = (case bt_get (services l) (s_conn r) of
                               Some s \<Rightarrow>
                                 l\<lparr>services := bt_insert (s_conn r)
                                     (bump_connected (s_principal r) (s\<lparr>physical := sat_add32 (physical s) 1\<rparr>)) (services l)\<rparr>
                             | None \<Rightarrow> l)
                   in (Inr (), l1\<lparr>sessions := bt_insert ticket (r\<lparr>s_occupancy := Some occ\<rparr>) (sessions l1)\<rparr>))))"

definition transition :: "string \<Rightarrow> physical_occupancy \<Rightarrow> ledger \<Rightarrow> (denial_reason + unit) \<times> ledger" where
  "transition ticket occ l =
     (case bt_get (sessions l) ticket of
        None \<Rightarrow> (Inl (UnknownConnection ticket), l)
      | Some r \<Rightarrow>
          (Inr (), if s_occupancy r \<noteq> None
                   then l\<lparr>sessions := bt_insert ticket (r\<lparr>s_occupancy := Some occ\<rparr>) (sessions l)\<rparr> else l))"

definition lower_counter :: "string \<Rightarrow> (string, nat) btree \<Rightarrow> (string, nat) btree" where
  "lower_counter k m = (case bt_get m k of Some n \<Rightarrow> bt_insert k (n - 1) m | None \<Rightarrow> m)"

definition update_service :: "string \<Rightarrow> (service_state \<Rightarrow> service_state) \<Rightarrow> ledger \<Rightarrow> ledger" where
  "update_service conn f l =
     (case bt_get (services l) conn of
        Some s \<Rightarrow> l\<lparr>services := bt_insert conn (f s) (services l)\<rparr>
      | None \<Rightarrow> l)"

definition close_session :: "string \<Rightarrow> ledger \<Rightarrow> (denial_reason + unit) \<times> ledger" where
  "close_session ticket l =
     (case bt_get (sessions l) ticket of
        None \<Rightarrow> (Inr (), l)
      | Some r \<Rightarrow>
          (let l1 = l\<lparr>sessions := bt_remove ticket (sessions l)\<rparr>;
               l2 = (if s_occupancy r \<noteq> None
                     then update_service (s_conn r) (\<lambda>s. s\<lparr>physical := physical s - 1\<rparr>) l1 else l1);
               l3 = (if s_occupancy r \<noteq> None \<or> s_connected_editor r
                     then update_service (s_conn r)
                       (\<lambda>s. s\<lparr>user_connected := lower_counter (s_principal r) (user_connected s)\<rparr>) l2
                     else l2)
           in (Inr (), l3\<lparr>user_logical := lower_counter (s_principal r) (user_logical l3),
                          org_logical := lower_counter (s_org r) (org_logical l3)\<rparr>)))"

datatype drain_scope = DrainNode string | DrainOrganization string | DrainConnection string

record drain_report =
  d_scope :: drain_scope
  d_outstanding :: nat
  d_pinned :: nat
  d_draining :: bool

definition in_scope :: "drain_scope \<Rightarrow> permit_record \<Rightarrow> bool" where
  "in_scope scope r =
     (case scope of
        DrainConnection conn \<Rightarrow> p_conn r = conn
      | DrainOrganization org \<Rightarrow> p_org r = org
      | DrainNode w \<Rightarrow> p_worker r = Some w)"

definition drain :: "drain_scope \<Rightarrow> ledger \<Rightarrow> drain_report \<times> ledger" where
  "drain scope l =
     (let l' = (case scope of
                  DrainConnection conn \<Rightarrow> update_service conn (\<lambda>s. s\<lparr>draining := True\<rparr>) l
                | DrainOrganization org \<Rightarrow>
                    l\<lparr>draining_orgs := insert org (draining_orgs l),
                      services := map (\<lambda>(k, s). (k, s\<lparr>draining := True\<rparr>)) (services l)\<rparr>
                | DrainNode w \<Rightarrow> l\<lparr>draining_nodes := insert w (draining_nodes l)\<rparr>)
      in (\<lparr>d_scope = scope,
           d_outstanding = bt_count (\<lambda>r. in_scope scope r \<and> \<not> p_pinned r) (permits l'),
           d_pinned = bt_count (\<lambda>r. in_scope scope r \<and> p_pinned r) (permits l'),
           d_draining = True\<rparr>, l'))"

record node_lease =
  nl_lease :: string
  nl_worker :: string
  nl_expires :: string

definition renew_node_lease :: "node_lease \<Rightarrow> nat \<Rightarrow> ledger \<Rightarrow> (denial_reason + node_lease) \<times> ledger" where
  "renew_node_lease lease now l =
     (if nl_worker lease \<in> draining_nodes l then (Inl (NodeLost (nl_worker lease)), l)
      else
        (let expires = sat_add64 now (node_lease_ttl_ms (config l))
         in (Inr \<lparr>nl_lease = nl_lease lease, nl_worker = nl_worker lease, nl_expires = mono_timestamp expires\<rparr>,
             l\<lparr>node_leases := bt_insert (nl_worker lease) expires (node_leases l)\<rparr>)))"

record budget_snapshot =
  bs_org :: string
  bs_in_use :: nat
  bs_granted_total :: nat

definition snapshot :: "string \<Rightarrow> ledger \<Rightarrow> budget_snapshot" where
  "snapshot org l =
     \<lparr>bs_org = org, bs_in_use = bt_count (\<lambda>r. p_org r = org) (permits l), bs_granted_total = granted_total l\<rparr>"

section \<open>The ledger invariant\<close>

text \<open>Session operations touch a service only in its occupancy, its editors and its drain flag.\<close>

lemma svc_inv_touch [simp]:
  "svc_inv cfg ps conn (s\<lparr>user_connected := u\<rparr>) = svc_inv cfg ps conn s"
  "svc_inv cfg ps conn (s\<lparr>draining := d\<rparr>) = svc_inv cfg ps conn s"
  by (simp_all add: svc_inv_def slots_inv_def)

lemma svc_inv_set_physical:
  "svc_inv cfg ps conn s \<Longrightarrow> n + permits_on conn ps \<le> service_physical_connections cfg \<Longrightarrow>
   svc_inv cfg ps conn (s\<lparr>physical := n\<rparr>)"
  by (simp add: svc_inv_def slots_inv_def)

lemma svc_inv_physical: "svc_inv cfg ps conn s \<Longrightarrow> physical s + permits_on conn ps \<le> service_physical_connections cfg"
  by (simp add: svc_inv_def slots_inv_def)

lemma ledger_inv_update_service:
  assumes inv: "ledger_inv l" and f: "\<And>s. svc_inv (config l) (permits l) conn s \<Longrightarrow> svc_inv (config l) (permits l) conn (f s)"
  shows "ledger_inv (update_service conn f l)"
proof (cases "bt_get (services l) conn")
  case None
  with inv show ?thesis by (simp add: update_service_def)
next
  case (Some s)
  have "ledger_inv (put_service conn (f s) l)"
    using ledger_inv_put [OF inv] f [OF svc_inv_of [OF inv Some]] .
  with Some show ?thesis by (simp add: update_service_def put_service_def)
qed

text \<open>Fields the ledger invariant does not read.\<close>

lemma ledger_inv_frame [simp]:
  "ledger_inv (l\<lparr>next_session := n\<rparr>) = ledger_inv l"
  "ledger_inv (l\<lparr>sessions := S\<rparr>) = ledger_inv l"
  "ledger_inv (l\<lparr>user_logical := u\<rparr>) = ledger_inv l"
  "ledger_inv (l\<lparr>org_logical := u\<rparr>) = ledger_inv l"
  "ledger_inv (l\<lparr>draining_nodes := D\<rparr>) = ledger_inv l"
  "ledger_inv (l\<lparr>draining_orgs := D\<rparr>) = ledger_inv l"
  "ledger_inv (l\<lparr>node_leases := N\<rparr>) = ledger_inv l"
  by (rule ledger_inv_cong; simp)+

lemma ledger_inv_open: "ledger_inv l \<Longrightarrow> ledger_inv (snd (open_session org who conn l))"
  by (simp add: open_session_def Let_def ledger_inv_ensure)

lemma connect_editor_eq:
  "connect_editor ticket l =
     (case bt_get (sessions l) ticket of
        None \<Rightarrow> (Inl (UnknownConnection ticket), l)
      | Some r \<Rightarrow>
          if s_connected_editor r then (Inr (), l)
          else if connected_of (s_conn r) (s_principal r) l \<ge> per_user_connected_editors (config l)
          then (Inl (ConnectedEditorsExhausted (s_principal r) (per_user_connected_editors (config l))), l)
          else (Inr (), (update_service (s_conn r) (bump_connected (s_principal r)) l)
                  \<lparr>sessions := bt_insert ticket (r\<lparr>s_connected_editor := True\<rparr>) (sessions l)\<rparr>))"
  by (simp add: connect_editor_def update_service_def Let_def split: option.split)

lemma ledger_inv_connect_editor: "ledger_inv l \<Longrightarrow> ledger_inv (snd (connect_editor ticket l))"
  by (auto simp: connect_editor_eq bump_connected_def intro!: ledger_inv_update_service split: option.split)

lemma attach_physical_eq:
  "attach_physical ticket occ l =
     (case bt_get (sessions l) ticket of
        None \<Rightarrow> (Inl (UnknownConnection ticket), l)
      | Some r \<Rightarrow>
          if s_occupancy r \<noteq> None then (Inr (), l)
          else if physical_of (s_conn r) l \<ge> service_physical_connections (config l) then
            (Inl (PhysicalExhausted (s_conn r) (service_physical_connections (config l))), l)
          else if connected_of (s_conn r) (s_principal r) l \<ge> per_user_connected_editors (config l) then
            (Inl (ConnectedEditorsExhausted (s_principal r) (per_user_connected_editors (config l))), l)
          else (Inr (), (update_service (s_conn r)
                    (\<lambda>s. bump_connected (s_principal r) (s\<lparr>physical := sat_add32 (physical s) 1\<rparr>)) l)
                  \<lparr>sessions := bt_insert ticket (r\<lparr>s_occupancy := Some occ\<rparr>) (sessions l)\<rparr>))"
  by (simp add: attach_physical_def update_service_def Let_def split: option.split)

lemma ledger_inv_attach: 
  assumes inv: "ledger_inv l"
  shows "ledger_inv (snd (attach_physical ticket occ l))"
proof (cases "bt_get (sessions l) ticket")
  case None
  with inv show ?thesis by (simp add: attach_physical_eq)
next
  case (Some r)
  show ?thesis
  proof (cases "physical_of (s_conn r) l < service_physical_connections (config l)")
    case True
    have "ledger_inv (update_service (s_conn r)
        (\<lambda>s. bump_connected (s_principal r) (s\<lparr>physical := sat_add32 (physical s) 1\<rparr>)) l)"
    proof (cases "bt_get (services l) (s_conn r)")
      case None
      with inv show ?thesis by (simp add: update_service_def)
    next
      case (Some s)
      have room: "Suc (physical s) + permits_on (s_conn r) (permits l) \<le> service_physical_connections (config l)"
        using True physical_of_exact(1) [OF inv Some] by simp
      have "sat_add32 (physical s) 1 \<le> Suc (physical s)" by (simp add: sat_add32_def)
      with room have "svc_inv (config l) (permits l) (s_conn r) (s\<lparr>physical := sat_add32 (physical s) 1\<rparr>)"
        using svc_inv_of [OF inv Some] by (intro svc_inv_set_physical) simp_all
      then show ?thesis
        using ledger_inv_put [OF inv, of "s_conn r" "bump_connected (s_principal r) (s\<lparr>physical := sat_add32 (physical s) 1\<rparr>)"]
        by (simp add: update_service_def Some bump_connected_def put_service_def)
    qed
    with inv Some show ?thesis by (simp add: attach_physical_eq)
  next
    case False
    with inv Some show ?thesis by (simp add: attach_physical_eq)
  qed
qed

lemma ledger_inv_transition: "ledger_inv l \<Longrightarrow> ledger_inv (snd (transition ticket occ l))"
  by (simp add: transition_def split: option.split)

lemma update_service_simps [simp]:
  "config (update_service conn f l) = config l" "permits (update_service conn f l) = permits l"
  "sessions (update_service conn f l) = sessions l" "user_logical (update_service conn f l) = user_logical l"
  "org_logical (update_service conn f l) = org_logical l" "next_session (update_service conn f l) = next_session l"
  "bt_get (services (update_service conn f l)) k =
     (if k = conn then map_option f (bt_get (services l) k) else bt_get (services l) k)"
  by (auto simp: update_service_def map_laws split: option.split)

lemma ledger_inv_close: "ledger_inv l \<Longrightarrow> ledger_inv (snd (close_session ticket l))"
proof (cases "bt_get (sessions l) ticket")
  case (Some r)
  assume inv: "ledger_inv l"
  have "svc_inv cfg ps conn (s\<lparr>physical := physical s - 1\<rparr>)" if "svc_inv cfg ps conn s" for cfg ps conn s
    using svc_inv_physical [OF that] that by (intro svc_inv_set_physical) simp_all
  then have "ledger_inv (update_service conn (\<lambda>s. s\<lparr>physical := physical s - 1\<rparr>) k)" if "ledger_inv k" for conn k
    using that by (intro ledger_inv_update_service)
  moreover have "ledger_inv (update_service conn (\<lambda>s. s\<lparr>user_connected := lower_counter who (user_connected s)\<rparr>) k)"
    if "ledger_inv k" for conn who k
    using that by (intro ledger_inv_update_service) simp_all
  ultimately show ?thesis using inv Some
    by (simp add: close_session_def Let_def del: One_nat_def)
qed (simp add: close_session_def)

lemma ledger_inv_drain:
  assumes inv: "ledger_inv l"
  shows "ledger_inv (snd (drain scope l))"
proof (cases scope)
  case (DrainOrganization org)
  let ?m = "map (\<lambda>(k, s). (k, s\<lparr>draining := True\<rparr>)) (services l)"
  have get: "bt_get ?m k = map_option (\<lambda>s. s\<lparr>draining := True\<rparr>) (bt_get (services l) k)" for k
  proof -
    have "map_of (map (\<lambda>(k, s). (k, s\<lparr>draining := True\<rparr>)) m) k = map_option (\<lambda>s. s\<lparr>draining := True\<rparr>) (map_of m k)"
      for m :: "(string \<times> service_state) list"
      by (induction m) auto
    then show ?thesis by (simp add: bt_get_def)
  qed
  have "bt_wf ?m = bt_wf (services l)" by (simp add: bt_wf_def case_prod_beta comp_def)
  then have "ledger_inv (l\<lparr>services := ?m\<rparr>)"
    using inv inv_cong [of "l\<lparr>services := ?m\<rparr>" l]
    by (auto simp: ledger_inv_def services_inv_def get)
  then show ?thesis
    by (simp add: drain_def DrainOrganization ledger_inv_cong [of "l\<lparr>draining_orgs := D, services := ?m\<rparr>" "l\<lparr>services := ?m\<rparr>" for D])
qed (use inv in \<open>simp_all add: drain_def ledger_inv_update_service\<close>)

lemma ledger_inv_renew: "ledger_inv l \<Longrightarrow> ledger_inv (snd (renew_node_lease lease now l))"
  by (simp add: renew_node_lease_def Let_def)

section \<open>Logical counters\<close>

text \<open>
  The counters of logical sessions equal the number of sessions in the table, per principal and per
  organization, and the physical occupancy of a service is the number of its attached sessions.
\<close>

definition sessions_inv :: "ledger \<Rightarrow> bool" where
  "sessions_inv l \<longleftrightarrow> bt_wf (sessions l)
     \<and> (\<forall>i r. bt_get (sessions l) i = Some r \<longrightarrow>
          (\<exists>n. 1 \<le> n \<and> n \<le> next_session l \<and> i = session_id n) \<and> bt_get (services l) (s_conn r) \<noteq> None)
     \<and> (\<forall>who. counter_of (user_logical l) who = bt_count (\<lambda>r. s_principal r = who) (sessions l)
          \<and> bt_count (\<lambda>r. s_principal r = who) (sessions l) \<le> per_user_logical_sessions (config l))
     \<and> (\<forall>org. counter_of (org_logical l) org = bt_count (\<lambda>r. s_org r = org) (sessions l)
          \<and> bt_count (\<lambda>r. s_org r = org) (sessions l) \<le> per_org_logical_sessions (config l))
     \<and> (\<forall>conn s. bt_get (services l) conn = Some s \<longrightarrow>
          physical s = bt_count (\<lambda>r. s_conn r = conn \<and> s_occupancy r \<noteq> None) (sessions l))"

lemma session_id_inject: "session_id m = session_id n \<Longrightarrow> m = n"
  by (simp add: session_id_def pad_dec_inject)

lemma counter_of_simps [simp]:
  "counter_of (bt_insert k n m) j = (if j = k then n else counter_of m j)"
  "counter_of [] j = 0"
  "counter_of (lower_counter k m) j = (if j = k then counter_of m j - 1 else counter_of m j)"
  by (auto simp: counter_of_def lower_counter_def map_laws split: option.split)

lemma sessions_inv_new: "sessions_inv (ledger_new cfg)"
  by (simp add: sessions_inv_def ledger_new_def)

text \<open>The operations on permits leave the sessions and the occupancy alone.\<close>

definition session_view :: "ledger \<Rightarrow> ledger \<Rightarrow> bool" where
  "session_view l l' \<longleftrightarrow> sessions l' = sessions l \<and> user_logical l' = user_logical l \<and> org_logical l' = org_logical l
     \<and> next_session l' = next_session l \<and> config l' = config l
     \<and> (\<forall>k. rel_option (\<lambda>s s'. physical s' = physical s) (bt_get (services l) k) (bt_get (services l') k))"

lemma sessions_inv_view: "sessions_inv l \<Longrightarrow> session_view l l' \<Longrightarrow> sessions_inv l'"
proof -
  assume inv: "sessions_inv l" and view: "session_view l l'"
  have rel: "rel_option (\<lambda>s s'. physical s' = physical s) (bt_get (services l) k) (bt_get (services l') k)" for k
    using view by (simp add: session_view_def)
  have "physical s' = bt_count (\<lambda>r. s_conn r = conn \<and> s_occupancy r \<noteq> None) (sessions l)"
    if got: "bt_get (services l') conn = Some s'" for conn s'
  proof -
    obtain s where "bt_get (services l) conn = Some s" "physical s' = physical s"
      using rel [of conn] got by (cases "bt_get (services l) conn") auto
    with inv show ?thesis by (simp add: sessions_inv_def)
  qed
  moreover have "bt_get (services l') k \<noteq> None" if "bt_get (services l) k \<noteq> None" for k
    using rel [of k] that by (cases "bt_get (services l') k") auto
  ultimately show ?thesis
    using inv view by (simp add: sessions_inv_def session_view_def)
qed

text \<open>A fresh ticket.\<close>

lemma next_ticket_fresh:
  assumes "sessions_inv l" "next_session l < u64_max"
  shows "bt_get (sessions l) (session_id (sat_add64 (next_session l) 1)) = None"
proof (rule ccontr)
  assume "bt_get (sessions l) (session_id (sat_add64 (next_session l) 1)) \<noteq> None"
  then obtain n where "n \<le> next_session l" "session_id (sat_add64 (next_session l) 1) = session_id n"
    using assms(1) unfolding sessions_inv_def by blast
  then show False using session_id_inject assms(2) by (fastforce simp: sat_add64_def)
qed

text \<open>Replacing a session by one of the same owner and service moves no logical counter.\<close>

lemma count_replace_same:
  assumes "bt_wf m" "bt_get m k = Some r" "P r' = P r"
  shows "bt_count P (bt_insert k r' m) = bt_count P m"
  using bt.cnt_replace [OF assms(1,2), of P r'] assms(3) by simp

lemma sessions_inv_replace:
  assumes inv: "sessions_inv l" and r: "bt_get (sessions l) i = Some r"
    and same: "s_principal r' = s_principal r" "s_org r' = s_org r" "s_conn r' = s_conn r"
    and l': "sessions l' = bt_insert i r' (sessions l)" "user_logical l' = user_logical l"
      "org_logical l' = org_logical l" "next_session l' = next_session l" "config l' = config l"
    and keys: "\<And>k. bt_get (services l') k \<noteq> None \<longleftrightarrow> bt_get (services l) k \<noteq> None"
    and phys: "\<And>k s. bt_get (services l') k = Some s \<Longrightarrow>
      physical s = bt_count (\<lambda>q. s_conn q = k \<and> s_occupancy q \<noteq> None) (bt_insert i r' (sessions l))"
  shows "sessions_inv l'"
proof -
  have wf: "bt_wf (sessions l)" using inv by (simp add: sessions_inv_def)
  have "\<exists>n. 1 \<le> n \<and> n \<le> next_session l \<and> i = session_id n" "bt_get (services l) (s_conn r) \<noteq> None"
    using inv r by (auto simp: sessions_inv_def)
  then have "(\<exists>n. 1 \<le> n \<and> n \<le> next_session l' \<and> j = session_id n) \<and> bt_get (services l') (s_conn q) \<noteq> None"
    if "bt_get (sessions l') j = Some q" for j q
  proof (cases "j = i")
    case True
    then have "q = r'" using that l'(1) by (simp add: map_laws)
    then show ?thesis
      using \<open>\<exists>n. 1 \<le> n \<and> n \<le> next_session l \<and> i = session_id n\<close> \<open>bt_get (services l) (s_conn r) \<noteq> None\<close>
        True l'(4) same(3) keys by metis
  next
    case False
    then have "bt_get (sessions l) j = Some q" using that l'(1) by (simp add: map_laws)
    then show ?thesis using inv keys l'(4) unfolding sessions_inv_def by metis
  qed
  moreover have "bt_count (\<lambda>q. s_principal q = who) (sessions l') = bt_count (\<lambda>q. s_principal q = who) (sessions l)"
    "bt_count (\<lambda>q. s_org q = org) (sessions l') = bt_count (\<lambda>q. s_org q = org) (sessions l)" for who org
    using same by (simp_all add: l'(1) count_replace_same [OF wf r])
  moreover have "bt_count (\<lambda>q. s_principal q = who) (sessions l) \<le> per_user_logical_sessions (config l)"
    "bt_count (\<lambda>q. s_org q = org) (sessions l) \<le> per_org_logical_sessions (config l)" for who org
    using inv unfolding sessions_inv_def by metis+
  ultimately show ?thesis
    using inv l' phys wf by (simp add: sessions_inv_def bt_wf_insert)
qed

lemma sessions_inv_connect_editor:
  assumes inv: "sessions_inv l"
  shows "sessions_inv (snd (connect_editor ticket l))"
proof (cases "bt_get (sessions l) ticket")
  case (Some r)
  have "sessions_inv ((update_service (s_conn r) (bump_connected (s_principal r)) l)
      \<lparr>sessions := bt_insert ticket (r\<lparr>s_connected_editor := True\<rparr>) (sessions l)\<rparr>)"
  proof (rule sessions_inv_replace [OF inv Some, where r' = "r\<lparr>s_connected_editor := True\<rparr>"])
    fix k s
    assume "bt_get (services ((update_service (s_conn r) (bump_connected (s_principal r)) l)
      \<lparr>sessions := bt_insert ticket (r\<lparr>s_connected_editor := True\<rparr>) (sessions l)\<rparr>)) k = Some s"
    then obtain s0 where "bt_get (services l) k = Some s0" "physical s = physical s0"
      by (auto simp: bump_connected_def split: if_splits)
    then show "physical s = bt_count (\<lambda>q. s_conn q = k \<and> s_occupancy q \<noteq> None)
        (bt_insert ticket (r\<lparr>s_connected_editor := True\<rparr>) (sessions l))"
      using inv by (simp add: sessions_inv_def count_replace_same [OF _ Some])
  qed (simp_all)
  with inv Some show ?thesis by (simp add: connect_editor_eq)
qed (use inv in \<open>simp add: connect_editor_def\<close>)

lemma sessions_inv_transition:
  assumes inv: "sessions_inv l"
  shows "sessions_inv (snd (transition ticket occ l))"
proof (cases "bt_get (sessions l) ticket")
  case (Some r)
  have "sessions_inv (l\<lparr>sessions := bt_insert ticket (r\<lparr>s_occupancy := Some occ\<rparr>) (sessions l)\<rparr>)" if "s_occupancy r \<noteq> None"
    using inv that
    by (intro sessions_inv_replace [OF inv Some, where r' = "r\<lparr>s_occupancy := Some occ\<rparr>"])
      (simp_all add: sessions_inv_def count_replace_same [OF _ Some])
  with inv Some show ?thesis by (simp add: transition_def)
qed (use inv in \<open>simp add: transition_def\<close>)

lemma sessions_inv_attach:
  assumes inv: "sessions_inv l" and led: "ledger_inv l"
  shows "sessions_inv (snd (attach_physical ticket occ l))"
proof (cases "\<exists>r. bt_get (sessions l) ticket = Some r \<and> s_occupancy r = None
    \<and> physical_of (s_conn r) l < service_physical_connections (config l)")
  case True
  then obtain r where r: "bt_get (sessions l) ticket = Some r" and none: "s_occupancy r = None"
    and room: "physical_of (s_conn r) l < service_physical_connections (config l)" by blast
  let ?r = "r\<lparr>s_occupancy := Some occ\<rparr>"
  let ?f = "\<lambda>s. bump_connected (s_principal r) (s\<lparr>physical := sat_add32 (physical s) 1\<rparr>)"
  have wf: "bt_wf (sessions l)" using inv by (simp add: sessions_inv_def)
  have "sessions_inv ((update_service (s_conn r) ?f l)\<lparr>sessions := bt_insert ticket ?r (sessions l)\<rparr>)"
  proof (rule sessions_inv_replace [OF inv r, where r' = ?r])
    fix k s
    assume "bt_get (services ((update_service (s_conn r) ?f l)\<lparr>sessions := bt_insert ticket ?r (sessions l)\<rparr>)) k = Some s"
    then obtain s0 where s0: "bt_get (services l) k = Some s0"
      and s: "physical s = (if k = s_conn r then sat_add32 (physical s0) 1 else physical s0)"
      by (auto simp: bump_connected_def split: if_splits)
    have "physical s0 < u32_max" if "k = s_conn r"
      using physical_of_exact(1) [OF led s0] room led that
      by (auto simp: ledger_inv_def cfg_bounds_def)
    then have "physical s = physical s0 + (if k = s_conn r then 1 else 0)"
      using s by (auto simp: sat_add32_def)
    then show "physical s = bt_count (\<lambda>q. s_conn q = k \<and> s_occupancy q \<noteq> None) (bt_insert ticket ?r (sessions l))"
      using bt.cnt_replace [OF wf r, of "\<lambda>q. s_conn q = k \<and> s_occupancy q \<noteq> None" ?r] inv s0 none
      by (auto simp: sessions_inv_def)
  qed simp_all
  with inv r none room show ?thesis by (simp add: attach_physical_eq)
next
  case False
  with inv show ?thesis by (auto simp: attach_physical_eq split: option.split)
qed

lemma sessions_inv_open:
  assumes inv: "sessions_inv l" and lim: "next_session l < u64_max"
  shows "sessions_inv (snd (open_session org who conn l))"
proof (cases "counter_of (user_logical l) who < per_user_logical_sessions (config l)
    \<and> counter_of (org_logical l) org < per_org_logical_sessions (config l)")
  case True
  let ?l1 = "ensure_service conn l" and ?i = "session_id (sat_add64 (next_session l) 1)"
  let ?r = "\<lparr>s_ticket = ?i, s_org = org, s_principal = who, s_conn = conn, s_occupancy = None, s_connected_editor = False\<rparr>"
  have en: "config ?l1 = config l" "sessions ?l1 = sessions l" "user_logical ?l1 = user_logical l"
    "org_logical ?l1 = org_logical l" "next_session ?l1 = next_session l"
    by (simp_all add: ensure_service_def split: option.split)
  have get1: "bt_get (services ?l1) k =
      (if k = conn \<and> bt_get (services l) k = None then Some service_new else bt_get (services l) k)" for k
    by (auto simp: ensure_service_def map_laws split: option.split)
  note fresh = next_ticket_fresh [OF inv lim]
  have idle: "bt_count (\<lambda>r. s_conn r = conn \<and> s_occupancy r \<noteq> None) (sessions l) = 0" if "bt_get (services l) conn = None"
  proof -
    have "s_conn q \<noteq> conn" if "bt_get (sessions l) j = Some q" for j q
      using inv that \<open>bt_get (services l) conn = None\<close> unfolding sessions_inv_def by metis
    moreover have "bt_wf (sessions l)" using inv by (simp add: sessions_inv_def)
    ultimately show ?thesis by (auto simp: bt_count_zero)
  qed
  have "\<exists>n. 1 \<le> n \<and> n \<le> Suc (next_session l) \<and> j = session_id n" if "bt_get (sessions l) j = Some q" for j q
    using inv that unfolding sessions_inv_def by (meson le_SucI)
  moreover have "bt_get (services l) (s_conn q) \<noteq> None" if "bt_get (sessions l) j = Some q" for j q
    using inv that unfolding sessions_inv_def by blast
  ultimately have "sessions_inv (?l1\<lparr>next_session := sat_add64 (next_session l) 1, sessions := bt_insert ?i ?r (sessions l),
       user_logical := bt_insert who (counter_of (user_logical l) who + 1) (user_logical l),
       org_logical := bt_insert org (counter_of (org_logical l) org + 1) (org_logical l)\<rparr>)"
    using inv True lim fresh idle
    by (auto simp: sessions_inv_def en get1 map_laws bt_wf_insert bt.cnt_fresh sat_add64_def service_new_def
        split: if_splits)
  with True show ?thesis by (simp add: open_session_def Let_def en)
next
  case False
  with inv show ?thesis by (auto simp: open_session_def Let_def)
qed

lemma sessions_inv_close:
  assumes inv: "sessions_inv l"
  shows "sessions_inv (snd (close_session ticket l))" (is "sessions_inv ?L")
proof (cases "bt_get (sessions l) ticket")
  case None
  with inv show ?thesis by (simp add: close_session_def)
next
  case (Some r)
  have wf: "bt_wf (sessions l)" using inv by (simp add: sessions_inv_def)
  note del = bt.cnt_del [OF wf Some]
  have L: "sessions ?L = bt_remove ticket (sessions l)" "next_session ?L = next_session l" "config ?L = config l"
    "user_logical ?L = lower_counter (s_principal r) (user_logical l)"
    "org_logical ?L = lower_counter (s_org r) (org_logical l)"
    by (simp_all add: close_session_def Some Let_def)
  have keys: "bt_get (services ?L) k \<noteq> None \<longleftrightarrow> bt_get (services l) k \<noteq> None" for k
    by (simp add: close_session_def Some Let_def)
  have "physical s = bt_count (\<lambda>q. s_conn q = k \<and> s_occupancy q \<noteq> None) (bt_remove ticket (sessions l))"
    if got: "bt_get (services ?L) k = Some s" for k s
  proof -
    from got obtain s0 where s0: "bt_get (services l) k = Some s0"
      and s: "physical s = physical s0 - (if k = s_conn r \<and> s_occupancy r \<noteq> None then 1 else 0)"
      by (auto simp: close_session_def Some Let_def split: if_splits)
    show ?thesis
      using del [of "\<lambda>q. s_conn q = k \<and> s_occupancy q \<noteq> None"] inv s0 s by (auto simp: sessions_inv_def)
  qed
  moreover have "(\<exists>n. 1 \<le> n \<and> n \<le> next_session l \<and> j = session_id n) \<and> bt_get (services ?L) (s_conn q) \<noteq> None"
    if "bt_get (bt_remove ticket (sessions l)) j = Some q" for j q
  proof -
    have "bt_get (sessions l) j = Some q" using that by (simp add: map_laws split: if_splits)
    then have "(\<exists>n. 1 \<le> n \<and> n \<le> next_session l \<and> j = session_id n) \<and> bt_get (services l) (s_conn q) \<noteq> None"
      using inv unfolding sessions_inv_def by metis
    then show ?thesis using keys by metis
  qed
  moreover have "counter_of (user_logical ?L) who = bt_count (\<lambda>q. s_principal q = who) (bt_remove ticket (sessions l))
      \<and> bt_count (\<lambda>q. s_principal q = who) (bt_remove ticket (sessions l)) \<le> per_user_logical_sessions (config l)" for who
  proof -
    have "counter_of (user_logical l) who = bt_count (\<lambda>q. s_principal q = who) (sessions l)"
      "bt_count (\<lambda>q. s_principal q = who) (sessions l) \<le> per_user_logical_sessions (config l)"
      using inv by (simp_all add: sessions_inv_def)
    then show ?thesis using del [of "\<lambda>q. s_principal q = who"] by (auto simp: L)
  qed
  moreover have "counter_of (org_logical ?L) org = bt_count (\<lambda>q. s_org q = org) (bt_remove ticket (sessions l))
      \<and> bt_count (\<lambda>q. s_org q = org) (bt_remove ticket (sessions l)) \<le> per_org_logical_sessions (config l)" for org
  proof -
    have "counter_of (org_logical l) org = bt_count (\<lambda>q. s_org q = org) (sessions l)"
      "bt_count (\<lambda>q. s_org q = org) (sessions l) \<le> per_org_logical_sessions (config l)"
      using inv by (simp_all add: sessions_inv_def)
    then show ?thesis using del [of "\<lambda>q. s_org q = org"] by (auto simp: L)
  qed
  ultimately show ?thesis
    unfolding sessions_inv_def L(1-3) using wf by (simp add: bt_wf_remove)
qed

section \<open>Closing what was opened\<close>

text \<open>
  \<open>connect_editor\<close> and \<open>attach_physical\<close> both count the session as a connected editor, but
  \<open>close_session\<close> lowers the counter once: a session that did both leaves one editor behind.
\<close>

definition editors_after :: "string \<Rightarrow> string \<Rightarrow> string \<Rightarrow> ledger \<Rightarrow> nat" where
  "editors_after org who conn l =
     (case open_session org who conn l of
        (Inr t, l1) \<Rightarrow>
          (let l2 = snd (connect_editor t l1); l3 = snd (attach_physical t InUse l2); l4 = snd (close_session t l3)
           in connected_of conn who l4)
      | (Inl _, l1) \<Rightarrow> connected_of conn who l1)"

end
