(* ===== verification/Budget_Coordinator.thy ===== *)
theory Budget_Coordinator
  imports Budget_Sessions Errors
begin

text \<open>
  The in-process coordinator (\<open>execution/runtime/budget/coordinator.rs\<close>): the operations its callers
  run under the ledger's lock, as functions of the ledger and of the clock readings they take, and
  the step relation of a coordinator shared by many tasks. The principal resolver is a trait object
  and therefore a parameter.
\<close>

section \<open>Requests\<close>

datatype budget_purpose = UserInteractive | BackgroundJob

record budget_request =
  br_org :: string
  br_conn :: string
  br_purpose :: budget_purpose
  br_timeout_ms :: "nat option"

definition organization_principal :: "budget_request \<Rightarrow> string" where
  "organization_principal req = br_org req"

fun classify :: "budget_purpose \<Rightarrow> resource_class" where
  "classify UserInteractive = Interactive"
| "classify BackgroundJob = Job"

definition port_error_of :: "denial_reason \<Rightarrow> port_error" where
  "port_error_of reason =
     (case reason of
        UnknownConnection conn \<Rightarrow> NotFound conn
      | NodeLost w \<Rightarrow> CasConflict ''node_lease'' w
      | other \<Rightarrow> QuotaExceeded (denial_message other))"

definition timeout_error :: "nat \<Rightarrow> port_error" where
  "timeout_error deadline = ProviderTimeout (''budget acquire deadline reached at '' @ dec deadline @ ''ms'')"

definition claim_of_request :: "(budget_request \<Rightarrow> string) \<Rightarrow> budget_request \<Rightarrow> budget_claim" where
  "claim_of_request resolve req = claim_single (br_org req) (br_conn req) (resolve req) (classify (br_purpose req))"

section \<open>Operations under the lock\<close>

definition coord_admit :: "budget_claim \<Rightarrow> nat \<Rightarrow> ledger \<Rightarrow> admit_outcome \<times> ledger" where
  "coord_admit claim now l = try_admit claim now (ensure_service (c_conn claim) l)"

text \<open>Releasing wakes the scheduler, which reads the clock again.\<close>

definition coord_release_permit ::
    "port_permit \<Rightarrow> bool \<Rightarrow> nat \<Rightarrow> nat \<Rightarrow> ledger \<Rightarrow> (release_result \<times> ledger) option" where
  "coord_release_permit permit consumed now now' l =
     (let (result, l1) = release permit consumed now l
      in case result of
           UnknownPermit _ \<Rightarrow> Some (result, l1)
         | _ \<Rightarrow> (case pump now' l1 of None \<Rightarrow> None | Some (l2, _) \<Rightarrow> Some (result, l2)))"

datatype release_outcome = Consumed | Unused

definition coord_release ::
    "port_permit \<Rightarrow> release_outcome \<Rightarrow> nat \<Rightarrow> nat \<Rightarrow> ledger \<Rightarrow> ((port_error + unit) \<times> ledger) option" where
  "coord_release permit outcome now now' l =
     (let consumed = (outcome = Consumed); (result, l1) = release permit consumed now l
      in case result of
           UnknownPermit i \<Rightarrow> Some (Inl (NotFound i), l1)
         | _ \<Rightarrow> (case pump now' l1 of None \<Rightarrow> None | Some (l2, _) \<Rightarrow> Some (Inr (), l2)))"

definition try_acquire ::
    "(budget_request \<Rightarrow> string) \<Rightarrow> budget_request \<Rightarrow> nat \<Rightarrow> ledger \<Rightarrow> ((port_error + port_permit option) \<times> ledger) option" where
  "try_acquire resolve req now l =
     (let claim = claim_of_request resolve req
      in case try_admit claim now (ensure_service (c_conn claim) l) of
           (Granted r, l') \<Rightarrow> Some (Inr (Some (to_port_permit r)), l')
         | (Denied reason, l') \<Rightarrow> Some (Inl (port_error_of reason), l')
         | (Busy _, l') \<Rightarrow> (case pump now l' of None \<Rightarrow> None | Some (l'', _) \<Rightarrow> Some (Inr None, l'')))"

definition reserve_many ::
    "(budget_request \<Rightarrow> string) \<Rightarrow> budget_request list \<Rightarrow> nat \<Rightarrow> ledger \<Rightarrow> (port_error + port_permit list) \<times> ledger" where
  "reserve_many resolve reqs now l =
     (let claims = map (claim_of_request resolve) reqs;
          l1 = foldl (\<lambda>l claim. ensure_service (c_conn claim) l) l claims
      in case try_admit_many claims now l1 of
           (Inr rs, l2) \<Rightarrow> (Inr (map to_port_permit rs), l2)
         | (Inl reason, l2) \<Rightarrow> (Inl (port_error_of reason), l2))"

definition acquire_cost_now :: "budget_claim \<Rightarrow> nat \<Rightarrow> ledger \<Rightarrow> (port_error + port_permit list) \<times> ledger" where
  "acquire_cost_now claim now l =
     (if c_slots claim = 0 \<or> c_slots claim > q_total (service_quota (config l)) then
        (Inl (QuotaExceeded ''declared physical cost''), l)
      else
        (let l1 = ensure_service (c_conn claim) l;
             claims = replicate (c_slots claim) (claim\<lparr>c_slots := 1\<rparr>)
         in case try_admit_many claims now l1 of
              (Inr rs, l2) \<Rightarrow> (Inr (map to_port_permit rs), l2)
            | (Inl reason, l2) \<Rightarrow> (Inl (port_error_of reason), l2)))"

text \<open>
  \<open>acquire_claim_with\<close> in its three lock sections: the immediate attempt, the enqueueing, and the
  repeated settling. None of the first means that the task goes on to wait.
\<close>

definition acquire_now ::
    "budget_claim \<Rightarrow> nat \<Rightarrow> ledger \<Rightarrow> (port_error + port_permit) option \<times> ledger" where
  "acquire_now claim started l =
     (case try_admit claim started (ensure_service (c_conn claim) l) of
        (Granted r, l') \<Rightarrow> (Some (Inr (to_port_permit r)), l')
      | (Denied reason, l') \<Rightarrow> (Some (Inl (port_error_of reason)), l')
      | (Busy _, l') \<Rightarrow> (None, l'))"

definition acquire_enqueue ::
    "budget_claim \<Rightarrow> nat \<Rightarrow> nat \<Rightarrow> nat \<Rightarrow> ledger \<Rightarrow> (port_error + nat) \<times> ledger" where
  "acquire_enqueue claim deadline now now' l =
     (if now \<ge> deadline then (Inl (timeout_error deadline), l)
      else case enqueue claim now' deadline l of
             (Inl reason, l') \<Rightarrow> (Inl (port_error_of reason), l')
           | (Inr i, l') \<Rightarrow> (Inr i, l'))"

definition find_waiter_permit :: "nat \<Rightarrow> ledger \<Rightarrow> permit_record option" where
  "find_waiter_permit i l = find (\<lambda>r. p_waiter r = Some i) (bt_values (permits l))"

definition settle :: "nat \<Rightarrow> nat \<Rightarrow> nat \<Rightarrow> ledger \<Rightarrow> ((port_error + port_permit) option \<times> ledger) option" where
  "settle i deadline now l =
     (if now \<ge> deadline then Some (Some (Inl (timeout_error deadline)), l)
      else case pump now l of
             None \<Rightarrow> None
           | Some (l', report) \<Rightarrow>
               if i \<in> set (timed_out report) then Some (Some (Inl (timeout_error deadline)), l')
               else Some (map_option (\<lambda>r. Inr (to_port_permit r)) (find_waiter_permit i l'), l'))"

text \<open>Dropping an armed \<open>WaiterGuard\<close>.\<close>

definition drop_guard :: "nat \<Rightarrow> nat \<Rightarrow> ledger \<Rightarrow> ledger" where
  "drop_guard i now l =
     (let l1 = snd (cancel i l)
      in case find_waiter_permit i l1 of
           Some r \<Rightarrow> snd (release (to_port_permit r) False now l1)
         | None \<Rightarrow> l1)"

section \<open>One owner per waiter id\<close>

text \<open>
  How many waiters and live permits refer to a waiter id. Every id is handed out once, so this is at
  most one: a granted permit belongs to exactly one waiting task.
\<close>

definition waiter_refs :: "nat \<Rightarrow> ledger \<Rightarrow> nat" where
  "waiter_refs i l =
     size (filter_mset (\<lambda>w. w_id w = i) (ledger_waiters l)) + bt_count (\<lambda>r. p_waiter r = Some i) (permits l)"

definition ids_inv :: "ledger \<Rightarrow> bool" where
  "ids_inv l \<longleftrightarrow> (\<forall>i. waiter_refs i l \<le> (if i < next_waiter l then 1 else 0))"

lemma ids_inv_new: "ids_inv (ledger_new cfg)"
  by (simp add: ids_inv_def waiter_refs_def ledger_new_def ledger_waiters_def bt_values_def)

lemma ids_inv_mono:
  assumes "ids_inv l" "\<And>i. waiter_refs i l' \<le> waiter_refs i l" "next_waiter l' = next_waiter l"
  shows "ids_inv l'"
  using assms unfolding ids_inv_def by (metis le_trans)

lemma all_waiting_replace:
  assumes "bt_wf m" "bt_get m k = Some s" "waiting_in s' = waiting_in s"
  shows "all_waiting (bt_insert k s' m) = all_waiting m"
  using all_waiting_insert [of "bt_remove k m" k s'] all_waiting_remove [OF assms(1,2)] assms(1,3)
  by (simp add: map_laws bt.ins_del)

text \<open>The full invariant of a coordinator's ledger.\<close>

definition coord_inv :: "ledger \<Rightarrow> bool" where
  "coord_inv l \<longleftrightarrow> ledger_inv l \<and> sessions_inv l \<and> ids_inv l"

lemma coord_inv_new: "cfg_bounds cfg \<Longrightarrow> coord_inv (ledger_new cfg)"
  by (simp add: coord_inv_def ledger_inv_new sessions_inv_new ids_inv_new)

text \<open>
  A permit operation that keeps the three parts: it preserves the ledger invariant, moves no session
  and adds no reference to a waiter id.
\<close>

definition quiet :: "ledger \<Rightarrow> ledger \<Rightarrow> bool" where
  "quiet l l' \<longleftrightarrow> session_view l l' \<and> next_waiter l' = next_waiter l \<and> (\<forall>i. waiter_refs i l' \<le> waiter_refs i l)"

lemma quiet_refl [simp]: "quiet l l"
  by (simp add: quiet_def session_view_def option.rel_refl)

lemma quiet_trans: "quiet l l' \<Longrightarrow> quiet l' l'' \<Longrightarrow> quiet l l''"
proof -
  assume a: "quiet l l'" and b: "quiet l' l''"
  have "rel_option (\<lambda>s s'. physical s' = physical s) (bt_get (services l) k) (bt_get (services l'') k)" for k
  proof -
    have "rel_option (\<lambda>s s'. physical s' = physical s) (bt_get (services l) k) (bt_get (services l') k)"
      "rel_option (\<lambda>s s'. physical s' = physical s) (bt_get (services l') k) (bt_get (services l'') k)"
      using a b by (simp_all add: quiet_def session_view_def)
    then show ?thesis
      by (cases "bt_get (services l) k"; cases "bt_get (services l') k"; cases "bt_get (services l'') k") auto
  qed
  moreover have "waiter_refs i l'' \<le> waiter_refs i l" for i
    using a b unfolding quiet_def by (meson le_trans)
  ultimately show ?thesis using a b by (simp add: quiet_def session_view_def)
qed

lemma coord_inv_quiet: "coord_inv l \<Longrightarrow> ledger_inv l' \<Longrightarrow> quiet l l' \<Longrightarrow> coord_inv l'"
  unfolding coord_inv_def quiet_def by (blast intro: sessions_inv_view ids_inv_mono)

lemma waiter_refs_cong:
  "ledger_waiters l' = ledger_waiters l \<Longrightarrow> permits l' = permits l \<Longrightarrow> waiter_refs i l' = waiter_refs i l"
  by (simp add: waiter_refs_def)

section \<open>The operations keep the full invariant\<close>

lemma coord_inv_ensure:
  assumes inv: "coord_inv l"
  shows "coord_inv (ensure_service conn l)"
proof (cases "bt_get (services l) conn")
  case None
  let ?l' = "ensure_service conn l"
  have l': "?l' = l\<lparr>services := bt_insert conn service_new (services l)\<rparr>" by (simp add: ensure_service_def None)
  have "ledger_waiters ?l' = ledger_waiters l"
    using all_waiting_insert [OF None, of service_new]
    by (simp add: l' ledger_waiters_all waiting_in_eq service_new_def cq_content_def snapshot_waiters_def cq_empty_def)
  then have "ids_inv ?l'"
    using inv by (simp add: coord_inv_def ids_inv_def waiter_refs_def l')
  moreover have "sessions_inv ?l'"
  proof -
    have "s_conn q \<noteq> conn" if "bt_get (sessions l) j = Some q" for j q
      using inv that None unfolding coord_inv_def sessions_inv_def by metis
    moreover have "bt_wf (sessions l)" using inv by (simp add: coord_inv_def sessions_inv_def)
    ultimately have "bt_count (\<lambda>r. s_conn r = conn \<and> s_occupancy r \<noteq> None) (sessions l) = 0"
      by (auto simp: bt_count_zero)
    then show ?thesis
      using inv by (auto simp: coord_inv_def sessions_inv_def l' map_laws service_new_def)
  qed
  ultimately show ?thesis using inv ledger_inv_ensure by (simp add: coord_inv_def)
next
  case (Some s)
  with inv show ?thesis by (simp add: ensure_service_def)
qed

lemma try_admit_quiet:
  assumes inv: "ledger_inv l" and lim: "next_permit l < u64_max"
  shows "quiet l (snd (try_admit claim now l))"
proof (cases rule: try_admit_cases [OF inv, of claim now])
  case (1 out)
  then show ?thesis by simp
next
  case (2 s slot)
  let ?l1 = "put_service (c_conn claim) (service_occupy (c_class claim) slot s) l"
  let ?l' = "snd (commit_grant claim slot None now ?l1)"
  have l': "snd (try_admit claim now l) = ?l'" using 2(9) by (simp add: case_prod_beta Let_def)
  have "ledger_waiters ?l' = ledger_waiters l"
    using all_waiting_replace [OF _ 2(1), of "service_occupy (c_class claim) slot s"] ledger_inv_wf [OF inv]
    by (simp add: ledger_waiters_all commit_grant_simps)
  moreover have "bt_count (\<lambda>r. p_waiter r = Some i) (permits ?l') = bt_count (\<lambda>r. p_waiter r = Some i) (permits l)" for i
    using grant_id_fresh [OF inv lim] by (simp add: commit_grant_simps bt.cnt_fresh)
  ultimately have "waiter_refs i ?l' = waiter_refs i l" for i by (simp add: waiter_refs_def)
  moreover have "session_view l ?l'"
    using 2(1) by (auto simp: session_view_def commit_grant_simps put_service_def map_laws option.rel_refl)
  ultimately show ?thesis
    by (simp add: l' quiet_def commit_grant_simps put_service_def)
qed

lemma admit_each_quiet:
  assumes "ledger_inv l" "next_permit l + length claims \<le> u64_max"
  shows "quiet l (snd (admit_each claims now l acc)) \<and> ledger_inv (snd (admit_each claims now l acc))"
  using assms
proof (induction claims arbitrary: l acc)
  case (Cons claim claims)
  have lim: "next_permit l < u64_max" using Cons.prems(2) by simp
  obtain out l1 where e: "try_admit claim now l = (out, l1)" by (cases "try_admit claim now l")
  have one: "quiet l l1" "ledger_inv l1"
    using try_admit_quiet [OF Cons.prems(1) lim, of claim now] ledger_inv_try_admit [OF Cons.prems(1) lim, of claim now] e
    by simp_all
  show ?case
  proof (cases out)
    case (Granted r)
    then have "next_permit l1 = Suc (next_permit l)"
      using try_admit_granted(8) [OF Cons.prems(1) lim] e by simp
    then have "quiet l1 (snd (admit_each claims now l1 (acc @ [r]))) \<and> ledger_inv (snd (admit_each claims now l1 (acc @ [r])))"
      using Cons.IH [OF one(2)] Cons.prems(2) by simp
    then show ?thesis using one e Granted by (auto intro: quiet_trans)
  qed (use one e in simp_all)
qed simp

lemma admit_each_next_permit:
  assumes "ledger_inv l" "next_permit l + length claims \<le> u64_max"
  shows "next_permit l \<le> next_permit (snd (admit_each claims now l acc))"
  using assms
proof (induction claims arbitrary: l acc)
  case (Cons claim claims)
  have lim: "next_permit l < u64_max" using Cons.prems(2) by simp
  obtain out l1 where e: "try_admit claim now l = (out, l1)" by (cases "try_admit claim now l")
  show ?case
  proof (cases out)
    case (Granted r)
    then have "next_permit l1 = Suc (next_permit l)"
      using try_admit_granted(8) [OF Cons.prems(1) lim] e by simp
    moreover have "ledger_inv l1" using ledger_inv_try_admit [OF Cons.prems(1) lim, of claim now] e by simp
    ultimately show ?thesis using Cons.IH [of l1 "acc @ [r]"] Cons.prems(2) e Granted by simp
  next
    case (Busy r)
    with e have "l1 = l"
      by (cases rule: try_admit_cases [OF Cons.prems(1), of claim now]) (auto simp: Let_def case_prod_beta)
    with e Busy show ?thesis by simp
  next
    case (Denied r)
    with e have "l1 = l"
      by (cases rule: try_admit_cases [OF Cons.prems(1), of claim now]) (auto simp: Let_def case_prod_beta)
    with e Denied show ?thesis by simp
  qed
qed simp

lemma try_admit_many_quiet:
  assumes inv: "ledger_inv l" and lim: "next_permit l + length claims \<le> u64_max"
  shows "quiet l (snd (try_admit_many claims now l)) \<and> ledger_inv (snd (try_admit_many claims now l))"
proof (cases "fst (try_admit_many claims now l)")
  case (Inl reason)
  obtain n where l': "snd (try_admit_many claims now l) = l\<lparr>next_permit := n\<rparr>"
    and n: "n = next_permit (snd (admit_each claims now l []))"
  proof -
    have "next_permit (snd (try_admit_many claims now l)) = next_permit (snd (admit_each claims now l []))"
      by (simp add: try_admit_many_def Let_def case_prod_beta split: sum.split)
    then show thesis
      using try_admit_many_refused [OF _ Inl] ledger_inv_wf [OF inv] that by force
  qed
  have "next_permit l \<le> n"
    using admit_each_next_permit [OF inv lim, of now "[]"] n by simp
  then have iss: "issued l i \<Longrightarrow> issued (l\<lparr>next_permit := n\<rparr>) i" for i by (auto simp: issued_def)
  have "ledger_inv (l\<lparr>next_permit := n\<rparr>)"
    using inv iss by (auto simp: ledger_inv_def permits_inv_def retired_inv_def services_inv_def)
  moreover have "quiet l (l\<lparr>next_permit := n\<rparr>)"
    by (simp add: quiet_def session_view_def option.rel_refl waiter_refs_def ledger_waiters_def)
  ultimately show ?thesis by (simp add: l')
next
  case (Inr rs)
  then have "snd (try_admit_many claims now l) = snd (admit_each claims now l [])"
    by (auto simp: try_admit_many_def Let_def case_prod_beta split: sum.splits)
  with admit_each_quiet [OF inv lim, of now "[]"] show ?thesis by simp
qed

lemma table_shrunk_view:
  assumes "table_shrunk (services l) m"
  shows "session_view l (l\<lparr>services := m\<rparr>)"
proof -
  have "rel_option (\<lambda>s s'. physical s' = physical s) (bt_get (services l) k) (bt_get m k)" for k
    using table_shrunk_get [OF assms, of k]
    by (rule option.rel_mono_strong) (auto simp: svc_shrunk_def)
  then show ?thesis by (simp add: session_view_def)
qed

lemma cancel_quiet: "quiet l (snd (cancel i l))"
proof -
  have l': "snd (cancel i l) = l\<lparr>services := snd (cancel_services i (services l))\<rparr>"
    by (simp add: cancel_def case_prod_beta)
  have "session_view l (snd (cancel i l))"
    using table_shrunk_view cancel_services_sound [of "services l" i] unfolding l' by blast
  moreover have "ledger_waiters (snd (cancel i l)) \<subseteq># ledger_waiters l"
    using cancel_found [of i l] cancel_not_found [of i l] by (cases "fst (cancel i l)") auto
  then have "waiter_refs j (snd (cancel i l)) \<le> waiter_refs j l" for j
    by (simp add: waiter_refs_def l' size_mset_mono multiset_filter_mono)
  ultimately show ?thesis by (simp add: quiet_def l')
qed

lemma release_quiet:
  assumes inv: "ledger_inv l"
  shows "quiet l (snd (release permit consumed now l))"
proof (cases "bt_get (permits l) (pp_id permit)")
  case None
  then show ?thesis by (simp add: release_def split: option.split)
next
  case (Some r)
  obtain s where s: "bt_get (services l) (p_conn r) = Some s" and id: "p_id r = pp_id permit"
    and rel: "release permit consumed now l = (Released r,
      (put_service (p_conn r) (service_vacate (p_class r) (p_slot r) s) l)
        \<lparr>permits := bt_remove (p_id r) (permits l),
         retired := bt_insert (p_id r) \<lparr>ret_record = r, ret_consumed = consumed, ret_released_at = now\<rparr> (evict_retired (retired l)),
         consumed_total := (if consumed then sat_add64 (consumed_total l) 1 else consumed_total l),
         returned_total := (if consumed then returned_total l else sat_add64 (returned_total l) 1)\<rparr>)"
    using release_live [OF inv Some] by blast
  have same: "waiting_in (service_vacate (p_class r) (p_slot r) s) = waiting_in s"
    "physical (service_vacate (p_class r) (p_slot r) s) = physical s"
    by (simp_all add: waiting_in_eq service_vacate_def Let_def)
  have "ledger_waiters (snd (release permit consumed now l)) = ledger_waiters l"
    using all_waiting_replace [OF _ s same(1)] ledger_inv_wf [OF inv] by (simp add: rel ledger_waiters_all)
  moreover have "bt_count P (bt_remove (p_id r) (permits l)) \<le> bt_count P (permits l)" for P
    using bt.cnt_del [OF _ Some, of P] ledger_inv_wf [OF inv] id by simp
  ultimately have "waiter_refs i (snd (release permit consumed now l)) \<le> waiter_refs i l" for i
    by (simp add: waiter_refs_def rel)
  moreover have "session_view l (snd (release permit consumed now l))"
    using s same(2) by (auto simp: session_view_def rel put_service_def map_laws option.rel_refl)
  ultimately show ?thesis by (simp add: quiet_def rel put_service_def)
qed

lemma release_waiters:
  assumes inv: "ledger_inv l"
  shows "ledger_waiters (snd (release permit consumed now l)) = ledger_waiters l"
proof (cases "bt_get (permits l) (pp_id permit)")
  case None
  then show ?thesis by (simp add: release_def split: option.split)
next
  case (Some r)
  have same: "waiting_in (service_vacate c slot s) = waiting_in s" for c slot s
    by (simp add: waiting_in_eq service_vacate_def Let_def)
  from release_live [OF inv Some, of consumed now] show ?thesis
    by (rule) (simp add: ledger_waiters_all all_waiting_replace same ledger_inv_wf [OF inv])
qed

lemma release_permits:
  assumes inv: "ledger_inv l" and live: "bt_get (permits l) (pp_id permit) = Some r"
  shows "permits (snd (release permit consumed now l)) = bt_remove (pp_id permit) (permits l)"
  by (rule release_live [OF inv live, of consumed now]) simp

lemma served_by_filter:
  "list_all2 served_by ws new \<Longrightarrow>
   length (filter (\<lambda>r. p_waiter r = Some i) new) = size (filter_mset (\<lambda>w. w_id w = i) (mset ws))"
  by (induction rule: list_all2_induct) (simp_all add: served_by_def)

lemma pump_quiet:
  assumes rel: "pump_rel now K (l, report) (l', report')"
  shows "quiet l l'"
proof -
  obtain ws gone new where d: "list_all2 served_by ws new" "ledger_waiters l = mset ws + mset gone + ledger_waiters l'"
    "\<forall>P. bt_count P (permits l') = bt_count P (permits l) + length (filter P new)"
    using rel unfolding pump_rel_def prod.case by blast
  have "waiter_refs i l' \<le> waiter_refs i l" for i
    using d(2,3) served_by_filter [OF d(1), of i] by (simp add: waiter_refs_def)
  moreover have rest: "rest_of l' = rest_of l" using rel by (simp add: pump_rel_def)
  have "next_waiter (rest_of l') = next_waiter (rest_of l)" "sessions (rest_of l') = sessions (rest_of l)"
    "user_logical (rest_of l') = user_logical (rest_of l)" "org_logical (rest_of l') = org_logical (rest_of l)"
    "next_session (rest_of l') = next_session (rest_of l)" "config (rest_of l') = config (rest_of l)"
    by (simp_all only: rest)
  then have "next_waiter l' = next_waiter l" "sessions l' = sessions l" "user_logical l' = user_logical l"
    "org_logical l' = org_logical l" "next_session l' = next_session l" "config l' = config l"
    by (simp_all add: rest_of_def)
  moreover have "rel_option (\<lambda>s s'. physical s' = physical s) (bt_get (services l) k) (bt_get (services l') k)" for k
  proof -
    have "rel_option (\<lambda>s s'. draining s' = draining s \<and> physical s' = physical s) (bt_get (services l) k) (bt_get (services l') k)"
      using rel by (simp add: pump_rel_def)
    then show ?thesis by (rule option.rel_mono_strong) simp
  qed
  ultimately show ?thesis by (simp add: quiet_def session_view_def)
qed

lemma coord_inv_pump:
  assumes inv: "coord_inv l" and lim: "next_permit l + size (ledger_waiters l) \<le> u64_max"
  shows "\<exists>l' report. pump now l = Some (l', report) \<and> coord_inv l' \<and> (\<forall>k. settled now l' k)"
  using pump_sound [of l now] inv lim coord_inv_quiet pump_quiet unfolding coord_inv_def by (metis coord_inv_def)

lemma coord_inv_cancel: "coord_inv l \<Longrightarrow> coord_inv (snd (cancel i l))"
  using cancel_quiet ledger_inv_cancel coord_inv_quiet by (metis coord_inv_def)

lemma coord_inv_release: "coord_inv l \<Longrightarrow> coord_inv (snd (release permit consumed now l))"
  using release_quiet ledger_inv_release coord_inv_quiet by (metis coord_inv_def)

lemma enqueue_cases:
  assumes inv: "ledger_inv l"
  obtains (Refused) reason where "enqueue claim now deadline l = (Inl reason, l)"
  | (Queued) s w where "bt_get (services l) (c_conn claim) = Some s" "w_id w = next_waiter l"
      "w_principal w = c_principal claim" "w_deadline w = deadline"
      "enqueue claim now deadline l = (Inr (next_waiter l),
         (put_service (c_conn claim) (s\<lparr>queues := (queues s)(c_class claim := cq_push w (queues s (c_class claim)))\<rparr>) l)
           \<lparr>next_waiter := sat_add64 (next_waiter l) 1\<rparr>)"
proof (cases "bt_get (services l) (c_conn claim)")
  case None
  then have "\<exists>reason. enqueue claim now deadline l = (Inl reason, l)" by (simp add: enqueue_def Let_def)
  then show ?thesis using Refused by blast
next
  case (Some s)
  let ?w = "\<lparr>w_id = next_waiter l, w_org = c_org claim, w_conn = c_conn claim, w_principal = c_principal claim,
             w_class = c_class claim, w_slots = c_slots claim, w_enqueued_at = now, w_deadline = deadline\<rparr>"
  have unmoved: "l\<lparr>services := bt_insert (c_conn claim) s (bt_remove (c_conn claim) (services l))\<rparr> = l"
    using put_service_same [OF inv Some] .
  have put: "bt_insert (c_conn claim) s' (bt_remove (c_conn claim) (services l)) = bt_insert (c_conn claim) s' (services l)" for s'
    using bt.ins_del [of "services l" "c_conn claim" s'] ledger_inv_wf [OF inv] by simp
  show ?thesis
  proof (cases "fst (enqueue claim now deadline l)")
    case (Inl reason)
    then have "enqueue claim now deadline l = (Inl reason, l)"
      by (auto simp: enqueue_def Some unmoved Let_def split: if_splits option.splits)
    then show ?thesis by (rule Refused)
  next
    case (Inr i)
    then show ?thesis
      by (intro Queued [OF Some, of ?w]) (auto simp: enqueue_def Some put put_service_def Let_def split: if_splits option.splits)
  qed
qed

lemma coord_inv_enqueue:
  assumes inv: "coord_inv l" and lim: "next_waiter l < u64_max"
  shows "coord_inv (snd (enqueue claim now deadline l))"
proof -
  have led: "ledger_inv l" using inv by (simp add: coord_inv_def)
  show ?thesis
  proof (cases rule: enqueue_cases [OF led, of claim now deadline])
    case (1 reason)
    with inv show ?thesis by simp
  next
    case (2 s w)
    let ?q = "queues s (c_class claim)"
    let ?s = "s\<lparr>queues := (queues s)(c_class claim := cq_push w ?q)\<rparr>"
    let ?l' = "(put_service (c_conn claim) ?s l)\<lparr>next_waiter := sat_add64 (next_waiter l) 1\<rparr>"
    have "waiting_in ?s = add_mset w (waiting_in s)"
      by (cases "c_class claim") (simp_all add: waiting_in_eq cq.content_push)
    then have "ledger_waiters ?l' = add_mset w (ledger_waiters l)"
      using all_waiting_insert [of "bt_remove (c_conn claim) (services l)" "c_conn claim" ?s]
        all_waiting_remove [OF _ 2(1)] ledger_inv_wf [OF led]
      by (simp add: ledger_waiters_all map_laws bt.ins_del)
    then have "waiter_refs i ?l' = waiter_refs i l + (if i = next_waiter l then 1 else 0)" for i
      using 2(2) by (simp add: waiter_refs_def)
    moreover have "next_waiter ?l' = Suc (next_waiter l)" using lim by (simp add: sat_add64_def)
    moreover have bound: "waiter_refs i l \<le> (if i < next_waiter l then 1 else 0)" for i
      using inv by (simp add: coord_inv_def ids_inv_def)
    moreover have "waiter_refs i l = 0" if "next_waiter l \<le> i" for i
      using bound [of i] that by simp
    moreover have "waiter_refs i l \<le> 1" for i
      using bound [of i] by (cases "i < next_waiter l") simp_all
    ultimately have "ids_inv ?l'" unfolding ids_inv_def by (simp add: less_Suc_eq)
    moreover have "sessions_inv ?l'"
    proof (rule sessions_inv_view)
      show "session_view l ?l'"
        using 2(1) by (auto simp: session_view_def put_service_def map_laws option.rel_refl)
    qed (use inv in \<open>simp add: coord_inv_def\<close>)
    ultimately show ?thesis
      using ledger_inv_enqueue [OF led, of claim now deadline] 2(5) by (simp add: coord_inv_def)
  qed
qed

text \<open>Operations that touch neither permits nor queues.\<close>

lemma waiter_refs_services:
  assumes "permits l' = permits l" "all_waiting (services l') = all_waiting (services l)" "next_waiter l' = next_waiter l"
    and "ids_inv l"
  shows "ids_inv l'"
  using assms by (simp add: ids_inv_def waiter_refs_def ledger_waiters_all)

lemma all_waiting_update:
  assumes "bt_wf (services l)" "\<And>s. waiting_in (f s) = waiting_in s"
  shows "all_waiting (services (update_service conn f l)) = all_waiting (services l)"
  using assms all_waiting_replace by (auto simp: update_service_def split: option.split)

lemma update_service_next_waiter [simp]: "next_waiter (update_service conn f l) = next_waiter l"
  by (simp add: update_service_def split: option.split)

lemma waiting_in_fields [simp]:
  "waiting_in (s\<lparr>user_connected := u\<rparr>) = waiting_in s" "waiting_in (s\<lparr>physical := n\<rparr>) = waiting_in s"
  "waiting_in (s\<lparr>draining := d\<rparr>) = waiting_in s" "waiting_in (bump_connected who s) = waiting_in s"
  by (simp_all add: waiting_in_eq bump_connected_def)

lemma coord_inv_open:
  assumes inv: "coord_inv l" and lim: "next_session l < u64_max"
  shows "coord_inv (snd (open_session org who conn l))"
proof -
  have "coord_inv (ensure_service conn l)" using inv by (rule coord_inv_ensure)
  then have "ids_inv (snd (open_session org who conn l))"
    using inv
    by (auto simp: open_session_def Let_def coord_inv_def intro: waiter_refs_services [of _ "ensure_service conn l"])
  then show ?thesis
    using inv sessions_inv_open [OF _ lim] ledger_inv_open by (simp add: coord_inv_def)
qed

lemma coord_inv_connect_editor:
  assumes inv: "coord_inv l"
  shows "coord_inv (snd (connect_editor ticket l))"
proof -
  have "ids_inv (snd (connect_editor ticket l))"
    using inv by (auto simp: coord_inv_def connect_editor_eq ledger_inv_wf all_waiting_update
        intro: waiter_refs_services [of _ l] split: option.split)
  then show ?thesis
    using inv ledger_inv_connect_editor sessions_inv_connect_editor by (simp add: coord_inv_def)
qed

lemma coord_inv_attach:
  assumes inv: "coord_inv l"
  shows "coord_inv (snd (attach_physical ticket occ l))"
proof -
  have "ids_inv (snd (attach_physical ticket occ l))"
    using inv by (auto simp: coord_inv_def attach_physical_eq ledger_inv_wf all_waiting_update
        intro: waiter_refs_services [of _ l] split: option.split)
  then show ?thesis
    using inv ledger_inv_attach sessions_inv_attach by (simp add: coord_inv_def)
qed

lemma coord_inv_transition:
  assumes inv: "coord_inv l"
  shows "coord_inv (snd (transition ticket occ l))"
proof -
  have "ids_inv (snd (transition ticket occ l))"
    using inv by (auto simp: coord_inv_def transition_def intro: waiter_refs_services [of _ l] split: option.split)
  then show ?thesis
    using inv ledger_inv_transition sessions_inv_transition by (simp add: coord_inv_def)
qed

lemma coord_inv_close:
  assumes inv: "coord_inv l"
  shows "coord_inv (snd (close_session ticket l))"
proof -
  have wf: "bt_wf (services l)" using inv by (simp add: coord_inv_def ledger_inv_wf)
  have wf': "bt_wf (services (update_service conn f k))" if "bt_wf (services k)" for conn f k
    using that by (simp add: update_service_def bt_wf_insert split: option.split)
  have "ids_inv (snd (close_session ticket l))"
    using inv by (auto simp: coord_inv_def close_session_def Let_def all_waiting_update wf wf'
        intro: waiter_refs_services [of _ l] split: option.split)
  then show ?thesis
    using inv ledger_inv_close sessions_inv_close by (simp add: coord_inv_def)
qed

lemma coord_inv_drain:
  assumes inv: "coord_inv l"
  shows "coord_inv (snd (drain scope l))"
proof -
  have wf: "bt_wf (services l)" using inv by (simp add: coord_inv_def ledger_inv_wf)
  have all: "all_waiting (map (\<lambda>(k, s). (k, s\<lparr>draining := True\<rparr>)) m) = all_waiting m" for m
    by (simp add: all_waiting_def bt_values_def comp_def case_prod_beta)
  have "ids_inv (snd (drain scope l))"
    using inv by (auto simp: coord_inv_def drain_def Let_def all_waiting_update wf all
        intro: waiter_refs_services [of _ l] split: drain_scope.split)
  moreover have "session_view l (snd (drain scope l))"
  proof -
    have "bt_get (map (\<lambda>(k, s). (k, s\<lparr>draining := True\<rparr>)) m) k = map_option (\<lambda>s. s\<lparr>draining := True\<rparr>) (bt_get m k)"
      for m :: "(string, service_state) btree" and k
      unfolding bt_get_def by (induction m) auto
    then show ?thesis
      by (cases scope) (auto simp: drain_def session_view_def option.rel_refl option.rel_map)
  qed
  then have "sessions_inv (snd (drain scope l))"
    using inv sessions_inv_view unfolding coord_inv_def by blast
  ultimately show ?thesis
    using inv ledger_inv_drain by (simp add: coord_inv_def)
qed

lemma coord_inv_renew:
  assumes inv: "coord_inv l"
  shows "coord_inv (snd (renew_node_lease lease now l))"
proof -
  have "ids_inv (snd (renew_node_lease lease now l))"
    using inv by (auto simp: coord_inv_def renew_node_lease_def Let_def intro: waiter_refs_services [of _ l])
  moreover have "session_view l (snd (renew_node_lease lease now l))"
    by (simp add: renew_node_lease_def Let_def session_view_def option.rel_refl)
  then have "sessions_inv (snd (renew_node_lease lease now l))"
    using inv sessions_inv_view unfolding coord_inv_def by blast
  ultimately show ?thesis
    using inv ledger_inv_renew by (simp add: coord_inv_def)
qed

section \<open>A coordinator shared by many tasks\<close>

text \<open>
  Every operation runs under one lock, so a run of the coordinator is a sequence of operations in
  any order. The 64-bit counters of permits, waiters and sessions are assumed not to saturate.
\<close>

definition counters_fit :: "nat \<Rightarrow> ledger \<Rightarrow> bool" where
  "counters_fit n l \<longleftrightarrow> next_permit l + size (ledger_waiters l) + n \<le> u64_max
     \<and> next_waiter l < u64_max \<and> next_session l < u64_max"

inductive coord_step :: "ledger \<Rightarrow> ledger \<Rightarrow> bool" where
  ensure: "coord_step l (ensure_service conn l)"
| admit: "counters_fit 1 l \<Longrightarrow> coord_step l (snd (try_admit claim now l))"
| admit_many: "counters_fit (length claims) l \<Longrightarrow> coord_step l (snd (try_admit_many claims now l))"
| enqueue: "counters_fit 0 l \<Longrightarrow> coord_step l (snd (enqueue claim now deadline l))"
| cancel: "coord_step l (snd (cancel i l))"
| release: "coord_step l (snd (release permit consumed now l))"
| pump: "counters_fit 0 l \<Longrightarrow> pump now l = Some (l', report) \<Longrightarrow> coord_step l l'"
| open_session: "counters_fit 0 l \<Longrightarrow> coord_step l (snd (open_session org who conn l))"
| connect_editor: "coord_step l (snd (connect_editor ticket l))"
| attach: "coord_step l (snd (attach_physical ticket occ l))"
| transition: "coord_step l (snd (transition ticket occ l))"
| close: "coord_step l (snd (close_session ticket l))"
| drain: "coord_step l (snd (drain scope l))"
| renew: "coord_step l (snd (renew_node_lease lease now l))"

inductive coord_reachable :: "budget_config \<Rightarrow> ledger \<Rightarrow> bool" for cfg where
  start: "coord_reachable cfg (ledger_new cfg)"
| step: "coord_reachable cfg l \<Longrightarrow> coord_step l l' \<Longrightarrow> coord_reachable cfg l'"

inductive_cases coord_stepE: "coord_step l l'"

lemma coord_inv_admit:
  assumes inv: "coord_inv l" and lim: "next_permit l < u64_max"
  shows "coord_inv (snd (try_admit claim now l))"
proof -
  have led: "ledger_inv l" using inv by (simp add: coord_inv_def)
  show ?thesis
    by (rule coord_inv_quiet [OF inv ledger_inv_try_admit [OF led lim] try_admit_quiet [OF led lim]])
qed

lemma coord_inv_admit_many:
  assumes inv: "coord_inv l" and lim: "next_permit l + length claims \<le> u64_max"
  shows "coord_inv (snd (try_admit_many claims now l))"
proof -
  have led: "ledger_inv l" using inv by (simp add: coord_inv_def)
  note both = try_admit_many_quiet [OF led lim, of now]
  show ?thesis
    by (rule coord_inv_quiet [OF inv conjunct2 [OF both] conjunct1 [OF both]])
qed

lemma coord_inv_step:
  assumes inv: "coord_inv l" and step: "coord_step l l'"
  shows "coord_inv l'"
  using step
proof cases
  case (admit claim now)
  then show ?thesis
    using coord_inv_admit [OF inv, of claim now] by (simp add: counters_fit_def)
next
  case (admit_many claims now)
  then show ?thesis
    using coord_inv_admit_many [OF inv, of claims now] by (simp add: counters_fit_def)
next
  case (pump now report)
  then show ?thesis
    using coord_inv_pump [OF inv, of now] by (auto simp: counters_fit_def)
qed (use inv in \<open>simp_all add: counters_fit_def coord_inv_ensure coord_inv_enqueue coord_inv_cancel coord_inv_release
      coord_inv_open coord_inv_connect_editor coord_inv_attach coord_inv_transition coord_inv_close coord_inv_drain
      coord_inv_renew\<close>)

lemma coord_inv_reachable: "cfg_bounds cfg \<Longrightarrow> coord_reachable cfg l \<Longrightarrow> coord_inv l"
proof -
  assume cfg: "cfg_bounds cfg" and reach: "coord_reachable cfg l"
  from reach show ?thesis
    by (induction rule: coord_reachable.induct) (use cfg coord_inv_new coord_inv_step in blast)+
qed

end
