(* ===== verification/Budget_Numbers.thy ===== *)
theory Budget_Numbers
  imports Budget_Coordinator
begin

text \<open>
  Permit numbers are handed out once. A permit that was released, or taken back, does not become live
  again, whatever the users of the coordinator do afterwards.
\<close>

definition spent :: "ledger \<Rightarrow> string \<Rightarrow> bool" where
  "spent l i \<longleftrightarrow> issued l i \<and> bt_get (permits l) i = None"

definition numbers_kept :: "ledger \<Rightarrow> ledger \<Rightarrow> bool" where
  "numbers_kept l l' \<longleftrightarrow> next_permit l \<le> next_permit l' \<and> (\<forall>i. spent l i \<longrightarrow> bt_get (permits l') i = None)"

lemma numbers_kept_spent: "numbers_kept l l' \<Longrightarrow> spent l i \<Longrightarrow> spent l' i"
  by (auto simp: numbers_kept_def spent_def intro: issued_mono)

lemma numbers_kept_trans: "numbers_kept l1 l2 \<Longrightarrow> numbers_kept l2 l3 \<Longrightarrow> numbers_kept l1 l3"
  using numbers_kept_spent unfolding numbers_kept_def by (meson le_trans)

lemma numbers_kept_same [simp]: "permits l' = permits l \<Longrightarrow> next_permit l \<le> next_permit l' \<Longrightarrow> numbers_kept l l'"
  by (simp add: numbers_kept_def spent_def)

lemma numbers_kept_admit:
  assumes "ledger_inv l" "next_permit l < u64_max"
  shows "numbers_kept l (snd (try_admit claim now l))"
  using assms(1)
proof (cases rule: try_admit_cases [of l claim now])
  case (Admitted s slot)
  have "\<not> issued l (permit_id (sat_add64 (next_permit l) 1))" using not_issued_next [OF assms(2)] .
  then show ?thesis
    using Admitted(9) assms(2)
    by (auto simp: numbers_kept_def spent_def commit_grant_def Let_def map_laws sat_add64_def put_service_def)
qed simp

lemma numbers_kept_each:
  assumes "ledger_inv l" "next_permit l + length claims \<le> u64_max"
  shows "numbers_kept l (snd (admit_each claims now l acc))"
  using assms
proof (induction claims arbitrary: l acc)
  case (Cons claim claims)
  have lim: "next_permit l < u64_max" using Cons.prems(2) by simp
  obtain out l1 where e: "try_admit claim now l = (out, l1)" by (cases "try_admit claim now l")
  have one: "numbers_kept l l1" "ledger_inv l1"
    using numbers_kept_admit [OF Cons.prems(1) lim, of claim now] ledger_inv_try_admit [OF Cons.prems(1) lim, of claim now] e
    by simp_all
  show ?case
  proof (cases out)
    case (Granted r)
    then have "next_permit l1 = Suc (next_permit l)"
      using try_admit_granted(8) [OF Cons.prems(1) lim, of claim now r l1] e by simp
    then have "numbers_kept l1 (snd (admit_each claims now l1 (acc @ [r])))"
      using Cons.IH [OF one(2), of "acc @ [r]"] Cons.prems(2) by simp
    then show ?thesis using one(1) e Granted by (auto intro: numbers_kept_trans)
  qed (use one e in simp_all)
qed simp

lemma numbers_kept_many:
  assumes "ledger_inv l" "next_permit l + length claims \<le> u64_max"
  shows "numbers_kept l (snd (try_admit_many claims now l))"
proof -
  have "numbers_kept l (snd (admit_each claims now l []))" using numbers_kept_each [OF assms] .
  then show ?thesis
    by (auto simp: try_admit_many_def Let_def numbers_kept_def spent_def split: prod.splits sum.splits)
qed

lemma add_permits_other: "bt_get ps i = None \<Longrightarrow> list_all (\<lambda>r. p_id r \<noteq> i) rs \<Longrightarrow> bt_get (add_permits rs ps) i = None"
  by (induction rs arbitrary: ps) (auto simp: map_laws)

lemma numbers_kept_pump:
  assumes "ledger_inv l" "next_permit l + size (ledger_waiters l) \<le> u64_max" "pump now l = Some (l', report)"
  shows "numbers_kept l l'"
proof -
  obtain new where new: "permits l' = add_permits new (permits l)" "next_permit l' = next_permit l + length new"
    "list_all (issued_between l l') new"
    using pump_sound [OF assms(1,2), of now] assms(3) unfolding pump_rel_def by auto
  have "list_all (\<lambda>r. p_id r \<noteq> i) new" if iss: "issued l i" for i
  proof -
    obtain m where m: "m \<le> next_permit l" "i = permit_id m" using iss by (auto simp: issued_def)
    have "p_id r \<noteq> i" if "issued_between l l' r" for r
      using that m permit_id_inject by (fastforce simp: issued_between_def)
    then show ?thesis using new(3) by (auto simp: list_all_iff)
  qed
  then show ?thesis using new(1,2) add_permits_other by (simp add: numbers_kept_def spent_def)
qed

lemma step_numbers:
  assumes inv: "coord_inv l" and step: "coord_step l l'"
  shows "numbers_kept l l'"
  using step
proof cases
  case (admit claim now)
  then show ?thesis using numbers_kept_admit inv by (simp add: counters_fit_def coord_inv_def)
next
  case (admit_many claims now)
  then show ?thesis using numbers_kept_many inv by (simp add: counters_fit_def coord_inv_def)
next
  case (pump now report)
  then show ?thesis using numbers_kept_pump inv by (simp add: counters_fit_def coord_inv_def)
next
  case (release permit consumed now)
  then have "next_permit l' = next_permit l"
    by (auto simp: release_def Let_def split: option.split)
  then show ?thesis
    using release release_removes [of permit consumed now l] by (simp add: numbers_kept_def spent_def map_laws)
qed (simp_all add: ensure_service_def enqueue_def cancel_def open_session_def connect_editor_def attach_physical_def
    transition_def close_session_def drain_def renew_node_lease_def update_service_def Let_def
    split: option.splits prod.splits sum.splits drain_scope.splits)

section \<open>Runs of the coordinator\<close>

inductive coord_run :: "ledger \<Rightarrow> ledger \<Rightarrow> bool" where
  stay: "coord_run l l"
| onward: "coord_run l l' \<Longrightarrow> coord_step l' l'' \<Longrightarrow> coord_run l l''"

lemma coord_run_trans: "coord_run l2 l3 \<Longrightarrow> coord_run l1 l2 \<Longrightarrow> coord_run l1 l3"
  by (induction rule: coord_run.induct) (auto intro: coord_run.onward)

lemma coord_run_inv: "coord_run l l' \<Longrightarrow> coord_inv l \<Longrightarrow> coord_inv l'"
  by (induction rule: coord_run.induct) (auto intro: coord_inv_step)

lemma coord_run_numbers: "coord_run l l' \<Longrightarrow> coord_inv l \<Longrightarrow> numbers_kept l l'"
proof (induction rule: coord_run.induct)
  case (onward l l' l'')
  then show ?case using numbers_kept_trans step_numbers coord_run_inv by blast
qed simp

lemma reachable_coord_run: "coord_run l l' \<Longrightarrow> coord_reachable cfg l \<Longrightarrow> coord_reachable cfg l'"
  by (induction rule: coord_run.induct) (auto intro: coord_reachable.step)

lemma spent_stays_spent: "coord_run l l' \<Longrightarrow> coord_inv l \<Longrightarrow> spent l i \<Longrightarrow> spent l' i"
  using coord_run_numbers numbers_kept_spent by blast

lemma live_issued: "coord_inv l \<Longrightarrow> bt_get (permits l) i = Some r \<Longrightarrow> issued l i"
  unfolding coord_inv_def ledger_inv_def permits_inv_def by blast

end
