(* ===== verification/Budget_Theorems.thy ===== *)
theory Budget_Theorems
  imports Budget_Numbers
begin

text \<open>
  The properties of the connection budget, each with a run on which its hypotheses hold. The runs use
  one small configuration: three physical connections, one slot reserved for Control, one for
  Interactive, and one shared slot.
\<close>

section \<open>A sample run\<close>

definition demo_cfg :: budget_config where
  "demo_cfg = config_from_parts 3 (arr4 1 1 0 0)"

definition demo_claim :: "string \<Rightarrow> resource_class \<Rightarrow> budget_claim" where
  "demo_claim who c = claim_single ''org'' ''db'' who c"

definition demo_permit :: "nat \<Rightarrow> port_permit" where
  "demo_permit n = \<lparr>pp_id = permit_id n, pp_org = ''org'', pp_conn = ''db'', pp_granted_at = mono_timestamp 0\<rparr>"

text \<open>Two Interactive permits (one reserved, one shared), two waiters, then the shared slot is released.\<close>

definition demo0 :: ledger where
  "demo0 = ensure_service ''db'' (ledger_new demo_cfg)"

definition demo1 :: ledger where
  "demo1 = snd (try_admit (demo_claim ''ann'' Interactive) 1 demo0)"

definition demo2 :: ledger where
  "demo2 = snd (try_admit (demo_claim ''ann'' Interactive) 2 demo1)"

definition demo3 :: ledger where
  "demo3 = snd (enqueue (demo_claim ''bob'' Job) 3 100 demo2)"

definition demo4 :: ledger where
  "demo4 = snd (enqueue (demo_claim ''cid'' Interactive) 4 5 demo3)"

definition demo5 :: ledger where
  "demo5 = snd (release (demo_permit 2) True 5 demo4)"

lemma demo_cfg_bounds: "cfg_bounds demo_cfg"
  by (simp add: demo_cfg_def cfg_bounds_def forall_class config_from_parts_def quota_new_def config_new_def
      sat_sum4_eq sum4_def u32_max_def Let_def)

lemma counters_demo0: "counters_fit 1 demo0" by code_simp
lemma counters_demo1: "counters_fit 1 demo1" by code_simp
lemma counters_demo2: "counters_fit 0 demo2" by code_simp
lemma counters_demo3: "counters_fit 0 demo3" by code_simp
lemma counters_demo5: "counters_fit 0 demo5" by code_simp

lemma demo_reachable:
  "coord_reachable demo_cfg demo0" "coord_reachable demo_cfg demo1" "coord_reachable demo_cfg demo2"
  "coord_reachable demo_cfg demo3" "coord_reachable demo_cfg demo4" "coord_reachable demo_cfg demo5"
proof -
  show r0: "coord_reachable demo_cfg demo0"
    unfolding demo0_def by (rule coord_reachable.step [OF coord_reachable.start coord_step.ensure])
  show r1: "coord_reachable demo_cfg demo1"
    unfolding demo1_def by (rule coord_reachable.step [OF r0 coord_step.admit [OF counters_demo0]])
  show r2: "coord_reachable demo_cfg demo2"
    unfolding demo2_def by (rule coord_reachable.step [OF r1 coord_step.admit [OF counters_demo1]])
  show r3: "coord_reachable demo_cfg demo3"
    unfolding demo3_def by (rule coord_reachable.step [OF r2 coord_step.enqueue [OF counters_demo2]])
  show r4: "coord_reachable demo_cfg demo4"
    unfolding demo4_def by (rule coord_reachable.step [OF r3 coord_step.enqueue [OF counters_demo3]])
  show "coord_reachable demo_cfg demo5"
    unfolding demo5_def by (rule coord_reachable.step [OF r4 coord_step.release])
qed

lemmas demo_inv = demo_reachable [THEN coord_inv_reachable [OF demo_cfg_bounds]]

section \<open>Safety of every reachable ledger\<close>

text \<open>
  C1. In every state a coordinator can reach, by any interleaving of its operations, the counters of a
  database service are exact and within its quota: each class bucket counts the live permits of that
  class and slot kind, the shared pool level is the number of shared permits, no class exceeds its
  reservation, the pool does not exceed its size, and physical connections stay under the cap.
\<close>

theorem budget_never_oversold:
  assumes "cfg_bounds cfg" "coord_reachable cfg l" "bt_get (services l) conn = Some s"
  shows "(\<forall>c slot. in_use slot (buckets s c) = bt_count (holds_slot conn c slot) (permits l))
    \<and> shared_used s = bt_count (holds_shared conn) (permits l)
    \<and> (\<forall>c. reserved_in_use (buckets s c) \<le> q_reserved (service_quota (config l)) c)
    \<and> shared_used s \<le> q_shared (service_quota (config l))
    \<and> physical_of conn l \<le> service_physical_connections (config l)"
proof -
  have inv: "ledger_inv l" using coord_inv_reachable [OF assms(1,2)] by (simp add: coord_inv_def)
  show ?thesis
    using svc_inv_of [OF inv assms(3)] physical_of_exact(2) [OF inv assms(3)]
    by (simp add: svc_inv_def slots_inv_def)
qed

theorem budget_never_oversold_witness:
  "physical_of ''db'' demo4 \<le> 3 \<and> bt_count (holds_shared ''db'') (permits demo4) = 1"
proof -
  have "map_option shared_used (bt_get (services demo4) ''db'') = Some 1" by code_simp
  then obtain s where s: "bt_get (services demo4) ''db'' = Some s" "shared_used s = 1" by auto
  have "service_physical_connections (config demo4) = 3" by code_simp
  then show ?thesis using budget_never_oversold [OF demo_cfg_bounds demo_reachable(5) s(1)] s(2) by simp
qed

text \<open>
  C31. A Control permit always occupies a slot reserved for Control: control work never takes part of the
  shared pool, whatever the order of operations.
\<close>

theorem control_stays_reserved:
  assumes "cfg_bounds cfg" "coord_reachable cfg l" "bt_get (permits l) i = Some r" "p_class r = Control"
  shows "p_slot r = Reserved"
proof -
  have "permits_inv l" using coord_inv_reachable [OF assms(1,2)] by (simp add: coord_inv_def ledger_inv_def)
  then have "p_slot r = Shared \<Longrightarrow> False" using assms(3,4) unfolding permits_inv_def by metis
  then show ?thesis by (cases "p_slot r") auto
qed

definition demo_control :: ledger where
  "demo_control = snd (try_admit (demo_claim ''ops'' Control) 1 demo0)"

theorem control_stays_reserved_witness:
  "\<exists>r. bt_get (permits demo_control) (permit_id 1) = Some r \<and> p_slot r = Reserved"
proof -
  have reach: "coord_reachable demo_cfg demo_control"
    unfolding demo_control_def by (rule coord_reachable.step [OF demo_reachable(1) coord_step.admit [OF counters_demo0]])
  have "map_option p_class (bt_get (permits demo_control) (permit_id 1)) = Some Control" by code_simp
  then obtain r where "bt_get (permits demo_control) (permit_id 1) = Some r" "p_class r = Control" by auto
  with control_stays_reserved [OF demo_cfg_bounds reach this] show ?thesis by blast
qed

text \<open>
  Waiting queues are bounded in every reachable state: a class queue of a service never holds more
  than the configured number of waiters, and no principal waits more than its own cap across the
  four classes of a service.
\<close>

theorem queues_bounded:
  assumes "cfg_bounds cfg" "coord_reachable cfg l"
  shows "ledger_queue_depth conn c l \<le> queue_cap_per_class_per_service (config l)
    \<and> ledger_user_queue_depth conn who l \<le> queue_cap_per_user (config l)"
proof -
  have inv: "ledger_inv l" using coord_inv_reachable [OF assms] by (simp add: coord_inv_def)
  have "queue_inv (config l) conn (queues s)" if "bt_get (services l) conn = Some s" for s
    using svc_inv_of [OF inv that] by (simp add: svc_inv_def)
  then show ?thesis
    by (auto simp: ledger_queue_depth_def ledger_user_queue_depth_def user_queue_depth_def queue_inv_def split: option.split)
qed

theorem queues_bounded_witness:
  "ledger_queue_depth ''db'' Job demo4 \<le> 32 \<and> ledger_user_queue_depth ''db'' ''bob'' demo4 \<le> 32"
proof -
  have "queue_cap_per_class_per_service (config demo4) = 32" "queue_cap_per_user (config demo4) = 32" by code_simp+
  then show ?thesis
    using queues_bounded [OF demo_cfg_bounds demo_reachable(5), of "''db''" Job "''bob''"] by simp
qed

section \<open>Admission and release\<close>

text \<open>
  C24. A batch is admitted as a whole or not at all. On success there is one live permit per claim, for
  the claim's owner, service and class, and no other permit is touched. On refusal the ledger is
  exactly the one before the call, except that permit numbers may have been skipped.
\<close>

theorem batch_all_or_nothing:
  assumes "ledger_inv l" "next_permit l + length claims \<le> u64_max"
  shows "case try_admit_many claims now l of
      (Inr rs, l') \<Rightarrow> list_all2 (admitted_as l') claims rs
        \<and> (\<forall>i r. bt_get (permits l) i = Some r \<longrightarrow> bt_get (permits l') i = Some r)
        \<and> bt_count (\<lambda>_. True) (permits l') = bt_count (\<lambda>_. True) (permits l) + length claims
    | (Inl reason, l') \<Rightarrow> \<exists>n. l' = l\<lparr>next_permit := n\<rparr>"
proof -
  obtain out l' where run: "try_admit_many claims now l = (out, l')" by (cases "try_admit_many claims now l")
  show ?thesis
  proof (cases out)
    case (Inl reason)
    with run show ?thesis
      using try_admit_many_refused [of l claims now reason] assms(1) by (simp add: ledger_inv_wf)
  next
    case (Inr rs)
    with run have "admit_each claims now l [] = (Inr rs, l')"
      by (auto simp: try_admit_many_def Let_def split: prod.splits sum.splits)
    with admit_each_granted [OF assms this] run Inr show ?thesis by simp
  qed
qed

definition demo_batch :: "budget_claim list" where
  "demo_batch = [demo_claim ''ann'' Interactive, demo_claim ''bob'' Job, demo_claim ''cid'' Job]"

theorem batch_all_or_nothing_witness:
  "bt_count (\<lambda>_. True) (permits (snd (try_admit_many (take 2 demo_batch) 1 demo0))) = 2
   \<and> permits (snd (try_admit_many demo_batch 1 demo0)) = permits demo0"
proof -
  have inv: "ledger_inv demo0" using demo_inv(1) by (simp add: coord_inv_def)
  have run: "\<exists>rs. fst (try_admit_many (take 2 demo_batch) 1 demo0) = Inr rs"
    "\<exists>e. fst (try_admit_many demo_batch 1 demo0) = Inl e"
  proof -
    have "isl (fst (try_admit_many demo_batch 1 demo0))" "\<not> isl (fst (try_admit_many (take 2 demo_batch) 1 demo0))"
      by code_simp+
    then show "\<exists>rs. fst (try_admit_many (take 2 demo_batch) 1 demo0) = Inr rs"
      "\<exists>e. fst (try_admit_many demo_batch 1 demo0) = Inl e"
      by (metis sum.collapse(2), metis sum.collapse(1))
  qed
  have lim: "next_permit demo0 + length demo_batch \<le> u64_max" "next_permit demo0 + length (take 2 demo_batch) \<le> u64_max"
    "bt_count (\<lambda>_. True) (permits demo0) = 0" "length (take 2 demo_batch) = 2" by code_simp+
  show ?thesis
    using batch_all_or_nothing [OF inv lim(1), of 1] batch_all_or_nothing [OF inv lim(2), of 1] run lim(3,4)
    by (auto split: prod.splits)
qed

lemma release_first:
  assumes "ledger_inv l" "bt_get (permits l) (pp_id permit) = Some r" "release permit consumed now l = (out, l')"
  shows "out = Released r" "permits l' = bt_remove (pp_id permit) (permits l)"
    "bt_get (services l') (p_conn r) = map_option (service_vacate (p_class r) (p_slot r)) (bt_get (services l) (p_conn r))"
    "\<And>d. d \<noteq> p_conn r \<Longrightarrow> bt_get (services l') d = bt_get (services l) d"
    "release permit consumed' now' l' = (AlreadyReleased r, l')"
proof -
  obtain s where "bt_get (services l) (p_conn r) = Some s" "p_id r = pp_id permit"
    "release permit consumed now l = (Released r,
      (put_service (p_conn r) (service_vacate (p_class r) (p_slot r) s) l)
        \<lparr>permits := bt_remove (p_id r) (permits l),
         retired := bt_insert (p_id r) \<lparr>ret_record = r, ret_consumed = consumed, ret_released_at = now\<rparr> (evict_retired (retired l)),
         consumed_total := (if consumed then sat_add64 (consumed_total l) 1 else consumed_total l),
         returned_total := (if consumed then returned_total l else sat_add64 (returned_total l) 1)\<rparr>)"
    using release_live [OF assms(1,2)] by blast
  then show "out = Released r" "permits l' = bt_remove (pp_id permit) (permits l)"
    "bt_get (services l') (p_conn r) = map_option (service_vacate (p_class r) (p_slot r)) (bt_get (services l) (p_conn r))"
    "\<And>d. d \<noteq> p_conn r \<Longrightarrow> bt_get (services l') d = bt_get (services l) d"
    "release permit consumed' now' l' = (AlreadyReleased r, l')"
    using assms(3) by (auto simp: map_laws release_def)
qed

lemma release_spent:
  assumes "ledger_inv l" "bt_get (permits l) (pp_id permit) = None"
  shows "release permit consumed now l = (UnknownPermit (pp_id permit), l) \<or>
    (\<exists>r. p_id r = pp_id permit \<and> release permit consumed now l = (AlreadyReleased r, l))"
  using assms by (auto simp: release_def ledger_inv_def retired_inv_def split: option.split)

text \<open>
  C25. A permit is released once. In a reachable ledger, the first release of a live permit removes it
  and vacates the very slot kind of its class on its service, and touches no other service. From then
  on, after any further operations of the coordinator (which keep its counters below their maximum),
  every release of the same permit leaves the ledger as it is; it reports the permit as already
  released, or as unknown when its entry was evicted from the table of retired permits.
\<close>

theorem release_exactly_once:
  assumes "coord_reachable cfg l" "cfg_bounds cfg" "bt_get (permits l) (pp_id permit) = Some r"
    and "release permit consumed now l = (out, l')" "coord_run l' l''"
  shows "out = Released r \<and> permits l' = bt_remove (pp_id permit) (permits l)
    \<and> bt_get (services l') (p_conn r) = map_option (service_vacate (p_class r) (p_slot r)) (bt_get (services l) (p_conn r))
    \<and> (\<forall>d. d \<noteq> p_conn r \<longrightarrow> bt_get (services l') d = bt_get (services l) d)
    \<and> release permit consumed' now' l' = (AlreadyReleased r, l')
    \<and> (release permit consumed' now' l'' = (UnknownPermit (pp_id permit), l'') \<or>
       (\<exists>r'. p_id r' = pp_id permit \<and> release permit consumed' now' l'' = (AlreadyReleased r', l'')))"
proof -
  have inv: "coord_inv l" using coord_inv_reachable [OF assms(2,1)] .
  then have led: "ledger_inv l" by (simp add: coord_inv_def)
  note first = release_first [OF led assms(3,4)]
  have inv': "coord_inv l'" using coord_inv_release [OF inv, of permit consumed now] assms(4) by simp
  have "next_permit l' = next_permit l" using assms(4) by (auto simp: release_def Let_def split: option.splits)
  then have "spent l' (pp_id permit)"
    using first(2) live_issued [OF inv assms(3)] by (simp add: spent_def map_laws issued_def)
  then have "spent l'' (pp_id permit)" using spent_stays_spent [OF assms(5) inv'] by blast
  moreover have "ledger_inv l''" using coord_run_inv [OF assms(5) inv'] by (simp add: coord_inv_def)
  ultimately have "release permit consumed' now' l'' = (UnknownPermit (pp_id permit), l'') \<or>
       (\<exists>r'. p_id r' = pp_id permit \<and> release permit consumed' now' l'' = (AlreadyReleased r', l''))"
    by (intro release_spent) (simp_all add: spent_def)
  with first show ?thesis by simp
qed

theorem release_exactly_once_witness:
  "snd (release (demo_permit 2) False 9 (snd (cancel 1 demo5))) = snd (cancel 1 demo5)"
proof -
  have "bt_get (permits demo4) (pp_id (demo_permit 2)) \<noteq> None" by code_simp
  then obtain r where r: "bt_get (permits demo4) (pp_id (demo_permit 2)) = Some r" by auto
  have "coord_run demo5 (snd (cancel 1 demo5))" by (rule coord_run.onward [OF coord_run.stay coord_step.cancel])
  then have "coord_run (snd (release (demo_permit 2) True 5 demo4)) (snd (cancel 1 demo5))" by (simp only: demo5_def)
  from release_exactly_once [OF demo_reachable(5) demo_cfg_bounds r prod.collapse [symmetric] this, of False 9]
  show ?thesis by (elim conjE disjE exE) simp_all
qed

text \<open>
  C28. Admission followed by release gives everything back: the permit table, the waiting queues and the
  occupancy of every class return to what they were; only the counter of served requests remembers.
\<close>

theorem admit_release_roundtrip:
  assumes inv: "ledger_inv l" and lim: "next_permit l < u64_max"
    and adm: "try_admit claim now l = (Granted r, l1)"
    and rel: "release (to_port_permit r) consumed now' l1 = (out, l2)"
  shows "out = Released r \<and> permits l2 = permits l
    \<and> (\<forall>d s. bt_get (services l) d = Some s \<longrightarrow> (\<exists>s'. bt_get (services l2) d = Some s'
        \<and> shared_used s' = shared_used s \<and> queues s' = queues s \<and> physical s' = physical s
        \<and> (\<forall>c slot. in_use slot (buckets s' c) = in_use slot (buckets s c))))"
proof -
  note g = try_admit_granted [OF inv lim adm]
  have inv1: "ledger_inv l1" using ledger_inv_try_admit [OF inv lim, of claim now] adm by simp
  have live: "bt_get (permits l1) (pp_id (to_port_permit r)) = Some r"
    using g(7) by (simp add: to_port_permit_def map_laws)
  note rl = release_first [OF inv1 live rel]
  have inv2: "ledger_inv l2" using ledger_inv_release [OF inv1, of "to_port_permit r" consumed now'] rel by simp
  have perm: "permits l2 = permits l"
    using rl(2) g(6,7) ledger_inv_wf [OF inv] by (simp add: to_port_permit_def bt.del_ins_fresh)
  have "\<exists>s'. bt_get (services l2) d = Some s' \<and> shared_used s' = shared_used s \<and> queues s' = queues s
      \<and> physical s' = physical s \<and> (\<forall>c slot. in_use slot (buckets s' c) = in_use slot (buckets s c))"
    if s: "bt_get (services l) d = Some s" for d s
  proof -
    have fr: "\<exists>s1. bt_get (services l1) d = Some s1 \<and> queues s1 = queues s \<and> physical s1 = physical s"
      using adm s by (cases rule: try_admit_cases [OF inv, of claim now])
        (auto simp: case_prod_beta Let_def commit_grant_simps put_service_def map_laws)
    then obtain s2 where s2: "bt_get (services l2) d = Some s2" "queues s2 = queues s" "physical s2 = physical s"
      using rl(3,4) by (cases "d = p_conn r") (auto simp: service_vacate_def Let_def)
    have "slots_inv (config l2) (permits l2) d s2" "slots_inv (config l) (permits l) d s"
      using svc_inv_of [OF inv2 s2(1)] svc_inv_of [OF inv s] by (simp_all add: svc_inv_def)
    then show ?thesis using s2 perm by (auto simp: slots_inv_def)
  qed
  with rl(1) perm show ?thesis by blast
qed

theorem admit_release_roundtrip_witness:
  "\<exists>r l1. try_admit (demo_claim ''ann'' Interactive) 1 demo0 = (Granted r, l1)
     \<and> permits (snd (release (to_port_permit r) True 2 l1)) = permits demo0"
proof -
  have "case fst (try_admit (demo_claim ''ann'' Interactive) 1 demo0) of Granted r \<Rightarrow> True | _ \<Rightarrow> False" by code_simp
  then obtain r l1 where adm: "try_admit (demo_claim ''ann'' Interactive) 1 demo0 = (Granted r, l1)"
    by (cases "try_admit (demo_claim ''ann'' Interactive) 1 demo0") (auto split: admit_outcome.splits)
  have inv: "ledger_inv demo0" using demo_inv(1) by (simp add: coord_inv_def)
  have lim: "next_permit demo0 < u64_max" by code_simp
  obtain out l2 where rel: "release (to_port_permit r) True 2 l1 = (out, l2)" by (cases "release (to_port_permit r) True 2 l1")
  show ?thesis
    using admit_release_roundtrip [OF inv lim adm rel] adm rel by auto
qed

text \<open>
  Cancelling a waiter by id is exact: if the id waits, precisely one waiter with that id leaves the
  queues and nothing else in the ledger's waiters changes; otherwise the ledger is unchanged.
\<close>

theorem cancel_exact:
  "case cancel i l of
     (found, l') \<Rightarrow>
       (if found then \<exists>w. w_id w = i \<and> ledger_waiters l = add_mset w (ledger_waiters l')
        else l' = l \<and> (\<forall>w \<in># ledger_waiters l. w_id w \<noteq> i))
       \<and> permits l' = permits l"
  using cancel_found [of i l] cancel_not_found [of i l]
  by (auto simp: cancel_def split: prod.splits)

theorem cancel_exact_witness:
  "\<exists>w. w_id w = 1 \<and> ledger_waiters demo4 = add_mset w (ledger_waiters (snd (cancel 1 demo4)))"
proof -
  have "fst (cancel 1 demo4)" by code_simp
  then show ?thesis using cancel_exact [of 1 demo4] by (simp split: prod.splits)
qed

section \<open>The scheduler\<close>

text \<open>
  C14. A round of the scheduler always ends and accounts for every waiter: each one that waited before is
  granted exactly one permit of its own owner, service and class, or is reported as timed out, or still
  waits. Only waiters past their deadline time out, none of them is granted, and a draining service
  grants nothing.
\<close>

theorem pump_accounts_for_every_waiter:
  assumes "coord_inv l" "next_permit l + size (ledger_waiters l) \<le> u64_max"
  shows "\<exists>l' report ws gone. pump now l = Some (l', report) \<and> coord_inv l'
    \<and> ledger_waiters l = mset ws + mset gone + ledger_waiters l'
    \<and> list_all2 served_by ws (granted report) \<and> timed_out report = map w_id gone
    \<and> (\<forall>w \<in> set gone. expired_at now w)
    \<and> (\<forall>w \<in> set ws. \<not> expired_at now w \<and> \<not> is_draining (w_conn w) l)
    \<and> permits l' = add_permits (granted report) (permits l)"
proof -
  have inv: "ledger_inv l" using assms(1) by (simp add: coord_inv_def)
  obtain l' report where run: "pump now l = Some (l', report)" "ledger_inv l'"
    and rel: "pump_rel now (set (bt_keys (services l))) (l, \<lparr>granted = [], timed_out = []\<rparr>) (l', report)"
    using pump_sound [OF inv assms(2), of now] by blast
  have "coord_inv l'" using assms(1) run(2) pump_quiet [OF rel] by (rule coord_inv_quiet)
  moreover from rel obtain ws gone new where "list_all2 served_by ws new"
    "ledger_waiters l = mset ws + mset gone + ledger_waiters l'" "\<forall>w \<in> set gone. expired_at now w"
    "\<forall>w \<in> set ws. \<not> expired_at now w \<and> \<not> is_draining (w_conn w) l" "granted report = new"
    "timed_out report = map w_id gone" "permits l' = add_permits new (permits l)"
    unfolding pump_rel_def prod.case by (auto simp del: add_permits_simps)
  ultimately show ?thesis using run(1) by blast
qed

theorem pump_accounts_for_every_waiter_witness:
  "\<exists>l' report ws gone. pump 6 demo5 = Some (l', report)
     \<and> ledger_waiters demo5 = mset ws + mset gone + ledger_waiters l' \<and> length ws = 1 \<and> length gone = 1"
proof -
  have lim: "next_permit demo5 + size (ledger_waiters demo5) \<le> u64_max" using counters_demo5 by (simp add: counters_fit_def)
  obtain l' report ws gone where p: "pump 6 demo5 = Some (l', report)"
    "ledger_waiters demo5 = mset ws + mset gone + ledger_waiters l'" "list_all2 served_by ws (granted report)"
    "timed_out report = map w_id gone"
    using pump_accounts_for_every_waiter [OF demo_inv(6) lim, of 6] by blast
  have "map_option (\<lambda>(l, r). (length (granted r), length (timed_out r))) (pump 6 demo5) = Some (1, 1)" by code_simp
  then have "length (granted report) = 1" "length (timed_out report) = 1" using p(1) by simp_all
  with p show ?thesis by (metis length_map list_all2_lengthD)
qed

text \<open>
  C15. The scheduler leaves no grantable waiter behind. After a round, every service that is not draining
  has reached its physical cap, or no class with a free reserved slot has a waiter and the shared pool is
  used up or has no waiter.
\<close>

theorem pump_is_work_conserving:
  assumes "coord_inv l" "next_permit l + size (ledger_waiters l) \<le> u64_max"
    and "pump now l = Some (l', report)" "bt_get (services l') conn = Some s" "\<not> draining s"
  shows "physical_of conn l' = service_physical_connections (config l')
    \<or> (\<forall>c. bucket_reserved_headroom (buckets s c) (service_quota (config l')) c = 0 \<or> depth (queues s c) = 0)
      \<and> (q_shared (service_quota (config l')) \<le> shared_used s \<or> (\<forall>c \<in> set shared_members. depth (queues s c) = 0))"
proof -
  have inv: "ledger_inv l" using assms(1) by (simp add: coord_inv_def)
  have inv': "ledger_inv l'" and "settled now l' conn"
    using pump_sound [OF inv assms(2), of now] assms(3) by auto
  then have s: "service_full (config l') conn l' s
      \<or> shared_idle (config l') s \<and> (\<forall>c. reserved_idle (config l') s c)"
    using assms(4,5) by (simp add: settled_def)
  have "physical_of conn l' = service_physical_connections (config l')" if "service_full (config l') conn l' s"
    using that physical_of_exact [OF inv' assms(4)] assms(4) by (simp add: service_full_def physical_of_def)
  then show ?thesis
    using s by (auto simp: shared_idle_def reserved_idle_def cq_is_empty_def)
qed

theorem pump_is_work_conserving_witness:
  "\<exists>l' report s. pump 6 demo5 = Some (l', report) \<and> bt_get (services l') ''db'' = Some s
     \<and> (physical_of ''db'' l' = 3 \<or> q_shared (service_quota (config l')) \<le> shared_used s
          \<or> (\<forall>c \<in> set shared_members. depth (queues s c) = 0))"
proof -
  have lim: "next_permit demo5 + size (ledger_waiters demo5) \<le> u64_max" using counters_demo5 by (simp add: counters_fit_def)
  have "case pump 6 demo5 of None \<Rightarrow> False
      | Some (l', report) \<Rightarrow> service_physical_connections (config l') = 3
          \<and> (case bt_get (services l') ''db'' of None \<Rightarrow> False | Some s \<Rightarrow> \<not> draining s)" by code_simp
  then obtain l' report s where p: "pump 6 demo5 = Some (l', report)" "bt_get (services l') ''db'' = Some s" "\<not> draining s"
    "service_physical_connections (config l') = 3"
    by (auto split: option.splits prod.splits)
  show ?thesis using pump_is_work_conserving [OF demo_inv(6) lim p(1-3)] p by auto
qed

text \<open>
  C26. Abandoning a wait leaks nothing. When the future that waits under an id is dropped, afterwards no
  waiter with that id is queued and no live permit belongs to it, also if the scheduler had granted the
  permit before the task noticed.
\<close>

theorem dropped_wait_leaks_nothing:
  assumes "coord_inv l"
  shows "waiter_refs i (drop_guard i now l) = 0 \<and> coord_inv (drop_guard i now l)"
proof -
  let ?l1 = "snd (cancel i l)"
  have inv1: "coord_inv ?l1" using assms by (rule coord_inv_cancel)
  then have led1: "ledger_inv ?l1" by (simp add: coord_inv_def)
  have gone: "size (filter_mset (\<lambda>w. w_id w = i) (ledger_waiters ?l1)) = 0"
  proof (cases "fst (cancel i l)")
    case True
    then obtain w where "w_id w = i" "ledger_waiters l = add_mset w (ledger_waiters ?l1)" using cancel_found by blast
    then have "Suc (size (filter_mset (\<lambda>w. w_id w = i) (ledger_waiters ?l1))) \<le> waiter_refs i l"
      by (simp add: waiter_refs_def)
    also have "\<dots> \<le> 1"
    proof -
      have "waiter_refs i l \<le> (if i < next_waiter l then 1 else 0)"
        using assms by (simp add: coord_inv_def ids_inv_def)
      then show ?thesis by (cases "i < next_waiter l") simp_all
    qed
    finally show ?thesis by simp
  next
    case False
    then show ?thesis using cancel_not_found [of i l] by (auto simp: filter_mset_eq_mempty_iff)
  qed
  have one: "bt_count (\<lambda>r. p_waiter r = Some i) (permits ?l1) \<le> 1"
  proof -
    have "waiter_refs i ?l1 \<le> (if i < next_waiter ?l1 then 1 else 0)"
      using inv1 by (simp add: coord_inv_def ids_inv_def)
    then show ?thesis by (cases "i < next_waiter ?l1") (simp_all add: waiter_refs_def)
  qed
  have wf: "bt_wf (permits ?l1)" using ledger_inv_wf [OF led1] by simp
  show ?thesis
  proof (cases "find_waiter_permit i ?l1")
    case None
    then have "bt_count (\<lambda>r. p_waiter r = Some i) (permits ?l1) = 0"
      by (simp add: find_waiter_permit_def find_None_iff bt_count_def filter_empty_conv)
    with None gone inv1 show ?thesis by (simp add: drop_guard_def Let_def waiter_refs_def)
  next
    case (Some r)
    then have r: "p_waiter r = Some i" "r \<in> set (bt_values (permits ?l1))"
      by (auto simp: find_waiter_permit_def find_Some_iff)
    then obtain k where "bt_get (permits ?l1) k = Some r" using bt_values_get [OF wf] by blast
    moreover from this have "p_id r = k" using led1 unfolding ledger_inv_def permits_inv_def by blast
    ultimately have live: "bt_get (permits ?l1) (pp_id (to_port_permit r)) = Some r" by (simp add: to_port_permit_def)
    let ?l2 = "snd (release (to_port_permit r) False now ?l1)"
    have "permits ?l2 = bt_remove (pp_id (to_port_permit r)) (permits ?l1)"
      by (rule release_permits [OF led1 live])
    then have "bt_count (\<lambda>r. p_waiter r = Some i) (permits ?l2) = 0"
      using bt.cnt_del [OF wf live, of "\<lambda>r. p_waiter r = Some i"] one r(1) by simp
    moreover have "waiter_refs i ?l2 \<le> waiter_refs i ?l1" using release_quiet [OF led1] by (simp add: quiet_def)
    moreover have "ledger_waiters ?l2 = ledger_waiters ?l1" by (rule release_waiters [OF led1])
    ultimately have "waiter_refs i ?l2 = 0" using gone by (simp add: waiter_refs_def)
    moreover have "coord_inv ?l2" using inv1 by (rule coord_inv_release)
    ultimately show ?thesis using Some by (simp add: drop_guard_def Let_def)
  qed
qed

theorem dropped_wait_leaks_nothing_witness:
  "waiter_refs 0 demo4 = 1 \<and> waiter_refs 0 (drop_guard 0 9 demo4) = 0"
proof -
  have "waiter_refs 0 demo4 = 1" by code_simp
  then show ?thesis using dropped_wait_leaks_nothing [OF demo_inv(5), of 0 9] by simp
qed

section \<open>Fairness\<close>

text \<open>
  The abstract queue of a class: the ring of waiting principals and each principal's waiters in order.
  Serving takes the oldest waiter of the principal at the head and sends the principal to the back.
\<close>

type_synonym ring_state = "string list \<times> (string \<Rightarrow> waiter list)"

definition abs_queue :: "class_queue \<Rightarrow> ring_state" where
  "abs_queue q = (ring q, \<lambda>p. waiting_of p q)"

definition spec_push :: "waiter \<Rightarrow> ring_state \<Rightarrow> ring_state" where
  "spec_push w st =
     (case st of (r, f) \<Rightarrow>
        (if w_principal w \<in> set r then r else r @ [w_principal w], f(w_principal w := f (w_principal w) @ [w])))"

definition spec_serve :: "ring_state \<Rightarrow> waiter option \<times> ring_state" where
  "spec_serve st =
     (case st of (r, f) \<Rightarrow>
        (case r of
           [] \<Rightarrow> (None, (r, f))
         | p # ps \<Rightarrow> (Some (hd (f p)), (ps @ (if tl (f p) = [] then [] else [p]), f(p := tl (f p))))))"

text \<open>
  C29. The ring of lanes implements the abstract round robin: adding a waiter and serving the next one
  commute with the abstraction, so inside a class principals take turns and each principal is served
  first in, first out.
\<close>

theorem queue_refines_round_robin:
  assumes inv: "cq_inv q"
  shows "abs_queue (cq_push w q) = spec_push w (abs_queue q)
    \<and> (fst (cq_pop q), abs_queue (snd (cq_pop q))) = spec_serve (abs_queue q)"
proof -
  have push: "abs_queue (cq_push w q) = spec_push w (abs_queue q)"
    using waiting_of_push [OF inv] by (auto simp: abs_queue_def spec_push_def ring_push)
  have "(fst (cq_pop q), abs_queue (snd (cq_pop q))) = spec_serve (abs_queue q)"
  proof (cases "ring q")
    case Nil
    then have l: "lanes q = []" by (simp add: ring_def)
    then have "cq_pop q = (None, q)" by (simp add: cq_pop_def)
    with Nil show ?thesis by (simp add: abs_queue_def spec_serve_def)
  next
    case (Cons p ps)
    obtain v ws where v: "waiting_of p q = v # ws" "fst (cq_pop q) = Some v" "waiting_of p (snd (cq_pop q)) = ws"
      "\<forall>p'. p' \<noteq> p \<longrightarrow> waiting_of p' (snd (cq_pop q)) = waiting_of p' q"
      "ring (snd (cq_pop q)) = ps @ (if ws = [] then [] else [p])"
      using pop_serves_front [OF inv Cons] by blast
    then have "(\<lambda>p'. waiting_of p' (snd (cq_pop q))) = (\<lambda>p'. waiting_of p' q)(p := ws)" by auto
    with v Cons show ?thesis by (simp add: abs_queue_def spec_serve_def)
  qed
  with push show ?thesis by blast
qed

definition demo_waiter :: "nat \<Rightarrow> string \<Rightarrow> waiter" where
  "demo_waiter i who =
     \<lparr>w_id = i, w_org = ''org'', w_conn = ''db'', w_principal = who, w_class = Interactive, w_slots = 1,
      w_enqueued_at = 0, w_deadline = 100\<rparr>"

definition demo_queue :: class_queue where
  "demo_queue = foldl (\<lambda>q w. cq_push w q) cq_empty [demo_waiter 1 ''ann'', demo_waiter 2 ''ann'', demo_waiter 3 ''bob'']"

lemma demo_queue_inv: "cq_inv demo_queue"
  unfolding demo_queue_def by (simp add: cq_push_def cq_inv_def cq_empty_def demo_waiter_def ring_ok_def
      snapshot_waiters_def sat_add64_def u64_max_def)

theorem queue_refines_round_robin_witness:
  "spec_serve (abs_queue demo_queue) = (fst (cq_pop demo_queue), abs_queue (snd (cq_pop demo_queue)))
   \<and> map_option w_id (fst (cq_pop demo_queue)) = Some 1"
proof -
  have "map_option w_id (fst (cq_pop demo_queue)) = Some 1" by code_simp
  then show ?thesis using queue_refines_round_robin [OF demo_queue_inv] by simp
qed

text \<open>
  A waiting principal is served in bounded time: the principal at position k of the ring is served by
  the (k+1)-st pop, with its oldest waiter, however many waiters the principals before it have.
\<close>

theorem principal_served_by_position:
  assumes "cq_inv q" "k < length (ring q)"
  shows "length (fst (cq_pops (Suc k) q)) = Suc k
    \<and> fst (cq_pops (Suc k) q) ! k = hd (waiting_of (ring q ! k) q)"
  using pop_at_position [OF assms] .

theorem principal_served_by_position_witness:
  "w_id (fst (cq_pops 2 demo_queue) ! 1) = 3"
proof -
  have k: "1 < length (ring demo_queue)" "w_id (hd (waiting_of (ring demo_queue ! 1) demo_queue)) = 3" by code_simp+
  show ?thesis using principal_served_by_position [OF demo_queue_inv k(1)] k(2) by (simp add: numeral_2_eq_2)
qed

text \<open>
  C30. No shared class starves. From every credit state the weighted rotation can reach, a class that keeps
  having waiters is picked within 3 (Interactive), 5 (Metadata) or 9 (Job) consecutive rounds.
\<close>

theorem shared_rotation_no_starvation:
  assumes "may_join_shared c" "\<forall>queues \<in> set rounds. \<not> cq_is_empty (queues c)" "length rounds = wait_bound c"
  shows "Some c \<in> set (fst (rr_run rounds (snd (rr_run before rr_new))))"
  using rr_no_starvation_from [OF rr_inv_run [OF rr_inv_new] assms] .

text \<open>Rounds in which exactly the given classes have a waiter.\<close>

definition busy :: "resource_class list \<Rightarrow> class_queue per_class" where
  "busy cs = (\<lambda>c. if c \<in> set cs then demo_queue else cq_empty)"

definition drift :: "class_queue per_class list" where
  "drift = map busy [[Interactive, Job], [Interactive, Job], [Interactive, Metadata, Job],
     [Interactive, Metadata], [Interactive, Metadata]]"

definition unlucky :: "class_queue per_class list" where
  "unlucky = map busy ([[Metadata, Job], [Metadata, Job], [Metadata, Job]] @ replicate 6 [Interactive, Job])"

lemma arr4_upd:
  "(arr4 x a b c)(Interactive := y) = arr4 x y b c" "(arr4 x a b c)(Metadata := y) = arr4 x a y c"
  "(arr4 x a b c)(Job := y) = arr4 x a b y"
  by (auto simp: fun_eq_iff forall_class)

lemma rr_new_arr4: "rr_new = arr4 0 0 0 0"
  by (auto simp: rr_new_def fun_eq_iff forall_class)

lemma busy_empty: "cq_is_empty (busy cs c) \<longleftrightarrow> c \<notin> set cs"
proof -
  have "\<not> cq_is_empty demo_queue" "cq_is_empty cq_empty" by code_simp+
  then show ?thesis by (simp add: busy_def)
qed

lemma rr_pick_busy:
  "rr_pick (busy [Interactive, Job]) (arr4 0 a b c) =
     (if c + 1 > a + 4 then (Some Job, arr4 0 (a + 4) b (c - 4)) else (Some Interactive, arr4 0 (a - 1) b (c + 1)))"
  "rr_pick (busy [Metadata, Job]) (arr4 0 a b c) =
     (if c + 1 > b + 2 then (Some Job, arr4 0 a (b + 2) (c - 2)) else (Some Metadata, arr4 0 a (b - 1) (c + 1)))"
  "rr_pick (busy [Interactive, Metadata]) (arr4 0 a b c) =
     (if b + 2 > a + 4 then (Some Metadata, arr4 0 (a + 4) (b - 4) c) else (Some Interactive, arr4 0 (a - 2) (b + 2) c))"
  "rr_pick (busy [Interactive, Metadata, Job]) (arr4 0 a b c) =
     (if b + 2 > a + 4 then if c + 1 > b + 2 then (Some Job, arr4 0 (a + 4) (b + 2) (c - 6))
                            else (Some Metadata, arr4 0 (a + 4) (b - 5) (c + 1))
      else if c + 1 > a + 4 then (Some Job, arr4 0 (a + 4) (b + 2) (c - 6))
      else (Some Interactive, arr4 0 (a - 3) (b + 2) (c + 1)))"
  by (simp_all add: rr_defs busy_empty arr4_upd)

theorem shared_rotation_no_starvation_witness:
  "Some Job \<in> set (fst (rr_run unlucky (snd (rr_run drift rr_new))))"
proof -
  have "may_join_shared Job" "\<forall>queues \<in> set unlucky. \<not> cq_is_empty (queues Job)" "length unlucky = wait_bound Job"
    by code_simp+
  then show ?thesis by (rule shared_rotation_no_starvation)
qed

text \<open>
  The bound for Job is attained: after a run that leaves the credits at (4, 0, -4), Job waits through
  eight rounds in which it has a waiter and is served only in the ninth.
\<close>

theorem job_can_wait_nine_rounds:
  "map (\<lambda>queues. cq_is_empty (queues Job)) unlucky = replicate 9 False \<and>
   map (\<lambda>c. c = Some Job) (fst (rr_run unlucky (snd (rr_run drift rr_new)))) = replicate 8 False @ [True]"
proof -
  have start: "snd (rr_run drift rr_new) = arr4 0 4 0 (- 4)"
    by (simp add: drift_def rr_new_arr4 rr_pick_busy)
  have rounds: "unlucky = [busy [Metadata, Job], busy [Metadata, Job], busy [Metadata, Job], busy [Interactive, Job],
      busy [Interactive, Job], busy [Interactive, Job], busy [Interactive, Job], busy [Interactive, Job], busy [Interactive, Job]]"
    by (simp add: unlucky_def numeral_eq_Suc)
  have "fst (rr_run unlucky (arr4 0 4 0 (- 4))) =
      [Some Metadata, Some Metadata, Some Metadata, Some Interactive, Some Interactive, Some Interactive,
       Some Interactive, Some Interactive, Some Job]"
    unfolding rounds by (simp add: rr_pick_busy)
  then show ?thesis unfolding start by (simp add: rounds busy_empty numeral_eq_Suc)
qed

text \<open>
  While all three shared classes have waiters the rotation is exactly proportional: in every seven
  consecutive rounds started from zero credit, Interactive is served four times, Metadata twice and Job
  once, and the credits are zero again.
\<close>

theorem shared_rotation_proportional:
  assumes "\<And>i. i < 7 \<Longrightarrow> \<forall>c \<in> set shared_members. \<not> cq_is_empty (rounds i c)"
  shows "case rr_run (map rounds [0..<7]) rr_new of
      (picked, k) \<Rightarrow> mset picked = mset [Some Interactive, Some Interactive, Some Interactive, Some Interactive,
          Some Metadata, Some Metadata, Some Job]
        \<and> (\<forall>c. k c = 0)"
proof -
  have busy: "\<not> cq_is_empty (rounds i Interactive)" "\<not> cq_is_empty (rounds i Metadata)" "\<not> cq_is_empty (rounds i Job)"
    if "i < 7" for i
    using assms [OF that] by (simp_all add: shared_members_def)
  have step: "rr_pick (rounds i) (arr4 0 a b c) =
      (if b + 2 > a + 4 then if c + 1 > b + 2 then (Some Job, arr4 0 (a + 4) (b + 2) (c - 6))
                             else (Some Metadata, arr4 0 (a + 4) (b - 5) (c + 1))
       else if c + 1 > a + 4 then (Some Job, arr4 0 (a + 4) (b + 2) (c - 6))
       else (Some Interactive, arr4 0 (a - 3) (b + 2) (c + 1)))" if "i < 7" for i a b c
    using busy [OF that] by (simp add: rr_defs arr4_upd)
  have seven: "map rounds [0..<7] = [rounds 0, rounds 1, rounds 2, rounds 3, rounds 4, rounds 5, rounds 6]"
    by (simp add: upt_rec numeral_eq_Suc)
  have "rr_run (map rounds [0..<7]) rr_new =
      ([Some Interactive, Some Metadata, Some Interactive, Some Job, Some Interactive, Some Metadata, Some Interactive],
       arr4 0 0 0 0)"
    unfolding seven rr_new_arr4 by (simp add: step)
  then show ?thesis by (simp add: forall_class)
qed

theorem shared_rotation_proportional_witness:
  "mset (fst (rr_run (map (\<lambda>_. busy shared_members) [0..<7]) rr_new))
     = mset [Some Interactive, Some Interactive, Some Interactive, Some Interactive, Some Metadata, Some Metadata, Some Job]"
proof -
  have "\<forall>c \<in> set shared_members. \<not> cq_is_empty (busy shared_members c)" by code_simp
  then show ?thesis using shared_rotation_proportional [of "\<lambda>_. busy shared_members"] by (simp split: prod.splits)
qed

section \<open>Waiting for a permit\<close>

text \<open>
  C27. A settling attempt of a waiting task always returns, never grants at or after the deadline, and
  hands the task a live permit that was granted to its own waiter id.
\<close>

theorem settle_hands_out_own_permit:
  assumes "coord_inv l" "next_permit l + size (ledger_waiters l) \<le> u64_max"
  shows "\<exists>out l'. settle i deadline now l = Some (out, l') \<and> coord_inv l'
    \<and> (\<forall>p. out = Some (Inr p) \<longrightarrow> now < deadline
         \<and> (\<exists>r. bt_get (permits l') (pp_id p) = Some r \<and> p_waiter r = Some i \<and> p = to_port_permit r))"
proof (cases "deadline \<le> now")
  case True
  with assms(1) show ?thesis by (simp add: settle_def)
next
  case False
  obtain l' report where run: "pump now l = Some (l', report)" and inv': "coord_inv l'"
    using coord_inv_pump [OF assms] by blast
  have own: "bt_get (permits l') (p_id r) = Some r \<and> p_waiter r = Some i" if "find_waiter_permit i l' = Some r" for r
  proof -
    have wf: "bt_wf (permits l')" using inv' by (simp add: coord_inv_def ledger_inv_wf)
    have r: "r \<in> set (bt_values (permits l'))" "p_waiter r = Some i"
      using that by (auto simp: find_waiter_permit_def find_Some_iff)
    then obtain k where "bt_get (permits l') k = Some r" using bt_values_get [OF wf] by blast
    moreover from this have "p_id r = k"
      using inv' unfolding coord_inv_def ledger_inv_def permits_inv_def by blast
    ultimately show ?thesis using r(2) by simp
  qed
  show ?thesis
    using False run inv' own by (auto simp: settle_def to_port_permit_def)
qed

theorem settle_hands_out_own_permit_witness:
  "\<exists>p l'. settle 0 100 6 demo5 = Some (Some (Inr p), l')
     \<and> (\<exists>r. bt_get (permits l') (pp_id p) = Some r \<and> p_waiter r = Some 0)"
proof -
  have lim: "next_permit demo5 + size (ledger_waiters demo5) \<le> u64_max" using counters_demo5 by (simp add: counters_fit_def)
  have "case settle 0 100 6 demo5 of Some (Some (Inr p), l') \<Rightarrow> True | _ \<Rightarrow> False" by code_simp
  then obtain out p l' where "settle 0 100 6 demo5 = Some (Some out, l')" "out = Inr p"
    by (auto split: option.splits prod.splits sum.splits simp: sum.case_eq_if) (metis sum.collapse(2))
  with settle_hands_out_own_permit [OF demo_inv(6) lim, of 0 100 6] show ?thesis by auto
qed

section \<open>Sessions\<close>

text \<open>
  In every reachable state the logical counters are exact and capped: a user's counter is the number of
  that user's open sessions and at most the per-user cap, an organization's likewise, and the physical
  occupancy of a service is the number of its sessions with a physical connection.
\<close>

theorem logical_sessions_counted:
  assumes "cfg_bounds cfg" "coord_reachable cfg l"
  shows "counter_of (user_logical l) who = bt_count (\<lambda>r. s_principal r = who) (sessions l)
    \<and> counter_of (user_logical l) who \<le> per_user_logical_sessions (config l)
    \<and> counter_of (org_logical l) org = bt_count (\<lambda>r. s_org r = org) (sessions l)
    \<and> counter_of (org_logical l) org \<le> per_org_logical_sessions (config l)
    \<and> (\<forall>s. bt_get (services l) conn = Some s \<longrightarrow>
         physical s = bt_count (\<lambda>r. s_conn r = conn \<and> s_occupancy r \<noteq> None) (sessions l))"
proof -
  have "sessions_inv l" using coord_inv_reachable [OF assms] by (simp add: coord_inv_def)
  then show ?thesis by (simp add: sessions_inv_def)
qed

definition demo_session :: ledger where
  "demo_session = snd (open_session ''org'' ''ann'' ''db'' demo4)"

theorem logical_sessions_counted_witness:
  "counter_of (user_logical demo_session) ''ann'' = bt_count (\<lambda>r. s_principal r = ''ann'') (sessions demo_session)
   \<and> counter_of (user_logical demo_session) ''ann'' = 1"
proof -
  have fit: "counters_fit 0 demo4" by code_simp
  have reach: "coord_reachable demo_cfg demo_session"
    unfolding demo_session_def by (rule coord_reachable.step [OF demo_reachable(5) coord_step.open_session [OF fit]])
  have "counter_of (user_logical demo_session) ''ann'' = 1" by code_simp
  then show ?thesis using logical_sessions_counted [OF demo_cfg_bounds reach] by blast
qed

text \<open>One session that connects an editor, attaches a physical connection and closes.\<close>

definition editor_cycle :: "ledger \<Rightarrow> ledger" where
  "editor_cycle l =
     (case open_session ''org'' ''ann'' ''db'' l of
        (Inl _, l1) \<Rightarrow> l1
      | (Inr t, l1) \<Rightarrow> snd (close_session t (snd (attach_physical t InUse (snd (connect_editor t l1))))))"

text \<open>
  Closing does not undo opening for a session that both connected an editor and attached a physical
  connection: it is counted twice as an editor and uncounted once. After four such sessions have been
  opened and closed, no session exists and nothing is occupied, yet the user can no longer attach a
  session with an editor although the cap is five.
\<close>

theorem editor_count_leaks:
  "let l = editor_cycle (editor_cycle (editor_cycle (editor_cycle (ledger_new demo_cfg))));
       (t, l1) = open_session ''org'' ''ann'' ''db'' l;
       ticket = projr t
   in sessions l = [] \<and> connected_of ''db'' ''ann'' l = 4
      \<and> fst (connect_editor ticket l1) = Inr ()
      \<and> fst (attach_physical ticket InUse (snd (connect_editor ticket l1))) = Inl (ConnectedEditorsExhausted ''ann'' 5)"
  by code_simp

section \<open>Draining\<close>

text \<open>
  After a service is drained, no operation of the scheduler or of admission adds a permit to it: an
  admission is denied or reported busy, and a scheduler round grants only for services that do not
  drain.
\<close>

theorem drained_service_grants_nothing:
  assumes inv: "coord_inv l" and lim: "next_permit l + size (ledger_waiters l) \<le> u64_max"
    and drain: "is_draining conn l"
  shows "(\<forall>claim out l'. try_admit claim now l = (Granted out, l') \<longrightarrow> c_conn claim \<noteq> conn)
    \<and> (\<forall>l' report. pump now l = Some (l', report) \<longrightarrow>
         (\<forall>r \<in> set (granted report). p_conn r \<noteq> conn) \<and> is_draining conn l')"
proof -
  have led: "ledger_inv l" using inv by (simp add: coord_inv_def)
  have "c_conn claim \<noteq> conn" if "try_admit claim now l = (Granted out, l')" for claim out l'
    using that drain by (cases rule: try_admit_cases [OF led, of claim now]) (auto simp: is_draining_def)
  moreover have "(\<forall>r \<in> set (granted report). p_conn r \<noteq> conn) \<and> is_draining conn l'"
    if "pump now l = Some (l', report)" for l' report
  proof -
    have rel: "pump_rel now (set (bt_keys (services l))) (l, \<lparr>granted = [], timed_out = []\<rparr>) (l', report)"
      using pump_sound [OF led lim, of now] that by auto
    then obtain ws where ws: "list_all2 served_by ws (granted report)" "\<forall>w \<in> set ws. \<not> is_draining (w_conn w) l"
      unfolding pump_rel_def prod.case by auto
    have "\<forall>r \<in> set (granted report). \<exists>w \<in> set ws. served_by w r"
      using ws(1) by (induction rule: list_all2_induct) auto
    then have "\<forall>r \<in> set (granted report). p_conn r \<noteq> conn"
      using ws(2) drain by (auto simp: served_by_def)
    moreover have "is_draining conn l' = is_draining conn l"
    proof (rule is_draining_rel)
      show "rel_option (\<lambda>s s'. draining s' = draining s \<and> physical s' = physical s)
          (bt_get (services l) conn) (bt_get (services l') conn)"
        using rel by (simp add: pump_rel_def)
    qed
    ultimately show ?thesis using drain by simp
  qed
  ultimately show ?thesis by blast
qed

theorem drained_service_grants_nothing_witness:
  "\<exists>l' report. pump 6 (snd (drain (DrainConnection ''db'') demo5)) = Some (l', report)
     \<and> (\<forall>r \<in> set (granted report). p_conn r \<noteq> ''db'')"
proof -
  let ?l = "snd (drain (DrainConnection ''db'') demo5)"
  have inv: "coord_inv ?l" using demo_inv(6) by (rule coord_inv_drain)
  have "counters_fit 0 ?l" and dr: "is_draining ''db'' ?l" by code_simp+
  then have lim: "next_permit ?l + size (ledger_waiters ?l) \<le> u64_max" by (simp add: counters_fit_def)
  obtain l' report where "pump 6 ?l = Some (l', report)" using coord_inv_pump [OF inv lim] by blast
  with drained_service_grants_nothing [OF inv lim dr, of 6] show ?thesis by blast
qed

text \<open>An organization that is drained before it uses a service.\<close>

definition other_claim :: budget_claim where
  "other_claim = claim_single ''org2'' ''db'' ''zoe'' Job"

definition org_drain_run :: "ledger option" where
  "org_drain_run =
     (let l0 = ensure_service ''db'' (snd (drain (DrainOrganization ''org2'') (ledger_new demo_cfg)));
          l1 = snd (try_admit (demo_claim ''ann'' Interactive) 1 l0);
          l2 = snd (try_admit (demo_claim ''ann'' Interactive) 1 l1);
          l3 = snd (try_admit (demo_claim ''ops'' Control) 1 l2);
          (out, l4) = acquire_now other_claim 2 l3;
          l5 = snd (acquire_enqueue other_claim 100 2 2 l4);
          l6 = snd (release (demo_permit 2) True 3 l5)
      in if out = None then map_option fst (pump 3 l6) else None)"

text \<open>
  Draining an organization does not stop its waiters. The organization is drained before it ever used
  the service; while others hold every physical connection its request is reported busy, so it may
  queue, and the next release lets the scheduler grant it a permit.
\<close>

theorem drained_organization_still_granted:
  "map_option (\<lambda>l. ''org2'' \<in> draining_orgs l \<and> (\<exists>r \<in> set (bt_values (permits l)). p_org r = ''org2'')) org_drain_run
     = Some True"
  by code_simp

text \<open>
  Draining one organization refuses the others: the drain flags every registered service, so an
  organization that is not drained is denied on a service the drained one never used.
\<close>

theorem draining_one_organization_denies_others:
  "fst (try_admit (demo_claim ''ann'' Interactive) 1 (snd (drain (DrainOrganization ''org2'') demo0)))
     = Denied (ServiceDraining ''db'')"
  by code_simp

section \<open>Configuration\<close>

text \<open>
  A configuration that passes validation splits its total exactly into the reservations and the shared
  pool; no class can exceed the total, and Control is limited to its own reservation.
\<close>

theorem validated_quota_adds_up:
  assumes "config_validate cfg = Inr ()" "q_total (service_quota cfg) < u32_max"
  shows "sum4 (q_reserved (service_quota cfg)) + q_shared (service_quota cfg) = q_total (service_quota cfg)
    \<and> config_capacity_of cfg c \<le> q_total (service_quota cfg)
    \<and> config_capacity_of cfg Control = q_reserved (service_quota cfg) Control"
proof -
  have v: "sat_sum4 (q_reserved (service_quota cfg)) \<le> q_total (service_quota cfg)"
    "q_shared (service_quota cfg) = q_total (service_quota cfg) - sat_sum4 (q_reserved (service_quota cfg))"
    using validate_InrD [OF assms(1)] by simp_all
  then have "sum4 (q_reserved (service_quota cfg)) \<le> q_total (service_quota cfg)"
    using assms(2) by (simp add: sat_sum4_eq)
  then have "quota_ok (service_quota cfg)"
    using v assms(2) by (simp add: quota_ok_def sat_sum4_eq)
  then show ?thesis
    using capacity_le_total [of "service_quota cfg" c] capacity_exact [of "service_quota cfg" Control]
    by (simp add: quota_ok_def config_capacity_of_def may_join_shared_def)
qed

theorem validated_quota_adds_up_witness:
  "sum4 (q_reserved (service_quota team_default)) + q_shared (service_quota team_default) = 20
   \<and> config_capacity_of team_default Job \<le> 20"
proof -
  have "config_validate team_default = Inr ()" "q_total (service_quota team_default) = 20" by code_simp+
  then show ?thesis
    using validated_quota_adds_up [of team_default Job] by (simp add: u32_max_def)
qed

text \<open>
  Validation itself is not total on well-typed values: a hand-made quota whose shared part exceeds the
  total, with reservations inside the total, reaches the unchecked subtraction.
\<close>

theorem validate_underflows:
  "config_validate (config_new \<lparr>q_total = 4, q_reserved = arr4 1 1 1 0, q_shared = 5\<rparr>) = Inl PanicSubtractOverflow"
  by code_simp

end
