(* ===== verification/Pool_Ledger.thy ===== *)
theory Pool_Ledger
  imports Budget_Sessions Errors
begin

text \<open>
  The physical budget of the driver pools: the dimensions and quota cells of
  \<open>execution/application/budget/dimension.rs\<close>, the contract types of \<open>pool.rs\<close>, \<open>control.rs\<close> and
  \<open>node.rs\<close>, and the in-process ledger \<open>pool_ledger.rs\<close> that books every physical connection on the
  cells of its charge chain.

  The \<open>HashMap\<close> of used counters is a map from quota cells; \<open>Counter\<close> is a \<open>u64\<close> and saturates.
  The injected clock is the timestamp argument of the operations. Error texts are given in English;
  the debug rendering of a pool key inside one of them is left out.
\<close>

section \<open>Dimensions and quota cells\<close>

datatype budget_dimension =
    DimOrganization string
  | DimPrincipal string string
  | DimDatabaseService string string
  | DimWorker string string
  | DimJob string string

fun dim_organization :: "budget_dimension \<Rightarrow> string" where
  "dim_organization (DimOrganization org) = org"
| "dim_organization (DimPrincipal org _) = org"
| "dim_organization (DimDatabaseService org _) = org"
| "dim_organization (DimWorker org _) = org"
| "dim_organization (DimJob org _) = org"

fun is_organization :: "budget_dimension \<Rightarrow> bool" where
  "is_organization (DimOrganization _) = True"
| "is_organization _ = False"

definition capped_by :: "budget_dimension \<Rightarrow> budget_dimension list" where
  "capped_by d = (if is_organization d then [] else [DimOrganization (dim_organization d)]) @ [d]"

datatype quota_key = QuotaKey (key_dimension: budget_dimension) (key_class: resource_class)

definition quota_keys :: "budget_dimension \<Rightarrow> resource_class \<Rightarrow> quota_key list" where
  "quota_keys d c = map (\<lambda>layer. QuotaKey layer c) (capped_by d)"

lemma quota_keys_distinct: "distinct (quota_keys d c)"
  by (cases d) (simp_all add: quota_keys_def capped_by_def)

lemma quota_keys_class: "k \<in> set (quota_keys d c) \<Longrightarrow> key_class k = c"
  by (auto simp: quota_keys_def)

lemma quota_keys_own: "QuotaKey d c \<in> set (quota_keys d c)"
  by (simp add: quota_keys_def capped_by_def)

lemma quota_keys_org: "QuotaKey (DimOrganization (dim_organization d)) c \<in> set (quota_keys d c)"
  by (cases d) (simp_all add: quota_keys_def capped_by_def)

section \<open>Usage, queue admission and denials\<close>

record budget_usage =
  bu_physical :: nat
  bu_logical :: nat

definition remaining_physical :: "budget_usage \<Rightarrow> nat \<Rightarrow> nat" where
  "remaining_physical u tot = tot - min (bu_physical u) u32_max"

datatype queue_kind = KindClassPerService resource_class | KindPrincipal

datatype queue_admission = QueueAdmitted nat | QueueAtCap queue_kind

record queue_limits =
  ql_per_class_per_service :: nat
  ql_per_principal :: nat

definition queue_limit_defaults :: queue_limits where
  "queue_limit_defaults = \<lparr>ql_per_class_per_service = 32, ql_per_principal = 32\<rparr>"

definition queue_admit :: "queue_limits \<Rightarrow> resource_class \<Rightarrow> nat \<Rightarrow> nat \<Rightarrow> queue_admission" where
  "queue_admit limits c class_waiting principal_waiting =
     (if class_waiting \<ge> ql_per_class_per_service limits then QueueAtCap (KindClassPerService c)
      else if principal_waiting \<ge> ql_per_principal limits then QueueAtCap KindPrincipal
      else QueueAdmitted principal_waiting)"

datatype quota_denial =
    Insufficient quota_key nat nat
  | DenialQueueFull queue_admission
  | DenialWaitTimeout quota_key nat nat
  | DenialNodeLost string

fun denial_key :: "quota_denial \<Rightarrow> quota_key option" where
  "denial_key (Insufficient k _ _) = Some k"
| "denial_key (DenialWaitTimeout k _ _) = Some k"
| "denial_key (DenialQueueFull _) = None"
| "denial_key (DenialNodeLost _) = None"

fun denial_retryable :: "quota_denial \<Rightarrow> bool" where
  "denial_retryable (Insufficient _ _ _) = True"
| "denial_retryable (DenialQueueFull _) = True"
| "denial_retryable (DenialWaitTimeout _ _ _) = False"
| "denial_retryable (DenialNodeLost _) = False"

datatype 'a quota_verdict = QuotaGranted 'a | QuotaDenied quota_denial

fun verdict_granted :: "'a quota_verdict \<Rightarrow> 'a option" where
  "verdict_granted (QuotaGranted v) = Some v"
| "verdict_granted (QuotaDenied _) = None"

fun verdict_denied :: "'a quota_verdict \<Rightarrow> quota_denial option" where
  "verdict_denied (QuotaGranted _) = None"
| "verdict_denied (QuotaDenied r) = Some r"

fun verdict_result :: "'a quota_verdict \<Rightarrow> quota_denial + 'a" where
  "verdict_result (QuotaGranted v) = Inr v"
| "verdict_result (QuotaDenied r) = Inl r"

definition counts_against_budget :: "physical_occupancy \<Rightarrow> bool" where
  "counts_against_budget occ \<longleftrightarrow> True"

definition occupancy_is_live :: "physical_occupancy \<Rightarrow> bool" where
  "occupancy_is_live occ \<longleftrightarrow> occ = InUse"

section \<open>Control connections and node quotas\<close>

datatype control_kind = ControlCancel string | ControlHealthProbe

record control_lease =
  cl_lease_id :: string
  cl_kind :: control_kind
  cl_org :: string
  cl_conn :: string
  cl_dimension :: budget_dimension
  cl_physical :: string
  cl_acquired_at :: string

definition control_quota_key :: "control_lease \<Rightarrow> quota_key" where
  "control_quota_key l = QuotaKey (DimDatabaseService (cl_org l) (cl_conn l)) Control"

definition control_quota_keys :: "control_lease \<Rightarrow> quota_key list" where
  "control_quota_keys l = quota_keys (cl_dimension l) Control"

record control_headroom =
  ch_reserved :: nat
  ch_in_use :: nat

definition control_available :: "control_headroom \<Rightarrow> nat" where
  "control_available h = ch_reserved h - ch_in_use h"

definition control_can_open :: "control_headroom \<Rightarrow> bool" where
  "control_can_open h \<longleftrightarrow> control_available h > 0"

datatype node_budget_state = NodeAvailable | NodeDraining | NodeRenewalLost

definition allows_new_connections :: "node_budget_state \<Rightarrow> bool" where
  "allows_new_connections s \<longleftrightarrow> s = NodeAvailable"

record node_quota =
  nq_worker :: string
  nq_physical :: nat
  nq_logical :: nat
  nq_in_use :: nat
  nq_held :: nat

definition node_quota_new :: "string \<Rightarrow> nat \<Rightarrow> node_quota" where
  "node_quota_new worker n =
     \<lparr>nq_worker = worker, nq_physical = n, nq_logical = 0, nq_in_use = 0, nq_held = 0\<rparr>"

definition node_remaining :: "node_quota \<Rightarrow> nat" where
  "node_remaining q = nq_physical q - nq_in_use q - nq_held q"

definition node_can_open :: "node_quota \<Rightarrow> bool" where
  "node_can_open q \<longleftrightarrow> node_remaining q > 0"

section \<open>Pool keys, leases and receipts\<close>

record pool_key =
  pk_org :: string
  pk_conn :: string
  pk_config_revision :: nat
  pk_credential_revision :: nat
  pk_execution_identity :: string
  pk_policy_isolation :: string
  pk_driver_resource :: string
  pk_network_route_revision :: nat

text \<open>The owner of a request is carried in it and never read by the ledger.\<close>

datatype owner_ref =
    OwnerEditor string string
  | OwnerJob string string
  | OwnerWorkflowBlock string string
  | OwnerClientSession string string

record pool_request =
  pr_key :: pool_key
  pr_class :: resource_class
  pr_dimension :: budget_dimension
  pr_owner :: owner_ref
  pr_count :: nat
  pr_timeout_ms :: "nat option"

record pool_lease =
  pl_id :: string
  pl_key :: pool_key
  pl_class :: resource_class
  pl_dimension :: budget_dimension
  pl_physical :: string
  pl_count :: nat
  pl_occupancy :: physical_occupancy
  pl_acquired_at :: string

definition lease_quota_keys :: "pool_lease \<Rightarrow> quota_key list" where
  "lease_quota_keys l = quota_keys (pl_dimension l) (pl_class l)"

datatype quarantine_reason =
  HostCheckFailed | DriverUnclean | TunnelLost | IdentityRotated | PolicyChanged | HealthCheckFailed

record return_check =
  rc_host_clean :: bool
  rc_driver_clean :: bool

datatype return_verdict = AdmittedToIdlePool | CleanupRequired quarantine_reason

definition return_decide :: "return_check \<Rightarrow> return_verdict" where
  "return_decide check =
     (if rc_driver_clean check
      then if rc_host_clean check then AdmittedToIdlePool else CleanupRequired HostCheckFailed
      else CleanupRequired DriverUnclean)"

definition admits_to_idle :: "return_verdict \<Rightarrow> bool" where
  "admits_to_idle v \<longleftrightarrow> v = AdmittedToIdlePool"

datatype release_source =
  SessionClosed | IdleEvicted | PoolKeyRotated | AdminDrain | CleanupAfterReturn | PoolShutdown

datatype release_disposition = Closed | ReturnedToPool

definition releases_physical_budget :: "release_disposition \<Rightarrow> bool" where
  "releases_physical_budget d \<longleftrightarrow> d = Closed"

record release_receipt =
  rr_disposition :: release_disposition
  rr_source :: release_source
  rr_released :: nat
  rr_remaining_idle :: nat
  rr_at :: string

definition receipt_for :: "release_disposition \<Rightarrow> release_source \<Rightarrow> nat \<Rightarrow> nat \<Rightarrow> string \<Rightarrow> release_receipt" where
  "receipt_for d src held idle at =
     \<lparr>rr_disposition = d, rr_source = src,
      rr_released = (if releases_physical_budget d then held else 0), rr_remaining_idle = idle, rr_at = at\<rparr>"

record pool_stats =
  ps_key :: pool_key
  ps_class :: resource_class
  ps_physical :: nat
  ps_idle :: nat
  ps_usage :: budget_usage
  ps_idle_ttl_ms :: nat
  ps_max_empty :: nat

section \<open>The ledger\<close>

record pool_config =
  pc_quotas :: "(budget_dimension \<times> service_quota) list"
  pc_idle_ttl_ms :: nat
  pc_max_empty :: nat

definition pool_config_new :: "(budget_dimension \<times> service_quota) list \<Rightarrow> pool_config" where
  "pool_config_new quotas = \<lparr>pc_quotas = quotas, pc_idle_ttl_ms = 60000, pc_max_empty = 32\<rparr>"

definition with_pool_limits :: "nat \<Rightarrow> nat \<Rightarrow> pool_config \<Rightarrow> pool_config" where
  "with_pool_limits ttl n cfg = cfg\<lparr>pc_idle_ttl_ms := ttl, pc_max_empty := n\<rparr>"

record pool_record =
  pe_key :: pool_key
  pe_last_class :: resource_class
  pe_leases :: "pool_lease list"

record pool_ledger =
  plg_quotas :: "(budget_dimension \<times> service_quota) list"
  plg_used :: "quota_key \<rightharpoonup> nat"
  plg_pools :: "pool_record list"
  plg_idle_ttl_ms :: nat
  plg_max_empty :: nat
  plg_lease_seq :: nat
  plg_physical_seq :: nat

definition pool_ledger_new :: "pool_config \<Rightarrow> pool_ledger" where
  "pool_ledger_new cfg =
     \<lparr>plg_quotas = pc_quotas cfg, plg_used = Map.empty, plg_pools = [], plg_idle_ttl_ms = pc_idle_ttl_ms cfg,
      plg_max_empty = pc_max_empty cfg, plg_lease_seq = 0, plg_physical_seq = 0\<rparr>"

subsection \<open>Counting\<close>

definition quota_of :: "pool_ledger \<Rightarrow> budget_dimension \<Rightarrow> service_quota option" where
  "quota_of s d = map_option snd (List.find (\<lambda>e. fst e = d) (plg_quotas s))"

definition pool_capacity_of :: "pool_ledger \<Rightarrow> quota_key \<Rightarrow> nat option" where
  "pool_capacity_of s k = map_option (\<lambda>q. capacity_of q (key_class k)) (quota_of s (key_dimension k))"

definition dimension_total :: "pool_ledger \<Rightarrow> budget_dimension \<Rightarrow> nat option" where
  "dimension_total s d = map_option q_total (quota_of s d)"

definition pool_used :: "pool_ledger \<Rightarrow> quota_key \<Rightarrow> nat" where
  "pool_used s k = (case plg_used s k of None \<Rightarrow> 0 | Some n \<Rightarrow> n)"

definition dimension_used :: "pool_ledger \<Rightarrow> budget_dimension \<Rightarrow> nat" where
  "dimension_used s d = foldl (\<lambda>acc c. sat_add64 acc (pool_used s (QuotaKey d c))) 0 all_classes"

definition cell_available :: "pool_ledger \<Rightarrow> quota_key \<Rightarrow> nat" where
  "cell_available s k =
     min (case pool_capacity_of s k of
            Some cap \<Rightarrow> remaining_physical \<lparr>bu_physical = pool_used s k, bu_logical = 0\<rparr> cap
          | None \<Rightarrow> 0)
         (case dimension_total s (key_dimension k) of
            Some tot \<Rightarrow> remaining_physical
              \<lparr>bu_physical = dimension_used s (key_dimension k), bu_logical = 0\<rparr> tot
          | None \<Rightarrow> 0)"

definition charge :: "quota_key list \<Rightarrow> nat \<Rightarrow> (quota_key \<rightharpoonup> nat) \<Rightarrow> (quota_key \<rightharpoonup> nat)" where
  "charge ks n used =
     foldl (\<lambda>u k. u(k \<mapsto> sat_add64 (case u k of None \<Rightarrow> 0 | Some m \<Rightarrow> m) n)) used ks"

definition uncharge :: "quota_key list \<Rightarrow> nat \<Rightarrow> (quota_key \<rightharpoonup> nat) \<Rightarrow> (quota_key \<rightharpoonup> nat)" where
  "uncharge ks n used =
     foldl (\<lambda>u k. case u k of None \<Rightarrow> u | Some m \<Rightarrow> u(k \<mapsto> m - n)) used ks"

definition leases_physical :: "pool_lease list \<Rightarrow> nat" where
  "leases_physical ls = foldl (\<lambda>acc l. sat_add32 acc (pl_count l)) 0 ls"

definition find_pool :: "pool_key \<Rightarrow> pool_record list \<Rightarrow> nat option" where
  "find_pool key ps = find_index (\<lambda>p. pe_key p = key) ps"

definition idle_physical :: "pool_ledger \<Rightarrow> pool_key \<Rightarrow> nat" where
  "idle_physical s key =
     (case find_pool key (plg_pools s) of
        None \<Rightarrow> 0
      | Some i \<Rightarrow> leases_physical (filter (\<lambda>l. pl_occupancy l = IdlePooled) (pe_leases (plg_pools s ! i))))"

subsection \<open>Operations\<close>

definition lease_name :: "nat \<Rightarrow> string" where
  "lease_name n = ''pool-lease-'' @ dec n"

definition next_lease_id :: "pool_ledger \<Rightarrow> string \<times> pool_ledger" where
  "next_lease_id s =
     (let s' = s\<lparr>plg_lease_seq := sat_add64 (plg_lease_seq s) 1\<rparr>
      in (lease_name (plg_lease_seq s'), s'))"

definition next_physical_id :: "pool_ledger \<Rightarrow> string \<times> pool_ledger" where
  "next_physical_id s =
     (let s' = s\<lparr>plg_physical_seq := sat_add64 (plg_physical_seq s) 1\<rparr>
      in (''pool-physical-'' @ dec (plg_physical_seq s'), s'))"

lemma lease_name_inject: "lease_name m = lease_name n \<longleftrightarrow> m = n"
  by (metis append_same_eq dec_val_dec lease_name_def same_append_eq)

definition insert_lease :: "pool_lease \<Rightarrow> pool_ledger \<Rightarrow> pool_ledger" where
  "insert_lease l s =
     (case find_pool (pl_key l) (plg_pools s) of
        Some i \<Rightarrow> let p = plg_pools s ! i
          in s\<lparr>plg_pools := (plg_pools s)[i := p\<lparr>pe_last_class := pl_class l, pe_leases := pe_leases p @ [l]\<rparr>]\<rparr>
      | None \<Rightarrow> s\<lparr>plg_pools := plg_pools s @
          [\<lparr>pe_key = pl_key l, pe_last_class = pl_class l, pe_leases = [l]\<rparr>]\<rparr>)"

definition locate :: "pool_lease \<Rightarrow> pool_ledger \<Rightarrow> (nat \<times> nat) option" where
  "locate l s =
     (case find_pool (pl_key l) (plg_pools s) of
        None \<Rightarrow> None
      | Some i \<Rightarrow> map_option (Pair i) (find_index (\<lambda>h. pl_id h = pl_id l) (pe_leases (plg_pools s ! i))))"

definition set_lease :: "nat \<times> nat \<Rightarrow> pool_lease \<Rightarrow> pool_ledger \<Rightarrow> pool_ledger" where
  "set_lease at l s =
     (let p = plg_pools s ! fst at
      in s\<lparr>plg_pools := (plg_pools s)[fst at := p\<lparr>pe_leases := (pe_leases p)[snd at := l]\<rparr>]\<rparr>)"

definition get_lease :: "nat \<times> nat \<Rightarrow> pool_ledger \<Rightarrow> pool_lease" where
  "get_lease at s = pe_leases (plg_pools s ! fst at) ! snd at"

definition missing_lease :: "pool_lease \<Rightarrow> port_error" where
  "missing_lease l =
     NotFound (''the pool port has no such lease: '' @ pl_id l @ '' (pool key mismatch or already released)'')"

definition reusable :: "pool_request \<Rightarrow> pool_lease \<Rightarrow> bool" where
  "reusable r h \<longleftrightarrow> pl_occupancy h = IdlePooled \<and> pl_dimension h = pr_dimension r \<and>
     pl_class h = pr_class r \<and> pl_count h = pr_count r"

definition find_reusable :: "pool_request \<Rightarrow> pool_ledger \<Rightarrow> (nat \<times> nat) option" where
  "find_reusable r s =
     (case find_pool (pr_key r) (plg_pools s) of
        None \<Rightarrow> None
      | Some i \<Rightarrow> map_option (Pair i) (find_index (reusable r) (pe_leases (plg_pools s ! i))))"

definition reuse_idle :: "pool_request \<Rightarrow> string \<Rightarrow> pool_ledger \<Rightarrow> (pool_lease \<times> pool_ledger) option" where
  "reuse_idle r at s =
     (case find_reusable r s of
        None \<Rightarrow> None
      | Some ix \<Rightarrow>
          let (lid, s1) = next_lease_id s;
              l = (get_lease ix s1)\<lparr>pl_occupancy := InUse, pl_id := lid, pl_acquired_at := at\<rparr>
          in Some (l, set_lease ix l s1))"

definition first_short :: "pool_ledger \<Rightarrow> nat \<Rightarrow> quota_key list \<Rightarrow> quota_key option" where
  "first_short s n ks = List.find (\<lambda>k. cell_available s k < n) ks"

definition pool_acquire ::
  "pool_request \<Rightarrow> string \<Rightarrow> pool_ledger \<Rightarrow> (port_error + pool_lease quota_verdict) \<times> pool_ledger" where
  "pool_acquire r at s =
     (if pr_count r = 0 then
        (Inl (QuotaExceeded ''the pool port does not accept a request for 0 physical connections''), s)
      else if is_control (pr_class r) then
        (Inl (QuotaExceeded ''the control class is only granted by ControlResourcePort''), s)
      else case reuse_idle r at s of
        Some (l, s') \<Rightarrow> (Inr (QuotaGranted l), s')
      | None \<Rightarrow>
          let chain = quota_keys (pr_dimension r) (pr_class r)
          in case first_short s (pr_count r) chain of
               Some k \<Rightarrow> (Inr (QuotaDenied (Insufficient k (pr_count r) (cell_available s k))), s)
             | None \<Rightarrow>
                 let s1 = s\<lparr>plg_used := charge chain (pr_count r) (plg_used s)\<rparr>;
                     (lid, s2) = next_lease_id s1;
                     (pid, s3) = next_physical_id s2;
                     l = \<lparr>pl_id = lid, pl_key = pr_key r, pl_class = pr_class r, pl_dimension = pr_dimension r,
                          pl_physical = pid, pl_count = pr_count r, pl_occupancy = InUse, pl_acquired_at = at\<rparr>
                 in (Inr (QuotaGranted l), insert_lease l s3))"

definition drop_lease :: "nat \<times> nat \<Rightarrow> pool_ledger \<Rightarrow> pool_ledger" where
  "drop_lease at s =
     (let p = plg_pools s ! fst at
      in s\<lparr>plg_pools := (plg_pools s)[fst at := p\<lparr>pe_leases := remove_at (snd at) (pe_leases p)\<rparr>]\<rparr>)"

definition pool_release ::
  "pool_lease \<Rightarrow> release_source \<Rightarrow> string \<Rightarrow> pool_ledger \<Rightarrow> (port_error + release_receipt) \<times> pool_ledger" where
  "pool_release l src at s =
     (case locate l s of
        None \<Rightarrow> (Inl (missing_lease l), s)
      | Some ix \<Rightarrow>
          let held = get_lease ix s;
              s1 = drop_lease ix s;
              s2 = s1\<lparr>plg_used := uncharge (quota_keys (pl_dimension held) (pl_class held)) (pl_count held) (plg_used s1)\<rparr>;
              remaining_idle = idle_physical s2 (pl_key held);
              s3 = (if pe_leases (plg_pools s2 ! fst ix) = []
                    then s2\<lparr>plg_pools := remove_at (fst ix) (plg_pools s2)\<rparr> else s2)
          in (Inr (receipt_for Closed src (pl_count held) remaining_idle at), s3))"

definition return_to_pool ::
  "pool_lease \<Rightarrow> return_check \<Rightarrow> pool_ledger \<Rightarrow> (port_error + return_verdict) \<times> pool_ledger" where
  "return_to_pool l check s =
     (case locate l s of
        None \<Rightarrow> (Inl (missing_lease l), s)
      | Some ix \<Rightarrow>
          let verdict = return_decide check;
              occ = (if admits_to_idle verdict then IdlePooled else Cleaning)
          in (Inr verdict, set_lease ix ((get_lease ix s)\<lparr>pl_occupancy := occ\<rparr>) s))"

definition quarantine ::
  "pool_lease \<Rightarrow> quarantine_reason \<Rightarrow> pool_ledger \<Rightarrow> (port_error + pool_lease) \<times> pool_ledger" where
  "quarantine l reason s =
     (case locate l s of
        None \<Rightarrow> (Inl (missing_lease l), s)
      | Some ix \<Rightarrow>
          let h = (get_lease ix s)\<lparr>pl_occupancy := Quarantined\<rparr> in (Inr h, set_lease ix h s))"

definition pool_usage :: "quota_key \<Rightarrow> pool_ledger \<Rightarrow> budget_usage" where
  "pool_usage k s = \<lparr>bu_physical = pool_used s k, bu_logical = 0\<rparr>"

definition pool_stats_of :: "pool_key \<Rightarrow> pool_ledger \<Rightarrow> port_error + pool_stats" where
  "pool_stats_of key s =
     (case find_pool key (plg_pools s) of
        None \<Rightarrow> Inl (NotFound ''the pool port has no such pool key'')
      | Some i \<Rightarrow>
          let p = plg_pools s ! i; n = leases_physical (pe_leases p)
          in Inr \<lparr>ps_key = key, ps_class = pe_last_class p, ps_physical = n, ps_idle = idle_physical s key,
                  ps_usage = \<lparr>bu_physical = n, bu_logical = 0\<rparr>, ps_idle_ttl_ms = plg_idle_ttl_ms s,
                  ps_max_empty = plg_max_empty s\<rparr>)"

fun pool_in_scope :: "drain_scope \<Rightarrow> pool_record \<Rightarrow> bool" where
  "pool_in_scope (DrainNode _) p = False"
| "pool_in_scope (DrainOrganization org) p = (pk_org (pe_key p) = org)"
| "pool_in_scope (DrainConnection conn) p = (pk_conn (pe_key p) = conn)"

definition pending_physical :: "pool_record \<Rightarrow> nat" where
  "pending_physical p = leases_physical (filter (\<lambda>l. pl_occupancy l \<noteq> IdlePooled) (pe_leases p))"

record drain_status =
  ds_scope :: drain_scope
  ds_outstanding :: nat
  ds_draining :: bool

definition pool_drain :: "pool_key \<Rightarrow> drain_scope \<Rightarrow> pool_ledger \<Rightarrow> port_error + drain_status" where
  "pool_drain key scope s =
     (case scope of
        DrainNode worker \<Rightarrow> Inl (NotFound (''node draining belongs to ClusterNodeBudgetPort: '' @ worker))
      | _ \<Rightarrow>
          case find_pool key (plg_pools s) of
            None \<Rightarrow> Inl (NotFound ''the pool port has no such pool key'')
          | Some _ \<Rightarrow>
              let outstanding = foldl (\<lambda>acc p. sat_add32 acc (pending_physical p)) 0
                                  (filter (pool_in_scope scope) (plg_pools s))
              in Inr \<lparr>ds_scope = scope, ds_outstanding = outstanding, ds_draining = outstanding > 0\<rparr>)"

end
