(* ===== verification/Pool_Store.thy ===== *)
theory Pool_Store
  imports Pool_Ledger
begin

text \<open>
  The pool ledger as a store of leases. The locale states what a client of such a store relies on:
  every lease is counted once, and replacing, dropping or adding a lease changes every count by
  exactly that lease. The pool ledger of \<open>pool_ledger.rs\<close>, a list of pools with a list of leases
  each, provides the laws.
\<close>

section \<open>Sums over lists\<close>

lemma sum_list_map_update:
  "i < length xs \<Longrightarrow> sum_list (map f (xs[i := y])) + f (xs ! i) = sum_list (map f xs) + (f y :: nat)"
proof (induction xs arbitrary: i)
  case (Cons x xs)
  show ?case
  proof (cases i)
    case (Suc j)
    then have "sum_list (map f (xs[j := y])) + f (xs ! j) = sum_list (map f xs) + f y"
      using Cons by simp
    then show ?thesis by (simp add: Suc)
  qed simp
qed simp

lemma sum_list_map_remove_at:
  "i < length xs \<Longrightarrow> sum_list (map f (remove_at i xs)) + (f (xs ! i) :: nat) = sum_list (map f xs)"
proof (induction xs arbitrary: i)
  case (Cons x xs)
  show ?case
  proof (cases i)
    case (Suc j)
    then have "sum_list (map f (remove_at j xs)) + f (xs ! j) = sum_list (map f xs)"
      using Cons by simp
    then show ?thesis by (simp add: Suc)
  qed simp
qed simp

lemma sum_list_map_zero: "sum_list (map f xs) = (0::nat) \<longleftrightarrow> (\<forall>x \<in> set xs. f x = 0)"
  by (induction xs) auto

section \<open>A store of counted items\<close>

locale counted_store =
  fixes tally :: "('i \<Rightarrow> nat) \<Rightarrow> 's \<Rightarrow> nat"
    and item :: "'x \<Rightarrow> 's \<Rightarrow> 'i"
    and present :: "'x \<Rightarrow> 's \<Rightarrow> bool"
    and put :: "'x \<Rightarrow> 'i \<Rightarrow> 's \<Rightarrow> 's"
    and drp :: "'x \<Rightarrow> 's \<Rightarrow> 's"
    and add :: "'i \<Rightarrow> 's \<Rightarrow> 's"
  assumes tally_put: "present x s \<Longrightarrow> tally w (put x i s) + w (item x s) = tally w s + w i"
    and tally_drop: "present x s \<Longrightarrow> tally w (drp x s) + w (item x s) = tally w s"
    and tally_add: "tally w (add i s) = tally w s + w i"
begin

lemma item_counted: "present x s \<Longrightarrow> w (item x s) \<le> tally w s"
  using tally_drop [of x s w] by simp

lemma put_same_weight: "present x s \<Longrightarrow> w i = w (item x s) \<Longrightarrow> tally w (put x i s) = tally w s"
  using tally_put [of x s w i] by simp

lemma none_put: "present x s \<Longrightarrow> tally w s = 0 \<Longrightarrow> w i = 0 \<Longrightarrow> tally w (put x i s) = 0"
  using tally_put [of x s w i] by simp

lemma none_drop: "present x s \<Longrightarrow> tally w s = 0 \<Longrightarrow> tally w (drp x s) = 0"
  using tally_drop [of x s w] by simp

lemma none_item: "present x s \<Longrightarrow> tally w s = 0 \<Longrightarrow> w (item x s) = 0"
  using item_counted [of x s w] by simp

lemma once_drop: "present x s \<Longrightarrow> tally w s \<le> 1 \<Longrightarrow> w (item x s) = 1 \<Longrightarrow> tally w (drp x s) = 0"
  using tally_drop [of x s w] by simp

lemma put_bound: "present x s \<Longrightarrow> tally w (put x i s) \<le> tally w s + w i"
  using tally_put [of x s w i] by simp

lemma drop_bound: "present x s \<Longrightarrow> tally w (drp x s) \<le> tally w s"
  using tally_drop [of x s w] by simp

end

section \<open>The pool ledger is such a store\<close>

definition pool_tally :: "(pool_lease \<Rightarrow> nat) \<Rightarrow> pool_ledger \<Rightarrow> nat" where
  "pool_tally w s = sum_list (map (\<lambda>p. sum_list (map w (pe_leases p))) (plg_pools s))"

definition lease_at :: "nat \<times> nat \<Rightarrow> pool_ledger \<Rightarrow> bool" where
  "lease_at ix s \<longleftrightarrow> fst ix < length (plg_pools s) \<and> snd ix < length (pe_leases (plg_pools s ! fst ix))"

lemma find_pool_Some:
  assumes "find_pool key ps = Some i"
  shows "i < length ps" "pe_key (ps ! i) = key" "\<And>j. j < i \<Longrightarrow> pe_key (ps ! j) \<noteq> key"
  using find_index_Some [OF assms [unfolded find_pool_def]] by blast+

lemma pool_tally_set_lease:
  assumes "lease_at ix s"
  shows "pool_tally w (set_lease ix l s) + w (get_lease ix s) = pool_tally w s + w l"
proof -
  let ?p = "plg_pools s ! fst ix" and ?sum = "\<lambda>p. sum_list (map w (pe_leases p))"
  let ?q = "?p\<lparr>pe_leases := (pe_leases ?p)[snd ix := l]\<rparr>"
  have "?sum ?q + w (pe_leases ?p ! snd ix) = ?sum ?p + w l"
    using assms by (simp add: lease_at_def sum_list_map_update)
  moreover have "sum_list (map ?sum ((plg_pools s)[fst ix := ?q])) + ?sum ?p = sum_list (map ?sum (plg_pools s)) + ?sum ?q"
    using assms by (intro sum_list_map_update) (simp add: lease_at_def)
  ultimately show ?thesis by (simp add: pool_tally_def set_lease_def get_lease_def Let_def)
qed

lemma pool_tally_drop_lease:
  assumes "lease_at ix s"
  shows "pool_tally w (drop_lease ix s) + w (get_lease ix s) = pool_tally w s"
proof -
  let ?p = "plg_pools s ! fst ix" and ?sum = "\<lambda>p. sum_list (map w (pe_leases p))"
  let ?q = "?p\<lparr>pe_leases := remove_at (snd ix) (pe_leases ?p)\<rparr>"
  have "?sum ?q + w (pe_leases ?p ! snd ix) = ?sum ?p"
    using assms by (simp add: lease_at_def sum_list_map_remove_at)
  moreover have "sum_list (map ?sum ((plg_pools s)[fst ix := ?q])) + ?sum ?p = sum_list (map ?sum (plg_pools s)) + ?sum ?q"
    using assms by (intro sum_list_map_update) (simp add: lease_at_def)
  ultimately show ?thesis by (simp add: pool_tally_def drop_lease_def get_lease_def Let_def)
qed

lemma pool_tally_insert_lease: "pool_tally w (insert_lease l s) = pool_tally w s + w l"
proof (cases "find_pool (pl_key l) (plg_pools s)")
  case None
  then show ?thesis by (simp add: insert_lease_def pool_tally_def)
next
  case (Some i)
  let ?sum = "\<lambda>p. sum_list (map w (pe_leases p))" and ?p = "plg_pools s ! i"
  let ?q = "?p\<lparr>pe_last_class := pl_class l, pe_leases := pe_leases ?p @ [l]\<rparr>"
  have "sum_list (map ?sum ((plg_pools s)[i := ?q])) + ?sum ?p = sum_list (map ?sum (plg_pools s)) + ?sum ?q"
    by (intro sum_list_map_update find_pool_Some(1) [OF Some])
  then show ?thesis using Some by (simp add: insert_lease_def pool_tally_def Let_def)
qed

interpretation ps: counted_store pool_tally get_lease lease_at set_lease drop_lease insert_lease
  by unfold_locales (simp_all add: pool_tally_set_lease pool_tally_drop_lease pool_tally_insert_lease)

lemma pool_tally_cong [simp]:
  "pool_tally w (s\<lparr>plg_used := u\<rparr>) = pool_tally w s"
  "pool_tally w (s\<lparr>plg_lease_seq := n\<rparr>) = pool_tally w s"
  "pool_tally w (s\<lparr>plg_physical_seq := n\<rparr>) = pool_tally w s"
  "pool_tally w (s\<lparr>plg_used := u, plg_lease_seq := n, plg_physical_seq := m\<rparr>) = pool_tally w s"
  by (simp_all add: pool_tally_def)

lemma pool_tally_remove_empty:
  assumes "i < length (plg_pools s)" "pe_leases (plg_pools s ! i) = []"
  shows "pool_tally w (s\<lparr>plg_pools := remove_at i (plg_pools s)\<rparr>) = pool_tally w s"
  using sum_list_map_remove_at [OF assms(1), of "\<lambda>p. sum_list (map w (pe_leases p))"] assms(2)
  by (simp add: pool_tally_def)

lemma locate_Some:
  assumes "locate l s = Some ix"
  shows "lease_at ix s" "pl_id (get_lease ix s) = pl_id l" "pe_key (plg_pools s ! fst ix) = pl_key l"
proof -
  obtain i j where ix: "ix = (i, j)" and i: "find_pool (pl_key l) (plg_pools s) = Some i"
    and j: "find_index (\<lambda>h. pl_id h = pl_id l) (pe_leases (plg_pools s ! i)) = Some j"
    using assms by (auto simp: locate_def split: option.splits)
  show "lease_at ix s" "pl_id (get_lease ix s) = pl_id l" "pe_key (plg_pools s ! fst ix) = pl_key l"
    using find_pool_Some [OF i] find_index_Some [OF j] by (simp_all add: ix lease_at_def get_lease_def)
qed

lemma find_reusable_Some:
  assumes "find_reusable r s = Some ix"
  shows "lease_at ix s" "reusable r (get_lease ix s)" "pe_key (plg_pools s ! fst ix) = pr_key r"
proof -
  obtain i j where ix: "ix = (i, j)" and i: "find_pool (pr_key r) (plg_pools s) = Some i"
    and j: "find_index (reusable r) (pe_leases (plg_pools s ! i)) = Some j"
    using assms by (auto simp: find_reusable_def split: option.splits)
  show "lease_at ix s" "reusable r (get_lease ix s)" "pe_key (plg_pools s ! fst ix) = pr_key r"
    using find_pool_Some [OF i] find_index_Some [OF j] by (simp_all add: ix lease_at_def get_lease_def)
qed

lemma tally_zero_leases:
  "pool_tally w s = 0 \<longleftrightarrow> (\<forall>p \<in> set (plg_pools s). \<forall>l \<in> set (pe_leases p). w l = 0)"
  by (simp add: pool_tally_def sum_list_map_zero)

lemma locate_None_if_absent:
  assumes "pool_tally (\<lambda>h. of_bool (pl_id h = pl_id l)) s = 0"
  shows "locate l s = None"
proof -
  have "locate l s \<noteq> Some ix" for ix
  proof
    assume "locate l s = Some ix"
    note ix = locate_Some [OF this]
    have "of_bool (pl_id (get_lease ix s) = pl_id l) = (0::nat)"
      using ps.none_item [OF ix(1) assms] .
    then show False using ix(2) by simp
  qed
  then show ?thesis by (cases "locate l s") auto
qed

text \<open>When the lease identifiers are unique, a stored lease is the one its own identifier locates.\<close>

lemma sum_list_two:
  assumes "i < length xs" "j < length xs" "i \<noteq> j"
  shows "f (xs ! i) + f (xs ! j) \<le> sum_list (map f xs :: nat list)"
proof -
  have "sum_list (map f xs) = (\<Sum>k<length xs. f (xs ! k))"
    by (simp add: sum_list_sum_nth atLeast0LessThan)
  moreover have "(\<Sum>k\<in>{i, j}. f (xs ! k)) \<le> (\<Sum>k<length xs. f (xs ! k))"
    using assms by (intro sum_mono2) auto
  ultimately show ?thesis using assms(3) by simp
qed

lemma locate_unique:
  assumes at: "lease_at (i, j) s" and i: "find_pool (pl_key l) (plg_pools s) = Some i"
    and id: "pl_id (get_lease (i, j) s) = pl_id l"
    and unique: "pool_tally (\<lambda>h. of_bool (pl_id h = pl_id l)) s \<le> 1"
  shows "locate l s = Some (i, j)"
proof -
  let ?P = "\<lambda>h. pl_id h = pl_id l" and ?ls = "pe_leases (plg_pools s ! i)"
  let ?w = "\<lambda>h. of_bool (?P h) :: nat"
  have bound: "sum_list (map ?w ?ls) \<le> 1"
  proof -
    have "sum_list (map ?w ?ls) \<le> pool_tally ?w s"
      unfolding pool_tally_def using at
      by (intro member_le_sum_list) (auto simp: lease_at_def)
    with unique show ?thesis by simp
  qed
  obtain j' where j': "find_index ?P ?ls = Some j'"
  proof (cases "find_index ?P ?ls")
    case None
    then have "\<not> ?P (?ls ! j)" using at by (auto simp: find_index_None lease_at_def)
    then show ?thesis using id by (simp add: get_lease_def)
  qed auto
  note found = find_index_Some [OF j']
  have "j' = j"
  proof (rule ccontr)
    assume "j' \<noteq> j"
    then have "?w (?ls ! j') + ?w (?ls ! j) \<le> sum_list (map ?w ?ls)"
      using found at by (intro sum_list_two) (simp_all add: lease_at_def)
    moreover have "?w (?ls ! j') = 1" "?w (?ls ! j) = 1"
      using found id by (simp_all add: get_lease_def)
    ultimately show False using bound by simp
  qed
  then show ?thesis using i j' by (simp add: locate_def)
qed

end
