(* ===== verification/Pool_Invariant.thy ===== *)
theory Pool_Invariant
  imports Pool_Store
begin

text \<open>
  The invariant of the pool ledger and its preservation by every operation: the used counter of a
  quota cell is the number of physical connections of the leases booked on it, no cell and no
  dimension is over its cap, no lease is of the control class, and lease identifiers are unique.
\<close>

section \<open>Booking\<close>

definition counter :: "(quota_key \<rightharpoonup> nat) \<Rightarrow> quota_key \<Rightarrow> nat" where
  "counter u k = (case u k of None \<Rightarrow> 0 | Some n \<Rightarrow> n)"

lemma pool_used_counter: "pool_used s k = counter (plg_used s) k"
  by (simp add: pool_used_def counter_def)

lemma counter_upd [simp]: "counter (u(k \<mapsto> n)) j = (if j = k then n else counter u j)"
  by (simp add: counter_def)

lemma counter_charge:
  "distinct ks \<Longrightarrow> (\<And>k. k \<in> set ks \<Longrightarrow> counter u k + n \<le> u64_max) \<Longrightarrow>
   counter (charge ks n u) k = counter u k + (if k \<in> set ks then n else 0)"
proof (induction ks arbitrary: u)
  case Nil
  then show ?case by (simp add: charge_def)
next
  case (Cons a ks)
  let ?u = "u(a \<mapsto> sat_add64 (counter u a) n)"
  have fold: "charge (a # ks) n u = charge ks n ?u" by (simp add: charge_def counter_def)
  have "counter ?u j + n \<le> u64_max" if "j \<in> set ks" for j
    using Cons.prems(1) Cons.prems(2) [of j] that by auto
  moreover have "distinct ks" using Cons.prems(1) by simp
  ultimately have "counter (charge ks n ?u) k = counter ?u k + (if k \<in> set ks then n else 0)"
    using Cons.IH by blast
  then show ?case using Cons.prems by (auto simp: fold sat_add64_exact)
qed

lemma counter_uncharge:
  "distinct ks \<Longrightarrow> counter (uncharge ks n u) k = counter u k - (if k \<in> set ks then n else 0)"
proof (induction ks arbitrary: u)
  case Nil
  then show ?case by (simp add: uncharge_def)
next
  case (Cons a ks)
  let ?u = "case u a of None \<Rightarrow> u | Some m \<Rightarrow> u(a \<mapsto> m - n)"
  have fold: "uncharge (a # ks) n u = uncharge ks n ?u" by (simp add: uncharge_def)
  have "counter ?u j = counter u j - (if j = a then n else 0)" for j
    by (auto simp: counter_def split: option.splits)
  then show ?case using Cons by (auto simp: fold)
qed

section \<open>The invariant\<close>

definition cell_weight :: "quota_key \<Rightarrow> pool_lease \<Rightarrow> nat" where
  "cell_weight k l = (if k \<in> set (lease_quota_keys l) then pl_count l else 0)"

definition id_weight :: "string \<Rightarrow> pool_lease \<Rightarrow> nat" where
  "id_weight i l = of_bool (pl_id l = i)"

definition odd_lease :: "nat \<Rightarrow> pool_lease \<Rightarrow> nat" where
  "odd_lease n l = of_bool (is_control (pl_class l) \<or> pl_count l = 0 \<or> (\<forall>m \<le> n. pl_id l \<noteq> lease_name m))"

definition cap_of :: "pool_ledger \<Rightarrow> quota_key \<Rightarrow> nat" where
  "cap_of s k = (case pool_capacity_of s k of None \<Rightarrow> 0 | Some n \<Rightarrow> n)"

definition total_of :: "pool_ledger \<Rightarrow> budget_dimension \<Rightarrow> nat" where
  "total_of s d = (case dimension_total s d of None \<Rightarrow> 0 | Some n \<Rightarrow> n)"

definition held_on :: "pool_ledger \<Rightarrow> quota_key \<Rightarrow> nat" where
  "held_on s k = pool_tally (cell_weight k) s"

definition held_in :: "pool_ledger \<Rightarrow> budget_dimension \<Rightarrow> nat" where
  "held_in s d = sum4 (\<lambda>c. held_on s (QuotaKey d c))"

definition pools_keyed :: "pool_ledger \<Rightarrow> bool" where
  "pools_keyed s \<longleftrightarrow> distinct (map pe_key (plg_pools s)) \<and>
     (\<forall>p \<in> set (plg_pools s). pe_leases p \<noteq> [] \<and> (\<forall>l \<in> set (pe_leases p). pl_key l = pe_key p))"

definition quotas_fit :: "(budget_dimension \<times> service_quota) list \<Rightarrow> bool" where
  "quotas_fit qs \<longleftrightarrow> (\<forall>e \<in> set qs. q_total (snd e) \<le> u32_max)"

definition pool_inv :: "pool_ledger \<Rightarrow> bool" where
  "pool_inv s \<longleftrightarrow>
     (\<forall>k. pool_used s k = held_on s k) \<and> (\<forall>k. held_on s k \<le> cap_of s k) \<and>
     (\<forall>d. held_in s d \<le> total_of s d) \<and> pool_tally (odd_lease (plg_lease_seq s)) s = 0 \<and>
     (\<forall>i. pool_tally (id_weight i) s \<le> 1) \<and> pools_keyed s \<and> quotas_fit (plg_quotas s)"

lemma pool_invD:
  assumes "pool_inv s"
  shows "pool_used s k = held_on s k" "held_on s k \<le> cap_of s k" "held_in s d \<le> total_of s d"
    "pool_tally (odd_lease (plg_lease_seq s)) s = 0" "pool_tally (id_weight i) s \<le> 1" "pools_keyed s"
    "quotas_fit (plg_quotas s)"
  using assms by (simp_all add: pool_inv_def)

lemma pool_inv_new: "quotas_fit (pc_quotas cfg) \<Longrightarrow> pool_inv (pool_ledger_new cfg)"
  by (simp add: pool_inv_def pool_ledger_new_def pool_used_def held_on_def held_in_def pool_tally_def
      pools_keyed_def sum4_def)

lemma cap_le_u32: "cap_of s k \<le> u32_max"
  by (auto simp: cap_of_def pool_capacity_of_def capacity_of_def sat_add32_le_max split: option.splits)

lemma quota_of_mem: "quota_of s d = Some q \<Longrightarrow> (d, q) \<in> set (plg_quotas s)"
  by (auto simp: quota_of_def find_Some_iff) (metis fst_conv nth_mem prod.collapse)

lemma total_le_u32: "quotas_fit (plg_quotas s) \<Longrightarrow> total_of s d \<le> u32_max"
  by (auto simp: total_of_def dimension_total_def quotas_fit_def split: option.splits dest!: quota_of_mem)

lemma dimension_used_eq:
  assumes "pool_inv s"
  shows "dimension_used s d = held_in s d"
proof -
  have bound: "held_in s d \<le> u32_max"
    using pool_invD(3,7) [OF assms] total_le_u32 order_trans by blast
  have "u32_max \<le> u64_max" by (simp add: u32_max_def u64_max_def)
  with bound have "sum4 (\<lambda>c. pool_used s (QuotaKey d c)) \<le> u64_max"
    using pool_invD(1) [OF assms] by (simp add: held_in_def)
  then show ?thesis
    using pool_invD(1) [OF assms]
    by (simp add: dimension_used_def held_in_def sum4_def all_classes_def sat_add64_def)
qed

lemma cell_available_eq:
  assumes "pool_inv s"
  shows "cell_available s k = min (cap_of s k - held_on s k) (total_of s (key_dimension k) - held_in s (key_dimension k))"
proof -
  have "held_on s k \<le> u32_max" "held_in s (key_dimension k) \<le> u32_max"
    using pool_invD(2,3,7) [OF assms] cap_le_u32 total_le_u32 order_trans by blast+
  then show ?thesis
    using pool_invD(1) [OF assms] dimension_used_eq [OF assms]
    by (simp add: cell_available_def remaining_physical_def cap_of_def total_of_def split: option.splits)
qed

section \<open>Shape of the pool list\<close>

lemma pools_keyed_set_lease:
  assumes "pools_keyed s" "lease_at ix s" "pl_key l = pe_key (plg_pools s ! fst ix)"
  shows "pools_keyed (set_lease ix l s)"
proof -
  let ?p = "plg_pools s ! fst ix"
  let ?q = "?p\<lparr>pe_leases := (pe_leases ?p)[snd ix := l]\<rparr>"
  have mem: "?p \<in> set (plg_pools s)" using assms(2) by (simp add: lease_at_def)
  have "map pe_key ((plg_pools s)[fst ix := ?q]) = map pe_key (plg_pools s)"
    by (simp add: map_update list_update_same_conv assms(2) [unfolded lease_at_def])
  moreover have "\<forall>h \<in> set (pe_leases ?q). pl_key h = pe_key ?q"
    using assms mem set_update_subset_insert [of "pe_leases ?p" "snd ix" l] by (auto simp: pools_keyed_def)
  moreover have "pe_leases ?q \<noteq> []" using assms(2) by (auto simp: lease_at_def)
  ultimately show ?thesis
    using assms(1) set_update_subset_insert [of "plg_pools s" "fst ix" ?q]
    unfolding pools_keyed_def set_lease_def Let_def by auto
qed

lemma pools_keyed_insert_lease:
  assumes "pools_keyed s"
  shows "pools_keyed (insert_lease l s)"
proof (cases "find_pool (pl_key l) (plg_pools s)")
  case None
  then have "\<forall>p \<in> set (plg_pools s). pe_key p \<noteq> pl_key l"
    by (simp add: find_pool_def find_index_None)
  with None assms show ?thesis by (auto simp: insert_lease_def pools_keyed_def)
next
  case (Some i)
  let ?p = "plg_pools s ! i"
  let ?q = "?p\<lparr>pe_last_class := pl_class l, pe_leases := pe_leases ?p @ [l]\<rparr>"
  note i = find_pool_Some [OF Some]
  have "map pe_key ((plg_pools s)[i := ?q]) = map pe_key (plg_pools s)"
    by (simp add: map_update list_update_same_conv i)
  moreover have "\<forall>h \<in> set (pe_leases ?p). pl_key h = pe_key ?p"
    using assms nth_mem [OF i(1)] unfolding pools_keyed_def by blast
  then have "\<forall>h \<in> set (pe_leases ?q). pl_key h = pe_key ?q"
    using i by auto
  moreover have "pe_leases p \<noteq> [] \<and> (\<forall>h \<in> set (pe_leases p). pl_key h = pe_key p)"
    if "p \<in> set ((plg_pools s)[i := ?q])" for p
  proof (cases "p = ?q")
    case False
    then have "p \<in> set (plg_pools s)"
      using that set_update_subset_insert [of "plg_pools s" i ?q] by fast
    then show ?thesis using assms by (simp add: pools_keyed_def)
  qed (use calculation in simp)
  ultimately show ?thesis
    using assms Some unfolding pools_keyed_def insert_lease_def Let_def by simp
qed

lemma set_remove_at_subset: "set (remove_at i xs) \<subseteq> set xs"
  by (auto simp: remove_at_def dest: in_set_takeD in_set_dropD)

lemma map_remove_at: "map f (remove_at i xs) = remove_at i (map f xs)"
  by (simp add: remove_at_def take_map drop_map)

lemma distinct_remove_at: "distinct xs \<Longrightarrow> distinct (remove_at i xs)"
  by (simp add: remove_at_def set_take_disj_set_drop_if_distinct)

lemma remove_at_update [simp]: "remove_at i (xs[i := x]) = remove_at i xs"
  by (simp add: remove_at_def)

lemma pools_keyed_drop_lease:
  assumes "pools_keyed s" "lease_at ix s"
  shows "pools_keyed
    (if pe_leases (plg_pools (drop_lease ix s) ! fst ix) = []
     then (drop_lease ix s)\<lparr>plg_pools := remove_at (fst ix) (plg_pools (drop_lease ix s))\<rparr> else drop_lease ix s)"
proof -
  let ?p = "plg_pools s ! fst ix" and ?i = "fst ix"
  let ?q = "?p\<lparr>pe_leases := remove_at (snd ix) (pe_leases ?p)\<rparr>"
  have i: "?i < length (plg_pools s)" using assms(2) by (simp add: lease_at_def)
  have keys: "map pe_key ((plg_pools s)[?i := ?q]) = map pe_key (plg_pools s)"
    by (simp add: map_update list_update_same_conv i)
  have leases: "\<forall>h \<in> set (pe_leases ?q). pl_key h = pe_key ?q"
    using assms(1) i nth_mem [OF i] set_remove_at_subset [of "snd ix" "pe_leases ?p"]
    by (fastforce simp: pools_keyed_def)
  show ?thesis
  proof (cases "pe_leases ?q = []")
    case True
    then show ?thesis
      using assms(1) i set_remove_at_subset [of ?i "plg_pools s"]
        distinct_remove_at [of "map pe_key (plg_pools s)" ?i]
      unfolding pools_keyed_def drop_lease_def Let_def
      by (simp add: i map_remove_at [symmetric] subset_iff)
  next
    case False
    then show ?thesis
      using assms(1) i keys leases set_update_subset_insert [of "plg_pools s" ?i ?q]
      unfolding pools_keyed_def drop_lease_def Let_def by auto
  qed
qed

lemma pools_keyed_cong [simp]:
  "pools_keyed (s\<lparr>plg_used := u\<rparr>) = pools_keyed s"
  "pools_keyed (s\<lparr>plg_lease_seq := n\<rparr>) = pools_keyed s"
  "pools_keyed (s\<lparr>plg_physical_seq := n\<rparr>) = pools_keyed s"
  "pools_keyed (s\<lparr>plg_used := u, plg_lease_seq := n, plg_physical_seq := m\<rparr>) = pools_keyed s"
  "pools_keyed (s\<lparr>plg_used := u, plg_pools := q\<rparr>) = pools_keyed (s\<lparr>plg_pools := q\<rparr>)"
  by (simp_all add: pools_keyed_def)

lemma find_pool_keyed:
  assumes "pools_keyed s" "i < length (plg_pools s)" "pe_key (plg_pools s ! i) = key"
  shows "find_pool key (plg_pools s) = Some i"
proof (cases "find_pool key (plg_pools s)")
  case None
  then show ?thesis using assms by (auto simp: find_pool_def find_index_None)
next
  case (Some j)
  note j = find_pool_Some [OF Some]
  have "map pe_key (plg_pools s) ! j = map pe_key (plg_pools s) ! i" using j assms by simp
  then have "j = i"
    using assms j nth_eq_iff_index_eq [of "map pe_key (plg_pools s)" j i]
    by (simp add: pools_keyed_def)
  with Some show ?thesis by simp
qed

section \<open>Operations keep the invariant\<close>

lemma pool_quotas_cong [simp]:
  "plg_quotas (set_lease ix l s) = plg_quotas s" "plg_quotas (drop_lease ix s) = plg_quotas s"
  "plg_quotas (insert_lease l s) = plg_quotas s"
  "plg_used (set_lease ix l s) = plg_used s" "plg_used (drop_lease ix s) = plg_used s"
  "plg_used (insert_lease l s) = plg_used s"
  "plg_lease_seq (set_lease ix l s) = plg_lease_seq s" "plg_lease_seq (drop_lease ix s) = plg_lease_seq s"
  "plg_lease_seq (insert_lease l s) = plg_lease_seq s"
  by (simp_all add: set_lease_def drop_lease_def insert_lease_def Let_def split: option.splits)

lemma caps_cong:
  "plg_quotas s' = plg_quotas s \<Longrightarrow> cap_of s' k = cap_of s k"
  "plg_quotas s' = plg_quotas s \<Longrightarrow> total_of s' d = total_of s d"
  by (simp_all add: cap_of_def pool_capacity_of_def total_of_def dimension_total_def quota_of_def)

lemma pool_used_cong: "plg_used s' = plg_used s \<Longrightarrow> pool_used s' k = pool_used s k"
  by (simp add: pool_used_def)

lemma odd_lease_mono: "pool_tally (odd_lease m) s = 0 \<Longrightarrow> m \<le> n \<Longrightarrow> pool_tally (odd_lease n) s = 0"
  unfolding tally_zero_leases odd_lease_def by simp (meson order_trans)

lemma lease_id_fresh:
  assumes "pool_inv s" "plg_lease_seq s < n"
  shows "pool_tally (id_weight (lease_name n)) s = 0"
proof -
  have "lease_name m \<noteq> lease_name n" if "m \<le> plg_lease_seq s" for m
    using that assms(2) by (simp add: lease_name_inject)
  then show ?thesis
    using pool_invD(4) [OF assms(1)] unfolding tally_zero_leases odd_lease_def id_weight_def by fastforce
qed

lemma same_booking:
  assumes "pl_class l = pl_class h" "pl_dimension l = pl_dimension h" "pl_count l = pl_count h"
  shows "cell_weight k l = cell_weight k h"
  using assms by (simp add: cell_weight_def lease_quota_keys_def)

lemma pool_inv_replace:
  assumes inv: "pool_inv s" and at: "lease_at ix s"
    and same: "pl_class l = pl_class (get_lease ix s)" "pl_dimension l = pl_dimension (get_lease ix s)"
      "pl_count l = pl_count (get_lease ix s)" "pl_key l = pe_key (plg_pools s ! fst ix)"
    and id: "pl_id l = pl_id (get_lease ix s) \<and> n = plg_lease_seq s \<or>
      pl_id l = lease_name n \<and> plg_lease_seq s < n"
  shows "pool_inv ((set_lease ix l s)\<lparr>plg_lease_seq := n\<rparr>)" (is "pool_inv ?s'")
proof -
  note D = pool_invD [OF inv]
  have held: "held_on ?s' k = held_on s k" for k
    unfolding held_on_def pool_tally_cong
    by (rule ps.put_same_weight [OF at]) (rule same_booking [OF same(1-3)])
  then have held_in: "held_in ?s' d = held_in s d" for d by (simp add: held_in_def)
  have n: "plg_lease_seq s \<le> n" using id by auto
  have old: "odd_lease n (get_lease ix s) = 0"
    using ps.none_item [OF at odd_lease_mono [OF D(4) n]] .
  then have "odd_lease n l = 0"
    using id same by (auto simp: odd_lease_def)
  then have odd: "pool_tally (odd_lease n) ?s' = 0"
    unfolding pool_tally_cong by (intro ps.none_put [OF at] odd_lease_mono [OF D(4) n])
  have unique: "pool_tally (id_weight i) ?s' \<le> 1" for i
  proof (cases "pl_id l = pl_id (get_lease ix s)")
    case True
    then have "pool_tally (id_weight i) (set_lease ix l s) = pool_tally (id_weight i) s"
      by (intro ps.put_same_weight [OF at]) (simp add: id_weight_def)
    then show ?thesis using D(5) by simp
  next
    case False
    with id have fresh: "pool_tally (id_weight (pl_id l)) s = 0" using lease_id_fresh [OF inv] by auto
    have bound: "pool_tally (id_weight i) (set_lease ix l s) \<le> pool_tally (id_weight i) s + id_weight i l"
      by (rule ps.put_bound [OF at])
    show ?thesis
    proof (cases "pl_id l = i")
      case True
      with fresh bound show ?thesis by (simp add: id_weight_def)
    next
      case False
      then show ?thesis using bound D(5) [of i] by (simp add: id_weight_def)
    qed
  qed
  have const: "plg_quotas ?s' = plg_quotas s" "plg_used ?s' = plg_used s" "plg_lease_seq ?s' = n" by simp_all
  show ?thesis unfolding pool_inv_def
    using D held held_in odd unique pools_keyed_set_lease [OF D(6) at same(4)]
    by (simp only: caps_cong [OF const(1)] pool_used_cong [OF const(2)] const pools_keyed_cong) simp
qed

lemma lease_key:
  assumes "pools_keyed s" "lease_at ix s"
  shows "pl_key (get_lease ix s) = pe_key (plg_pools s ! fst ix)"
  using assms by (auto simp: pools_keyed_def lease_at_def get_lease_def)

lemma pool_inv_mark:
  assumes "pool_inv s" "lease_at ix s"
  shows "pool_inv (set_lease ix ((get_lease ix s)\<lparr>pl_occupancy := occ\<rparr>) s)"
proof -
  let ?l = "(get_lease ix s)\<lparr>pl_occupancy := occ\<rparr>"
  have "pool_inv ((set_lease ix ?l s)\<lparr>plg_lease_seq := plg_lease_seq s\<rparr>)"
    using lease_key [OF pool_invD(6) [OF assms(1)] assms(2)] by (intro pool_inv_replace [OF assms]) simp_all
  then show ?thesis by (simp add: set_lease_def Let_def)
qed

lemma pool_inv_return:
  assumes "pool_inv s"
  shows "pool_inv (snd (return_to_pool l check s))"
proof (cases "locate l s")
  case (Some ix)
  show ?thesis
    using pool_inv_mark [OF assms locate_Some(1) [OF Some]] Some
    unfolding return_to_pool_def Let_def by simp
qed (use assms in \<open>simp add: return_to_pool_def\<close>)

lemma pool_inv_quarantine:
  assumes "pool_inv s"
  shows "pool_inv (snd (quarantine l reason s))"
proof (cases "locate l s")
  case (Some ix)
  show ?thesis
    using pool_inv_mark [OF assms locate_Some(1) [OF Some]] Some
    unfolding quarantine_def Let_def by simp
qed (use assms in \<open>simp add: quarantine_def\<close>)

text \<open>Closing a connection takes its count off every cell it was booked on.\<close>

definition close_lease :: "nat \<times> nat \<Rightarrow> pool_ledger \<Rightarrow> pool_ledger" where
  "close_lease ix s =
     (let h = get_lease ix s;
          s1 = (drop_lease ix s)\<lparr>plg_used := uncharge (lease_quota_keys h) (pl_count h) (plg_used s)\<rparr>
      in if pe_leases (plg_pools s1 ! fst ix) = [] then s1\<lparr>plg_pools := remove_at (fst ix) (plg_pools s1)\<rparr> else s1)"

lemma pool_release_state:
  "snd (pool_release l src at s) = (case locate l s of None \<Rightarrow> s | Some ix \<Rightarrow> close_lease ix s)"
  by (simp add: pool_release_def close_lease_def Let_def lease_quota_keys_def split: option.splits)

lemma lease_keys_distinct: "distinct (lease_quota_keys l)"
  by (simp add: lease_quota_keys_def quota_keys_distinct)

lemma tally_close_lease:
  assumes "lease_at ix s"
  shows "pool_tally w (close_lease ix s) + w (get_lease ix s) = pool_tally w s"
proof -
  let ?d = "drop_lease ix s"
  have i: "fst ix < length (plg_pools ?d)"
    using assms by (simp add: lease_at_def drop_lease_def Let_def)
  have "pool_tally w (close_lease ix s) = pool_tally w ?d"
    using pool_tally_remove_empty [OF i, of w] by (simp add: close_lease_def Let_def pool_tally_def)
  then show ?thesis using ps.tally_drop [OF assms, of w] by simp
qed

lemma used_close_lease:
  assumes "pool_inv s" "lease_at ix s"
  shows "pool_used (close_lease ix s) k = pool_used s k - cell_weight k (get_lease ix s)"
  by (simp add: pool_used_counter close_lease_def Let_def counter_uncharge lease_keys_distinct cell_weight_def)

lemma pool_inv_close:
  assumes inv: "pool_inv s" and at: "lease_at ix s"
  shows "pool_inv (close_lease ix s)"
proof -
  note D = pool_invD [OF inv]
  let ?s' = "close_lease ix s"
  have const: "plg_quotas ?s' = plg_quotas s" "plg_lease_seq ?s' = plg_lease_seq s"
    by (simp_all add: close_lease_def Let_def)
  have held: "held_on ?s' k + cell_weight k (get_lease ix s) = held_on s k" for k
    unfolding held_on_def by (rule tally_close_lease [OF at])
  then have le: "held_on ?s' k \<le> held_on s k" for k by (metis le_add1)
  then have "held_in ?s' d \<le> held_in s d" for d
    by (simp add: held_in_def sum4_def add_mono)
  then have in_total: "held_in ?s' d \<le> total_of ?s' d" for d
    using D(3) order_trans by (simp add: caps_cong [OF const(1)]) blast
  have on_cap: "held_on ?s' k \<le> cap_of ?s' k" for k
    using D(2) le order_trans by (simp add: caps_cong [OF const(1)]) blast
  have used: "pool_used ?s' k = held_on ?s' k" for k
    using used_close_lease [OF inv at, of k] held [of k] D(1) [of k] by simp
  have "pool_tally (odd_lease (plg_lease_seq ?s')) ?s' = 0"
    using tally_close_lease [OF at, of "odd_lease (plg_lease_seq s)"] D(4) by (simp add: const)
  moreover have "pool_tally (id_weight i) ?s' \<le> 1" for i
    using tally_close_lease [OF at, of "id_weight i"] D(5) [of i] by simp
  moreover have "pools_keyed ?s'"
    using pools_keyed_drop_lease [OF D(6) at]
    by (cases "pe_leases (plg_pools (drop_lease ix s) ! fst ix) = []") (simp_all add: close_lease_def Let_def)
  ultimately show ?thesis
    unfolding pool_inv_def using used on_cap in_total D(7) by (simp add: const)
qed

lemma pool_inv_release: "pool_inv s \<Longrightarrow> pool_inv (snd (pool_release l src at s))"
  using pool_inv_close locate_Some(1) by (auto simp: pool_release_state split: option.splits)

end
