(* ===== verification/Pool_Theorems.thy ===== *)
theory Pool_Theorems
  imports Pool_Invariant
begin

text \<open>
  Admission of physical connections, the reachable states of the pool ledger, and its properties:
  no quota cell or dimension is oversold, a granted lease is closed exactly once, reusing an idle
  connection books nothing and revokes the ticket it was known by, and what quarantine does not
  prevent.
\<close>

section \<open>Admission\<close>

definition grant_new :: "pool_request \<Rightarrow> string \<Rightarrow> pool_ledger \<Rightarrow> pool_lease" where
  "grant_new r at s =
     \<lparr>pl_id = lease_name (sat_add64 (plg_lease_seq s) 1), pl_key = pr_key r, pl_class = pr_class r,
      pl_dimension = pr_dimension r, pl_physical = ''pool-physical-'' @ dec (sat_add64 (plg_physical_seq s) 1),
      pl_count = pr_count r, pl_occupancy = InUse, pl_acquired_at = at\<rparr>"

definition book_new :: "pool_request \<Rightarrow> string \<Rightarrow> pool_ledger \<Rightarrow> pool_ledger" where
  "book_new r at s = insert_lease (grant_new r at s)
     (s\<lparr>plg_used := charge (quota_keys (pr_dimension r) (pr_class r)) (pr_count r) (plg_used s),
        plg_lease_seq := sat_add64 (plg_lease_seq s) 1, plg_physical_seq := sat_add64 (plg_physical_seq s) 1\<rparr>)"

definition reuse_lease :: "nat \<times> nat \<Rightarrow> string \<Rightarrow> pool_ledger \<Rightarrow> pool_lease" where
  "reuse_lease ix at s = (get_lease ix s)\<lparr>pl_occupancy := InUse,
     pl_id := lease_name (sat_add64 (plg_lease_seq s) 1), pl_acquired_at := at\<rparr>"

definition book_reuse :: "nat \<times> nat \<Rightarrow> string \<Rightarrow> pool_ledger \<Rightarrow> pool_ledger" where
  "book_reuse ix at s = (set_lease ix (reuse_lease ix at s) s)\<lparr>plg_lease_seq := sat_add64 (plg_lease_seq s) 1\<rparr>"

lemma reuse_idle_eq:
  "reuse_idle r at s =
     (case find_reusable r s of None \<Rightarrow> None | Some ix \<Rightarrow> Some (reuse_lease ix at s, book_reuse ix at s))"
  by (simp add: reuse_idle_def next_lease_id_def reuse_lease_def book_reuse_def get_lease_def set_lease_def Let_def
      split: option.splits)

lemma pool_acquire_cases:
  obtains (zero) e where "pr_count r = 0 \<or> is_control (pr_class r)" "pool_acquire r at s = (Inl e, s)"
  | (reused) ix where "0 < pr_count r" "\<not> is_control (pr_class r)" "find_reusable r s = Some ix"
      "pool_acquire r at s = (Inr (QuotaGranted (reuse_lease ix at s)), book_reuse ix at s)"
  | (short) k where "find_reusable r s = None"
      "first_short s (pr_count r) (quota_keys (pr_dimension r) (pr_class r)) = Some k"
      "pool_acquire r at s = (Inr (QuotaDenied (Insufficient k (pr_count r) (cell_available s k))), s)"
  | (granted) "0 < pr_count r" "\<not> is_control (pr_class r)" "find_reusable r s = None"
      "first_short s (pr_count r) (quota_keys (pr_dimension r) (pr_class r)) = None"
      "pool_acquire r at s = (Inr (QuotaGranted (grant_new r at s)), book_new r at s)"
proof (cases "pr_count r = 0 \<or> is_control (pr_class r)")
  case True
  then have "\<exists>e. pool_acquire r at s = (Inl e, s)" by (auto simp: pool_acquire_def)
  then show ?thesis using zero True by blast
next
  case False
  show ?thesis
  proof (cases "find_reusable r s")
    case (Some ix)
    then show ?thesis using False reused by (simp add: pool_acquire_def reuse_idle_eq)
  next
    case None
    show ?thesis
    proof (cases "first_short s (pr_count r) (quota_keys (pr_dimension r) (pr_class r))")
      case (Some k)
      then show ?thesis using False None short by (simp add: pool_acquire_def reuse_idle_eq)
    next
      case no: None
      then show ?thesis using False None granted
        by (simp add: pool_acquire_def reuse_idle_eq next_lease_id_def next_physical_id_def Let_def
            book_new_def grant_new_def)
    qed
  qed
qed

lemma first_short_Some: "first_short s n ks = Some k \<Longrightarrow> k \<in> set ks \<and> cell_available s k < n"
  by (auto simp: first_short_def find_Some_iff)

lemma first_short_None: "first_short s n ks = None \<longleftrightarrow> (\<forall>k \<in> set ks. n \<le> cell_available s k)"
  by (auto simp: first_short_def find_None_iff not_less)

lemma next_seq: "plg_lease_seq s < u64_max \<Longrightarrow> sat_add64 (plg_lease_seq s) 1 = Suc (plg_lease_seq s)"
  by (simp add: sat_add64_exact)

definition bookable :: "pool_request \<Rightarrow> pool_ledger \<Rightarrow> bool" where
  "bookable r s \<longleftrightarrow> pool_inv s \<and> plg_lease_seq s < u64_max \<and> 0 < pr_count r \<and> \<not> is_control (pr_class r)"

lemma bookableD:
  assumes "bookable r s"
  shows "pool_inv s" "plg_lease_seq s < u64_max" "0 < pr_count r" "\<not> is_control (pr_class r)"
  using assms by (simp_all add: bookable_def)

lemma book_new_tally: "pool_tally w (book_new r at s) = pool_tally w s + w (grant_new r at s)"
  unfolding book_new_def ps.tally_add pool_tally_cong ..

lemma grant_new_weight:
  "cell_weight k (grant_new r at s) = (if k \<in> set (quota_keys (pr_dimension r) (pr_class r)) then pr_count r else 0)"
  by (simp add: cell_weight_def lease_quota_keys_def grant_new_def)

lemma book_new_held:
  "held_on (book_new r at s) k =
     held_on s k + (if k \<in> set (quota_keys (pr_dimension r) (pr_class r)) then pr_count r else 0)"
  by (simp add: held_on_def book_new_tally grant_new_weight)

lemma sum4_single:
  assumes "\<And>c. P c \<Longrightarrow> c = c0"
  shows "sum4 (\<lambda>c. f c + (if P c then n else 0)) = sum4 f + (if P c0 then n else 0)"
  using assms [of Control] assms [of Interactive] assms [of Metadata] assms [of Job]
  by (cases c0) (auto simp: sum4_def)

lemma book_new_held_in:
  "held_in (book_new r at s) d = held_in s d +
     (if QuotaKey d (pr_class r) \<in> set (quota_keys (pr_dimension r) (pr_class r)) then pr_count r else 0)"
  unfolding held_in_def book_new_held using quota_keys_class by (intro sum4_single) fastforce

lemma book_new_used:
  assumes ok: "bookable r s" and room: "first_short s (pr_count r) (quota_keys (pr_dimension r) (pr_class r)) = None"
  shows "pool_used (book_new r at s) k =
     pool_used s k + (if k \<in> set (quota_keys (pr_dimension r) (pr_class r)) then pr_count r else 0)"
proof -
  note inv = bookableD(1) [OF ok] and pos = bookableD(3) [OF ok]
  have "counter (plg_used s) j + pr_count r \<le> u64_max"
    if "j \<in> set (quota_keys (pr_dimension r) (pr_class r))" for j
  proof -
    have "pr_count r \<le> cap_of s j - held_on s j"
      using room that by (auto simp: first_short_None cell_available_eq [OF inv])
    then have "held_on s j + pr_count r \<le> cap_of s j" using pos by linarith
    moreover have "u32_max \<le> u64_max" by (simp add: u32_max_def u64_max_def)
    ultimately show ?thesis
      using cap_le_u32 [of s j] pool_invD(1) [OF inv, of j] by (simp add: pool_used_counter)
  qed
  then show ?thesis
    by (simp add: pool_used_counter book_new_def counter_charge quota_keys_distinct)
qed

lemma pool_inv_book_new:
  assumes ok: "bookable r s" and room: "first_short s (pr_count r) (quota_keys (pr_dimension r) (pr_class r)) = None"
  shows "pool_inv (book_new r at s)" (is "pool_inv ?s'")
proof -
  note inv = bookableD(1) [OF ok] and seq = bookableD(2) [OF ok] and pos = bookableD(3) [OF ok]
  note D = pool_invD [OF inv]
  let ?l = "grant_new r at s" and ?ks = "quota_keys (pr_dimension r) (pr_class r)"
  have const: "plg_quotas ?s' = plg_quotas s" "plg_lease_seq ?s' = Suc (plg_lease_seq s)"
    by (simp_all add: book_new_def next_seq [OF seq, simplified])
  have fit: "held_on s k + pr_count r \<le> cap_of s k"
      "held_in s (key_dimension k) + pr_count r \<le> total_of s (key_dimension k)" if "k \<in> set ?ks" for k
  proof -
    have "pr_count r \<le> cap_of s k - held_on s k"
      "pr_count r \<le> total_of s (key_dimension k) - held_in s (key_dimension k)"
      using room that by (auto simp: first_short_None cell_available_eq [OF inv])
    with pos show "held_on s k + pr_count r \<le> cap_of s k"
      "held_in s (key_dimension k) + pr_count r \<le> total_of s (key_dimension k)" by linarith+
  qed
  have cap: "held_on ?s' k \<le> cap_of ?s' k" for k
    using fit(1) D(2) by (simp add: book_new_held caps_cong [OF const(1)])
  have tot: "held_in ?s' d \<le> total_of ?s' d" for d
    using fit(2) [of "QuotaKey d (pr_class r)"] D(3)
    by (simp add: book_new_held_in caps_cong [OF const(1)])
  have used: "pool_used ?s' k = held_on ?s' k" for k
    using D(1) by (simp add: book_new_used [OF ok room] book_new_held)
  note tally = book_new_tally [of _ r at s]
  have id: "pl_id ?l = lease_name (Suc (plg_lease_seq s))"
    by (simp add: grant_new_def next_seq [OF seq, simplified])
  have "odd_lease (Suc (plg_lease_seq s)) ?l = 0"
    using pos bookableD(4) [OF ok] id by (auto simp: odd_lease_def grant_new_def)
  then have odd: "pool_tally (odd_lease (plg_lease_seq ?s')) ?s' = 0"
    using odd_lease_mono [OF D(4), of "Suc (plg_lease_seq s)"] by (simp add: const tally)
  have unique: "pool_tally (id_weight i) ?s' \<le> 1" for i
    using D(5) [of i] lease_id_fresh [OF inv, of "Suc (plg_lease_seq s)"]
    by (cases "i = pl_id ?l") (simp_all add: tally id_weight_def id)
  have "pools_keyed ?s'"
    unfolding book_new_def by (intro pools_keyed_insert_lease) (simp add: D(6))
  then show ?thesis
    unfolding pool_inv_def using cap tot used odd unique D(7) by (simp add: const)
qed

lemma pool_inv_book_reuse:
  assumes inv: "pool_inv s" and seq: "plg_lease_seq s < u64_max" and ix: "find_reusable r s = Some ix"
  shows "pool_inv (book_reuse ix at s)"
  unfolding book_reuse_def
proof (rule pool_inv_replace [OF inv find_reusable_Some(1) [OF ix]])
  show "pl_key (reuse_lease ix at s) = pe_key (plg_pools s ! fst ix)"
    using lease_key [OF pool_invD(6) [OF inv] find_reusable_Some(1) [OF ix]] by (simp add: reuse_lease_def)
qed (simp_all add: reuse_lease_def next_seq [OF seq, simplified])

lemma pool_inv_acquire:
  assumes "pool_inv s" "plg_lease_seq s < u64_max"
  shows "pool_inv (snd (pool_acquire r at s))"
  using assms
  by (cases rule: pool_acquire_cases [of r at s]) (simp_all add: pool_inv_book_new pool_inv_book_reuse bookable_def)

section \<open>Reachable states\<close>

text \<open>
  Every call takes the lock for its whole duration, so the operations are atomic. Lease numbers
  are taken from a \<open>u64\<close> sequence; the run stays below its end.
\<close>

inductive pool_step :: "pool_ledger \<Rightarrow> pool_ledger \<Rightarrow> bool" where
  acquire: "plg_lease_seq s < u64_max \<Longrightarrow> pool_step s (snd (pool_acquire r at s))"
| release: "pool_step s (snd (pool_release l src at s))"
| giveback: "pool_step s (snd (return_to_pool l check s))"
| quarantine: "pool_step s (snd (quarantine l reason s))"

inductive pool_reachable :: "pool_config \<Rightarrow> pool_ledger \<Rightarrow> bool" for cfg where
  start: "pool_reachable cfg (pool_ledger_new cfg)"
| step: "pool_reachable cfg s \<Longrightarrow> pool_step s s' \<Longrightarrow> pool_reachable cfg s'"

inductive_cases pool_stepE: "pool_step s s'"

lemma pool_inv_step: "pool_step s s' \<Longrightarrow> pool_inv s \<Longrightarrow> pool_inv s'"
  by (erule pool_stepE) (simp_all add: pool_inv_acquire pool_inv_release pool_inv_return pool_inv_quarantine)

lemma pool_inv_reachable: "pool_reachable cfg s \<Longrightarrow> quotas_fit (pc_quotas cfg) \<Longrightarrow> pool_inv s"
  by (induction rule: pool_reachable.induct) (auto intro: pool_inv_new pool_inv_step)

section \<open>Finding a lease again\<close>

lemma id_weight_fun: "id_weight i = (\<lambda>h. of_bool (pl_id h = i))"
  by (simp add: id_weight_def fun_eq_iff)

lemma stored_located:
  assumes "pool_inv s" "lease_at ix s"
  shows "locate (get_lease ix s) s = Some ix"
proof -
  have "pl_key (get_lease ix s) = pe_key (plg_pools s ! fst ix)"
    using lease_key pool_invD(6) assms by blast
  then have "find_pool (pl_key (get_lease ix s)) (plg_pools s) = Some (fst ix)"
    using find_pool_keyed [OF pool_invD(6) [OF assms(1)]] assms(2) by (simp add: lease_at_def)
  then have "locate (get_lease ix s) s = Some (fst ix, snd ix)"
    using assms(2) pool_invD(5) [OF assms(1), of "pl_id (get_lease ix s)"]
    by (intro locate_unique) (simp_all add: id_weight_fun)
  then show ?thesis by simp
qed

lemma insert_lease_at: "\<exists>ix. lease_at ix (insert_lease l s) \<and> get_lease ix (insert_lease l s) = l"
proof (cases "find_pool (pl_key l) (plg_pools s)")
  case None
  then show ?thesis
    by (intro exI [of _ "(length (plg_pools s), 0)"]) (simp add: insert_lease_def lease_at_def get_lease_def)
next
  case (Some i)
  then show ?thesis using find_pool_Some(1) [OF Some]
    by (intro exI [of _ "(i, length (pe_leases (plg_pools s ! i)))"])
      (simp add: insert_lease_def lease_at_def get_lease_def Let_def)
qed

lemma set_lease_at:
  assumes "lease_at ix s"
  shows "lease_at ix (set_lease ix l s)" "get_lease ix (set_lease ix l s) = l"
  using assms by (simp_all add: set_lease_def lease_at_def get_lease_def Let_def)

lemma granted_located:
  assumes inv: "pool_inv s" and seq: "plg_lease_seq s < u64_max"
    and grant: "pool_acquire r at s = (Inr (QuotaGranted l), s')"
  obtains ix where "lease_at ix s'" "get_lease ix s' = l" "locate l s' = Some ix"
proof -
  have inv': "pool_inv s'" using pool_inv_acquire [OF inv seq, of r at] grant by simp
  have "\<exists>ix. lease_at ix s' \<and> get_lease ix s' = l"
  proof (cases rule: pool_acquire_cases [of r at s])
    case (reused ix)
    then have s': "s' = book_reuse ix at s" "l = reuse_lease ix at s" using grant by simp_all
    have "lease_at ix (book_reuse ix at s) \<and> get_lease ix (book_reuse ix at s) = reuse_lease ix at s"
      using set_lease_at [OF find_reusable_Some(1) [OF reused(3)], of "reuse_lease ix at s"]
      by (simp add: book_reuse_def lease_at_def get_lease_def)
    then show ?thesis unfolding s' by blast
  next
    case granted
    then have "s' = book_new r at s" "l = grant_new r at s" using grant by simp_all
    then show ?thesis using insert_lease_at unfolding book_new_def by blast
  qed (use grant in auto)
  then show ?thesis using that stored_located [OF inv'] by metis
qed

lemma granted_shape:
  assumes "pool_acquire r at s = (Inr (QuotaGranted l), s')"
  shows "pl_class l = pr_class r" "pl_dimension l = pr_dimension r" "pl_count l = pr_count r" "pl_occupancy l = InUse"
  using assms
  by (cases rule: pool_acquire_cases [of r at s],
      auto simp: grant_new_def reuse_lease_def reusable_def dest: find_reusable_Some(2))+

lemma closed_lease_gone:
  assumes "pool_inv s" "locate l s = Some ix"
  shows "locate l (close_lease ix s) = None"
proof (rule locate_None_if_absent)
  note ix = locate_Some [OF assms(2)]
  have "pool_tally (id_weight (pl_id l)) (close_lease ix s) = 0"
    using tally_close_lease [OF ix(1), of "id_weight (pl_id l)"] pool_invD(5) [OF assms(1), of "pl_id l"] ix(2)
    by (simp add: id_weight_def)
  then show "pool_tally (\<lambda>h. of_bool (pl_id h = pl_id l)) (close_lease ix s) = 0"
    by (simp add: id_weight_fun)
qed

lemma pool_release_located:
  assumes "locate l s = Some ix"
  obtains receipt where "pool_release l src at s = (Inr receipt, close_lease ix s)"
    "rr_released receipt = pl_count (get_lease ix s)" "rr_disposition receipt = Closed"
proof -
  have "snd (pool_release l src at s) = close_lease ix s" using assms by (simp add: pool_release_state)
  moreover obtain receipt where "fst (pool_release l src at s) = Inr receipt"
      "rr_released receipt = pl_count (get_lease ix s)" "rr_disposition receipt = Closed"
    using assms by (simp add: pool_release_def Let_def receipt_for_def releases_physical_budget_def)
  ultimately show ?thesis using that by (metis prod.collapse)
qed

section \<open>A concrete pool\<close>

definition demo_service :: service_quota where
  "demo_service = \<lparr>q_total = 4, q_reserved = arr4 1 1 0 0, q_shared = 2\<rparr>"

definition demo_dim :: budget_dimension where
  "demo_dim = DimDatabaseService ''org'' ''db''"

definition demo_pool_config :: pool_config where
  "demo_pool_config = pool_config_new [(DimOrganization ''org'', demo_service), (demo_dim, demo_service)]"

definition demo_key :: pool_key where
  "demo_key = \<lparr>pk_org = ''org'', pk_conn = ''db'', pk_config_revision = 1, pk_credential_revision = 1,
     pk_execution_identity = ''x'', pk_policy_isolation = ''p'', pk_driver_resource = ''d'',
     pk_network_route_revision = 1\<rparr>"

definition demo_request :: "nat \<Rightarrow> pool_request" where
  "demo_request n = \<lparr>pr_key = demo_key, pr_class = Interactive, pr_dimension = demo_dim,
     pr_owner = OwnerJob ''job'' ''stage'', pr_count = n, pr_timeout_ms = None\<rparr>"

definition demo_pool0 :: pool_ledger where
  "demo_pool0 = pool_ledger_new demo_pool_config"

definition demo_pool1 :: pool_ledger where
  "demo_pool1 = snd (pool_acquire (demo_request 2) ''t0'' demo_pool0)"

definition demo_lease :: pool_lease where
  "demo_lease = grant_new (demo_request 2) ''t0'' demo_pool0"

lemma demo_quotas_fit: "quotas_fit (pc_quotas demo_pool_config)"
  by (simp add: quotas_fit_def demo_pool_config_def pool_config_new_def demo_service_def u32_max_def)

lemma demo_acquired: "pool_acquire (demo_request 2) ''t0'' demo_pool0 = (Inr (QuotaGranted demo_lease), demo_pool1)"
proof -
  have "fst (pool_acquire (demo_request 2) ''t0'' demo_pool0) = Inr (QuotaGranted demo_lease)"
    by code_simp
  then show ?thesis by (simp add: demo_pool1_def prod_eq_iff)
qed

lemma demo_pool0_reachable: "pool_reachable demo_pool_config demo_pool0"
  unfolding demo_pool0_def by (rule pool_reachable.start)

lemma demo_seq: "plg_lease_seq demo_pool0 < u64_max"
  by (simp add: demo_pool0_def pool_ledger_new_def u64_max_def)

lemma demo_pool1_reachable: "pool_reachable demo_pool_config demo_pool1"
  unfolding demo_pool1_def by (rule pool_reachable.step [OF demo_pool0_reachable pool_step.acquire [OF demo_seq]])

section \<open>Properties\<close>

text \<open>
  C7. In every reachable state the counter of each quota cell is exactly the number of physical
  connections of the leases booked on it, whatever their occupancy (in use, idle, cleaning or
  quarantined); no cell is over the capacity of its class, no dimension over its total, nothing is
  booked on a dimension without a quota, and nothing on a control cell.
\<close>

theorem pool_never_oversold:
  assumes "pool_reachable cfg s" "quotas_fit (pc_quotas cfg)"
  shows "pool_used s k = (\<Sum>p\<leftarrow>plg_pools s. \<Sum>l\<leftarrow>pe_leases p.
           if k \<in> set (lease_quota_keys l) then pl_count l else 0) \<and>
    pool_used s k \<le> (case pool_capacity_of s k of None \<Rightarrow> 0 | Some cap \<Rightarrow> cap) \<and>
    dimension_used s d = sum4 (\<lambda>c. pool_used s (QuotaKey d c)) \<and>
    dimension_used s d \<le> (case dimension_total s d of None \<Rightarrow> 0 | Some tot \<Rightarrow> tot) \<and>
    pool_used s (QuotaKey d Control) = 0"
proof -
  have inv: "pool_inv s" using pool_inv_reachable assms by blast
  note D = pool_invD [OF inv]
  have "cell_weight (QuotaKey d Control) l = 0" if "odd_lease (plg_lease_seq s) l = 0" for l
    using that quota_keys_class [of "QuotaKey d Control" "pl_dimension l" "pl_class l"]
    by (auto simp: cell_weight_def odd_lease_def lease_quota_keys_def is_control_def)
  then have "held_on s (QuotaKey d Control) = 0"
    using D(4) unfolding held_on_def tally_zero_leases by blast
  then show ?thesis
    using D(1-3) dimension_used_eq [OF inv]
    by (simp add: held_on_def held_in_def pool_tally_def cell_weight_def [abs_def] cap_of_def total_of_def)
qed

theorem pool_never_oversold_witness:
  "pool_used demo_pool1 (QuotaKey (DimOrganization ''org'') Interactive) = 2 \<and>
   pool_used demo_pool1 (QuotaKey demo_dim Interactive) = 2 \<and>
   dimension_used demo_pool1 demo_dim \<le> 4"
proof -
  have "pool_used demo_pool1 (QuotaKey (DimOrganization ''org'') Interactive) = 2"
    "pool_used demo_pool1 (QuotaKey demo_dim Interactive) = 2" "dimension_total demo_pool1 demo_dim = Some 4"
    by code_simp+
  then show ?thesis
    using pool_never_oversold [OF demo_pool1_reachable demo_quotas_fit, of "QuotaKey demo_dim Interactive" demo_dim]
    by simp
qed

text \<open>
  What an acquisition does to the books. An error or a denial leaves the ledger as it was, and a
  denial names a cell of the charge chain that really has less room than was asked for. A grant
  either hands out an idle connection of the same pool, class, dimension and size, which books
  nothing, or opens a new one, which raises exactly the cells of the charge chain.
\<close>

theorem pool_acquire_accounts:
  assumes "pool_reachable cfg s" "quotas_fit (pc_quotas cfg)" "plg_lease_seq s < u64_max"
    and "pool_acquire r at s = (res, s')"
  shows "case res of
      Inl e \<Rightarrow> s' = s \<and> (pr_count r = 0 \<or> pr_class r = Control)
    | Inr (QuotaDenied d) \<Rightarrow> s' = s \<and> (\<exists>k \<in> set (quota_keys (pr_dimension r) (pr_class r)).
        d = Insufficient k (pr_count r) (cell_available s k) \<and> cell_available s k < pr_count r)
    | Inr (QuotaGranted l) \<Rightarrow> pl_class l = pr_class r \<and> pl_dimension l = pr_dimension r \<and> pl_count l = pr_count r \<and>
        pl_occupancy l = InUse \<and>
        (if find_reusable r s = None
         then \<forall>k. pool_used s' k = pool_used s k +
                (if k \<in> set (quota_keys (pr_dimension r) (pr_class r)) then pr_count r else 0)
         else plg_used s' = plg_used s)"
proof -
  have inv: "pool_inv s" using pool_inv_reachable assms(1,2) by blast
  show ?thesis
  proof (cases rule: pool_acquire_cases [of r at s])
    case (zero e)
    then show ?thesis using assms(4) by (auto simp: is_control_def)
  next
    case (reused ix)
    then show ?thesis using assms(4) granted_shape [of r at s] by (auto simp: book_reuse_def)
  next
    case (short k)
    then show ?thesis using assms(4) first_short_Some [OF short(2)] by auto
  next
    case granted
    then have "bookable r s" using inv assms(3) by (simp add: bookable_def)
    then have "pool_used s' k = pool_used s k +
        (if k \<in> set (quota_keys (pr_dimension r) (pr_class r)) then pr_count r else 0)" for k
      using book_new_used granted(4,5) assms(4) by auto
    then show ?thesis using granted assms(4) granted_shape [of r at s] by auto
  qed
qed

theorem pool_acquire_accounts_witness:
  "pl_count demo_lease = 2 \<and> pool_used demo_pool1 (QuotaKey demo_dim Interactive) =
     pool_used demo_pool0 (QuotaKey demo_dim Interactive) + 2"
proof -
  have new: "find_reusable (demo_request 2) demo_pool0 = None" by code_simp
  have keys: "QuotaKey demo_dim Interactive \<in> set (quota_keys (pr_dimension (demo_request 2)) (pr_class (demo_request 2)))"
    "pr_count (demo_request 2) = 2"
    by (simp_all add: demo_request_def quota_keys_own)
  show ?thesis
    using pool_acquire_accounts [OF demo_pool0_reachable demo_quotas_fit demo_seq demo_acquired] new keys by simp
qed

text \<open>
  C32. A granted lease is closed exactly once. Releasing it reports all of its physical connections,
  takes exactly that many off every cell of its charge chain, and a second release of the same lease
  is refused with NotFound and changes nothing.
\<close>

theorem pool_release_exactly_once:
  assumes "pool_reachable cfg s" "quotas_fit (pc_quotas cfg)" "plg_lease_seq s < u64_max"
    and "pool_acquire r at s = (Inr (QuotaGranted l), s1)"
  shows "\<exists>receipt s2. pool_release l src at1 s1 = (Inr receipt, s2) \<and> rr_released receipt = pr_count r \<and>
    (\<forall>k. pool_used s2 k = pool_used s1 k -
       (if k \<in> set (quota_keys (pr_dimension r) (pr_class r)) then pr_count r else 0)) \<and>
    pool_release l src2 at2 s2 = (Inl (missing_lease l), s2)"
proof -
  have inv: "pool_inv s" using pool_inv_reachable assms(1,2) by blast
  then have inv1: "pool_inv s1" using pool_inv_acquire [OF inv assms(3), of r at] assms(4) by simp
  obtain ix where ix: "lease_at ix s1" "get_lease ix s1 = l" "locate l s1 = Some ix"
    using granted_located [OF inv assms(3,4)] by blast
  note l = granted_shape [OF assms(4)]
  obtain receipt where rel: "pool_release l src at1 s1 = (Inr receipt, close_lease ix s1)"
    "rr_released receipt = pl_count (get_lease ix s1)"
    using pool_release_located [OF ix(3)] by blast
  have "pool_used (close_lease ix s1) k = pool_used s1 k -
       (if k \<in> set (quota_keys (pr_dimension r) (pr_class r)) then pr_count r else 0)" for k
    using used_close_lease [OF inv1 ix(1), of k] by (simp add: ix(2) l cell_weight_def lease_quota_keys_def)
  moreover have "pool_release l src2 at2 (close_lease ix s1) = (Inl (missing_lease l), close_lease ix s1)"
    using closed_lease_gone [OF inv1 ix(3)] by (simp add: pool_release_def)
  ultimately show ?thesis using rel ix(2) l(3) by auto
qed

theorem pool_release_exactly_once_witness:
  "\<exists>receipt s2. pool_release demo_lease SessionClosed ''t1'' demo_pool1 = (Inr receipt, s2) \<and> rr_released receipt = 2 \<and>
     pool_release demo_lease PoolShutdown ''t2'' s2 = (Inl (missing_lease demo_lease), s2)"
  using pool_release_exactly_once [OF demo_pool0_reachable demo_quotas_fit demo_seq demo_acquired,
      of SessionClosed "''t1''" PoolShutdown "''t2''"]
  by (auto simp: demo_request_def)

text \<open>
  Reusing an idle connection revokes the ticket it was known by: when a lease that was returned
  clean is handed to the next request, the physical connection keeps its identity and its booking,
  and the former holder can no longer release, return or quarantine it.
\<close>

theorem reuse_revokes_old_ticket:
  assumes "pool_reachable cfg s" "quotas_fit (pc_quotas cfg)" "plg_lease_seq s < u64_max"
    and "find_reusable r s = Some ix" "0 < pr_count r" "pr_class r \<noteq> Control"
    and "pool_acquire r at s = (res, s')"
  shows "\<exists>l. res = Inr (QuotaGranted l) \<and> pl_physical l = pl_physical (get_lease ix s) \<and>
    plg_used s' = plg_used s \<and> locate l s' = Some ix \<and> locate (get_lease ix s) s' = None"
proof -
  have inv: "pool_inv s" using pool_inv_reachable assms(1,2) by blast
  let ?old = "get_lease ix s" and ?new = "reuse_lease ix at s"
  note at = find_reusable_Some(1) [OF assms(4)]
  have s': "res = Inr (QuotaGranted ?new)" "s' = book_reuse ix at s"
    using assms by (cases rule: pool_acquire_cases [of r at s]; simp add: is_control_def)+
  have "locate ?new s' = Some ix"
  proof -
    have "pool_inv s'" using pool_inv_book_reuse [OF inv assms(3,4)] s'(2) by simp
    moreover have "lease_at ix s'" "get_lease ix s' = ?new"
      using set_lease_at [OF at, of ?new] by (simp_all add: s'(2) book_reuse_def lease_at_def get_lease_def)
    ultimately show ?thesis using stored_located by metis
  qed
  moreover have "locate ?old s' = None"
  proof (rule locate_None_if_absent)
    have fresh: "pl_id ?new \<noteq> pl_id ?old"
      using lease_id_fresh [OF inv, of "Suc (plg_lease_seq s)"]
        ps.none_item [OF at, of "id_weight (lease_name (Suc (plg_lease_seq s)))"]
      by (auto simp: reuse_lease_def next_seq [OF assms(3), simplified] id_weight_def)
    have "pool_tally (id_weight (pl_id ?old)) (set_lease ix ?new s) + 1 = pool_tally (id_weight (pl_id ?old)) s"
      using ps.tally_put [OF at, of "id_weight (pl_id ?old)" ?new] fresh by (simp add: id_weight_def)
    then show "pool_tally (\<lambda>h. of_bool (pl_id h = pl_id ?old)) s' = 0"
      using pool_invD(5) [OF inv, of "pl_id ?old"] by (simp add: s'(2) book_reuse_def id_weight_fun)
  qed
  moreover have "pl_physical ?new = pl_physical ?old" "plg_used s' = plg_used s"
    by (simp_all add: reuse_lease_def s'(2) book_reuse_def)
  ultimately show ?thesis using s'(1) by blast
qed

definition demo_pool2 :: pool_ledger where
  "demo_pool2 = snd (return_to_pool demo_lease \<lparr>rc_host_clean = True, rc_driver_clean = True\<rparr> demo_pool1)"

theorem reuse_revokes_old_ticket_witness:
  "\<exists>l s'. pool_acquire (demo_request 2) ''t2'' demo_pool2 = (Inr (QuotaGranted l), s') \<and>
     plg_used s' = plg_used demo_pool2 \<and> locate (get_lease (0, 0) demo_pool2) s' = None"
proof -
  have reach: "pool_reachable demo_pool_config demo_pool2"
    unfolding demo_pool2_def by (rule pool_reachable.step [OF demo_pool1_reachable pool_step.giveback])
  have found: "find_reusable (demo_request 2) demo_pool2 = Some (0, 0)" by code_simp
  have seq: "plg_lease_seq demo_pool2 < u64_max" by code_simp
  have req: "0 < pr_count (demo_request 2)" "pr_class (demo_request 2) \<noteq> Control"
    by (simp_all add: demo_request_def)
  obtain res s' where acq: "pool_acquire (demo_request 2) ''t2'' demo_pool2 = (res, s')" by fastforce
  show ?thesis
    using reuse_revokes_old_ticket [OF reach demo_quotas_fit seq found req acq] acq by auto
qed

text \<open>
  Quarantine does not stick. A lease that was quarantined because its tunnel was lost is handed
  out again after its holder returns it with a clean check: return_to_pool overwrites the occupancy,
  and the next request of the same shape receives the same physical connection.
\<close>

theorem quarantined_connection_reused:
  "(case pool_acquire (demo_request 2) ''t0'' demo_pool0 of
     (Inr (QuotaGranted l), s1) \<Rightarrow>
       let s2 = snd (quarantine l TunnelLost s1);
           s3 = snd (return_to_pool l \<lparr>rc_host_clean = True, rc_driver_clean = True\<rparr> s2)
       in (case fst (pool_acquire (demo_request 2) ''t1'' s3) of
             Inr (QuotaGranted l') \<Rightarrow> pl_physical l' = pl_physical l \<and>
               map (\<lambda>p. map pl_occupancy (pe_leases p)) (plg_pools s2) = [[Quarantined]]
           | _ \<Rightarrow> False)
   | _ \<Rightarrow> False)"
  by code_simp

end
