(* ===== verification/Job_Model.thy ===== *)
theory Job_Model
  imports Errors Pool_Ledger "HOL-Library.Product_Lexorder" "HOL-Library.Word"
begin

text \<open>
  The job kernel: the records of \<open>jobs/domain/job.rs\<close>, the plan projection of \<open>jobs/domain/plan.rs\<close>,
  the errors of \<open>jobs/domain/error.rs\<close>, the result checks of \<open>jobs/domain/runtime_repository.rs\<close>
  and the stable fingerprint of \<open>shared/hash.rs\<close>.

  A JSON payload is \<open>serde_json::Value\<close>; how it is printed belongs to that library and is a
  parameter of the operations that use it.
\<close>

section \<open>Payloads and fingerprints\<close>

text \<open>A number is kept as \<open>serde_json\<close> keeps it: a \<open>u64\<close>, a negative integer, or a float (its text).\<close>

datatype json =
    JNull
  | JBool bool
  | JUnsigned nat
  | JNegative int
  | JFloat string
  | JString string
  | JArray "json list"
  | JObject "(string \<times> json) list"

fun json_get :: "string \<Rightarrow> json \<Rightarrow> json option" where
  "json_get field (JObject members) = map_of members field"
| "json_get field _ = None"

fun json_u64 :: "json \<Rightarrow> nat option" where
  "json_u64 (JUnsigned n) = Some n"
| "json_u64 _ = None"

fun json_str :: "json \<Rightarrow> string option" where
  "json_str (JString s) = Some s"
| "json_str _ = None"

text \<open>FNV-1a over the bytes of a text, on 64-bit words with wrapping multiplication.\<close>

definition fnv_offset :: "64 word" where
  "fnv_offset = 0xcbf29ce484222325"

definition fnv_prime :: "64 word" where
  "fnv_prime = 0x00000100000001b3"

definition fnv_step :: "64 word \<Rightarrow> char \<Rightarrow> 64 word" where
  "fnv_step h c = (xor h (word_of_nat (of_char c))) * fnv_prime"

fun hex_digit :: "nat \<Rightarrow> char" where
  "hex_digit n = (if n < 10 then char_of (48 + n) else char_of (87 + n))"

fun hex_digits :: "nat \<Rightarrow> nat \<Rightarrow> string" where
  "hex_digits 0 n = []"
| "hex_digits (Suc w) n = hex_digits w (n div 16) @ [hex_digit (n mod 16)]"

definition fnv1a64_hex :: "string \<Rightarrow> string" where
  "fnv1a64_hex s = hex_digits 16 (unat (foldl fnv_step fnv_offset s))"

section \<open>Errors\<close>

datatype job_error =
    JobNotFound string
  | JobIdempotencyConflict
  | JobPlanAlreadyConsumed string
  | PlanProjectionInvalid string
  | VersionIncompatible nat nat
  | JobStaleClaim
  | ClaimExpired
  | VersionConflict string
  | TerminalJob
  | CheckpointConflict string
  | EndpointOverlap string
  | BudgetDenied string
  | HandlerNotRegistered string nat
  | CapabilityUnsupported string
  | RecoveryRejected string

fun port_of_job_error :: "job_error \<Rightarrow> port_error" where
  "port_of_job_error (JobNotFound s) = NotFound s"
| "port_of_job_error JobIdempotencyConflict = IdempotencyConflict"
| "port_of_job_error (JobPlanAlreadyConsumed s) = PlanAlreadyConsumed s"
| "port_of_job_error (VersionIncompatible got supported) =
     UnsupportedVersion (''major '' @ dec got @ '', supported '' @ dec supported)"
| "port_of_job_error JobStaleClaim = StaleClaim"
| "port_of_job_error ClaimExpired = StaleClaim"
| "port_of_job_error (VersionConflict i) = CasConflict ''job'' i"
| "port_of_job_error TerminalJob = CasConflict ''job'' ''terminal''"
| "port_of_job_error (CheckpointConflict i) = CasConflict ''job_checkpoint'' i"
| "port_of_job_error (PlanProjectionInvalid s) = BackendUnavailable s"
| "port_of_job_error (EndpointOverlap s) = BackendUnavailable s"
| "port_of_job_error (BudgetDenied s) = BackendUnavailable s"
| "port_of_job_error (CapabilityUnsupported s) = BackendUnavailable s"
| "port_of_job_error (RecoveryRejected s) = BackendUnavailable s"
| "port_of_job_error (HandlerNotRegistered kind v) =
     BackendUnavailable (''handler '' @ kind @ ''@'' @ dec v @ '' not registered'')"

section \<open>Frozen plans\<close>

record frozen_plan =
  fp_kind :: string
  fp_is_apply :: bool
  fp_consumed_plan :: "string option"
  fp_plan_version :: nat
  fp_handler_version :: nat
  fp_checkpoint_version :: nat
  fp_selection_revision :: "nat option"

definition apply_kinds :: "string list" where
  "apply_kinds = [''schemaDiffApply'', ''dataSyncApply'', ''dataTransferApply'', ''databaseRestoreApply'']"

definition supported_plan_major :: nat where
  "supported_plan_major = 1"

text \<open>\<open>str::trim\<close> of a text with only ASCII white space; a text is blank when nothing remains.\<close>

definition is_space :: "char \<Rightarrow> bool" where
  "is_space c \<longleftrightarrow> of_char c \<in> {9, 10, 11, 12, 13, 32 :: nat}"

definition trim :: "string \<Rightarrow> string" where
  "trim s = rev (dropWhile is_space (rev (dropWhile is_space s)))"

definition required_u64 :: "json \<Rightarrow> string \<Rightarrow> job_error + nat" where
  "required_u64 payload field =
     (case Option.bind (json_get field payload) json_u64 of
        Some n \<Rightarrow> Inr n
      | None \<Rightarrow> Inl (PlanProjectionInvalid (field @ '' must be a u64'')))"

definition consumed_plan_id :: "json \<Rightarrow> job_error + string option" where
  "consumed_plan_id payload =
     (case json_get ''consumedPlanId'' payload of
        None \<Rightarrow> Inr None
      | Some (JString s) \<Rightarrow> if trim s \<noteq> [] then Inr (Some s)
          else Inl (PlanProjectionInvalid ''consumedPlanId must be a non-empty string'')
      | Some _ \<Rightarrow> Inl (PlanProjectionInvalid ''consumedPlanId must be a non-empty string''))"

fun check_versions :: "nat list \<Rightarrow> job_error option" where
  "check_versions [] = None"
| "check_versions (v # vs) =
     (if v \<noteq> supported_plan_major then Some (VersionIncompatible v supported_plan_major) else check_versions vs)"

definition selection_revision :: "json \<Rightarrow> job_error + nat option" where
  "selection_revision payload =
     (case json_get ''selectionRevision'' payload of
        None \<Rightarrow> Inr None
      | Some v \<Rightarrow> (case json_u64 v of
          Some n \<Rightarrow> Inr (Some n)
        | None \<Rightarrow> Inl (PlanProjectionInvalid ''selectionRevision must be u64'')))"

definition project_frozen_plan :: "string \<Rightarrow> json \<Rightarrow> job_error + frozen_plan" where
  "project_frozen_plan kind payload =
     (let is_apply = kind \<in> set apply_kinds in
      case consumed_plan_id payload of Inl e \<Rightarrow> Inl e | Inr consumed \<Rightarrow>
      if is_apply \<and> consumed = None then Inl (PlanProjectionInvalid ''apply job requires consumedPlanId'')
      else if \<not> is_apply \<and> consumed \<noteq> None
      then Inl (PlanProjectionInvalid ''prepare job must not carry consumedPlanId'')
      else case required_u64 payload ''planVersion'' of Inl e \<Rightarrow> Inl e | Inr pv \<Rightarrow>
      case required_u64 payload ''handlerVersion'' of Inl e \<Rightarrow> Inl e | Inr hv \<Rightarrow>
      case required_u64 payload ''checkpointVersion'' of Inl e \<Rightarrow> Inl e | Inr cv \<Rightarrow>
      case check_versions [pv, hv, cv] of Some e \<Rightarrow> Inl e | None \<Rightarrow>
      case selection_revision payload of Inl e \<Rightarrow> Inl e | Inr sel \<Rightarrow>
      Inr \<lparr>fp_kind = kind, fp_is_apply = is_apply, fp_consumed_plan = consumed, fp_plan_version = pv,
           fp_handler_version = hv, fp_checkpoint_version = cv, fp_selection_revision = sel\<rparr>)"

section \<open>Records\<close>

datatype job_state = JobQueued | JobRunning | JobSucceeded | JobFailed | JobCancelled

definition is_terminal :: "job_state \<Rightarrow> bool" where
  "is_terminal s \<longleftrightarrow> s = JobSucceeded \<or> s = JobFailed \<or> s = JobCancelled"

datatype effect_outcome = EffNotStarted | EffCompleted | EffRolledBack | EffPartiallyApplied | EffUnknown

record request_context =
  rx_org :: string
  rx_principal :: string
  rx_auth_session :: "string option"
  rx_client :: string
  rx_request :: string
  rx_delegation :: "string option"

record job_progress =
  pg_read :: nat
  pg_converted :: nat
  pg_attempted :: nat
  pg_committed :: nat
  pg_unknown :: nat

definition no_progress :: job_progress where
  "no_progress = \<lparr>pg_read = 0, pg_converted = 0, pg_attempted = 0, pg_committed = 0, pg_unknown = 0\<rparr>"

record job_view =
  jv_id :: string
  jv_kind :: string
  jv_state :: job_state
  jv_stage :: "string option"
  jv_executions :: "string list"
  jv_artifacts :: "string list"
  jv_created :: string
  jv_updated :: string
  jv_effect :: "effect_outcome option"
  jv_cancel_requested :: bool
  jv_pending :: "string option"
  jv_error :: "string option"
  jv_progress :: job_progress

record job_definition =
  jd_id :: string
  jd_org :: string
  jd_kind :: string
  jd_owner :: owner_ref
  jd_payload :: json
  jd_created :: string

record stage_record =
  sg_job :: string
  sg_id :: string
  sg_kind :: string
  sg_claimed_by :: "string option"
  sg_executions :: "string list"
  sg_started :: "string option"
  sg_finished :: "string option"

record job_record =
  jr_view :: job_view
  jr_definition :: job_definition
  jr_stages :: "stage_record list"
  jr_version :: nat

datatype recovery_verdict = NotExecuted | PendingVerification | ResumeAfterVerify | RejectRecovery | RequireManualReview

record recovery_result =
  rv_verdict :: recovery_verdict
  rv_resume_through :: "nat option"
  rv_reason :: "string option"

record result_counter =
  ct_code :: string
  ct_value :: nat

record result_item =
  it_id :: string
  it_outcome :: string
  it_reason :: "string option"

record domain_result =
  dr_stage :: string
  dr_result_code :: string
  dr_outcome_code :: string
  dr_counters :: "result_counter list"
  dr_items :: "result_item list"
  dr_artifacts :: "string list"

record commit_boundary =
  cb_stage :: string
  cb_fingerprint :: string
  cb_committed_at :: string
  cb_operation :: "string option"
  cb_batch :: "string option"
  cb_digest :: "string option"
  cb_evidence :: "string list"
  cb_verified_at :: "string option"

record checkpoint =
  cp_job :: string
  cp_version :: nat
  cp_fingerprint :: string
  cp_committed :: "commit_boundary list"
  cp_evidence :: "string list"
  cp_policy :: string

record job_claim =
  jc_job :: string
  jc_stage :: string
  jc_worker :: string
  jc_claimed_at :: string
  jc_generation :: nat
  jc_expires :: string

record recovery_verification =
  vf_result :: recovery_result
  vf_boundaries :: "commit_boundary list"
  vf_domain_results :: "domain_result list"

record recovery_target =
  rt_conn :: string
  rt_objects :: "string list"

record job_details =
  jx_job :: job_view
  jx_version :: nat
  jx_plan_id :: "string option"
  jx_plan_digest :: "string option"
  jx_selection :: "nat option"
  jx_boundaries :: "commit_boundary list"
  jx_recovery :: "recovery_result option"
  jx_domain_results :: "domain_result list"
  jx_targets :: "recovery_target list"
  jx_before :: "string option"
  jx_policy :: "string option"

record job_filter =
  jf_org :: string
  jf_states :: "job_state list"
  jf_owner :: "owner_ref option"
  jf_after :: "nat option"
  jf_limit :: "nat option"

record recovery_filter =
  rf_kinds :: "string list"
  rf_older_than :: "string option"
  rf_limit :: "nat option"

section \<open>Result checks\<close>

fun contains_text :: "string \<Rightarrow> string \<Rightarrow> bool" where
  "contains_text needle [] = (needle = [])"
| "contains_text needle (c # cs) = (take (length needle) (c # cs) = needle \<or> contains_text needle cs)"

definition ascii_lower :: "char \<Rightarrow> char" where
  "ascii_lower c = (let n = of_char c :: nat in if 65 \<le> n \<and> n \<le> 90 then char_of (n + 32) else c)"

definition is_alnum :: "char \<Rightarrow> bool" where
  "is_alnum c \<longleftrightarrow> (let n = of_char c :: nat in 48 \<le> n \<and> n \<le> 57 \<or> 65 \<le> n \<and> n \<le> 90 \<or> 97 \<le> n \<and> n \<le> 122)"

definition forbidden_labels :: "string list" where
  "forbidden_labels = [''password'', ''passwd'', ''credential'', ''secret'', ''token'', ''session'', ''sql'']"

definition safe_result_marker :: "string \<Rightarrow> bool" where
  "safe_result_marker v \<longleftrightarrow> v \<noteq> [] \<and> length v \<le> 512 \<and>
     list_all (\<lambda>c. is_alnum c \<or> c \<in> set ''._:-'') v \<and>
     \<not> list_ex (\<lambda>label. contains_text label (map ascii_lower v)) forbidden_labels"

definition validate_domain_result :: "domain_result \<Rightarrow> port_error option" where
  "validate_domain_result r =
     (if \<not> safe_result_marker (dr_stage r) \<or> \<not> safe_result_marker (dr_result_code r) \<or>
         \<not> safe_result_marker (dr_outcome_code r) \<or> length (dr_counters r) > 32 \<or>
         length (dr_items r) > 4096 \<or> length (dr_artifacts r) > 4096
      then Some (BackendUnavailable ''job domain result is outside the safe format'')
      else if \<not> (list_all (\<lambda>c. safe_result_marker (ct_code c)) (dr_counters r) \<and> distinct (map ct_code (dr_counters r)))
      then Some (BackendUnavailable ''job result counters are invalid'')
      else if \<not> (list_all (\<lambda>i. safe_result_marker (it_id i) \<and> safe_result_marker (it_outcome i) \<and>
                  pred_option safe_result_marker (it_reason i)) (dr_items r) \<and> distinct (map it_id (dr_items r)) \<and>
                list_all safe_result_marker (dr_artifacts r))
      then Some (BackendUnavailable ''job result items are invalid'')
      else None)"

end
