(* ===== verification/Job_Repository.thy ===== *)
theory Job_Repository
  imports Job_Model
begin

text \<open>
  The in-process job repository (\<open>jobs/engine/memory_repository.rs\<close>, \<open>runtime_methods.rs\<close> and
  \<open>owner_claims.rs\<close>). One mutex guards all indexes, so every method is one atomic operation on the
  state; the poisoned-lock branches do not arise.

  A clock is the sequence of its readings during one operation: \<open>clk 0\<close> is the first reading,
  \<open>clk 1\<close> the second. The formatting of timestamps (\<open>after_seconds\<close>) goes through the \<open>chrono\<close>
  library and is the parameter \<open>after\<close>; how a payload is printed is the parameter \<open>printed\<close>.
  Timestamps are compared as text, as the code does. \<open>HashMap\<close>s are ordered maps; where the code
  iterates them it sorts the result, and the order among equal sort keys is one of those the code
  may produce. Version and generation counters are \<open>u64\<close>; the code adds 1 without a check, and the
  model counts without bound.
\<close>

type_synonym clock = "nat \<Rightarrow> string"

record job_row =
  jw_record :: job_record
  jw_claim :: "job_claim option"
  jw_claim_context :: "request_context option"
  jw_cancel_at :: "string option"

record idem_receipt =
  ir_job :: string
  ir_fingerprint :: string

record job_store =
  js_jobs :: "(string, job_row) btree"
  js_idempotency :: "(string, idem_receipt) btree"
  js_consumed :: "(string \<times> string, string) btree"
  js_checkpoints :: "(string \<times> nat, checkpoint) btree"
  js_boundaries :: "(string, commit_boundary list) btree"
  js_recovery :: "(string, recovery_result) btree"
  js_domain :: "(string \<times> string, domain_result) btree"

definition job_store_new :: job_store where
  "job_store_new = \<lparr>js_jobs = [], js_idempotency = [], js_consumed = [], js_checkpoints = [],
     js_boundaries = [], js_recovery = [], js_domain = []\<rparr>"

section \<open>Rows\<close>

definition row_org :: "job_row \<Rightarrow> string" where
  "row_org row = jd_org (jr_definition (jw_record row))"

definition belongs_to :: "job_row \<Rightarrow> string \<Rightarrow> bool" where
  "belongs_to row org \<longleftrightarrow> row_org row = org"

definition row_state :: "job_row \<Rightarrow> job_state" where
  "row_state row = jv_state (jr_view (jw_record row))"

definition row_version :: "job_row \<Rightarrow> nat" where
  "row_version row = jr_version (jw_record row)"

definition row_view :: "job_row \<Rightarrow> job_view" where
  "row_view row = jr_view (jw_record row)"

definition upd_view :: "(job_view \<Rightarrow> job_view) \<Rightarrow> job_row \<Rightarrow> job_row" where
  "upd_view f row = row\<lparr>jw_record := (jw_record row)\<lparr>jr_view := f (row_view row)\<rparr>\<rparr>"

definition set_version :: "nat \<Rightarrow> job_row \<Rightarrow> job_row" where
  "set_version v row = row\<lparr>jw_record := (jw_record row)\<lparr>jr_version := v\<rparr>\<rparr>"

definition find_row :: "string \<Rightarrow> job_store \<Rightarrow> job_row option" where
  "find_row i s = bt_get (js_jobs s) i"

text \<open>The lookup of the ctx-scoped operations: a row of another organization does not exist.\<close>

definition own_row :: "request_context \<Rightarrow> string \<Rightarrow> job_store \<Rightarrow> job_row option" where
  "own_row ctx i s =
     (case find_row i s of Some row \<Rightarrow> if belongs_to row (rx_org ctx) then Some row else None | None \<Rightarrow> None)"

definition put_row :: "string \<Rightarrow> job_row \<Rightarrow> job_store \<Rightarrow> job_store" where
  "put_row i row s = s\<lparr>js_jobs := bt_insert i row (js_jobs s)\<rparr>"

definition scoped_key :: "request_context \<Rightarrow> string \<Rightarrow> string" where
  "scoped_key ctx key = rx_org ctx @ ''|'' @ rx_principal ctx @ ''|'' @ key"

definition accept_fingerprint :: "(json \<Rightarrow> string) \<Rightarrow> job_definition \<Rightarrow> string" where
  "accept_fingerprint printed d = jd_kind d @ ''|'' @ fnv1a64_hex (printed (jd_payload d))"

section \<open>Acceptance\<close>

definition fresh_record :: "job_definition \<Rightarrow> string \<Rightarrow> job_record" where
  "fresh_record d now =
     \<lparr>jr_view = \<lparr>jv_id = jd_id d, jv_kind = jd_kind d, jv_state = JobQueued, jv_stage = None, jv_executions = [],
        jv_artifacts = [], jv_created = now, jv_updated = now, jv_effect = None, jv_cancel_requested = False,
        jv_pending = None, jv_error = None, jv_progress = no_progress\<rparr>,
      jr_definition = d, jr_stages = [], jr_version = 1\<rparr>"

definition admit_job :: "request_context \<Rightarrow> job_definition \<Rightarrow> string \<Rightarrow> string \<Rightarrow> string option \<Rightarrow> string \<Rightarrow> job_store \<Rightarrow> job_store" where
  "admit_job ctx d scope fp plan now s =
     s\<lparr>js_jobs := bt_insert (jd_id d)
         \<lparr>jw_record = fresh_record d now, jw_claim = None, jw_claim_context = None, jw_cancel_at = None\<rparr> (js_jobs s),
       js_idempotency := bt_insert scope \<lparr>ir_job = jd_id d, ir_fingerprint = fp\<rparr> (js_idempotency s),
       js_consumed := (case plan of None \<Rightarrow> js_consumed s
         | Some p \<Rightarrow> bt_insert (rx_org ctx, p) (jd_id d) (js_consumed s))\<rparr>"

definition job_accept ::
  "(json \<Rightarrow> string) \<Rightarrow> clock \<Rightarrow> request_context \<Rightarrow> job_definition \<Rightarrow> string \<Rightarrow> job_store \<Rightarrow> (port_error + job_record) \<times> job_store" where
  "job_accept printed clk ctx definition0 idem s =
     (let d = definition0\<lparr>jd_org := rx_org ctx\<rparr> in
      case project_frozen_plan (jd_kind d) (jd_payload d) of
        Inl e \<Rightarrow> (Inl (port_of_job_error e), s)
      | Inr plan \<Rightarrow>
          let fp = accept_fingerprint printed d; scope = scoped_key ctx idem in
          case bt_get (js_idempotency s) scope of
            Some prev \<Rightarrow>
              if ir_fingerprint prev = fp then
                (case find_row (ir_job prev) s of
                   Some row \<Rightarrow> (Inr (jw_record row), s)
                 | None \<Rightarrow> (Inl (NotFound (ir_job prev)), s))
              else (Inl IdempotencyConflict, s)
          | None \<Rightarrow>
              (case fp_consumed_plan plan of
                 Some p \<Rightarrow> if bt_get (js_consumed s) (rx_org ctx, p) \<noteq> None
                   then (Inl (PlanAlreadyConsumed p), s)
                   else if find_row (jd_id d) s \<noteq> None
                   then (Inl (BackendUnavailable ''job identity is already admitted''), s)
                   else (Inr (fresh_record d (clk 0)), admit_job ctx d scope fp (Some p) (clk 0) s)
               | None \<Rightarrow> if find_row (jd_id d) s \<noteq> None
                   then (Inl (BackendUnavailable ''job identity is already admitted''), s)
                   else (Inr (fresh_record d (clk 0)), admit_job ctx d scope fp None (clk 0) s)))"

definition job_receipt_for :: "request_context \<Rightarrow> string \<Rightarrow> job_store \<Rightarrow> string option" where
  "job_receipt_for ctx key s = map_option ir_job (bt_get (js_idempotency s) (scoped_key ctx key))"

section \<open>Reading\<close>

definition job_get :: "request_context \<Rightarrow> string \<Rightarrow> job_store \<Rightarrow> port_error + job_record" where
  "job_get ctx i s = (case own_row ctx i s of Some row \<Rightarrow> Inr (jw_record row) | None \<Rightarrow> Inl (NotFound i))"

record cancel_snapshot =
  cs_cancel_requested :: bool
  cs_terminal :: bool

definition cancel_poll :: "request_context \<Rightarrow> string \<Rightarrow> job_store \<Rightarrow> port_error + cancel_snapshot" where
  "cancel_poll ctx i s = (case own_row ctx i s of
       Some row \<Rightarrow> Inr \<lparr>cs_cancel_requested = jv_cancel_requested (row_view row), cs_terminal = is_terminal (row_state row)\<rparr>
     | None \<Rightarrow> Inl (NotFound i))"

definition by_created :: "job_record list \<Rightarrow> job_record list" where
  "by_created rs = sort_key (\<lambda>r. jv_created (jr_view r)) rs"

definition job_list :: "request_context \<Rightarrow> job_filter \<Rightarrow> job_store \<Rightarrow> job_record list" where
  "job_list ctx f s =
     by_created (if jf_org f = rx_org ctx
       then map jw_record (filter (\<lambda>row. belongs_to row (rx_org ctx) \<and>
              (jf_states f = [] \<or> row_state row \<in> set (jf_states f)) \<and>
              (jf_owner f = None \<or> jf_owner f = Some (jd_owner (jr_definition (jw_record row))))) (bt_values (js_jobs s)))
       else [])"

definition recoverable_row :: "job_store \<Rightarrow> job_row \<Rightarrow> bool" where
  "recoverable_row s row \<longleftrightarrow> row_state row \<in> {JobQueued, JobRunning, JobCancelled} \<or>
     jv_pending (row_view row) \<noteq> None \<or> bt_get (js_recovery s) (jv_id (row_view row)) \<noteq> None"

definition list_recoverable :: "request_context \<Rightarrow> recovery_filter \<Rightarrow> job_store \<Rightarrow> job_record list" where
  "list_recoverable ctx f s =
     by_created (filter (\<lambda>r. rf_kinds f = [] \<or> jd_kind (jr_definition r) \<in> set (rf_kinds f))
       (map jw_record (filter (\<lambda>row. belongs_to row (rx_org ctx) \<and> recoverable_row s row) (bt_values (js_jobs s)))))"

definition committed_boundaries :: "request_context \<Rightarrow> string \<Rightarrow> job_store \<Rightarrow> commit_boundary list" where
  "committed_boundaries ctx i s =
     (if own_row ctx i s = None then [] else case bt_get (js_boundaries s) i of Some bs \<Rightarrow> bs | None \<Rightarrow> [])"

definition latest_checkpoint :: "request_context \<Rightarrow> string \<Rightarrow> job_store \<Rightarrow> checkpoint option" where
  "latest_checkpoint ctx i s =
     (if own_row ctx i s = None then None
      else map_option snd (last_max (\<lambda>e. snd (fst e)) (filter (\<lambda>e. fst (fst e) = i) (js_checkpoints s))))"

definition job_get_details :: "(json \<Rightarrow> recovery_target list option) \<Rightarrow> request_context \<Rightarrow> string \<Rightarrow> job_store \<Rightarrow> port_error + job_details" where
  "job_get_details decode ctx i s =
     (case own_row ctx i s of None \<Rightarrow> Inl (NotFound i)
      | Some row \<Rightarrow>
          let payload = jd_payload (jr_definition (jw_record row));
              text = (\<lambda>field. Option.bind (json_get field payload) json_str)
          in Inr \<lparr>jx_job = row_view row, jx_version = row_version row,
                jx_plan_id = Option.bind (case json_get ''consumedPlanId'' payload of
                    Some v \<Rightarrow> Some v | None \<Rightarrow> json_get ''planId'' payload) json_str,
                jx_plan_digest = text ''planDigest'',
                jx_selection = Option.bind (json_get ''selectionRevision'' payload) json_u64,
                jx_boundaries = (case bt_get (js_boundaries s) i of Some bs \<Rightarrow> bs | None \<Rightarrow> []),
                jx_recovery = bt_get (js_recovery s) i,
                jx_domain_results = sort_key dr_stage (map snd (filter (\<lambda>e. fst (fst e) = i) (js_domain s))),
                jx_targets = (case Option.bind (json_get ''recoveryTargets'' payload) decode of Some ts \<Rightarrow> ts | None \<Rightarrow> []),
                jx_before = text ''targetBeforeFingerprint'',
                jx_policy = text ''recoveryPolicy''\<rparr>)"

section \<open>Claims\<close>

definition check_claim :: "job_store \<Rightarrow> request_context \<Rightarrow> job_claim \<Rightarrow> string \<Rightarrow> job_error option" where
  "check_claim s ctx cl now =
     (case find_row (jc_job cl) s of None \<Rightarrow> Some (JobNotFound (jc_job cl))
      | Some row \<Rightarrow>
          if \<not> belongs_to row (rx_org ctx) then Some JobStaleClaim
          else case jw_claim row of None \<Rightarrow> Some JobStaleClaim
          | Some current \<Rightarrow>
              if jc_worker current \<noteq> jc_worker cl \<or> jc_generation current \<noteq> jc_generation cl then Some JobStaleClaim
              else if now > jc_expires current then Some ClaimExpired
              else None)"

definition job_claim_op ::
  "(string \<Rightarrow> job_error + string) \<Rightarrow> clock \<Rightarrow> request_context \<Rightarrow> string \<Rightarrow> string \<Rightarrow> job_store \<Rightarrow> (port_error + job_claim) \<times> job_store" where
  "job_claim_op after clk ctx i worker s =
     (case own_row ctx i s of None \<Rightarrow> (Inl (NotFound i), s)
      | Some row \<Rightarrow>
          if is_terminal (row_state row) then (Inl (CasConflict ''job'' i), s)
          else if (case jw_claim row of None \<Rightarrow> False
                   | Some current \<Rightarrow> row_state row = JobRunning \<and> \<not> clk 0 > jc_expires current)
          then (Inl StaleClaim, s)
          else
            let generation = (case jw_claim row of Some c \<Rightarrow> jc_generation c + 1 | None \<Rightarrow> 1); now = clk 1 in
            case after now of Inl e \<Rightarrow> (Inl (port_of_job_error e), s)
            | Inr expires \<Rightarrow>
                let cl = \<lparr>jc_job = i,
                      jc_stage = (case jr_stages (jw_record row) of [] \<Rightarrow> ''*'' | sg # _ \<Rightarrow> sg_id sg),
                      jc_worker = worker, jc_claimed_at = now, jc_generation = generation, jc_expires = expires\<rparr>;
                    row' = set_version (row_version row + 1)
                      (upd_view (\<lambda>v. v\<lparr>jv_state := JobRunning, jv_updated := clk 2\<rparr>)
                        (row\<lparr>jw_claim := Some cl, jw_claim_context := Some ctx\<rparr>))
                in (Inr cl, put_row i row' s))"

definition job_renew ::
  "(string \<Rightarrow> job_error + string) \<Rightarrow> clock \<Rightarrow> job_claim \<Rightarrow> job_store \<Rightarrow> (port_error + job_claim) \<times> job_store" where
  "job_renew after clk cl s =
     (case find_row (jc_job cl) s of None \<Rightarrow> (Inl (NotFound (jc_job cl)), s)
      | Some row \<Rightarrow> (case jw_claim row of None \<Rightarrow> (Inl StaleClaim, s)
        | Some current \<Rightarrow>
            if jc_worker current \<noteq> jc_worker cl \<or> jc_generation current \<noteq> jc_generation cl then (Inl StaleClaim, s)
            else if clk 0 > jc_expires current then (Inl StaleClaim, s)
            else case after (clk 0) of Inl e \<Rightarrow> (Inl (port_of_job_error e), s)
            | Inr expires \<Rightarrow>
                let renewed = cl\<lparr>jc_claimed_at := clk 0, jc_expires := expires\<rparr>
                in (Inr renewed, put_row (jc_job cl) (row\<lparr>jw_claim := Some renewed\<rparr>) s)))"

definition stage_open :: "job_claim \<Rightarrow> string \<Rightarrow> stage_record \<Rightarrow> bool" where
  "stage_open cl stage sg \<longleftrightarrow> sg_id sg = stage \<and> sg_claimed_by sg = Some (jc_worker cl) \<and>
     sg_started sg \<noteq> None \<and> sg_finished sg = None"

definition validate_owner_claim :: "clock \<Rightarrow> request_context \<Rightarrow> job_claim \<Rightarrow> string \<Rightarrow> job_store \<Rightarrow> port_error + unit" where
  "validate_owner_claim clk ctx cl stage s =
     (case find_row (jc_job cl) s of None \<Rightarrow> Inl StaleClaim
      | Some row \<Rightarrow> (case jw_claim_context row of None \<Rightarrow> Inl StaleClaim
        | Some bound \<Rightarrow>
            if rx_org bound = rx_org ctx \<and> belongs_to row (rx_org ctx) \<and> rx_principal bound = rx_principal ctx \<and>
               rx_client bound = rx_client ctx \<and> jw_claim row = Some cl \<and> clk 0 < jc_expires cl \<and>
               row_state row = JobRunning \<and> \<not> jv_cancel_requested (row_view row) \<and>
               jv_stage (row_view row) = Some stage \<and> list_ex (stage_open cl stage) (jr_stages (jw_record row))
            then Inr () else Inl StaleClaim))"

end
