(* ===== verification/Job_Writes.thy ===== *)
theory Job_Writes
  imports Job_Repository
begin

text \<open>
  The operations of the job repository that change a row: the claim-scoped writes, which pass the
  claim fence first, and the ctx-scoped writes, which look the row up in the organization of the
  caller (\<open>memory_repository.rs\<close> and \<open>runtime_methods.rs\<close>).
\<close>

definition boundaries_of :: "string \<Rightarrow> job_store \<Rightarrow> commit_boundary list" where
  "boundaries_of i s = (case bt_get (js_boundaries s) i of Some bs \<Rightarrow> bs | None \<Rightarrow> [])"

section \<open>Claim-scoped writes\<close>

text \<open>The common opening of these methods: \<open>check_claim\<close>, then the row.\<close>

definition fenced ::
  "clock \<Rightarrow> request_context \<Rightarrow> job_claim \<Rightarrow> (job_row \<Rightarrow> (port_error + 'r) \<times> job_store) \<Rightarrow> job_store \<Rightarrow> (port_error + 'r) \<times> job_store" where
  "fenced clk ctx cl body s =
     (case check_claim s ctx cl (clk 0) of
        Some e \<Rightarrow> (Inl (port_of_job_error e), s)
      | None \<Rightarrow> (case find_row (jc_job cl) s of
          None \<Rightarrow> (Inl (NotFound (jc_job cl)), s)
        | Some row \<Rightarrow> body row))"

definition touch :: "string \<Rightarrow> job_row \<Rightarrow> job_row" where
  "touch now = upd_view (\<lambda>v. v\<lparr>jv_updated := now\<rparr>)"

fun put_stage :: "stage_record \<Rightarrow> stage_record list \<Rightarrow> stage_record list" where
  "put_stage sg [] = [sg]"
| "put_stage sg (x # xs) = (if sg_id x = sg_id sg then sg # xs else x # put_stage sg xs)"

definition append_new :: "string list \<Rightarrow> string list \<Rightarrow> string list" where
  "append_new xs ys = foldl (\<lambda>acc y. if y \<in> set acc then acc else acc @ [y]) xs ys"

definition job_record_stage ::
  "clock \<Rightarrow> request_context \<Rightarrow> job_claim \<Rightarrow> stage_record \<Rightarrow> job_store \<Rightarrow> (port_error + unit) \<times> job_store" where
  "job_record_stage clk ctx cl sg s = fenced clk ctx cl (\<lambda>row.
     let row1 = row\<lparr>jw_record := (jw_record row)\<lparr>jr_stages := put_stage sg (jr_stages (jw_record row))\<rparr>\<rparr>;
         row2 = upd_view (\<lambda>v. v\<lparr>jv_executions := append_new (jv_executions v) (sg_executions sg),
                  jv_stage := Some (sg_id sg), jv_updated := clk 1\<rparr>) row1
     in (Inr (), put_row (jc_job cl) row2 s)) s"

definition job_record_boundary ::
  "clock \<Rightarrow> request_context \<Rightarrow> job_claim \<Rightarrow> commit_boundary \<Rightarrow> job_store \<Rightarrow> (port_error + unit) \<times> job_store" where
  "job_record_boundary clk ctx cl b s = fenced clk ctx cl (\<lambda>row.
     (Inr (), put_row (jc_job cl) (touch (clk 1) row)
        (s\<lparr>js_boundaries := bt_insert (jc_job cl) (boundaries_of (jc_job cl) s @ [b]) (js_boundaries s)\<rparr>))) s"

definition clear_claim_if :: "bool \<Rightarrow> job_row \<Rightarrow> job_row" where
  "clear_claim_if b row = (if b then row\<lparr>jw_claim := None\<rparr> else row)"

definition job_cas_state ::
  "clock \<Rightarrow> request_context \<Rightarrow> job_claim \<Rightarrow> nat \<Rightarrow> job_state \<Rightarrow> job_store \<Rightarrow> (port_error + job_record) \<times> job_store" where
  "job_cas_state clk ctx cl expected next_state s = fenced clk ctx cl (\<lambda>row.
     if row_version row \<noteq> expected then (Inl (CasConflict ''job'' (jc_job cl)), s)
     else
       let row' = clear_claim_if (is_terminal next_state)
             (set_version (row_version row + 1)
               (upd_view (\<lambda>v. v\<lparr>jv_state := next_state, jv_updated := clk 1\<rparr>) row))
       in (Inr (jw_record row'), put_row (jc_job cl) row' s)) s"

definition job_set_effect ::
  "clock \<Rightarrow> request_context \<Rightarrow> job_claim \<Rightarrow> effect_outcome \<Rightarrow> job_store \<Rightarrow> (port_error + unit) \<times> job_store" where
  "job_set_effect clk ctx cl eff s = fenced clk ctx cl (\<lambda>row.
     (Inr (), put_row (jc_job cl) (upd_view (\<lambda>v. v\<lparr>jv_effect := Some eff, jv_updated := clk 1\<rparr>) row) s)) s"

definition job_fail_claimed ::
  "clock \<Rightarrow> request_context \<Rightarrow> job_claim \<Rightarrow> string \<Rightarrow> job_store \<Rightarrow> (port_error + unit) \<times> job_store" where
  "job_fail_claimed clk ctx cl reason s = fenced clk ctx cl (\<lambda>row.
     let row' = clear_claim_if True (set_version (row_version row + 1)
           (upd_view (\<lambda>v. v\<lparr>jv_state := JobFailed, jv_effect := Some EffUnknown, jv_pending := Some reason,
              jv_updated := clk 1\<rparr>) row))
     in (Inr (), put_row (jc_job cl) row' s)) s"

definition job_record_progress ::
  "clock \<Rightarrow> request_context \<Rightarrow> job_claim \<Rightarrow> job_progress \<Rightarrow> job_store \<Rightarrow> (port_error + unit) \<times> job_store" where
  "job_record_progress clk ctx cl pg s = fenced clk ctx cl (\<lambda>row.
     (Inr (), put_row (jc_job cl) (upd_view (\<lambda>v. v\<lparr>jv_progress := pg, jv_updated := clk 1\<rparr>) row) s)) s"

definition job_record_artifacts ::
  "clock \<Rightarrow> request_context \<Rightarrow> job_claim \<Rightarrow> string list \<Rightarrow> job_store \<Rightarrow> (port_error + unit) \<times> job_store" where
  "job_record_artifacts clk ctx cl artifacts s = fenced clk ctx cl (\<lambda>row.
     (Inr (), put_row (jc_job cl)
        (upd_view (\<lambda>v. v\<lparr>jv_artifacts := append_new (jv_artifacts v) artifacts, jv_updated := clk 1\<rparr>) row) s)) s"

definition job_record_domain_result ::
  "clock \<Rightarrow> request_context \<Rightarrow> job_claim \<Rightarrow> domain_result \<Rightarrow> job_store \<Rightarrow> (port_error + unit) \<times> job_store" where
  "job_record_domain_result clk ctx cl r s =
     (case validate_domain_result r of Some e \<Rightarrow> (Inl e, s)
      | None \<Rightarrow> fenced clk ctx cl (\<lambda>row.
          (Inr (), s\<lparr>js_domain := bt_insert (jc_job cl, dr_stage r) r (js_domain s)\<rparr>)) s)"

definition job_save_checkpoint ::
  "clock \<Rightarrow> request_context \<Rightarrow> job_claim \<Rightarrow> checkpoint \<Rightarrow> job_store \<Rightarrow> (port_error + unit) \<times> job_store" where
  "job_save_checkpoint clk ctx cl cp s = fenced clk ctx cl (\<lambda>row.
     if bt_get (js_checkpoints s) (cp_job cp, cp_version cp) \<noteq> None
     then (Inl (CasConflict ''job_checkpoint'' (cp_job cp)), s)
     else (Inr (), s\<lparr>js_checkpoints := bt_insert (cp_job cp, cp_version cp) cp (js_checkpoints s)\<rparr>)) s"

definition pending_recovery :: "string \<Rightarrow> recovery_result" where
  "pending_recovery reason = \<lparr>rv_verdict = PendingVerification, rv_resume_through = None, rv_reason = Some reason\<rparr>"

definition note_recovery :: "string \<Rightarrow> recovery_result option \<Rightarrow> job_store \<Rightarrow> job_store" where
  "note_recovery i r s = (case r of None \<Rightarrow> s | Some v \<Rightarrow> s\<lparr>js_recovery := bt_insert i v (js_recovery s)\<rparr>)"

definition job_finish ::
  "clock \<Rightarrow> request_context \<Rightarrow> job_claim \<Rightarrow> nat \<Rightarrow> job_state \<Rightarrow> effect_outcome \<Rightarrow> job_progress \<Rightarrow> string option \<Rightarrow>
   string option \<Rightarrow> job_store \<Rightarrow> (port_error + job_record) \<times> job_store" where
  "job_finish clk ctx cl expected st eff pg error_code pending_reason s =
     (if \<not> is_terminal st then (Inl (BackendUnavailable ''job finish requires a terminal state''), s)
      else fenced clk ctx cl (\<lambda>row.
        if row_version row \<noteq> expected then (Inl (CasConflict ''job'' (jc_job cl)), s)
        else
          let row' = clear_claim_if True (set_version (sat_add64 expected 1)
                (upd_view (\<lambda>v. v\<lparr>jv_state := st, jv_effect := Some eff, jv_progress := pg, jv_error := error_code,
                   jv_pending := pending_reason, jv_updated := clk 1\<rparr>) row))
          in (Inr (jw_record row'),
              note_recovery (jc_job cl) (map_option pending_recovery pending_reason) (put_row (jc_job cl) row' s))) s)"

section \<open>Ctx-scoped writes\<close>

definition job_request_cancel ::
  "clock \<Rightarrow> request_context \<Rightarrow> string \<Rightarrow> job_store \<Rightarrow> (port_error + job_record) \<times> job_store" where
  "job_request_cancel clk ctx i s =
     (case own_row ctx i s of None \<Rightarrow> (Inl (NotFound i), s)
      | Some row \<Rightarrow>
          if is_terminal (row_state row) then (Inl (CasConflict ''job'' i), s)
          else let row' = upd_view (\<lambda>v. v\<lparr>jv_cancel_requested := True, jv_updated := clk 1\<rparr>)
                     (row\<lparr>jw_cancel_at := Some (clk 0)\<rparr>)
               in (Inr (jw_record row'), put_row i row' s))"

definition job_confirm_cancelled ::
  "clock \<Rightarrow> request_context \<Rightarrow> string \<Rightarrow> effect_outcome \<Rightarrow> job_store \<Rightarrow> (port_error + job_record) \<times> job_store" where
  "job_confirm_cancelled clk ctx i eff s =
     (case own_row ctx i s of None \<Rightarrow> (Inl (NotFound i), s)
      | Some row \<Rightarrow>
          if row_state row \<noteq> JobQueued \<or> \<not> jv_cancel_requested (row_view row) then (Inl (CasConflict ''job'' i), s)
          else let row' = clear_claim_if True (set_version (row_version row + 1)
                     (upd_view (\<lambda>v. v\<lparr>jv_state := JobCancelled, jv_effect := Some eff, jv_updated := clk 0\<rparr>) row))
               in (Inr (jw_record row'), put_row i row' s))"

definition job_mark_failed_unstarted ::
  "clock \<Rightarrow> request_context \<Rightarrow> string \<Rightarrow> string \<Rightarrow> job_store \<Rightarrow> (port_error + job_record) \<times> job_store" where
  "job_mark_failed_unstarted clk ctx i reason s =
     (case own_row ctx i s of None \<Rightarrow> (Inl (NotFound i), s)
      | Some row \<Rightarrow>
          if jw_claim row \<noteq> None \<or> row_state row \<noteq> JobQueued then (Inl (CasConflict ''job'' i), s)
          else let row' = set_version (row_version row + 1)
                     (upd_view (\<lambda>v. v\<lparr>jv_state := JobFailed, jv_effect := Some EffNotStarted, jv_error := Some reason,
                        jv_pending := None, jv_updated := clk 0\<rparr>) row)
               in (Inr (jw_record row'),
                   note_recovery i (Some \<lparr>rv_verdict = NotExecuted, rv_resume_through = None, rv_reason = Some reason\<rparr>)
                     (put_row i row' s)))"

definition fail_open_row :: "string \<Rightarrow> job_row \<Rightarrow> job_row" where
  "fail_open_row reason row =
     (if is_terminal (row_state row) then row
      else clear_claim_if True (set_version (sat_add64 (row_version row) 1)
        (upd_view (\<lambda>v. v\<lparr>jv_state := JobFailed,
           jv_effect := Some (if jw_claim row \<noteq> None then EffUnknown else EffNotStarted), jv_error := Some reason\<rparr>) row)))"

definition job_mark_pending ::
  "clock \<Rightarrow> request_context \<Rightarrow> string \<Rightarrow> string \<Rightarrow> job_store \<Rightarrow> (port_error + job_record) \<times> job_store" where
  "job_mark_pending clk ctx i reason s =
     (case own_row ctx i s of None \<Rightarrow> (Inl (NotFound i), s)
      | Some row \<Rightarrow>
          let row' = upd_view (\<lambda>v. v\<lparr>jv_pending := Some reason, jv_updated := clk 0\<rparr>) (fail_open_row reason row)
          in (Inr (jw_record row'), put_row i row' s))"

definition job_append_external ::
  "clock \<Rightarrow> request_context \<Rightarrow> string \<Rightarrow> string list \<Rightarrow> job_store \<Rightarrow> (port_error + unit) \<times> job_store" where
  "job_append_external clk ctx i artifacts s =
     (case own_row ctx i s of None \<Rightarrow> (Inl (NotFound i), s)
      | Some row \<Rightarrow>
          if \<not> is_terminal (row_state row) then (Inl (CasConflict ''job_artifact'' i), s)
          else (Inr (), put_row i
            (upd_view (\<lambda>v. v\<lparr>jv_artifacts := append_new (jv_artifacts v) artifacts, jv_updated := clk 0\<rparr>) row) s))"

definition job_persist_recovery ::
  "clock \<Rightarrow> request_context \<Rightarrow> string \<Rightarrow> recovery_result \<Rightarrow> job_store \<Rightarrow> (port_error + unit) \<times> job_store" where
  "job_persist_recovery clk ctx i r s =
     (case own_row ctx i s of None \<Rightarrow> (Inl (NotFound i), s)
      | Some row \<Rightarrow> (Inr (), note_recovery i (Some r) (put_row i (touch (clk 0) row) s)))"

fun first_error :: "domain_result list \<Rightarrow> port_error option" where
  "first_error [] = None"
| "first_error (r # rs) = (case validate_domain_result r of Some e \<Rightarrow> Some e | None \<Rightarrow> first_error rs)"

definition verification_error :: "recovery_verification \<Rightarrow> port_error option" where
  "verification_error v =
     (if (case rv_reason (vf_result v) of None \<Rightarrow> False | Some code \<Rightarrow> \<not> safe_result_marker code) \<or>
         length (vf_domain_results v) > 64
      then Some (BackendUnavailable ''recovery result is outside the safe format'')
      else case first_error (vf_domain_results v) of Some e \<Rightarrow> Some e
      | None \<Rightarrow>
          if vf_boundaries v \<noteq> [] \<and> rv_verdict (vf_result v) \<noteq> ResumeAfterVerify
          then Some (BackendUnavailable ''unverified commit boundaries cannot be recorded'') else None)"

definition awaits_verification :: "string \<Rightarrow> nat \<Rightarrow> job_row \<Rightarrow> job_store \<Rightarrow> bool" where
  "awaits_verification i expected row s \<longleftrightarrow> row_version row = expected \<and> row_state row = JobFailed \<and>
     jv_pending (row_view row) \<noteq> None \<and>
     (case bt_get (js_recovery s) i of None \<Rightarrow> False | Some r \<Rightarrow> rv_verdict r = PendingVerification)"

definition pending_after :: "recovery_result \<Rightarrow> string option" where
  "pending_after r = (if rv_verdict r = ResumeAfterVerify then None
     else Some (case rv_reason r of Some code \<Rightarrow> code | None \<Rightarrow> ''recoveryNeedsReview''))"

definition apply_verification ::
  "clock \<Rightarrow> string \<Rightarrow> nat \<Rightarrow> recovery_verification \<Rightarrow> job_row \<Rightarrow> job_store \<Rightarrow> job_store" where
  "apply_verification clk i expected v row s =
     (let pending = pending_after (vf_result v);
          row' = set_version (sat_add64 expected 1)
            (upd_view (\<lambda>w. w\<lparr>jv_updated := clk 0, jv_pending := pending, jv_error := pending\<rparr>) row);
          s1 = note_recovery i (Some (vf_result v)) (put_row i row' s);
          s2 = s1\<lparr>js_boundaries := bt_insert i (boundaries_of i s1 @ vf_boundaries v) (js_boundaries s1)\<rparr>
      in foldl (\<lambda>t r. t\<lparr>js_domain := bt_insert (i, dr_stage r) r (js_domain t)\<rparr>) s2 (vf_domain_results v))"

definition job_persist_verification ::
  "clock \<Rightarrow> request_context \<Rightarrow> string \<Rightarrow> nat \<Rightarrow> recovery_verification \<Rightarrow> job_store \<Rightarrow> (port_error + unit) \<times> job_store" where
  "job_persist_verification clk ctx i expected v s =
     (case verification_error v of Some e \<Rightarrow> (Inl e, s)
      | None \<Rightarrow> (case own_row ctx i s of None \<Rightarrow> (Inl (NotFound i), s)
        | Some row \<Rightarrow>
            if \<not> awaits_verification i expected row s then (Inl (CasConflict ''job_recovery'' i), s)
            else if (case rv_resume_through (vf_result v) of None \<Rightarrow> False
                     | Some ix \<Rightarrow> ix > length (boundaries_of i s) + length (vf_boundaries v))
            then (Inl (BackendUnavailable ''recovery boundary index is invalid''), s)
            else (Inr (), apply_verification clk i expected v row s)))"

end
