(* ===== verification/Job_Contract.thy ===== *)
theory Job_Contract
  imports Job_Writes
begin

text \<open>
  The contracts the write operations of the job repository share. A claim-scoped write refuses a
  claim that fails the fence and leaves the store as it was; a write changes at most one row, a row
  of the named organization, and moves it by an allowed row transition. Both are stated as locales
  and interpreted on every operation.
\<close>

section \<open>Row transitions\<close>

definition claim_next :: "job_claim option \<Rightarrow> job_claim option \<Rightarrow> bool" where
  "claim_next c c' \<longleftrightarrow>
     (case (c, c') of
        (Some a, Some b) \<Rightarrow> jc_job b = jc_job a \<and> (jc_generation a < jc_generation b \<or>
           jc_generation a = jc_generation b \<and> jc_worker a = jc_worker b)
      | (None, Some b) \<Rightarrow> jc_generation b = 1
      | _ \<Rightarrow> True)"

definition row_ok :: "string \<Rightarrow> job_row \<Rightarrow> bool" where
  "row_ok i row \<longleftrightarrow> jv_id (row_view row) = i \<and> jd_id (jr_definition (jw_record row)) = i \<and>
     (is_terminal (row_state row) \<longrightarrow> jw_claim row = None) \<and>
     (row_state row = JobRunning \<longrightarrow> jw_claim row \<noteq> None) \<and>
     (\<forall>c. jw_claim row = Some c \<longrightarrow> jc_job c = i \<and> 0 < jc_generation c) \<and>
     distinct (map sg_id (jr_stages (jw_record row))) \<and> distinct (jv_executions (row_view row)) \<and>
     distinct (jv_artifacts (row_view row)) \<and> 0 < row_version row"

text \<open>
  What may happen to a row in one operation: its definition and its creation data stay, its version
  does not go back, a terminal row keeps its state and stays unclaimed, and a row that leaves the
  claimed state is terminal.
\<close>

definition row_next :: "job_row \<Rightarrow> job_row \<Rightarrow> bool" where
  "row_next row row' \<longleftrightarrow>
     jr_definition (jw_record row') = jr_definition (jw_record row) \<and>
     jv_created (row_view row') = jv_created (row_view row) \<and>
     (row_version row < u64_max \<longrightarrow> row_version row \<le> row_version row') \<and>
     (is_terminal (row_state row) \<longrightarrow> row_state row' = row_state row) \<and>
     (row_state row' \<noteq> row_state row \<longrightarrow> row_version row < u64_max \<longrightarrow> row_version row < row_version row') \<and>
     (jv_cancel_requested (row_view row) \<longrightarrow> jv_cancel_requested (row_view row')) \<and>
     claim_next (jw_claim row) (jw_claim row') \<and>
     (jw_claim row \<noteq> None \<longrightarrow> jw_claim row' = None \<longrightarrow> is_terminal (row_state row'))"

named_theorems row_simps "selections of an updated row"

lemma row_upd_view [row_simps]:
  "row_view (upd_view f row) = f (row_view row)" "row_version (upd_view f row) = row_version row"
  "row_state (upd_view f row) = jv_state (f (row_view row))" "jw_claim (upd_view f row) = jw_claim row"
  "jr_definition (jw_record (upd_view f row)) = jr_definition (jw_record row)"
  "jr_stages (jw_record (upd_view f row)) = jr_stages (jw_record row)"
  by (simp_all add: upd_view_def row_view_def row_version_def row_state_def)

lemma row_set_version [row_simps]:
  "row_view (set_version v row) = row_view row" "row_version (set_version v row) = v"
  "row_state (set_version v row) = row_state row" "jw_claim (set_version v row) = jw_claim row"
  "jr_definition (jw_record (set_version v row)) = jr_definition (jw_record row)"
  "jr_stages (jw_record (set_version v row)) = jr_stages (jw_record row)"
  by (simp_all add: set_version_def row_view_def row_version_def row_state_def)

lemma row_set_claim [row_simps]:
  "row_view (row\<lparr>jw_claim := c\<rparr>) = row_view row" "row_version (row\<lparr>jw_claim := c\<rparr>) = row_version row"
  "row_state (row\<lparr>jw_claim := c\<rparr>) = row_state row"
  "row_view (row\<lparr>jw_claim := c, jw_claim_context := x\<rparr>) = row_view row"
  "row_version (row\<lparr>jw_claim := c, jw_claim_context := x\<rparr>) = row_version row"
  "row_state (row\<lparr>jw_claim := c, jw_claim_context := x\<rparr>) = row_state row"
  "row_view (row\<lparr>jw_cancel_at := a\<rparr>) = row_view row" "row_version (row\<lparr>jw_cancel_at := a\<rparr>) = row_version row"
  "row_state (row\<lparr>jw_cancel_at := a\<rparr>) = row_state row"
  by (simp_all add: row_view_def row_version_def row_state_def)

lemma row_clear_claim [row_simps]:
  "row_view (clear_claim_if b row) = row_view row" "row_version (clear_claim_if b row) = row_version row"
  "row_state (clear_claim_if b row) = row_state row"
  "jw_claim (clear_claim_if b row) = (if b then None else jw_claim row)"
  "jr_definition (jw_record (clear_claim_if b row)) = jr_definition (jw_record row)"
  "jr_stages (jw_record (clear_claim_if b row)) = jr_stages (jw_record row)"
  by (simp_all add: clear_claim_if_def row_simps)

lemma row_state_view: "row_state row = jv_state (row_view row)"
  by (simp add: row_state_def row_view_def)

lemma claim_next_refl [simp]: "claim_next c c"
  by (simp add: claim_next_def split: option.splits)

lemma claim_next_None [simp]: "claim_next c None"
  by (simp add: claim_next_def split: option.splits)

lemma row_next_refl [simp]: "row_next row row"
  by (cases "jw_claim row") (simp_all add: row_next_def)

lemma append_new_distinct: "distinct xs \<Longrightarrow> distinct (append_new xs ys)"
  by (induction ys arbitrary: xs) (simp_all add: append_new_def)

lemma put_stage_ids: "sg_id ` set (put_stage sg xs) = insert (sg_id sg) (sg_id ` set xs)"
  by (induction xs) auto

lemma put_stage_distinct: "distinct (map sg_id xs) \<Longrightarrow> distinct (map sg_id (put_stage sg xs))"
  by (induction xs) (auto simp: put_stage_ids)

section \<open>Changes of one row\<close>

definition row_change :: "string \<Rightarrow> string \<Rightarrow> job_store \<Rightarrow> job_store \<Rightarrow> bool" where
  "row_change org i s s' \<longleftrightarrow> js_idempotency s' = js_idempotency s \<and> js_consumed s' = js_consumed s \<and>
     (js_jobs s' = js_jobs s \<or>
      (\<exists>row row'. find_row i s = Some row \<and> belongs_to row org \<and>
         jr_definition (jw_record row') = jr_definition (jw_record row) \<and>
         (row_ok i row \<longrightarrow> row_next row row' \<and> row_ok i row') \<and> js_jobs s' = bt_insert i row' (js_jobs s)))"

lemma row_change_refl [simp]: "row_change org i s s"
  by (simp add: row_change_def)

lemma row_changeI:
  assumes "find_row i s = Some row" "belongs_to row org" "jr_definition (jw_record row') = jr_definition (jw_record row)"
    and "row_ok i row \<Longrightarrow> row_next row row' \<and> row_ok i row'"
    and "js_jobs s' = bt_insert i row' (js_jobs s)" "js_idempotency s' = js_idempotency s" "js_consumed s' = js_consumed s"
  shows "row_change org i s s'"
  using assms unfolding row_change_def by blast

lemma find_put_row [simp]: "find_row j (put_row i row s) = (if j = i then Some row else find_row j s)"
  by (simp add: find_row_def put_row_def map_laws)

lemma put_row_simps [simp]:
  "js_jobs (put_row i row s) = bt_insert i row (js_jobs s)" "js_idempotency (put_row i row s) = js_idempotency s"
  "js_consumed (put_row i row s) = js_consumed s" "js_boundaries (put_row i row s) = js_boundaries s"
  "js_checkpoints (put_row i row s) = js_checkpoints s" "js_recovery (put_row i row s) = js_recovery s"
  "js_domain (put_row i row s) = js_domain s"
  by (simp_all add: put_row_def)

lemma note_recovery_simps [simp]:
  "js_jobs (note_recovery i r s) = js_jobs s" "js_idempotency (note_recovery i r s) = js_idempotency s"
  "js_consumed (note_recovery i r s) = js_consumed s" "js_boundaries (note_recovery i r s) = js_boundaries s"
  by (simp_all add: note_recovery_def split: option.splits)

lemma own_row_Some: "own_row ctx i s = Some row \<longleftrightarrow> find_row i s = Some row \<and> belongs_to row (rx_org ctx)"
  by (auto simp: own_row_def split: option.splits if_splits)

lemma check_claim_None:
  assumes "check_claim s ctx cl now = None"
  obtains row current where "find_row (jc_job cl) s = Some row" "belongs_to row (rx_org ctx)" "jw_claim row = Some current"
    "jc_worker current = jc_worker cl" "jc_generation current = jc_generation cl" "now \<le> jc_expires current"
  using assms by (auto simp: check_claim_def split: option.splits if_splits)

section \<open>The contract of a claim-scoped write\<close>

text \<open>
  \<open>ready\<close> says that the arguments pass the checks the method makes before it takes the lock.
\<close>

locale fenced_write =
  fixes op :: "clock \<Rightarrow> request_context \<Rightarrow> job_claim \<Rightarrow> job_store \<Rightarrow> (port_error + 'r) \<times> job_store"
    and ready :: bool
  assumes refuses: "ready \<Longrightarrow> check_claim s ctx cl (clk 0) = Some e \<Longrightarrow> op clk ctx cl s = (Inl (port_of_job_error e), s)"
    and changes: "row_change (rx_org ctx) (jc_job cl) s (snd (op clk ctx cl s))"
begin

lemma refused_unchanged: "ready \<Longrightarrow> check_claim s ctx cl (clk 0) \<noteq> None \<Longrightarrow> snd (op clk ctx cl s) = s"
  using refuses by fastforce

lemma other_rows: "j \<noteq> jc_job cl \<Longrightarrow> find_row j (snd (op clk ctx cl s)) = find_row j s"
  using changes [of ctx cl s clk] by (auto simp: row_change_def find_row_def map_laws)

lemma foreign_rows:
  assumes "find_row j s = Some row" "row_org row \<noteq> rx_org ctx"
  shows "find_row j (snd (op clk ctx cl s)) = Some row"
  using changes [of ctx cl s clk] assms by (auto simp: row_change_def find_row_def map_laws belongs_to_def)

end

section \<open>The contract of a ctx-scoped write\<close>

locale scoped_write =
  fixes op :: "clock \<Rightarrow> request_context \<Rightarrow> string \<Rightarrow> job_store \<Rightarrow> (port_error + 'r) \<times> job_store"
    and ready :: bool
  assumes hidden: "ready \<Longrightarrow> own_row ctx i s = None \<Longrightarrow> op clk ctx i s = (Inl (NotFound i), s)"
    and changes: "row_change (rx_org ctx) i s (snd (op clk ctx i s))"
begin

lemma other_rows: "j \<noteq> i \<Longrightarrow> find_row j (snd (op clk ctx i s)) = find_row j s"
  using changes [of ctx i s clk] by (auto simp: row_change_def find_row_def map_laws)

lemma foreign_rows:
  assumes "find_row j s = Some row" "row_org row \<noteq> rx_org ctx"
  shows "find_row j (snd (op clk ctx i s)) = Some row"
  using changes [of ctx i s clk] assms by (auto simp: row_change_def find_row_def map_laws belongs_to_def)

text \<open>A job of another organization and a job that does not exist are refused in the same way.\<close>

lemma foreign_like_absent:
  assumes "ready" "find_row i s = Some row" "row_org row \<noteq> rx_org ctx" "find_row i s0 = None"
  shows "fst (op clk ctx i s) = fst (op clk ctx i s0)"
  using hidden [of ctx i s clk] hidden [of ctx i s0 clk] assms by (simp add: own_row_def belongs_to_def)

end

end
