(* ===== verification/Job_Operations.thy ===== *)
theory Job_Operations
  imports Job_Contract
begin

text \<open>
  Every write operation of the job repository meets its contract: the ten claim-scoped writes are
  instances of \<open>fenced_write\<close>, the ctx-scoped ones of \<open>scoped_write\<close>.
\<close>

section \<open>Claim-scoped writes\<close>

lemma fenced_refuses: "check_claim s ctx cl (clk 0) = Some e \<Longrightarrow> fenced clk ctx cl body s = (Inl (port_of_job_error e), s)"
  by (simp add: fenced_def)

lemma fenced_change:
  assumes "\<And>row current. find_row (jc_job cl) s = Some row \<Longrightarrow> belongs_to row (rx_org ctx) \<Longrightarrow>
      jw_claim row = Some current \<Longrightarrow> row_change (rx_org ctx) (jc_job cl) s (snd (body row))"
  shows "row_change (rx_org ctx) (jc_job cl) s (snd (fenced clk ctx cl body s))"
proof (cases "check_claim s ctx cl (clk 0)")
  case None
  then obtain row current where "find_row (jc_job cl) s = Some row" "belongs_to row (rx_org ctx)"
      "jw_claim row = Some current"
    by (rule check_claim_None)
  then show ?thesis using None assms by (simp add: fenced_def)
qed (simp add: fenced_def)

lemma claimed_not_terminal: "row_ok i row \<Longrightarrow> jw_claim row = Some c \<Longrightarrow> \<not> is_terminal (row_state row)"
  by (auto simp: row_ok_def)

lemma is_terminal_simps [simp]:
  "is_terminal JobSucceeded" "is_terminal JobFailed" "is_terminal JobCancelled"
  "\<not> is_terminal JobQueued" "\<not> is_terminal JobRunning"
  by (simp_all add: is_terminal_def)

text \<open>A view update that keeps identity, state and the two duplicate-free lists keeps the row in order.\<close>

lemma view_update_ok:
  assumes "row_ok i row" "jv_id (f (row_view row)) = jv_id (row_view row)" "jv_state (f (row_view row)) = jv_state (row_view row)"
    and "distinct (jv_executions (f (row_view row)))" "distinct (jv_artifacts (f (row_view row)))"
  shows "row_ok i (upd_view f row)"
  using assms unfolding row_ok_def row_simps row_state_view by simp

lemma view_update_next:
  assumes "jv_created (f (row_view row)) = jv_created (row_view row)" "jv_state (f (row_view row)) = jv_state (row_view row)"
    and "jv_cancel_requested (row_view row) \<Longrightarrow> jv_cancel_requested (f (row_view row))"
  shows "row_next row (upd_view f row)"
  using assms unfolding row_next_def row_simps row_state_view by auto

lemma put_view_change:
  assumes "find_row i s = Some row" "belongs_to row org"
    and "\<And>v. distinct (jv_executions v) \<Longrightarrow> distinct (jv_artifacts v) \<Longrightarrow>
      jv_id (f v) = jv_id v \<and> jv_state (f v) = jv_state v \<and> jv_created (f v) = jv_created v \<and>
      (jv_cancel_requested v \<longrightarrow> jv_cancel_requested (f v)) \<and> distinct (jv_executions (f v)) \<and> distinct (jv_artifacts (f v))"
    and "js_jobs s' = bt_insert i (upd_view f row) (js_jobs s)" "js_idempotency s' = js_idempotency s" "js_consumed s' = js_consumed s"
  shows "row_change org i s s'"
proof (rule row_changeI [OF assms(1,2) _ _ assms(4-6)])
  assume ok: "row_ok i row"
  then have "distinct (jv_executions (row_view row))" "distinct (jv_artifacts (row_view row))"
    by (simp_all add: row_ok_def)
  note f = assms(3) [OF this]
  show "row_next row (upd_view f row) \<and> row_ok i (upd_view f row)"
    using f by (auto intro!: view_update_next view_update_ok [OF ok])
qed (simp add: row_simps)

text \<open>A write that ends or moves a claimed row: the new row is the old one with another state.\<close>

lemma state_change:
  assumes "find_row i s = Some row" "belongs_to row org"
    and "\<And>v. jv_id (f v) = jv_id v \<and> jv_created (f v) = jv_created v \<and> jv_executions (f v) = jv_executions v \<and>
      jv_artifacts (f v) = jv_artifacts v \<and> jv_cancel_requested (f v) = jv_cancel_requested v"
    and "row_version row < n \<or> row_version row \<ge> u64_max \<and> 0 < n"
    and "row_ok i row \<Longrightarrow> \<not> is_terminal (row_state row)"
    and "row_ok i row \<Longrightarrow> (if b then is_terminal (jv_state (f (row_view row)))
           else \<not> is_terminal (jv_state (f (row_view row))) \<and> jw_claim row \<noteq> None)"
    and "js_jobs s' = bt_insert i (clear_claim_if b (set_version n (upd_view f row))) (js_jobs s)"
      "js_idempotency s' = js_idempotency s" "js_consumed s' = js_consumed s"
  shows "row_change org i s s'"
proof (rule row_changeI [OF assms(1,2) _ _ assms(7-9)])
  let ?row' = "clear_claim_if b (set_version n (upd_view f row))"
  assume ok: "row_ok i row"
  note open_row = assms(5) [OF ok] and kind = assms(6) [OF ok]
  have "row_next row ?row'"
    using assms(3) [of "row_view row"] assms(4) open_row kind
    unfolding row_next_def row_simps by auto
  moreover have "row_ok i ?row'"
    using ok assms(3) [of "row_view row"] assms(4) kind unfolding row_ok_def row_simps by (auto split: if_splits)
  ultimately show "row_next row ?row' \<and> row_ok i ?row'" ..
qed (simp add: row_simps)

definition with_stage :: "stage_record \<Rightarrow> job_row \<Rightarrow> job_row" where
  "with_stage sg row = row\<lparr>jw_record := (jw_record row)\<lparr>jr_stages := put_stage sg (jr_stages (jw_record row))\<rparr>\<rparr>"

lemma row_with_stage [row_simps]:
  "row_view (with_stage sg row) = row_view row" "row_version (with_stage sg row) = row_version row"
  "row_state (with_stage sg row) = row_state row" "jw_claim (with_stage sg row) = jw_claim row"
  "jr_definition (jw_record (with_stage sg row)) = jr_definition (jw_record row)"
  "jr_stages (jw_record (with_stage sg row)) = put_stage sg (jr_stages (jw_record row))"
  by (simp_all add: with_stage_def row_view_def row_version_def row_state_def)

lemma with_stage_ok: "row_ok i row \<Longrightarrow> row_ok i (with_stage sg row)"
  unfolding row_ok_def row_simps using put_stage_distinct by blast

interpretation stage: fenced_write "\<lambda>clk ctx cl. job_record_stage clk ctx cl sg" True
proof
  fix s ctx cl clk
  show "row_change (rx_org ctx) (jc_job cl) s (snd (job_record_stage clk ctx cl sg s))"
    unfolding job_record_stage_def
  proof (rule fenced_change)
    fix row current
    assume row: "find_row (jc_job cl) s = Some row" "belongs_to row (rx_org ctx)"
    let ?f = "\<lambda>v. v\<lparr>jv_executions := append_new (jv_executions v) (sg_executions sg), jv_stage := Some (sg_id sg), jv_updated := clk 1\<rparr>"
    have "row_next row (upd_view ?f (with_stage sg row))"
      unfolding row_next_def row_simps by (cases "jw_claim row") (simp_all add: row_state_view)
    moreover have "row_ok (jc_job cl) (upd_view ?f (with_stage sg row))" if "row_ok (jc_job cl) row"
    proof (rule view_update_ok [OF with_stage_ok [OF that]])
      show "distinct (jv_executions (?f (row_view (with_stage sg row))))"
        "distinct (jv_artifacts (?f (row_view (with_stage sg row))))"
        using that by (simp_all add: row_ok_def row_simps append_new_distinct)
    qed simp_all
    ultimately show "row_change (rx_org ctx) (jc_job cl) s
        (snd (let row1 = row\<lparr>jw_record := (jw_record row)\<lparr>jr_stages := put_stage sg (jr_stages (jw_record row))\<rparr>\<rparr>;
           row2 = upd_view ?f row1 in (Inr (), put_row (jc_job cl) row2 s)))"
      using row unfolding with_stage_def [symmetric] Let_def
      by (intro row_changeI [of _ _ row _ "upd_view ?f (with_stage sg row)"]) (simp_all add: row_simps)
  qed
qed (simp add: job_record_stage_def fenced_refuses)

interpretation boundary: fenced_write "\<lambda>clk ctx cl. job_record_boundary clk ctx cl b" True
proof
  fix s ctx cl clk
  show "row_change (rx_org ctx) (jc_job cl) s (snd (job_record_boundary clk ctx cl b s))"
    unfolding job_record_boundary_def
    by (rule fenced_change, rule put_view_change [where f = "\<lambda>v. v\<lparr>jv_updated := clk 1\<rparr>"])
      (simp_all add: Let_def touch_def)
qed (simp add: job_record_boundary_def fenced_refuses)

interpretation cas: fenced_write "\<lambda>clk ctx cl. job_cas_state clk ctx cl expected next_state" True
proof
  fix s ctx cl clk
  show "row_change (rx_org ctx) (jc_job cl) s (snd (job_cas_state clk ctx cl expected next_state s))"
    unfolding job_cas_state_def
  proof (rule fenced_change)
    fix row current
    assume row: "find_row (jc_job cl) s = Some row" "belongs_to row (rx_org ctx)" "jw_claim row = Some current"
    let ?f = "\<lambda>v. v\<lparr>jv_state := next_state, jv_updated := clk 1\<rparr>"
    let ?row' = "clear_claim_if (is_terminal next_state) (set_version (row_version row + 1) (upd_view ?f row))"
    have "row_change (rx_org ctx) (jc_job cl) s (put_row (jc_job cl) ?row' s)"
      using row by (intro state_change [where f = ?f]) (auto dest: claimed_not_terminal)
    then show "row_change (rx_org ctx) (jc_job cl) s
        (snd (if row_version row \<noteq> expected then (Inl (CasConflict ''job'' (jc_job cl)), s)
              else let row' = ?row' in (Inr (jw_record row'), put_row (jc_job cl) row' s)))"
      by (auto simp: Let_def)
  qed
qed (simp add: job_cas_state_def fenced_refuses)

interpretation eff: fenced_write "\<lambda>clk ctx cl. job_set_effect clk ctx cl eff" True
proof
  fix s ctx cl clk
  show "row_change (rx_org ctx) (jc_job cl) s (snd (job_set_effect clk ctx cl eff s))"
    unfolding job_set_effect_def
    by (rule fenced_change, rule put_view_change [where f = "\<lambda>v. v\<lparr>jv_effect := Some eff, jv_updated := clk 1\<rparr>"]) simp_all
qed (simp add: job_set_effect_def fenced_refuses)

interpretation failc: fenced_write "\<lambda>clk ctx cl. job_fail_claimed clk ctx cl reason" True
proof
  fix s ctx cl clk
  show "row_change (rx_org ctx) (jc_job cl) s (snd (job_fail_claimed clk ctx cl reason s))"
    unfolding job_fail_claimed_def Let_def
    by (rule fenced_change, rule state_change [where f = "\<lambda>v. v\<lparr>jv_state := JobFailed, jv_effect := Some EffUnknown,
          jv_pending := Some reason, jv_updated := clk 1\<rparr>" and b = True])
      (auto dest: claimed_not_terminal)
qed (simp add: job_fail_claimed_def fenced_refuses)

interpretation prog: fenced_write "\<lambda>clk ctx cl. job_record_progress clk ctx cl pg" True
proof
  fix s ctx cl clk
  show "row_change (rx_org ctx) (jc_job cl) s (snd (job_record_progress clk ctx cl pg s))"
    unfolding job_record_progress_def
    by (rule fenced_change, rule put_view_change [where f = "\<lambda>v. v\<lparr>jv_progress := pg, jv_updated := clk 1\<rparr>"]) simp_all
qed (simp add: job_record_progress_def fenced_refuses)

interpretation arts: fenced_write "\<lambda>clk ctx cl. job_record_artifacts clk ctx cl artifacts" True
proof
  fix s ctx cl clk
  show "row_change (rx_org ctx) (jc_job cl) s (snd (job_record_artifacts clk ctx cl artifacts s))"
    unfolding job_record_artifacts_def
    by (rule fenced_change, rule put_view_change
        [where f = "\<lambda>v. v\<lparr>jv_artifacts := append_new (jv_artifacts v) artifacts, jv_updated := clk 1\<rparr>"])
      (simp_all add: append_new_distinct)
qed (simp add: job_record_artifacts_def fenced_refuses)

interpretation domain: fenced_write "\<lambda>clk ctx cl. job_record_domain_result clk ctx cl r" "validate_domain_result r = None"
proof
  fix s ctx cl clk
  have "row_change (rx_org ctx) (jc_job cl) s (snd (fenced clk ctx cl (\<lambda>row.
      (Inr (), s\<lparr>js_domain := bt_insert (jc_job cl, dr_stage r) r (js_domain s)\<rparr>)) s))"
    by (rule fenced_change) (simp add: row_change_def)
  then show "row_change (rx_org ctx) (jc_job cl) s (snd (job_record_domain_result clk ctx cl r s))"
    by (simp add: job_record_domain_result_def split: option.split)
qed (simp add: job_record_domain_result_def fenced_refuses)

interpretation ckpt: fenced_write "\<lambda>clk ctx cl. job_save_checkpoint clk ctx cl cp" True
proof
  fix s ctx cl clk
  show "row_change (rx_org ctx) (jc_job cl) s (snd (job_save_checkpoint clk ctx cl cp s))"
    unfolding job_save_checkpoint_def by (rule fenced_change) (simp add: row_change_def)
qed (simp add: job_save_checkpoint_def fenced_refuses)

interpretation finish: fenced_write "\<lambda>clk ctx cl. job_finish clk ctx cl expected st eff pg err pending" "is_terminal st"
proof
  fix s ctx cl clk
  show "row_change (rx_org ctx) (jc_job cl) s (snd (job_finish clk ctx cl expected st eff pg err pending s))"
  proof (cases "is_terminal st")
    case True
    let ?f = "\<lambda>v. v\<lparr>jv_state := st, jv_effect := Some eff, jv_progress := pg, jv_error := err, jv_pending := pending, jv_updated := clk 1\<rparr>"
    have "row_change (rx_org ctx) (jc_job cl) s (note_recovery (jc_job cl) q
        (put_row (jc_job cl) (clear_claim_if True (set_version (sat_add64 (row_version row) 1) (upd_view ?f row))) s))"
      if "find_row (jc_job cl) s = Some row" "belongs_to row (rx_org ctx)" "jw_claim row = Some current" for row current q
      using that True by (intro state_change [where f = ?f and b = True])
        (auto simp: sat_add64_def u64_max_def dest: claimed_not_terminal)
    then show ?thesis using True
      unfolding job_finish_def Let_def by (auto intro!: fenced_change)
  qed (simp add: job_finish_def)
qed (simp add: job_finish_def fenced_refuses)

section \<open>Ctx-scoped writes\<close>

lemma clear_claim_None: "jw_claim row = None \<Longrightarrow> clear_claim_if True row = row"
  by (cases row) (simp add: clear_claim_if_def)

lemma upd_view_after_state:
  "upd_view g (clear_claim_if b (set_version n (upd_view f row))) = clear_claim_if b (set_version n (upd_view (g \<circ> f) row))"
  by (simp add: upd_view_def clear_claim_if_def set_version_def row_view_def)

lemma upd_view_cancel:
  "row_next row (upd_view f (row\<lparr>jw_cancel_at := a\<rparr>)) = row_next row (upd_view f row)"
  "row_ok i (upd_view f (row\<lparr>jw_cancel_at := a\<rparr>)) = row_ok i (upd_view f row)"
  by (simp_all add: row_next_def row_ok_def row_simps)

lemma scoped_change:
  assumes "\<And>row. find_row i s = Some row \<Longrightarrow> belongs_to row (rx_org ctx) \<Longrightarrow> own_row ctx i s = Some row \<Longrightarrow> row_change (rx_org ctx) i s (snd (body row))"
  shows "row_change (rx_org ctx) i s (snd (case own_row ctx i s of None \<Rightarrow> (Inl (NotFound i), s) | Some row \<Rightarrow> body row))"
  using assms by (auto simp: own_row_Some split: option.split)

interpretation cancel: scoped_write "job_request_cancel" True
proof
  fix ctx i s clk
  show "row_change (rx_org ctx) i s (snd (job_request_cancel clk ctx i s))"
    unfolding job_request_cancel_def
  proof (rule scoped_change)
    fix row
    assume row: "find_row i s = Some row" "belongs_to row (rx_org ctx)"
    let ?f = "\<lambda>v. v\<lparr>jv_cancel_requested := True, jv_updated := clk 1\<rparr>"
    let ?row' = "upd_view ?f (row\<lparr>jw_cancel_at := Some (clk 0)\<rparr>)"
    have "row_change (rx_org ctx) i s (put_row i ?row' s)"
    proof (rule row_changeI [OF row, of ?row'])
      assume ok: "row_ok i row"
      then have "row_ok i (upd_view ?f row)" by (intro view_update_ok) (simp_all add: row_ok_def)
      moreover have "row_next row (upd_view ?f row)" by (intro view_update_next) simp_all
      ultimately show "row_next row ?row' \<and> row_ok i ?row'" by (simp add: upd_view_cancel)
    qed (simp_all add: row_simps)
    then show "row_change (rx_org ctx) i s (snd (if is_terminal (row_state row) then (Inl (CasConflict ''job'' i), s)
        else let row' = ?row' in (Inr (jw_record row'), put_row i row' s)))"
      by (simp add: Let_def)
  qed
qed (simp add: job_request_cancel_def)

interpretation confirm: scoped_write "\<lambda>clk ctx i. job_confirm_cancelled clk ctx i eff" True
proof
  fix ctx i s clk
  show "row_change (rx_org ctx) i s (snd (job_confirm_cancelled clk ctx i eff s))"
    unfolding job_confirm_cancelled_def
  proof (rule scoped_change)
    fix row
    assume row: "find_row i s = Some row" "belongs_to row (rx_org ctx)"
    let ?f = "\<lambda>v. v\<lparr>jv_state := JobCancelled, jv_effect := Some eff, jv_updated := clk 0\<rparr>"
    let ?row' = "clear_claim_if True (set_version (row_version row + 1) (upd_view ?f row))"
    have "row_change (rx_org ctx) i s (put_row i ?row' s)" if "row_state row = JobQueued"
      using row that by (intro state_change [where f = ?f and b = True]) auto
    then show "row_change (rx_org ctx) i s (snd (if row_state row \<noteq> JobQueued \<or> \<not> jv_cancel_requested (row_view row)
        then (Inl (CasConflict ''job'' i), s) else let row' = ?row' in (Inr (jw_record row'), put_row i row' s)))"
      by (simp add: Let_def)
  qed
qed (simp add: job_confirm_cancelled_def)

interpretation unstarted: scoped_write "\<lambda>clk ctx i. job_mark_failed_unstarted clk ctx i reason" True
proof
  fix ctx i s clk
  show "row_change (rx_org ctx) i s (snd (job_mark_failed_unstarted clk ctx i reason s))"
    unfolding job_mark_failed_unstarted_def
  proof (rule scoped_change)
    fix row
    assume row: "find_row i s = Some row" "belongs_to row (rx_org ctx)"
    let ?f = "\<lambda>v. v\<lparr>jv_state := JobFailed, jv_effect := Some EffNotStarted, jv_error := Some reason, jv_pending := None, jv_updated := clk 0\<rparr>"
    let ?row' = "set_version (row_version row + 1) (upd_view ?f row)"
    have "row_change (rx_org ctx) i s (note_recovery i q (put_row i ?row' s))" if "row_state row = JobQueued" "jw_claim row = None" for q
    proof -
      have "clear_claim_if True ?row' = ?row'" by (rule clear_claim_None) (simp add: row_simps that)
      then show ?thesis using row that by (intro state_change [where f = ?f and b = True]) auto
    qed
    then show "row_change (rx_org ctx) i s (snd (if jw_claim row \<noteq> None \<or> row_state row \<noteq> JobQueued
        then (Inl (CasConflict ''job'' i), s)
        else let row' = ?row' in (Inr (jw_record row'), note_recovery i
          (Some \<lparr>rv_verdict = NotExecuted, rv_resume_through = None, rv_reason = Some reason\<rparr>) (put_row i row' s))))"
      by (simp add: Let_def)
  qed
qed (simp add: job_mark_failed_unstarted_def)

interpretation pending: scoped_write "\<lambda>clk ctx i. job_mark_pending clk ctx i reason" True
proof
  fix ctx i s clk
  show "row_change (rx_org ctx) i s (snd (job_mark_pending clk ctx i reason s))"
    unfolding job_mark_pending_def
  proof (rule scoped_change)
    fix row
    assume row: "find_row i s = Some row" "belongs_to row (rx_org ctx)"
    let ?g = "\<lambda>v. v\<lparr>jv_pending := Some reason, jv_updated := clk 0\<rparr>"
    have "row_change (rx_org ctx) i s (put_row i (upd_view ?g (fail_open_row reason row)) s)"
    proof (cases "is_terminal (row_state row)")
      case True
      then show ?thesis using row by (intro put_view_change [where f = ?g]) (simp_all add: fail_open_row_def)
    next
      case False
      then show ?thesis using row unfolding fail_open_row_def if_not_P [OF False] upd_view_after_state
        by (intro state_change [where b = True]) (auto simp: sat_add64_def u64_max_def)
    qed
    then show "row_change (rx_org ctx) i s (snd (let row' = upd_view ?g (fail_open_row reason row)
        in (Inr (jw_record row'), put_row i row' s)))" by (simp add: Let_def)
  qed
qed (simp add: job_mark_pending_def)

interpretation external: scoped_write "\<lambda>clk ctx i. job_append_external clk ctx i artifacts" True
proof
  fix ctx i s clk
  show "row_change (rx_org ctx) i s (snd (job_append_external clk ctx i artifacts s))"
    unfolding job_append_external_def
  proof (rule scoped_change)
    fix row
    assume row: "find_row i s = Some row" "belongs_to row (rx_org ctx)"
    let ?f = "\<lambda>v. v\<lparr>jv_artifacts := append_new (jv_artifacts v) artifacts, jv_updated := clk 0\<rparr>"
    have "row_change (rx_org ctx) i s (put_row i (upd_view ?f row) s)"
      using row by (intro put_view_change [where f = ?f]) (simp_all add: append_new_distinct)
    then show "row_change (rx_org ctx) i s (snd (if \<not> is_terminal (row_state row)
        then (Inl (CasConflict ''job_artifact'' i), s) else (Inr (), put_row i (upd_view ?f row) s)))" by simp
  qed
qed (simp add: job_append_external_def)

interpretation persist: scoped_write "\<lambda>clk ctx i. job_persist_recovery clk ctx i r" True
proof
  fix ctx i s clk
  show "row_change (rx_org ctx) i s (snd (job_persist_recovery clk ctx i r s))"
    unfolding job_persist_recovery_def
    by (rule scoped_change, rule put_view_change [where f = "\<lambda>v. v\<lparr>jv_updated := clk 0\<rparr>"])
      (simp_all add: touch_def)
qed (simp add: job_persist_recovery_def)

lemma fold_domain_simps [simp]:
  "js_jobs (foldl (\<lambda>t r. t\<lparr>js_domain := bt_insert (i, dr_stage r) r (js_domain t)\<rparr>) s rs) = js_jobs s"
  "js_idempotency (foldl (\<lambda>t r. t\<lparr>js_domain := bt_insert (i, dr_stage r) r (js_domain t)\<rparr>) s rs) = js_idempotency s"
  "js_consumed (foldl (\<lambda>t r. t\<lparr>js_domain := bt_insert (i, dr_stage r) r (js_domain t)\<rparr>) s rs) = js_consumed s"
  by (induction rs arbitrary: s) simp_all

interpretation verify: scoped_write "\<lambda>clk ctx i. job_persist_verification clk ctx i expected v" "verification_error v = None"
proof
  fix ctx i s clk
  show "row_change (rx_org ctx) i s (snd (job_persist_verification clk ctx i expected v s))"
  proof (cases "verification_error v")
    case None
    let ?f = "\<lambda>w. w\<lparr>jv_updated := clk 0, jv_pending := pending_after (vf_result v), jv_error := pending_after (vf_result v)\<rparr>"
    have key: "row_change (rx_org ctx) i s (apply_verification clk i expected v row s)"
      if row: "find_row i s = Some row" "belongs_to row (rx_org ctx)" and version: "row_version row = expected" for row
    proof (rule row_changeI [OF row, of "set_version (sat_add64 expected 1) (upd_view ?f row)"])
      let ?row' = "set_version (sat_add64 expected 1) (upd_view ?f row)"
      assume ok: "row_ok i row"
      then have "row_ok i (upd_view ?f row)" by (intro view_update_ok) (simp_all add: row_ok_def)
      then have "row_ok i ?row'"
        using ok version unfolding row_ok_def row_simps by (simp add: sat_add64_def u64_max_def)
      moreover have "row_next row ?row'"
        unfolding row_next_def row_simps using version
        by (cases "jw_claim row") (simp_all add: row_state_view sat_add64_def)
      ultimately show "row_next row ?row' \<and> row_ok i ?row'" by blast
    qed (simp_all add: row_simps apply_verification_def Let_def)
    show ?thesis
      unfolding job_persist_verification_def None option.case
      by (rule scoped_change) (simp add: key awaits_verification_def)
  qed (simp add: job_persist_verification_def)
qed (simp add: job_persist_verification_def)

interpretation claiming: scoped_write "\<lambda>clk ctx i. job_claim_op after clk ctx i worker" True
proof
  fix ctx i s clk
  show "row_change (rx_org ctx) i s (snd (job_claim_op after clk ctx i worker s))"
    unfolding job_claim_op_def
  proof (rule scoped_change)
    fix row
    assume row: "find_row i s = Some row" "belongs_to row (rx_org ctx)"
    let ?gen = "case jw_claim row of Some c \<Rightarrow> jc_generation c + 1 | None \<Rightarrow> 1"
    let ?cl = "\<lambda>expires. \<lparr>jc_job = i, jc_stage = (case jr_stages (jw_record row) of [] \<Rightarrow> ''*'' | sg # _ \<Rightarrow> sg_id sg),
       jc_worker = worker, jc_claimed_at = clk 1, jc_generation = ?gen, jc_expires = expires\<rparr>"
    let ?f = "\<lambda>v. v\<lparr>jv_state := JobRunning, jv_updated := clk 2\<rparr>"
    let ?row' = "\<lambda>expires. set_version (row_version row + 1)
       (upd_view ?f (row\<lparr>jw_claim := Some (?cl expires), jw_claim_context := Some ctx\<rparr>))"
    have key: "row_change (rx_org ctx) i s (put_row i (?row' expires) s)" if open_row: "\<not> is_terminal (row_state row)" for expires
    proof (rule row_changeI [OF row, of "?row' expires"])
      assume ok: "row_ok i row"
      have "claim_next (jw_claim row) (Some (?cl expires))"
        using ok by (auto simp: claim_next_def row_ok_def split: option.split)
      then have "row_next row (?row' expires)"
        using open_row unfolding row_next_def row_simps by simp
      moreover have "row_ok i (?row' expires)"
        using ok unfolding row_ok_def row_simps by (simp split: option.split)
      ultimately show "row_next row (?row' expires) \<and> row_ok i (?row' expires)" ..
    qed (simp_all add: row_simps)
    show "row_change (rx_org ctx) i s (snd (if is_terminal (row_state row) then (Inl (CasConflict ''job'' i), s)
          else if (case jw_claim row of None \<Rightarrow> False
                   | Some current \<Rightarrow> row_state row = JobRunning \<and> \<not> clk 0 > jc_expires current)
          then (Inl StaleClaim, s)
          else
            let generation = ?gen; now = clk 1 in
            case after now of Inl e \<Rightarrow> (Inl (port_of_job_error e), s)
            | Inr expires \<Rightarrow>
                let cl = \<lparr>jc_job = i, jc_stage = (case jr_stages (jw_record row) of [] \<Rightarrow> ''*'' | sg # _ \<Rightarrow> sg_id sg),
                      jc_worker = worker, jc_claimed_at = now, jc_generation = generation, jc_expires = expires\<rparr>;
                    row' = set_version (row_version row + 1)
                      (upd_view ?f (row\<lparr>jw_claim := Some cl, jw_claim_context := Some ctx\<rparr>))
                in (Inr cl, put_row i row' s)))"
      using key by (cases "after (clk 1)") (simp_all add: Let_def)
  qed
qed (simp add: job_claim_op_def)

end
