(* ===== verification/Job_Invariant.thy ===== *)
theory Job_Invariant
  imports Job_Operations
begin

text \<open>
  The steps of the job store, its reachable states, and the invariant: rows are in order, every
  idempotency receipt belongs to a stored job, and the index of consumed plans is exactly the plans
  of the stored jobs.
\<close>

section \<open>Steps\<close>

text \<open>
  A step is one method call. Its label is the organization of the calling context; \<open>renew\<close> has none,
  it is decided by the claim alone. Version counters stay below the end of \<open>u64\<close>.
\<close>

definition versions_fit :: "job_store \<Rightarrow> bool" where
  "versions_fit s \<longleftrightarrow> (\<forall>i row. find_row i s = Some row \<longrightarrow> row_version row < u64_max)"

inductive job_step :: "(string \<Rightarrow> job_error + string) \<Rightarrow> (json \<Rightarrow> string) \<Rightarrow> string option \<Rightarrow> job_store \<Rightarrow> job_store \<Rightarrow> bool"
  for after printed where
  accept: "job_step after printed (Some (rx_org ctx)) s (snd (job_accept printed clk ctx d idem s))"
| claim: "job_step after printed (Some (rx_org ctx)) s (snd (job_claim_op after clk ctx i worker s))"
| renew: "job_step after printed None s (snd (job_renew after clk cl s))"
| record_stage: "job_step after printed (Some (rx_org ctx)) s (snd (job_record_stage clk ctx cl sg s))"
| record_boundary: "job_step after printed (Some (rx_org ctx)) s (snd (job_record_boundary clk ctx cl b s))"
| cas_state: "job_step after printed (Some (rx_org ctx)) s (snd (job_cas_state clk ctx cl expected st s))"
| set_effect: "job_step after printed (Some (rx_org ctx)) s (snd (job_set_effect clk ctx cl eff s))"
| fail_claimed: "job_step after printed (Some (rx_org ctx)) s (snd (job_fail_claimed clk ctx cl reason s))"
| record_progress: "job_step after printed (Some (rx_org ctx)) s (snd (job_record_progress clk ctx cl pg s))"
| record_artifacts: "job_step after printed (Some (rx_org ctx)) s (snd (job_record_artifacts clk ctx cl arts s))"
| record_result: "job_step after printed (Some (rx_org ctx)) s (snd (job_record_domain_result clk ctx cl r s))"
| save_checkpoint: "job_step after printed (Some (rx_org ctx)) s (snd (job_save_checkpoint clk ctx cl cp s))"
| finish: "job_step after printed (Some (rx_org ctx)) s (snd (job_finish clk ctx cl expected st eff pg err pend s))"
| request_cancel: "job_step after printed (Some (rx_org ctx)) s (snd (job_request_cancel clk ctx i s))"
| confirm_cancelled: "job_step after printed (Some (rx_org ctx)) s (snd (job_confirm_cancelled clk ctx i eff s))"
| failed_unstarted: "job_step after printed (Some (rx_org ctx)) s (snd (job_mark_failed_unstarted clk ctx i reason s))"
| mark_pending: "job_step after printed (Some (rx_org ctx)) s (snd (job_mark_pending clk ctx i reason s))"
| append_external: "job_step after printed (Some (rx_org ctx)) s (snd (job_append_external clk ctx i arts s))"
| persist_recovery: "job_step after printed (Some (rx_org ctx)) s (snd (job_persist_recovery clk ctx i res s))"
| persist_verification: "job_step after printed (Some (rx_org ctx)) s (snd (job_persist_verification clk ctx i expected v s))"

inductive job_run :: "(string \<Rightarrow> job_error + string) \<Rightarrow> (json \<Rightarrow> string) \<Rightarrow> job_store \<Rightarrow> job_store \<Rightarrow> bool"
  for after printed where
  here: "job_run after printed s s"
| there: "job_run after printed s s' \<Longrightarrow> versions_fit s' \<Longrightarrow> job_step after printed who s' s'' \<Longrightarrow> job_run after printed s s''"

definition job_reachable :: "(string \<Rightarrow> job_error + string) \<Rightarrow> (json \<Rightarrow> string) \<Rightarrow> job_store \<Rightarrow> bool" where
  "job_reachable after printed s \<longleftrightarrow> job_run after printed job_store_new s"

section \<open>The invariant\<close>

definition plan_of :: "job_row \<Rightarrow> string option" where
  "plan_of row = (let d = jr_definition (jw_record row) in
     case project_frozen_plan (jd_kind d) (jd_payload d) of Inl _ \<Rightarrow> None | Inr p \<Rightarrow> fp_consumed_plan p)"

definition receipt_ok :: "(json \<Rightarrow> string) \<Rightarrow> job_store \<Rightarrow> string \<Rightarrow> idem_receipt \<Rightarrow> bool" where
  "receipt_ok printed s k r \<longleftrightarrow> (\<exists>row. find_row (ir_job r) s = Some row \<and>
     ir_fingerprint r = accept_fingerprint printed (jr_definition (jw_record row)) \<and>
     (\<exists>ctx key. k = scoped_key ctx key \<and> row_org row = rx_org ctx))"

definition store_inv :: "(json \<Rightarrow> string) \<Rightarrow> job_store \<Rightarrow> bool" where
  "store_inv printed s \<longleftrightarrow> bt_wf (js_jobs s) \<and> (\<forall>i row. find_row i s = Some row \<longrightarrow> row_ok i row) \<and>
     (\<forall>k r. bt_get (js_idempotency s) k = Some r \<longrightarrow> receipt_ok printed s k r) \<and>
     (\<forall>org p i. bt_get (js_consumed s) (org, p) = Some i \<longleftrightarrow>
        (\<exists>row. find_row i s = Some row \<and> row_org row = org \<and> plan_of row = Some p))"

text \<open>What every step does to the rows that exist.\<close>

definition rows_next :: "job_store \<Rightarrow> job_store \<Rightarrow> bool" where
  "rows_next s s' \<longleftrightarrow> (\<forall>i row. find_row i s = Some row \<longrightarrow> (\<exists>row'. find_row i s' = Some row' \<and> row_next row row'))"

lemma row_change_inv:
  assumes "row_change org i s s'" "store_inv printed s"
  shows "store_inv printed s' \<and> rows_next s s'"
proof -
  have same: "js_idempotency s' = js_idempotency s" "js_consumed s' = js_consumed s"
    using assms(1) by (auto simp: row_change_def)
  show ?thesis
  proof (cases "js_jobs s' = js_jobs s")
    case True
    then have "find_row j s' = find_row j s" for j by (simp add: find_row_def)
    then show ?thesis using assms(2) same True unfolding store_inv_def rows_next_def receipt_ok_def by simp
  next
    case False
    then obtain row row' where old: "find_row i s = Some row" and new: "js_jobs s' = bt_insert i row' (js_jobs s)"
      and def_same: "jr_definition (jw_record row') = jr_definition (jw_record row)"
      and good: "row_ok i row \<longrightarrow> row_next row row' \<and> row_ok i row'"
      using assms(1) unfolding row_change_def by blast
    have rows: "find_row j s' = (if j = i then Some row' else find_row j s)" for j
      by (simp add: find_row_def new map_laws)
    have ok: "row_next row row'" "row_ok i row'" using good old assms(2) by (simp_all add: store_inv_def)
    have attrs: "row_org row' = row_org row" "plan_of row' = plan_of row"
      using def_same by (simp_all add: row_org_def plan_of_def)
    have "receipt_ok printed s' k r" if receipt: "receipt_ok printed s k r" for k r
    proof -
      obtain row0 ctx key where "find_row (ir_job r) s = Some row0" "k = scoped_key ctx key" "row_org row0 = rx_org ctx"
          "ir_fingerprint r = accept_fingerprint printed (jr_definition (jw_record row0))"
        using receipt unfolding receipt_ok_def by blast
      then show ?thesis using old attrs def_same unfolding receipt_ok_def rows
        by (cases "ir_job r = i") auto
    qed
    moreover have "(\<exists>row0. find_row j s' = Some row0 \<and> row_org row0 = org' \<and> plan_of row0 = Some p) \<longleftrightarrow>
        (\<exists>row0. find_row j s = Some row0 \<and> row_org row0 = org' \<and> plan_of row0 = Some p)" for j org' p
      using old attrs by (simp add: rows)
    moreover have "\<forall>j row0. find_row j s' = Some row0 \<longrightarrow> row_ok j row0"
      using assms(2) ok by (simp add: rows store_inv_def)
    moreover have "bt_wf (js_jobs s')" using assms(2) by (simp add: new store_inv_def bt_wf_insert)
    ultimately have "store_inv printed s'" using assms(2) by (simp add: store_inv_def same)
    moreover have "rows_next s s'" using old ok by (simp add: rows_next_def rows)
    ultimately show ?thesis ..
  qed
qed

lemma store_inv_new: "store_inv printed job_store_new"
  by (simp add: store_inv_def job_store_new_def find_row_def)

section \<open>Renewal and acceptance\<close>

lemma renew_change:
  assumes "store_inv printed s"
  shows "\<exists>org. row_change org (jc_job cl) s (snd (job_renew after clk cl s))"
proof (cases "\<exists>row current expires. find_row (jc_job cl) s = Some row \<and> jw_claim row = Some current \<and>
    jc_worker current = jc_worker cl \<and> jc_generation current = jc_generation cl \<and> \<not> clk 0 > jc_expires current \<and>
    after (clk 0) = Inr expires")
  case True
  then obtain row current expires where row: "find_row (jc_job cl) s = Some row" "jw_claim row = Some current"
    "jc_worker current = jc_worker cl" "jc_generation current = jc_generation cl" "\<not> clk 0 > jc_expires current"
    "after (clk 0) = Inr expires" by blast
  let ?new = "cl\<lparr>jc_claimed_at := clk 0, jc_expires := expires\<rparr>"
  have ok: "row_ok (jc_job cl) row" using assms row(1) by (simp add: store_inv_def)
  have "row_next row (row\<lparr>jw_claim := Some ?new\<rparr>)"
    using ok row unfolding row_next_def row_simps claim_next_def by (auto simp: row_ok_def)
  moreover have "row_ok (jc_job cl) (row\<lparr>jw_claim := Some ?new\<rparr>)"
    using ok row unfolding row_ok_def row_simps by auto
  ultimately have "row_change (row_org row) (jc_job cl) s (put_row (jc_job cl) (row\<lparr>jw_claim := Some ?new\<rparr>) s)"
    using row(1) by (intro row_changeI) (simp_all add: belongs_to_def)
  then show ?thesis using row by (auto simp: job_renew_def Let_def)
next
  case False
  then have "snd (job_renew after clk cl s) = s"
    by (auto simp: job_renew_def Let_def split: option.splits sum.splits)
  then show ?thesis by simp
qed

lemma fresh_row_ok:
  "row_ok (jd_id d) \<lparr>jw_record = fresh_record d now, jw_claim = None, jw_claim_context = None, jw_cancel_at = None\<rparr>"
  by (simp add: row_ok_def fresh_record_def row_view_def row_state_def row_version_def)

lemma accept_cases:
  obtains (invalid) e where "project_frozen_plan (jd_kind d) (jd_payload d) = Inl e"
      "job_accept printed clk ctx d idem s = (Inl (port_of_job_error e), s)"
  | (replay) prev row plan where "project_frozen_plan (jd_kind d) (jd_payload d) = Inr plan"
      "bt_get (js_idempotency s) (scoped_key ctx idem) = Some prev"
      "ir_fingerprint prev = accept_fingerprint printed d" "find_row (ir_job prev) s = Some row"
      "job_accept printed clk ctx d idem s = (Inr (jw_record row), s)"
  | (dangling) prev plan where "project_frozen_plan (jd_kind d) (jd_payload d) = Inr plan"
      "bt_get (js_idempotency s) (scoped_key ctx idem) = Some prev"
      "ir_fingerprint prev = accept_fingerprint printed d" "find_row (ir_job prev) s = None"
      "job_accept printed clk ctx d idem s = (Inl (NotFound (ir_job prev)), s)"
  | (conflict) prev plan where "project_frozen_plan (jd_kind d) (jd_payload d) = Inr plan"
      "bt_get (js_idempotency s) (scoped_key ctx idem) = Some prev"
      "ir_fingerprint prev \<noteq> accept_fingerprint printed d"
      "job_accept printed clk ctx d idem s = (Inl IdempotencyConflict, s)"
  | (consumed) plan p where "project_frozen_plan (jd_kind d) (jd_payload d) = Inr plan"
      "bt_get (js_idempotency s) (scoped_key ctx idem) = None" "fp_consumed_plan plan = Some p"
      "bt_get (js_consumed s) (rx_org ctx, p) \<noteq> None"
      "job_accept printed clk ctx d idem s = (Inl (PlanAlreadyConsumed p), s)"
  | (taken) plan where "project_frozen_plan (jd_kind d) (jd_payload d) = Inr plan"
      "bt_get (js_idempotency s) (scoped_key ctx idem) = None" "find_row (jd_id d) s \<noteq> None"
      "job_accept printed clk ctx d idem s = (Inl (BackendUnavailable ''job identity is already admitted''), s)"
  | (admitted) plan where "project_frozen_plan (jd_kind d) (jd_payload d) = Inr plan"
      "bt_get (js_idempotency s) (scoped_key ctx idem) = None" "find_row (jd_id d) s = None"
      "\<And>p. fp_consumed_plan plan = Some p \<Longrightarrow> bt_get (js_consumed s) (rx_org ctx, p) = None"
      "job_accept printed clk ctx d idem s = (Inr (fresh_record (d\<lparr>jd_org := rx_org ctx\<rparr>) (clk 0)),
         admit_job ctx (d\<lparr>jd_org := rx_org ctx\<rparr>) (scoped_key ctx idem) (accept_fingerprint printed d)
           (fp_consumed_plan plan) (clk 0) s)"
proof (cases "project_frozen_plan (jd_kind d) (jd_payload d)")
  case (Inl e)
  then show ?thesis using invalid by (simp add: job_accept_def)
next
  case plan: (Inr plan)
  have fp: "accept_fingerprint printed (d\<lparr>jd_org := rx_org ctx\<rparr>) = accept_fingerprint printed d"
    by (simp add: accept_fingerprint_def)
  show ?thesis
  proof (cases "bt_get (js_idempotency s) (scoped_key ctx idem)")
    case (Some prev)
    then show ?thesis using plan fp replay [of plan prev] dangling [of plan prev] conflict [of plan prev]
      by (cases "find_row (ir_job prev) s"; cases "ir_fingerprint prev = accept_fingerprint printed d")
        (simp_all add: job_accept_def)
  next
    case none: None
    note facts = plan none
    show ?thesis
    proof (cases "\<exists>p. fp_consumed_plan plan = Some p \<and> bt_get (js_consumed s) (rx_org ctx, p) \<noteq> None")
      case True
      then obtain p where p: "fp_consumed_plan plan = Some p" "bt_get (js_consumed s) (rx_org ctx, p) \<noteq> None" by blast
      then show ?thesis by (intro consumed [OF facts p]) (use facts p in \<open>simp add: job_accept_def\<close>)
    next
      case unused: False
      show ?thesis
      proof (cases "find_row (jd_id d) s")
        case (Some row)
        then show ?thesis
          by (intro taken [OF facts]) (use facts unused in \<open>auto simp: job_accept_def Let_def split: option.split\<close>)
      next
        case free: None
        then show ?thesis
          by (intro admitted [OF facts free])
            (use facts unused fp in \<open>auto simp: job_accept_def Let_def split: option.split\<close>)
      qed
    qed
  qed
qed

lemma accept_inv:
  assumes inv: "store_inv printed s"
  shows "store_inv printed (snd (job_accept printed clk ctx d idem s)) \<and> rows_next s (snd (job_accept printed clk ctx d idem s))"
proof (cases rule: accept_cases [of d printed clk ctx idem s])
  case (admitted plan)
  let ?d = "d\<lparr>jd_org := rx_org ctx\<rparr>"
  let ?new = "\<lparr>jw_record = fresh_record ?d (clk 0), jw_claim = None, jw_claim_context = None, jw_cancel_at = None\<rparr>"
  let ?s' = "admit_job ctx ?d (scoped_key ctx idem) (accept_fingerprint printed d) (fp_consumed_plan plan) (clk 0) s"
  have rows: "find_row j ?s' = (if j = jd_id d then Some ?new else find_row j s)" for j
    by (simp add: find_row_def admit_job_def map_laws)
  have receipts: "bt_get (js_idempotency ?s') k = (if k = scoped_key ctx idem
      then Some \<lparr>ir_job = jd_id d, ir_fingerprint = accept_fingerprint printed d\<rparr> else bt_get (js_idempotency s) k)" for k
    by (simp add: admit_job_def map_laws)
  have new_attrs: "row_org ?new = rx_org ctx" "plan_of ?new = fp_consumed_plan plan"
    "accept_fingerprint printed (jr_definition (jw_record ?new)) = accept_fingerprint printed d"
    using admitted(1) by (simp_all add: row_org_def fresh_record_def plan_of_def accept_fingerprint_def)
  have "receipt_ok printed ?s' k r" if "bt_get (js_idempotency ?s') k = Some r" for k r
  proof (cases "k = scoped_key ctx idem")
    case True
    then show ?thesis using that new_attrs unfolding receipts receipt_ok_def rows by auto
  next
    case False
    then have "receipt_ok printed s k r" using that inv by (simp add: receipts store_inv_def)
    then show ?thesis using admitted(3) unfolding receipt_ok_def rows by (metis option.distinct(1))
  qed
  moreover have "bt_get (js_consumed ?s') (org, p) = Some j \<longleftrightarrow>
      (\<exists>row. find_row j ?s' = Some row \<and> row_org row = org \<and> plan_of row = Some p)" for org p j
  proof -
    have old: "bt_get (js_consumed s) (org, p) = Some j \<longleftrightarrow>
        (\<exists>row. find_row j s = Some row \<and> row_org row = org \<and> plan_of row = Some p)"
      using inv by (simp add: store_inv_def)
    have "bt_get (js_consumed ?s') (org, p) = (if org = rx_org ctx \<and> fp_consumed_plan plan = Some p
        then Some (jd_id d) else bt_get (js_consumed s) (org, p))"
      by (auto simp: admit_job_def map_laws split: option.split)
    then show ?thesis
      using old admitted(3,4) new_attrs by (auto simp: rows)
  qed
  moreover have "\<forall>j row. find_row j ?s' = Some row \<longrightarrow> row_ok j row"
    using inv fresh_row_ok [of ?d "clk 0"] by (simp add: rows store_inv_def)
  moreover have "bt_wf (js_jobs ?s')" using inv by (simp add: admit_job_def bt_wf_insert store_inv_def)
  ultimately have "store_inv printed ?s'" by (simp add: store_inv_def)
  moreover have "rows_next s ?s'" using admitted(3) by (auto simp: rows_next_def rows)
  ultimately show ?thesis by (simp add: admitted(5))
qed (use inv in \<open>simp_all add: rows_next_def\<close>)

lemma step_inv:
  assumes "job_step after printed who s s'" "store_inv printed s"
  shows "store_inv printed s' \<and> rows_next s s'"
  using assms
proof (induction rule: job_step.induct)
  case (renew s clk cl)
  then show ?case using renew_change row_change_inv by blast
next
  case (accept ctx s clk d idem)
  then show ?case by (rule accept_inv)
qed (rule row_change_inv [OF claiming.changes] row_change_inv [OF stage.changes] row_change_inv [OF boundary.changes]
    row_change_inv [OF cas.changes] row_change_inv [OF eff.changes] row_change_inv [OF failc.changes]
    row_change_inv [OF prog.changes] row_change_inv [OF arts.changes] row_change_inv [OF domain.changes]
    row_change_inv [OF ckpt.changes] row_change_inv [OF finish.changes] row_change_inv [OF cancel.changes]
    row_change_inv [OF confirm.changes] row_change_inv [OF unstarted.changes] row_change_inv [OF pending.changes]
    row_change_inv [OF external.changes] row_change_inv [OF persist.changes] row_change_inv [OF verify.changes],
    assumption)+

lemma run_inv: "job_run after printed s s' \<Longrightarrow> store_inv printed s \<Longrightarrow> store_inv printed s'"
  by (induction rule: job_run.induct) (auto dest: step_inv)

lemma job_reachable_new: "job_reachable after printed job_store_new"
  unfolding job_reachable_def by (rule job_run.here)

lemma reachable_inv: "job_reachable after printed s \<Longrightarrow> store_inv printed s"
  unfolding job_reachable_def by (rule run_inv [OF _ store_inv_new])

lemma run_trans: "job_run after printed s2 s3 \<Longrightarrow> job_run after printed s1 s2 \<Longrightarrow> job_run after printed s1 s3"
  by (induction rule: job_run.induct) (auto intro: job_run.there)

lemma reachable_run: "job_reachable after printed s \<Longrightarrow> job_run after printed s s' \<Longrightarrow> job_reachable after printed s'"
  unfolding job_reachable_def using run_trans by blast

end
