(* ===== verification/Job_Demo.thy ===== *)
theory Job_Demo
  imports Job_Invariant
begin

text \<open>
  Concrete states of the job store: two organizations each submit a job, a worker claims the first
  one, its lease runs out and a second worker takes it over.
\<close>

definition demo_after :: "string \<Rightarrow> job_error + string" where
  "demo_after now = Inr (now @ ''+ttl'')"

definition demo_printed :: "json \<Rightarrow> string" where
  "demo_printed payload = (case json_get ''consumedPlanId'' payload of Some (JString s) \<Rightarrow> s | _ \<Rightarrow> ''{}'')"

definition at_time :: "string \<Rightarrow> clock" where
  "at_time t n = t"

definition demo_ctx :: "string \<Rightarrow> request_context" where
  "demo_ctx org = \<lparr>rx_org = org, rx_principal = ''user'', rx_auth_session = None, rx_client = ''cli'',
     rx_request = ''req'', rx_delegation = None\<rparr>"

definition demo_payload :: "string \<Rightarrow> json" where
  "demo_payload plan = JObject [(''consumedPlanId'', JString plan), (''planVersion'', JUnsigned 1),
     (''handlerVersion'', JUnsigned 1), (''checkpointVersion'', JUnsigned 1)]"

definition demo_definition :: "string \<Rightarrow> string \<Rightarrow> job_definition" where
  "demo_definition i plan = \<lparr>jd_id = i, jd_org = [], jd_kind = ''dataSyncApply'',
     jd_owner = OwnerEditor ''cli'' ''tab'', jd_payload = demo_payload plan, jd_created = ''t0''\<rparr>"

definition demo_accept :: "string \<Rightarrow> string \<Rightarrow> string \<Rightarrow> job_store \<Rightarrow> job_store" where
  "demo_accept org i plan s =
     snd (job_accept demo_printed (at_time ''t0'') (demo_ctx org) (demo_definition i plan) ''key'' s)"

definition demo_store1 :: job_store where
  "demo_store1 = demo_accept ''one'' ''job1'' ''plan1'' job_store_new"

definition demo_store2 :: job_store where
  "demo_store2 = demo_accept ''two'' ''job2'' ''plan2'' demo_store1"

definition demo_claim1 :: job_claim where
  "demo_claim1 = \<lparr>jc_job = ''job1'', jc_stage = ''*'', jc_worker = ''w1'', jc_claimed_at = ''t1'',
     jc_generation = 1, jc_expires = ''t1+ttl''\<rparr>"

definition demo_store3 :: job_store where
  "demo_store3 = snd (job_claim_op demo_after (at_time ''t1'') (demo_ctx ''one'') ''job1'' ''w1'' demo_store2)"

definition demo_claim2 :: job_claim where
  "demo_claim2 = \<lparr>jc_job = ''job1'', jc_stage = ''*'', jc_worker = ''w2'', jc_claimed_at = ''t2'',
     jc_generation = 2, jc_expires = ''t2+ttl''\<rparr>"

definition demo_store4 :: job_store where
  "demo_store4 = snd (job_claim_op demo_after (at_time ''t2'') (demo_ctx ''one'') ''job1'' ''w2'' demo_store3)"

definition demo_store5 :: job_store where
  "demo_store5 = snd (job_finish (at_time ''t2'') (demo_ctx ''one'') demo_claim2 3 JobSucceeded EffCompleted no_progress
     None None demo_store4)"

text \<open>
  The same stores written out. The fingerprint of a request stays symbolic: nothing below depends on
  its digits.
\<close>

definition demo_fp :: "string \<Rightarrow> string" where
  "demo_fp plan = accept_fingerprint demo_printed (demo_definition [] plan)"

definition demo_row :: "string \<Rightarrow> string \<Rightarrow> string \<Rightarrow> job_row" where
  "demo_row org i plan = \<lparr>jw_record = fresh_record ((demo_definition i plan)\<lparr>jd_org := org\<rparr>) ''t0'',
     jw_claim = None, jw_claim_context = None, jw_cancel_at = None\<rparr>"

definition demo_held :: "job_claim \<Rightarrow> nat \<Rightarrow> job_row" where
  "demo_held cl v = set_version v (upd_view (\<lambda>w. w\<lparr>jv_state := JobRunning, jv_updated := jc_claimed_at cl\<rparr>)
     ((demo_row ''one'' ''job1'' ''plan1'')\<lparr>jw_claim := Some cl, jw_claim_context := Some (demo_ctx ''one'')\<rparr>))"

definition demo_with :: "job_row \<Rightarrow> job_store" where
  "demo_with row = \<lparr>js_jobs = [(''job1'', row), (''job2'', demo_row ''two'' ''job2'' ''plan2'')],
     js_idempotency = [(''one|user|key'', \<lparr>ir_job = ''job1'', ir_fingerprint = demo_fp ''plan1''\<rparr>),
       (''two|user|key'', \<lparr>ir_job = ''job2'', ir_fingerprint = demo_fp ''plan2''\<rparr>)],
     js_consumed = [((''one'', ''plan1''), ''job1''), ((''two'', ''plan2''), ''job2'')],
     js_checkpoints = [], js_boundaries = [], js_recovery = [], js_domain = []\<rparr>"

lemma demo_plan:
  "trim p \<noteq> [] \<Longrightarrow> project_frozen_plan ''dataSyncApply'' (demo_payload p) =
     Inr \<lparr>fp_kind = ''dataSyncApply'', fp_is_apply = True, fp_consumed_plan = Some p, fp_plan_version = 1,
       fp_handler_version = 1, fp_checkpoint_version = 1, fp_selection_revision = None\<rparr>"
  by (simp add: project_frozen_plan_def demo_payload_def apply_kinds_def consumed_plan_id_def required_u64_def
      supported_plan_major_def selection_revision_def)

lemma demo_keys:
  "trim ''plan1'' \<noteq> []" "trim ''plan2'' \<noteq> []" "''one|user|key'' < ''two|user|key''" "''job1'' < ''job2''"
  "(''one'', ''plan1'') < (''two'', ''plan2'')"
  "\<not> ''t2'' \<le> ''t1+ttl''" "\<not> ''t2+ttl'' < ''t2''" "''t1+ttl'' < ''t2''" "\<not> ''t1+ttl'' < ''t1''"
  by code_simp+

lemmas demo_accept_simps = demo_accept_def job_accept_def demo_ctx_def demo_definition_def demo_plan demo_keys Let_def
  bt_get_def find_row_def scoped_key_def admit_job_def demo_row_def demo_fp_def accept_fingerprint_def
  fresh_record_def at_time_def

lemmas demo_claim_simps = job_claim_op_def own_row_def belongs_to_def row_org_def row_state_def row_view_def row_version_def
  is_terminal_def set_version_def upd_view_def put_row_def bt_get_def find_row_def demo_row_def demo_held_def demo_with_def
  fresh_record_def demo_definition_def demo_ctx_def demo_after_def at_time_def demo_keys Let_def

lemma demo_store1_eq:
  "demo_store1 = \<lparr>js_jobs = [(''job1'', demo_row ''one'' ''job1'' ''plan1'')],
     js_idempotency = [(''one|user|key'', \<lparr>ir_job = ''job1'', ir_fingerprint = demo_fp ''plan1''\<rparr>)],
     js_consumed = [((''one'', ''plan1''), ''job1'')], js_checkpoints = [],
     js_boundaries = [], js_recovery = [], js_domain = []\<rparr>"
  by (simp add: demo_store1_def job_store_new_def demo_accept_simps)

lemma demo_store2_eq: "demo_store2 = demo_with (demo_row ''one'' ''job1'' ''plan1'')"
  by (simp add: demo_store2_def demo_store1_eq demo_with_def demo_accept_simps)

lemma demo_claims:
  "job_claim_op demo_after (at_time ''t1'') (demo_ctx ''one'') ''job1'' ''w1'' demo_store2 =
     (Inr demo_claim1, demo_with (demo_held demo_claim1 2))"
  "job_claim_op demo_after (at_time ''t2'') (demo_ctx ''one'') ''job1'' ''w2'' (demo_with (demo_held demo_claim1 2)) =
     (Inr demo_claim2, demo_with (demo_held demo_claim2 3))"
  by (simp_all add: demo_store2_eq demo_claim1_def demo_claim2_def demo_claim_simps)

lemma demo_store3_eq: "demo_store3 = demo_with (demo_held demo_claim1 2)"
  unfolding demo_store3_def demo_claims by simp

lemma demo_store4_eq: "demo_store4 = demo_with (demo_held demo_claim2 3)"
  unfolding demo_store4_def demo_store3_eq demo_claims by simp

lemma demo_first_accept:
  "job_accept demo_printed (at_time ''t0'') (demo_ctx ''one'') (demo_definition ''job1'' ''plan1'') ''key'' job_store_new =
     (Inr (fresh_record ((demo_definition ''job1'' ''plan1'')\<lparr>jd_org := ''one''\<rparr>) ''t0''), demo_store1)"
  by (simp add: demo_store1_eq job_store_new_def demo_accept_simps)

text \<open>Reachability needs the version bound in every state passed.\<close>

lemma versions_fitI: "list_all (\<lambda>e. row_version (snd e) < u64_max) (js_jobs s) \<Longrightarrow> versions_fit s"
  by (fastforce simp: versions_fit_def find_row_def bt_get_def list_all_iff dest: map_of_SomeD)

lemma run_step:
  "job_step after printed who s s' \<Longrightarrow> list_all (\<lambda>e. row_version (snd e) < u64_max) (js_jobs s) \<Longrightarrow> job_run after printed s s'"
  by (rule job_run.there [OF job_run.here versions_fitI])

lemma demo_fit:
  "list_all (\<lambda>e. row_version (snd e) < u64_max) (js_jobs job_store_new)"
  "list_all (\<lambda>e. row_version (snd e) < u64_max) (js_jobs demo_store1)"
  "list_all (\<lambda>e. row_version (snd e) < u64_max) (js_jobs demo_store2)"
  "list_all (\<lambda>e. row_version (snd e) < u64_max) (js_jobs demo_store3)"
  "list_all (\<lambda>e. row_version (snd e) < u64_max) (js_jobs demo_store4)"
  by (simp_all add: demo_store1_eq demo_store2_eq demo_store3_eq demo_store4_eq job_store_new_def demo_with_def demo_row_def
      demo_held_def set_version_def upd_view_def row_version_def fresh_record_def u64_max_def)

lemma demo_steps:
  "job_step demo_after demo_printed (Some ''one'') job_store_new demo_store1"
  "job_step demo_after demo_printed (Some ''two'') demo_store1 demo_store2"
  "job_step demo_after demo_printed (Some ''one'') demo_store2 demo_store3"
  "job_step demo_after demo_printed (Some ''one'') demo_store3 demo_store4"
  "job_step demo_after demo_printed (Some ''one'') demo_store4 demo_store5"
  using job_step.accept [of demo_after demo_printed "demo_ctx ''one''"] job_step.accept [of demo_after demo_printed "demo_ctx ''two''"]
    job_step.claim [of demo_after demo_printed "demo_ctx ''one''"] job_step.finish [of demo_after demo_printed "demo_ctx ''one''"]
  by (simp_all add: demo_store1_def demo_store2_def demo_store3_def demo_store4_def demo_store5_def demo_accept_def demo_ctx_def)

lemma demo_runs:
  "job_run demo_after demo_printed job_store_new demo_store1" "job_run demo_after demo_printed demo_store1 demo_store2"
  "job_run demo_after demo_printed demo_store2 demo_store3" "job_run demo_after demo_printed demo_store3 demo_store4"
  "job_run demo_after demo_printed demo_store4 demo_store5"
  by (rule run_step, rule demo_steps, rule demo_fit)+

lemma demo_jobs_reachable:
  "job_reachable demo_after demo_printed demo_store1" "job_reachable demo_after demo_printed demo_store2"
  "job_reachable demo_after demo_printed demo_store3" "job_reachable demo_after demo_printed demo_store4"
  "job_reachable demo_after demo_printed demo_store5"
proof -
  show r1: "job_reachable demo_after demo_printed demo_store1"
    unfolding job_reachable_def by (rule demo_runs)
  show r2: "job_reachable demo_after demo_printed demo_store2" by (rule reachable_run [OF r1 demo_runs(2)])
  show r3: "job_reachable demo_after demo_printed demo_store3" by (rule reachable_run [OF r2 demo_runs(3)])
  show r4: "job_reachable demo_after demo_printed demo_store4" by (rule reachable_run [OF r3 demo_runs(4)])
  show "job_reachable demo_after demo_printed demo_store5" by (rule reachable_run [OF r4 demo_runs(5)])
qed

end
