(* ===== verification/Job_Theorems.thy ===== *)
theory Job_Theorems
  imports Job_Demo
begin

text \<open>
  Properties of the job store over all its reachable states: rows stay in order and a plan is
  consumed once, the history of a job is monotone and ends in a terminal state, a superseded claim
  is fenced off, acceptance is idempotent, and organizations do not see or change each other's jobs.
\<close>

section \<open>Rows along a run\<close>

definition row_later :: "job_row \<Rightarrow> job_row \<Rightarrow> bool" where
  "row_later row row' \<longleftrightarrow> jr_definition (jw_record row') = jr_definition (jw_record row) \<and>
     row_version row \<le> row_version row' \<and>
     (is_terminal (row_state row) \<longrightarrow> row_state row' = row_state row) \<and>
     (jv_cancel_requested (row_view row) \<longrightarrow> jv_cancel_requested (row_view row')) \<and>
     (\<forall>c. jw_claim row = Some c \<longrightarrow> is_terminal (row_state row') \<or>
        (\<exists>c'. jw_claim row' = Some c' \<and> jc_generation c \<le> jc_generation c' \<and>
           (jc_generation c = jc_generation c' \<longrightarrow> jc_worker c = jc_worker c')))"

lemma row_later_refl: "row_later row row"
  by (simp add: row_later_def)

lemma row_later_next:
  assumes "row_later row row'" "row_next row' row''" "row_version row' < u64_max"
  shows "row_later row row''"
proof -
  have "is_terminal (row_state row'') \<or> (\<exists>c'. jw_claim row'' = Some c' \<and> jc_generation c \<le> jc_generation c' \<and>
      (jc_generation c = jc_generation c' \<longrightarrow> jc_worker c = jc_worker c'))" if c: "jw_claim row = Some c" for c
  proof (cases "is_terminal (row_state row')")
    case True
    then show ?thesis using assms(2) by (simp add: row_next_def)
  next
    case False
    then obtain c' where c': "jw_claim row' = Some c'" "jc_generation c \<le> jc_generation c'"
        "jc_generation c = jc_generation c' \<longrightarrow> jc_worker c = jc_worker c'"
      using assms(1) c unfolding row_later_def by blast
    show ?thesis
    proof (cases "jw_claim row''")
      case None
      then show ?thesis using assms(2) c'(1) by (simp add: row_next_def)
    next
      case (Some d)
      then have "claim_next (Some c') (Some d)" using assms(2) c'(1) by (simp add: row_next_def)
      then show ?thesis using c' Some by (auto simp: claim_next_def)
    qed
  qed
  then show ?thesis using assms unfolding row_later_def row_next_def by auto
qed

lemma run_later:
  assumes "job_run after printed s s'" "store_inv printed s" "find_row i s = Some row"
  shows "\<exists>row'. find_row i s' = Some row' \<and> row_later row row'"
  using assms
proof (induction rule: job_run.induct)
  case (here s)
  then show ?case using row_later_refl by blast
next
  case (there s s' who s'')
  then obtain row' where row': "find_row i s' = Some row'" "row_later row row'" by blast
  have "store_inv printed s'" using there run_inv by blast
  then have "rows_next s' s''" using step_inv there by blast
  then obtain row'' where "find_row i s'' = Some row''" "row_next row' row''"
    using row'(1) unfolding rows_next_def by blast
  moreover have "row_version row' < u64_max" using there row'(1) unfolding versions_fit_def by blast
  ultimately show ?case using row_later_next row'(2) by blast
qed

section \<open>Claims\<close>

lemma claim_success:
  assumes "job_claim_op after clk ctx i w s = (Inr cl, s')"
  obtains row row' where "find_row i s = Some row" "row_org row = rx_org ctx" "\<not> is_terminal (row_state row)"
    "find_row i s' = Some row'" "jw_claim row' = Some cl" "row_state row' = JobRunning" "jc_job cl = i" "jc_worker cl = w"
    "jc_generation cl = (case jw_claim row of Some c \<Rightarrow> jc_generation c + 1 | None \<Rightarrow> 1)"
    "\<And>c. jw_claim row = Some c \<Longrightarrow> row_state row = JobRunning \<Longrightarrow> clk 0 > jc_expires c"
proof -
  obtain row where row: "own_row ctx i s = Some row"
    using assms by (cases "own_row ctx i s") (simp_all add: job_claim_op_def)
  have open_row: "\<not> is_terminal (row_state row)"
    using assms row by (auto simp: job_claim_op_def)
  let ?held = "case jw_claim row of None \<Rightarrow> False | Some current \<Rightarrow> row_state row = JobRunning \<and> \<not> clk 0 > jc_expires current"
  have free: "\<not> ?held"
    using assms row open_row by (auto simp: job_claim_op_def)
  obtain expires where expires: "after (clk 1) = Inr expires"
    using assms row open_row free by (cases "after (clk 1)") (simp_all add: job_claim_op_def Let_def)
  let ?cl = "\<lparr>jc_job = i, jc_stage = (case jr_stages (jw_record row) of [] \<Rightarrow> ''*'' | sg # _ \<Rightarrow> sg_id sg),
     jc_worker = w, jc_claimed_at = clk 1,
     jc_generation = (case jw_claim row of Some c \<Rightarrow> jc_generation c + 1 | None \<Rightarrow> 1), jc_expires = expires\<rparr>"
  let ?row' = "set_version (row_version row + 1) (upd_view (\<lambda>v. v\<lparr>jv_state := JobRunning, jv_updated := clk 2\<rparr>)
     (row\<lparr>jw_claim := Some ?cl, jw_claim_context := Some ctx\<rparr>))"
  have res: "cl = ?cl" "s' = put_row i ?row' s"
    using assms row open_row free expires by (auto simp: job_claim_op_def Let_def)
  have "clk 0 > jc_expires c" if "jw_claim row = Some c" "row_state row = JobRunning" for c
    using free that by simp
  moreover have "jw_claim ?row' = Some ?cl" "row_state ?row' = JobRunning" by (simp_all add: row_simps)
  ultimately show ?thesis
    using that [of row ?row'] row open_row res by (simp add: own_row_Some belongs_to_def)
qed

lemma newer_generation_stale:
  assumes "find_row (jc_job cl) s = Some row"
    and "jw_claim row = None \<or> (\<exists>c. jw_claim row = Some c \<and> jc_generation c \<noteq> jc_generation cl)"
  shows "check_claim s ctx cl now = Some JobStaleClaim" "job_renew after clk cl s = (Inl StaleClaim, s)"
  using assms by (auto simp: check_claim_def job_renew_def)

section \<open>Properties\<close>

text \<open>
  C8. In every reachable store a row sits under its own job id, a terminal job has no claim, a running
  job has one, and a claim is for the row that holds it. Stage, execution and artifact lists carry no
  duplicates. A frozen plan is consumed by exactly one job of its organization: the index of consumed
  plans and the plans of the stored jobs are the same relation, and it is a function.
\<close>

theorem job_store_sound:
  assumes "job_reachable after printed s" "find_row i s = Some row"
  shows "jv_id (row_view row) = i \<and> jd_id (jr_definition (jw_record row)) = i \<and>
    (if is_terminal (row_state row) then jw_claim row = None
     else row_state row = JobQueued \<or> (\<exists>c. jw_claim row = Some c \<and> jc_job c = i \<and> 0 < jc_generation c)) \<and>
    distinct (map sg_id (jr_stages (jw_record row))) \<and> distinct (jv_executions (row_view row)) \<and>
    distinct (jv_artifacts (row_view row)) \<and>
    (case plan_of row of None \<Rightarrow> True | Some p \<Rightarrow> bt_get (js_consumed s) (row_org row, p) = Some i)"
proof -
  have inv: "store_inv printed s" using reachable_inv assms(1) .
  then have ok: "row_ok i row" using assms(2) by (simp add: store_inv_def)
  have "bt_get (js_consumed s) (row_org row, p) = Some i" if "plan_of row = Some p" for p
    using inv assms(2) that by (simp add: store_inv_def)
  moreover have "is_terminal (row_state row) \<or> row_state row = JobQueued \<or> row_state row = JobRunning"
    by (cases "row_state row") simp_all
  ultimately show ?thesis using ok by (auto simp: row_ok_def split: option.split)
qed

text \<open>
  C20. The history of a job is monotone. Along any run the definition, and with it the organization,
  the owner and the payload, never changes; the version never goes back; a cancel request is never
  forgotten; and once the job is terminal its state stays what it is and nobody claims it again.
\<close>

theorem job_history_monotone:
  assumes "job_reachable after printed s" "job_run after printed s s'" "find_row i s = Some row"
  shows "\<exists>row'. find_row i s' = Some row' \<and>
    jr_definition (jw_record row') = jr_definition (jw_record row) \<and>
    row_version row \<le> row_version row' \<and>
    (jv_cancel_requested (row_view row) \<longrightarrow> jv_cancel_requested (row_view row')) \<and>
    (is_terminal (row_state row) \<longrightarrow> row_state row' = row_state row \<and> jw_claim row' = None \<and>
       (\<forall>clk ctx w. \<exists>e. job_claim_op after clk ctx i w s' = (Inl e, s')))"
proof -
  have inv: "store_inv printed s" using reachable_inv assms(1) .
  obtain row' where row': "find_row i s' = Some row'" "row_later row row'"
    using run_later [OF assms(2) inv assms(3)] by blast
  have ok: "row_ok i row'" using run_inv [OF assms(2) inv] row'(1) by (simp add: store_inv_def)
  have "\<exists>e. job_claim_op after clk ctx i w s' = (Inl e, s')" if "is_terminal (row_state row')" for clk ctx w
    using row'(1) that by (simp add: job_claim_op_def own_row_def)
  then show ?thesis using row' ok unfolding row_later_def row_ok_def by auto
qed

text \<open>
  C5. A claim that was taken over is fenced off for good. When a job is claimed a second time the new
  claim carries a larger generation, and from then on, whatever happens in between, the old claim can
  neither be renewed nor pass any claim-scoped write, in any context: every one of them is refused
  and leaves the store as it was.
\<close>

theorem superseded_claim_is_fenced:
  assumes "job_reachable after printed s0" "job_claim_op after clk1 ctx1 i w1 s0 = (Inr old, s1)"
    and "job_run after printed s1 s2" "job_claim_op after clk2 ctx2 i w2 s2 = (Inr new, s3)"
    and "job_run after printed s3 s4"
  shows "jc_generation old < jc_generation new \<and>
    job_renew after clk old s4 = (Inl StaleClaim, s4) \<and>
    job_record_stage clk ctx old sg s4 = (Inl StaleClaim, s4) \<and>
    job_record_boundary clk ctx old b s4 = (Inl StaleClaim, s4) \<and>
    job_cas_state clk ctx old expected st s4 = (Inl StaleClaim, s4) \<and>
    job_set_effect clk ctx old eff s4 = (Inl StaleClaim, s4) \<and>
    job_fail_claimed clk ctx old reason s4 = (Inl StaleClaim, s4) \<and>
    job_record_progress clk ctx old pg s4 = (Inl StaleClaim, s4) \<and>
    job_record_artifacts clk ctx old arts s4 = (Inl StaleClaim, s4) \<and>
    job_save_checkpoint clk ctx old cp s4 = (Inl StaleClaim, s4) \<and>
    (\<exists>e. job_record_domain_result clk ctx old r s4 = (Inl e, s4)) \<and>
    (\<exists>e. job_finish clk ctx old expected st eff pg err pend s4 = (Inl e, s4))"
proof -
  have inv0: "store_inv printed s0" using reachable_inv assms(1) .
  have step1: "job_step after printed (Some (rx_org ctx1)) s0 s1"
    using job_step.claim [of after printed ctx1 s0 clk1 i w1] assms(2) by simp
  then have inv1: "store_inv printed s1" using step_inv inv0 by blast
  then have inv2: "store_inv printed s2" using run_inv assms(3) by blast
  have "job_step after printed (Some (rx_org ctx2)) s2 s3"
    using job_step.claim [of after printed ctx2 s2 clk2 i w2] assms(4) by simp
  then have inv3: "store_inv printed s3" using step_inv inv2 by blast
  obtain row1 where row1: "find_row i s1 = Some row1" "jw_claim row1 = Some old" "jc_job old = i"
    using claim_success [OF assms(2)] by metis
  obtain row2 where row2: "find_row i s2 = Some row2" "row_later row1 row2"
    using run_later [OF assms(3) inv1 row1(1)] by blast
  obtain row2' row3 where claim2: "find_row i s2 = Some row2'" "\<not> is_terminal (row_state row2')"
    "find_row i s3 = Some row3" "jw_claim row3 = Some new"
    "jc_generation new = (case jw_claim row2' of Some c \<Rightarrow> jc_generation c + 1 | None \<Rightarrow> 1)"
    using claim_success [OF assms(4)] by metis
  obtain c where "jw_claim row2 = Some c" "jc_generation old \<le> jc_generation c"
    using row2 row1(2) claim2(1,2) unfolding row_later_def by auto
  then have gen: "jc_generation old < jc_generation new" using claim2(1,5) row2(1) by simp
  obtain row4 where row4: "find_row i s4 = Some row4" "row_later row3 row4"
    using run_later [OF assms(5) inv3 claim2(3)] by blast
  have "row_ok i row4" using run_inv [OF assms(5) inv3] row4(1) by (simp add: store_inv_def)
  then have "jw_claim row4 = None \<or> (\<exists>c. jw_claim row4 = Some c \<and> jc_generation c \<noteq> jc_generation old)"
    using row4(2) claim2(4) gen unfolding row_later_def row_ok_def by fastforce
  note stale = newer_generation_stale [OF _ this, simplified row1(3), OF row4(1)]
  have checked: "check_claim s4 ctx old (clk 0) = Some JobStaleClaim" using stale(1) .
  have "\<exists>e. job_record_domain_result clk ctx old r s4 = (Inl e, s4)"
    using checked by (simp add: job_record_domain_result_def fenced_refuses split: option.split)
  moreover have "\<exists>e. job_finish clk ctx old expected st eff pg err pend s4 = (Inl e, s4)"
    using checked by (simp add: job_finish_def fenced_refuses)
  ultimately show ?thesis
    using gen stale(2) stage.refuses [of s4 ctx old clk, OF TrueI checked] boundary.refuses [of s4 ctx old clk, OF TrueI checked] cas.refuses [of s4 ctx old clk, OF TrueI checked]
      eff.refuses [of s4 ctx old clk, OF TrueI checked] failc.refuses [of s4 ctx old clk, OF TrueI checked] prog.refuses [of s4 ctx old clk, OF TrueI checked]
      arts.refuses [of s4 ctx old clk, OF TrueI checked] ckpt.refuses [of s4 ctx old clk, OF TrueI checked] by simp
qed

section \<open>Acceptance over time\<close>

lemma row_change_indexes: "row_change org i s s' \<Longrightarrow> js_idempotency s' = js_idempotency s"
  by (simp add: row_change_def)

lemma accept_receipts:
  assumes "bt_get (js_idempotency s) k = Some r"
  shows "bt_get (js_idempotency (snd (job_accept printed clk ctx d idem s))) k = Some r"
  using assms by (cases rule: accept_cases [of d printed clk ctx idem s]) (auto simp: admit_job_def map_laws)

lemma step_receipts:
  assumes "job_step after printed who s s'" "store_inv printed s" "bt_get (js_idempotency s) k = Some r"
  shows "bt_get (js_idempotency s') k = Some r"
  using assms
proof (induction rule: job_step.induct)
  case (accept ctx s clk d idem)
  then show ?case by (simp add: accept_receipts)
next
  case (renew s clk cl)
  then show ?case using renew_change row_change_indexes by metis
qed (simp_all add: row_change_indexes [OF claiming.changes] row_change_indexes [OF stage.changes]
    row_change_indexes [OF boundary.changes] row_change_indexes [OF cas.changes] row_change_indexes [OF eff.changes]
    row_change_indexes [OF failc.changes] row_change_indexes [OF prog.changes] row_change_indexes [OF arts.changes]
    row_change_indexes [OF domain.changes] row_change_indexes [OF ckpt.changes] row_change_indexes [OF finish.changes]
    row_change_indexes [OF cancel.changes] row_change_indexes [OF confirm.changes] row_change_indexes [OF unstarted.changes]
    row_change_indexes [OF pending.changes] row_change_indexes [OF external.changes] row_change_indexes [OF persist.changes]
    row_change_indexes [OF verify.changes])

lemma run_receipts:
  "job_run after printed s s' \<Longrightarrow> store_inv printed s \<Longrightarrow> bt_get (js_idempotency s) k = Some r \<Longrightarrow>
   bt_get (js_idempotency s') k = Some r"
  by (induction rule: job_run.induct) (auto dest: run_inv step_receipts)

text \<open>After a successful acceptance the store holds the receipt of the key and the job it names.\<close>

lemma accepted_receipt:
  assumes "store_inv printed s" "job_accept printed clk ctx d idem s = (Inr r, s1)"
  obtains i row where "bt_get (js_idempotency s1) (scoped_key ctx idem) =
      Some \<lparr>ir_job = i, ir_fingerprint = accept_fingerprint printed d\<rparr>"
    "find_row i s1 = Some row" "jw_record row = r"
proof (cases rule: accept_cases [of d printed clk ctx idem s])
  case (replay prev row plan)
  then have "s1 = s" "jw_record row = r" using assms(2) by simp_all
  then show ?thesis using that [of "ir_job prev" row] replay by (cases prev) simp
next
  case (admitted plan)
  then show ?thesis using assms(2) that [of "jd_id d"] by (auto simp: admit_job_def map_laws find_row_def)
qed (use assms(2) in simp_all)

text \<open>
  C16. Acceptance is idempotent for ever. Once a request was accepted under a key, the same request in
  the same context and under the same key is answered with the same job, whatever happened to it
  since; a different request under that key is refused as a conflict; and a second job that wants to
  consume the same frozen plan in that organization is refused. None of the three changes the store.
\<close>

theorem accept_is_idempotent:
  assumes "job_reachable after printed s" "job_accept printed clk ctx d idem s = (Inr r, s1)" "job_run after printed s1 s2"
  shows "(\<forall>clk' d'. jd_kind d' = jd_kind d \<and> jd_payload d' = jd_payload d \<longrightarrow>
      (\<exists>r'. job_accept printed clk' ctx d' idem s2 = (Inr r', s2) \<and> jr_definition r' = jr_definition r)) \<and>
    (\<forall>clk' d' plan. project_frozen_plan (jd_kind d') (jd_payload d') = Inr plan \<and>
      accept_fingerprint printed d' \<noteq> accept_fingerprint printed d \<longrightarrow>
      job_accept printed clk' ctx d' idem s2 = (Inl IdempotencyConflict, s2)) \<and>
    (\<forall>clk' ctx' d' idem' plan plan' p. project_frozen_plan (jd_kind (jr_definition r)) (jd_payload (jr_definition r)) = Inr plan \<and>
      project_frozen_plan (jd_kind d') (jd_payload d') = Inr plan' \<and> fp_consumed_plan plan = Some p \<and>
      fp_consumed_plan plan' = Some p \<and> rx_org ctx' = jd_org (jr_definition r) \<and> job_receipt_for ctx' idem' s2 = None \<longrightarrow>
      job_accept printed clk' ctx' d' idem' s2 = (Inl (PlanAlreadyConsumed p), s2))"
proof -
  have inv: "store_inv printed s" using reachable_inv assms(1) .
  have inv1: "store_inv printed s1" using accept_inv [OF inv, of clk ctx d idem] assms(2) by simp
  then have inv2: "store_inv printed s2" using run_inv assms(3) by blast
  obtain i row where acc: "bt_get (js_idempotency s1) (scoped_key ctx idem) =
      Some \<lparr>ir_job = i, ir_fingerprint = accept_fingerprint printed d\<rparr>" "find_row i s1 = Some row" "jw_record row = r"
    using accepted_receipt [OF inv assms(2)] .
  have receipt: "bt_get (js_idempotency s2) (scoped_key ctx idem) =
      Some \<lparr>ir_job = i, ir_fingerprint = accept_fingerprint printed d\<rparr>"
    using run_receipts [OF assms(3) inv1 acc(1)] .
  obtain row2 where row2: "find_row i s2 = Some row2" "jr_definition (jw_record row2) = jr_definition r"
    using run_later [OF assms(3) inv1 acc(2)] acc(3) unfolding row_later_def by auto
  obtain plan0 where plan0: "project_frozen_plan (jd_kind d) (jd_payload d) = Inr plan0"
    using assms(2) by (cases rule: accept_cases [of d printed clk ctx idem s]) auto
  have "\<exists>r'. job_accept printed clk' ctx d' idem s2 = (Inr r', s2) \<and> jr_definition r' = jr_definition r"
    if "jd_kind d' = jd_kind d \<and> jd_payload d' = jd_payload d" for clk' d'
    using that receipt row2 plan0 by (simp add: job_accept_def accept_fingerprint_def)
  moreover have "job_accept printed clk' ctx d' idem s2 = (Inl IdempotencyConflict, s2)"
    if "project_frozen_plan (jd_kind d') (jd_payload d') = Inr plan" "accept_fingerprint printed d' \<noteq> accept_fingerprint printed d"
    for clk' d' plan
    using that receipt by (simp add: job_accept_def accept_fingerprint_def)
  moreover have "job_accept printed clk' ctx' d' idem' s2 = (Inl (PlanAlreadyConsumed p), s2)"
    if "project_frozen_plan (jd_kind (jr_definition r)) (jd_payload (jr_definition r)) = Inr plan"
      "project_frozen_plan (jd_kind d') (jd_payload d') = Inr plan'" "fp_consumed_plan plan = Some p"
      "fp_consumed_plan plan' = Some p" "rx_org ctx' = jd_org (jr_definition r)" "job_receipt_for ctx' idem' s2 = None"
    for clk' ctx' d' idem' plan plan' p
  proof -
    have "plan_of row2 = Some p" "row_org row2 = rx_org ctx'"
      using that row2(2) by (simp_all add: plan_of_def row_org_def)
    then have "bt_get (js_consumed s2) (rx_org ctx', p) = Some i"
      using inv2 row2(1) by (simp add: store_inv_def)
    then show ?thesis using that by (simp add: job_accept_def job_receipt_for_def)
  qed
  ultimately show ?thesis by blast
qed

section \<open>Organizations\<close>

lemma accept_foreign_rows:
  assumes "find_row i s = Some row"
  shows "find_row i (snd (job_accept printed clk ctx d idem s)) = Some row"
  using assms by (cases rule: accept_cases [of d printed clk ctx idem s]) (auto simp: admit_job_def map_laws find_row_def)

lemma job_list_mem: "r \<in> set (job_list ctx f s) \<Longrightarrow> jd_org (jr_definition r) = rx_org ctx"
  by (auto simp: job_list_def by_created_def belongs_to_def row_org_def split: if_splits)

lemma list_recoverable_mem: "r \<in> set (list_recoverable ctx f s) \<Longrightarrow> jd_org (jr_definition r) = rx_org ctx"
  by (auto simp: list_recoverable_def by_created_def belongs_to_def row_org_def)

text \<open>
  C17. The rows of different organizations are isolated. A step in the context of one organization leaves
  every row of another organization exactly as it was. In a context of that organization the lookup
  of the foreign job, of its details and of its cancel flag answer that it is not found, it has no
  committed boundaries and no checkpoint, and the two listings contain jobs of the own organization
  only. Two other accesses are not isolated and are not part of the statement: a receipt is found under
  the joined text of its scope (lemma receipt_scope_collides), and a checkpoint can be stored for a job of
  another organization (theorem checkpoint_crosses_organizations).
\<close>

theorem organizations_are_isolated:
  assumes "job_step after printed (Some org) s s'" "find_row i s = Some row" "row_org row \<noteq> org" "rx_org ctx = org"
  shows "find_row i s' = Some row \<and>
    job_get ctx i s = Inl (NotFound i) \<and> cancel_poll ctx i s = Inl (NotFound i) \<and>
    job_get_details decode ctx i s = Inl (NotFound i) \<and>
    committed_boundaries ctx i s = [] \<and> latest_checkpoint ctx i s = None \<and>
    list_all (\<lambda>r. jd_org (jr_definition r) = org) (job_list ctx f s @ list_recoverable ctx g s)"
proof -
  have "find_row i s' = Some row"
    using assms(1-3)
    by (cases rule: job_step.cases)
      (simp_all add: accept_foreign_rows claiming.foreign_rows stage.foreign_rows boundary.foreign_rows cas.foreign_rows
        eff.foreign_rows failc.foreign_rows prog.foreign_rows arts.foreign_rows domain.foreign_rows ckpt.foreign_rows
        finish.foreign_rows cancel.foreign_rows confirm.foreign_rows unstarted.foreign_rows pending.foreign_rows
        external.foreign_rows persist.foreign_rows verify.foreign_rows)
  moreover have "own_row ctx i s = None" using assms(2-4) by (simp add: own_row_def belongs_to_def)
  moreover have "list_all (\<lambda>r. jd_org (jr_definition r) = org) (job_list ctx f s @ list_recoverable ctx g s)"
    using job_list_mem list_recoverable_mem assms(4) by (fastforce simp: list_all_iff)
  ultimately show ?thesis
    by (simp add: job_get_def cancel_poll_def job_get_details_def committed_boundaries_def latest_checkpoint_def)
qed

text \<open>
  Checkpoints are the exception. The operation save_checkpoint checks the claim of the caller but not that the
  checkpoint is for the claimed job: a worker with a valid claim on its own job stores a checkpoint
  for a job of another organization, which then is the latest checkpoint that organization reads.
\<close>

theorem checkpoint_crosses_organizations:
  assumes "check_claim s ctx cl (clk 0) = None" "find_row (cp_job cp) s = Some victim" "row_org victim \<noteq> rx_org ctx"
    and "js_checkpoints s = []" "rx_org reader = row_org victim"
  shows "fst (job_save_checkpoint clk ctx cl cp s) = Inr () \<and>
    latest_checkpoint reader (cp_job cp) (snd (job_save_checkpoint clk ctx cl cp s)) = Some cp"
proof -
  obtain row where "find_row (jc_job cl) s = Some row" using check_claim_None [OF assms(1)] by blast
  then show ?thesis using assms
    by (auto simp: job_save_checkpoint_def fenced_def latest_checkpoint_def own_row_def find_row_def belongs_to_def)
qed

section \<open>Witnesses\<close>

lemma demo_row_found:
  "find_row ''job1'' demo_store4 = Some (demo_held demo_claim2 3)" "find_row ''job2'' demo_store3 = Some (demo_row ''two'' ''job2'' ''plan2'')"
  by (simp_all add: demo_store3_eq demo_store4_eq find_row_def bt_get_def demo_with_def)

theorem job_store_sound_witness:
  "jv_id (row_view (demo_held demo_claim2 3)) = ''job1'' \<and> bt_get (js_consumed demo_store4) (''one'', ''plan1'') = Some ''job1''"
  using job_store_sound [OF demo_jobs_reachable(4) demo_row_found(1)]
  by (simp add: demo_store4_eq demo_with_def bt_get_def)

theorem job_history_monotone_witness:
  "\<exists>row'. find_row ''job1'' demo_store5 = Some row' \<and> 3 \<le> row_version row'"
  using job_history_monotone [OF demo_jobs_reachable(4) demo_runs(5) demo_row_found(1)]
  by (auto simp: row_version_def demo_held_def set_version_def)

theorem superseded_claim_is_fenced_witness:
  "job_cas_state (at_time ''t2'') (demo_ctx ''one'') demo_claim1 3 JobSucceeded demo_store5 = (Inl StaleClaim, demo_store5)"
  using superseded_claim_is_fenced [OF demo_jobs_reachable(2) demo_claims(1) job_run.here,
      unfolded demo_store3_eq [symmetric], OF demo_claims(2) [folded demo_store3_eq demo_store4_eq] demo_runs(5)]
  by blast

theorem accept_is_idempotent_witness:
  "\<exists>r'. job_accept demo_printed (at_time ''t9'') (demo_ctx ''one'') (demo_definition ''job1'' ''plan1'') ''key'' demo_store2 =
     (Inr r', demo_store2)"
  using accept_is_idempotent [OF job_reachable_new demo_first_accept demo_runs(2)] by blast

theorem organizations_are_isolated_witness:
  "find_row ''job2'' demo_store4 = Some (demo_row ''two'' ''job2'' ''plan2'') \<and>
   job_get (demo_ctx ''one'') ''job2'' demo_store3 = Inl (NotFound ''job2'')"
  using organizations_are_isolated [OF demo_steps(4) demo_row_found(2), of "demo_ctx ''one''"]
  by (simp add: row_org_def demo_row_def fresh_record_def demo_ctx_def)

definition demo_checkpoint :: checkpoint where
  "demo_checkpoint = \<lparr>cp_job = ''job2'', cp_version = 1, cp_fingerprint = ''f'', cp_committed = [], cp_evidence = [],
     cp_policy = ''resume''\<rparr>"

theorem checkpoint_crosses_organizations_witness:
  "latest_checkpoint (demo_ctx ''two'') ''job2''
     (snd (job_save_checkpoint (at_time ''t1'') (demo_ctx ''one'') demo_claim1 demo_checkpoint demo_store3)) = Some demo_checkpoint"
proof -
  have "check_claim demo_store3 (demo_ctx ''one'') demo_claim1 (at_time ''t1'' 0) = None"
    by (simp add: check_claim_def demo_store3_eq demo_claim1_def demo_claim_simps)
  moreover have "find_row (cp_job demo_checkpoint) demo_store3 = Some (demo_row ''two'' ''job2'' ''plan2'')"
    by (simp add: demo_checkpoint_def demo_row_found)
  ultimately show ?thesis
    using checkpoint_crosses_organizations [of demo_store3 "demo_ctx ''one''" demo_claim1 "at_time ''t1''" demo_checkpoint
        "demo_row ''two'' ''job2'' ''plan2''" "demo_ctx ''two''"]
    by (simp add: row_org_def demo_row_def fresh_record_def demo_ctx_def demo_store3_eq demo_with_def demo_checkpoint_def)
qed

section \<open>Receipts\<close>

text \<open>
  Two contexts whose organization and principal join to the same text share the receipts: the second
  organization is answered with the job of the first.
\<close>

lemma receipt_scope_collides:
  assumes "job_reachable after printed s" "job_accept printed clk ctx d idem s = (Inr r, s1)"
    and "scoped_key ctx' idem' = scoped_key ctx idem"
  shows "job_accept printed clk' ctx' d idem' s1 = (Inr r, s1)"
proof -
  have inv: "store_inv printed s" using reachable_inv assms(1) .
  obtain i row where acc: "bt_get (js_idempotency s1) (scoped_key ctx idem) =
      Some \<lparr>ir_job = i, ir_fingerprint = accept_fingerprint printed d\<rparr>" "find_row i s1 = Some row" "jw_record row = r"
    using accepted_receipt [OF inv assms(2)] .
  obtain plan0 where "project_frozen_plan (jd_kind d) (jd_payload d) = Inr plan0"
    using assms(2) by (cases rule: accept_cases [of d printed clk ctx idem s]) auto
  then show ?thesis using acc assms(3) by (simp add: job_accept_def accept_fingerprint_def)
qed

lemma receipt_scope_example:
  "scoped_key \<lparr>rx_org = ''a|b'', rx_principal = ''c'', rx_auth_session = None, rx_client = [], rx_request = [], rx_delegation = None\<rparr> k =
   scoped_key \<lparr>rx_org = ''a'', rx_principal = ''b|c'', rx_auth_session = None, rx_client = [], rx_request = [], rx_delegation = None\<rparr> k"
  by (simp add: scoped_key_def)

end
