(* ===== verification/Job_Endpoints.thy ===== *)
theory Job_Endpoints
  imports Job_Model Budget_Operations
begin

text \<open>
  The endpoints of a job and their budget (\<open>jobs/domain/budget.rs\<close>): detection of a dangerous
  overlap between what a job reads and what it writes, and the reservation of one permit per
  endpoint, all or none, on the budget ledger.

  The derived \<open>Debug\<close> text of a denial is the parameter \<open>shown\<close>. The set of read objects is a
  \<open>HashSet\<close>; when several connections read the same object, the one named in the error is here the
  first that was listed.
\<close>

section \<open>Overlap\<close>

datatype endpoint_role = SourceReader | TargetWriter | ControlEndpoint

record endpoint_ref =
  ep_conn :: string
  ep_service_key :: string
  ep_objects :: "string list"
  ep_role :: endpoint_role

definition identity_key :: "endpoint_ref \<Rightarrow> string option" where
  "identity_key ep = (let key = trim (ep_service_key ep) in if key = [] then None else Some (map ascii_lower key))"

type_synonym read_entry = "string \<times> string \<times> string"

definition overlap_text :: "string \<Rightarrow> string \<Rightarrow> string \<Rightarrow> string" where
  "overlap_text obj reader writer = ''object `'' @ obj @ ''` is both read and written on the same physical '' @
     ''endpoint (read by connection `'' @ reader @ ''`, written by connection `'' @ writer @ ''`)''"

definition reads_of :: "endpoint_ref \<Rightarrow> read_entry list" where
  "reads_of ep = (case identity_key ep of None \<Rightarrow> [] | Some key \<Rightarrow> map (\<lambda>obj. (key, obj, ep_conn ep)) (ep_objects ep))"

fun write_clash :: "read_entry list \<Rightarrow> string \<Rightarrow> string \<Rightarrow> string list \<Rightarrow> job_error option" where
  "write_clash reads key writer [] = None"
| "write_clash reads key writer (obj # objs) =
     (case find (\<lambda>(rk, ro, _). rk = key \<and> ro = obj) reads of
        Some (_, _, reader) \<Rightarrow> Some (EndpointOverlap (overlap_text obj reader writer))
      | None \<Rightarrow> write_clash reads key writer objs)"

fun scan_endpoints :: "endpoint_ref list \<Rightarrow> read_entry list \<Rightarrow> bool \<Rightarrow> bool \<Rightarrow> job_error option" where
  "scan_endpoints [] reads has_writer unprovable =
     (if unprovable \<and> has_writer
      then Some (EndpointOverlap ''endpoint identity unprovable while both reader and writer present'') else None)"
| "scan_endpoints (ep # eps) reads has_writer unprovable =
     (let key = identity_key ep; unprovable' = (unprovable \<or> key = None) in
      case ep_role ep of
        SourceReader \<Rightarrow> scan_endpoints eps (reads @ reads_of ep) has_writer unprovable'
      | TargetWriter \<Rightarrow>
          (case (case key of None \<Rightarrow> None | Some k \<Rightarrow> write_clash reads k (ep_conn ep) (ep_objects ep)) of
             Some e \<Rightarrow> Some e
           | None \<Rightarrow> scan_endpoints eps reads True unprovable')
      | ControlEndpoint \<Rightarrow> scan_endpoints eps reads has_writer unprovable')"

definition detect_endpoint_overlap :: "endpoint_ref list \<Rightarrow> job_error option" where
  "detect_endpoint_overlap eps = scan_endpoints eps [] False False"

text \<open>Two endpoints meet when they name a common object of the same physical service.\<close>

definition endpoints_meet :: "endpoint_ref \<Rightarrow> endpoint_ref \<Rightarrow> bool" where
  "endpoints_meet r w \<longleftrightarrow> ep_role r = SourceReader \<and> ep_role w = TargetWriter \<and>
     identity_key r \<noteq> None \<and> identity_key r = identity_key w \<and> \<not> disjnt (set (ep_objects r)) (set (ep_objects w))"

lemma read_entry_clash:
  "find (\<lambda>(rk, ro, _). rk = key \<and> ro = obj) reads = None \<longleftrightarrow> (\<forall>c. (key, obj, c) \<notin> set reads)"
  by (auto simp: find_None_iff)

lemma write_clash_None:
  "write_clash reads key writer objs = None \<longleftrightarrow> (\<forall>obj \<in> set objs. \<forall>c. (key, obj, c) \<notin> set reads)"
proof (induction objs)
  case (Cons obj objs)
  show ?case
  proof (cases "find (\<lambda>(rk, ro, _). rk = key \<and> ro = obj) reads")
    case None
    then show ?thesis using Cons read_entry_clash [of key obj reads] by simp
  next
    case (Some e)
    then have "\<exists>c. (key, obj, c) \<in> set reads" using read_entry_clash [of key obj reads] by auto
    then show ?thesis using Some by (cases e) auto
  qed
qed simp

text \<open>What the scan of the remaining endpoints accepts, given the objects read so far.\<close>

definition unread :: "read_entry list \<Rightarrow> endpoint_ref \<Rightarrow> bool" where
  "unread reads ep \<longleftrightarrow> (ep_role ep = TargetWriter \<longrightarrow>
     (\<forall>key obj c. (key, obj, c) \<in> set reads \<longrightarrow> identity_key ep = Some key \<longrightarrow> obj \<notin> set (ep_objects ep)))"

lemma unread_append: "unread (reads @ reads2) ep \<longleftrightarrow> unread reads ep \<and> unread reads2 ep"
  unfolding unread_def set_append Un_iff by blast

lemma unread_Nil: "unread [] ep"
  by (simp add: unread_def)

lemma unread_reads_of: "ep_role r = SourceReader \<Longrightarrow> unread (reads_of r) w \<longleftrightarrow> \<not> endpoints_meet r w"
  by (cases "identity_key r") (auto simp: unread_def reads_of_def endpoints_meet_def disjnt_iff image_iff)

lemma not_reader_meets: "ep_role r \<noteq> SourceReader \<Longrightarrow> \<not> endpoints_meet r w"
  by (simp add: endpoints_meet_def)

lemma writer_unread:
  "ep_role ep = TargetWriter \<Longrightarrow>
   unread reads ep \<longleftrightarrow> (case identity_key ep of None \<Rightarrow> None | Some k \<Rightarrow> write_clash reads k (ep_conn ep) (ep_objects ep)) = None"
  by (auto simp: unread_def write_clash_None split: option.splits)

lemma scan_endpoints_None:
  "scan_endpoints eps reads w u = None \<longleftrightarrow>
     list_all (unread reads) eps \<and> sorted_wrt (\<lambda>a b. \<not> endpoints_meet a b) eps \<and>
     \<not> ((u \<or> list_ex (\<lambda>ep. identity_key ep = None) eps) \<and> (w \<or> list_ex (\<lambda>ep. ep_role ep = TargetWriter) eps))"
proof (induction eps arbitrary: reads w u)
  case (Cons ep eps)
  have rest: "list_all (unread (reads_of ep)) eps \<longleftrightarrow> (\<forall>b \<in> set eps. \<not> endpoints_meet ep b)" if "ep_role ep = SourceReader"
    using unread_reads_of [OF that] by (simp add: list_all_iff)
  show ?case
  proof (cases "ep_role ep")
    case SourceReader
    moreover have "unread reads ep" using SourceReader by (simp add: unread_def)
    moreover have "list_all (unread (reads @ reads_of ep)) eps \<longleftrightarrow> list_all (unread reads) eps \<and> list_all (unread (reads_of ep)) eps"
      by (auto simp: list_all_iff unread_append)
    ultimately show ?thesis using rest by (auto simp: Cons.IH Let_def)
  next
    case TargetWriter
    then have meets: "\<forall>b \<in> set eps. \<not> endpoints_meet ep b" by (simp add: not_reader_meets)
    show ?thesis
    proof (cases "unread reads ep")
      case True
      then show ?thesis using TargetWriter writer_unread [OF TargetWriter, of reads] meets
        by (auto simp: Cons.IH Let_def)
    next
      case False
      then show ?thesis using TargetWriter writer_unread [OF TargetWriter, of reads]
        by (auto simp: Let_def split: option.splits)
    qed
  next
    case ControlEndpoint
    moreover have "unread reads ep" "\<forall>b \<in> set eps. \<not> endpoints_meet ep b"
      using ControlEndpoint by (simp_all add: unread_def not_reader_meets)
    ultimately show ?thesis by (auto simp: Cons.IH Let_def)
  qed
qed simp

lemma detect_endpoint_overlap_None:
  "detect_endpoint_overlap eps = None \<longleftrightarrow>
     sorted_wrt (\<lambda>a b. \<not> endpoints_meet a b) eps \<and>
     \<not> (list_ex (\<lambda>ep. identity_key ep = None) eps \<and> list_ex (\<lambda>ep. ep_role ep = TargetWriter) eps)"
  by (simp add: detect_endpoint_overlap_def scan_endpoints_None unread_Nil list_all_iff)

section \<open>Permits\<close>

text \<open>
  What the jobs rely on: a batch is admitted as a whole or not at all, an admitted permit is live, and
  a permit that was given back is not.
\<close>

locale permit_desk =
  fixes admit :: "'c list \<Rightarrow> nat \<Rightarrow> 'l \<Rightarrow> ('e + 'p list) \<times> 'l"
    and give_back :: "'p \<Rightarrow> bool \<Rightarrow> nat \<Rightarrow> 'l \<Rightarrow> 'r \<times> 'l"
    and live :: "'l \<Rightarrow> 'p \<Rightarrow> bool" and same :: "'p \<Rightarrow> 'p \<Rightarrow> bool"
    and fit :: "'c list \<Rightarrow> 'l \<Rightarrow> bool" and for_claim :: "'c \<Rightarrow> 'p \<Rightarrow> bool"
  assumes refused: "fit claims l \<Longrightarrow> admit claims now l = (Inl e, l') \<Longrightarrow> live l' p = live l p"
    and granted: "fit claims l \<Longrightarrow> admit claims now l = (Inr ps, l') \<Longrightarrow>
      list_all2 (\<lambda>c p. for_claim c p \<and> live l' p) claims ps \<and> (\<forall>p. live l p \<longrightarrow> live l' p)"
    and gone: "give_back p consumed now l = (r, l') \<Longrightarrow> \<not> live l' p"
    and others: "give_back p consumed now l = (r, l') \<Longrightarrow> live l' q \<Longrightarrow> live l q"
    and kept: "give_back p consumed now l = (r, l') \<Longrightarrow> live l q \<Longrightarrow> \<not> same p q \<Longrightarrow> live l' q"
begin

fun give_back_all :: "'p list \<Rightarrow> bool \<Rightarrow> nat \<Rightarrow> 'l \<Rightarrow> 'r list \<times> 'l" where
  "give_back_all [] consumed now l = ([], l)"
| "give_back_all (p # ps) consumed now l =
     (case give_back p consumed now l of (r, l1) \<Rightarrow> case give_back_all ps consumed now l1 of (rs, l2) \<Rightarrow> (r # rs, l2))"

lemma give_back_all_others: "give_back_all ps consumed now l = (rs, l') \<Longrightarrow> live l' q \<Longrightarrow> live l q"
  by (induction ps arbitrary: l rs) (auto split: prod.splits dest: others)

lemma give_back_all_gone: "give_back_all ps consumed now l = (rs, l') \<Longrightarrow> p \<in> set ps \<Longrightarrow> \<not> live l' p"
  by (induction ps arbitrary: l rs) (auto split: prod.splits dest: gone give_back_all_others)

lemma give_back_all_kept:
  "give_back_all ps consumed now l = (rs, l') \<Longrightarrow> live l q \<Longrightarrow> list_all (\<lambda>p. \<not> same p q) ps \<Longrightarrow> live l' q"
  by (induction ps arbitrary: l rs) (auto split: prod.splits dest: kept)

lemma give_back_all_length: "length (fst (give_back_all ps consumed now l)) = length ps"
proof (induction ps arbitrary: l)
  case (Cons p ps)
  obtain r l1 rs l2 where "give_back p consumed now l = (r, l1)" "give_back_all ps consumed now l1 = (rs, l2)"
    by (cases "give_back p consumed now l"; cases "give_back_all ps consumed now (snd (give_back p consumed now l))") auto
  then show ?case using Cons [of l1] by simp
qed simp

end

definition permit_live :: "ledger \<Rightarrow> permit_record \<Rightarrow> bool" where
  "permit_live l r \<longleftrightarrow> bt_get (permits l) (p_id r) \<noteq> None"

definition claim_met :: "budget_claim \<Rightarrow> permit_record \<Rightarrow> bool" where
  "claim_met claim r \<longleftrightarrow> p_conn r = c_conn claim \<and> p_class r = c_class claim \<and> p_org r = c_org claim \<and>
     p_principal r = c_principal claim"

definition batch_fits :: "budget_claim list \<Rightarrow> ledger \<Rightarrow> bool" where
  "batch_fits claims l \<longleftrightarrow> ledger_inv l \<and> next_permit l + length claims \<le> u64_max"

definition release_record :: "permit_record \<Rightarrow> bool \<Rightarrow> nat \<Rightarrow> ledger \<Rightarrow> release_result \<times> ledger" where
  "release_record r consumed now l = release (to_port_permit r) consumed now l"

interpretation desk: permit_desk try_admit_many release_record permit_live "\<lambda>p q. p_id p = p_id q" batch_fits claim_met
proof
  fix claims :: "budget_claim list" and l l' and now :: nat and e and p
  assume "batch_fits claims l" "try_admit_many claims now l = (Inl e, l')"
  then show "permit_live l' p = permit_live l p"
    using try_admit_many_refused [of l claims now e] by (auto simp: batch_fits_def permit_live_def ledger_inv_wf)
next
  fix claims :: "budget_claim list" and l l' and now :: nat and ps
  assume fit: "batch_fits claims l" and run: "try_admit_many claims now l = (Inr ps, l')"
  then have "admit_each claims now l [] = (Inr ps, l')"
    by (auto simp: try_admit_many_def Let_def split: prod.splits sum.splits)
  then have "list_all2 (admitted_as l') claims ps \<and>
      (\<forall>i r. bt_get (permits l) i = Some r \<longrightarrow> bt_get (permits l') i = Some r)"
    using admit_each_granted [of l claims now "[]" ps l'] fit by (simp add: batch_fits_def)
  then show "list_all2 (\<lambda>c p. claim_met c p \<and> permit_live l' p) claims ps \<and> (\<forall>p. permit_live l p \<longrightarrow> permit_live l' p)"
    by (auto simp: permit_live_def claim_met_def admitted_as_def elim!: list.rel_mono_strong)
next
  fix p q :: permit_record and consumed and now :: nat and l l' and r
  assume "release_record p consumed now l = (r, l')"
  then have "permits l' = bt_remove (p_id p) (permits l)"
    using release_removes [of "to_port_permit p" consumed now l] by (simp add: release_record_def to_port_permit_def)
  then show "\<not> permit_live l' p" "permit_live l' q \<Longrightarrow> permit_live l q"
    "permit_live l q \<Longrightarrow> p_id p \<noteq> p_id q \<Longrightarrow> permit_live l' q"
    by (auto simp: permit_live_def map_laws split: if_splits)
qed

section \<open>Reservation\<close>

record endpoint_permits =
  mp_permits :: "permit_record list"
  mp_now :: nat

definition endpoint_order :: "endpoint_ref list \<Rightarrow> endpoint_ref list" where
  "endpoint_order eps = sort_key (\<lambda>ep. (ep_service_key ep, ep_conn ep)) eps"

definition endpoint_claim :: "string \<Rightarrow> string \<Rightarrow> resource_class \<Rightarrow> endpoint_ref \<Rightarrow> budget_claim" where
  "endpoint_claim org who c ep =
     \<lparr>c_org = org, c_conn = ep_conn ep, c_principal = who, c_class = c, c_pinned = True, c_slots = 1, c_worker = None\<rparr>"

definition reserve_endpoints ::
  "(denial_reason \<Rightarrow> string) \<Rightarrow> endpoint_ref list \<Rightarrow> resource_class \<Rightarrow> string \<Rightarrow> string \<Rightarrow> nat \<Rightarrow> ledger \<Rightarrow>
   (job_error + endpoint_permits) \<times> ledger" where
  "reserve_endpoints shown eps c org who now l =
     (case detect_endpoint_overlap eps of Some e \<Rightarrow> (Inl e, l)
      | None \<Rightarrow> (case try_admit_many (map (endpoint_claim org who c) (endpoint_order eps)) now l of
          (Inl reason, l') \<Rightarrow> (Inl (BudgetDenied (shown reason)), l')
        | (Inr ps, l') \<Rightarrow> (Inr \<lparr>mp_permits = ps, mp_now = now\<rparr>, l')))"

fun release_records :: "permit_record list \<Rightarrow> bool \<Rightarrow> nat \<Rightarrow> ledger \<Rightarrow> release_result list \<times> ledger" where
  "release_records [] consumed now l = ([], l)"
| "release_records (r # rs) consumed now l =
     (case release (to_port_permit r) consumed now l of
        (out, l1) \<Rightarrow> case release_records rs consumed now l1 of (outs, l2) \<Rightarrow> (out # outs, l2))"

definition release_endpoints :: "endpoint_permits \<Rightarrow> bool \<Rightarrow> ledger \<Rightarrow> release_result list \<times> ledger" where
  "release_endpoints mp consumed l = release_records (mp_permits mp) consumed (mp_now mp) l"

lemma release_records_desk: "release_records rs consumed now l = desk.give_back_all rs consumed now l"
  by (induction rs arbitrary: l) (simp_all add: release_record_def)

lemma release_endpoints_gone:
  "r \<in> set (mp_permits mp) \<Longrightarrow> \<not> permit_live (snd (release_endpoints mp consumed l)) r"
  unfolding release_endpoints_def release_records_desk
  by (rule desk.give_back_all_gone [OF surjective_pairing])

lemma endpoint_order_length [simp]: "length (endpoint_order eps) = length eps"
  by (simp add: endpoint_order_def)

lemma reserve_refused:
  assumes "ledger_inv l" "next_permit l + length eps \<le> u64_max"
    and "reserve_endpoints shown eps c org who now l = (Inl e, l')"
  shows "permit_live l' p = permit_live l p"
proof (cases "detect_endpoint_overlap eps")
  case None
  let ?claims = "map (endpoint_claim org who c) (endpoint_order eps)"
  obtain reason where "try_admit_many ?claims now l = (Inl reason, l')"
    using assms(3) None by (auto simp: reserve_endpoints_def split: prod.splits sum.splits)
  then show ?thesis using desk.refused [of ?claims l now reason l' p] assms(1,2) by (simp add: batch_fits_def)
qed (use assms(3) in \<open>simp add: reserve_endpoints_def\<close>)

lemma reserve_granted:
  assumes "ledger_inv l" "next_permit l + length eps \<le> u64_max"
    and "reserve_endpoints shown eps c org who now l = (Inr mp, l')"
  shows "detect_endpoint_overlap eps = None \<and> mp_now mp = now \<and>
    list_all2 (\<lambda>ep r. claim_met (endpoint_claim org who c ep) r \<and> permit_live l' r) (endpoint_order eps) (mp_permits mp)"
proof -
  let ?claims = "map (endpoint_claim org who c) (endpoint_order eps)"
  have free: "detect_endpoint_overlap eps = None"
    using assms(3) by (cases "detect_endpoint_overlap eps") (simp_all add: reserve_endpoints_def)
  obtain ps where run: "try_admit_many ?claims now l = (Inr ps, l')" and mp: "mp = \<lparr>mp_permits = ps, mp_now = now\<rparr>"
    using assms(3) free by (auto simp: reserve_endpoints_def split: prod.splits sum.splits)
  have "list_all2 (\<lambda>c p. claim_met c p \<and> permit_live l' p) ?claims ps"
    using desk.granted [OF _ run] assms(1,2) by (simp add: batch_fits_def)
  then show ?thesis using free mp by (simp add: list.rel_map)
qed

end
