(* ===== verification/Job_Runtime.thy ===== *)
theory Job_Runtime
  imports Job_Endpoints Job_Theorems
begin

text \<open>
  The job runtime (\<open>jobs/engine/runtime.rs\<close>) over the in-process repository and the budget ledger,
  and the handler protocol (\<open>jobs/application/handler.rs\<close>).

  The runtime is asynchronous: between two calls it makes, other tasks use the same repository and the
  same ledger. A run therefore has an environment: \<open>re_between n\<close> is what the others do before the
  n-th call, \<open>re_clock n\<close> the clock readings inside that call, \<open>re_now n\<close> the runtime's own reading
  at that point, and \<open>re_polls n\<close> the states the cancel watcher sees while the stage started there
  runs. The handler is a record of functions, as the trait object is; a stage may end normally, with
  an error, with a panic or by being stopped.
\<close>

section \<open>Handlers\<close>

datatype stage_terminal = StageSucceeded | StageFailed | StageCancelled | StageUnknown

record stage_spec =
  ss_id :: string
  ss_kind :: string
  ss_depends :: "string list"

datatype execution_error_code = SqlError | ProtocolError | ExecCancelled | ExecTimeout | ResourceLost | PipelineAborted | HostRejected

record stage_outcome =
  so_stage :: string
  so_terminal :: stage_terminal
  so_progress :: job_progress
  so_boundaries :: "commit_boundary list"
  so_executions :: "string list"
  so_artifacts :: "string list"
  so_effect :: effect_outcome
  so_error :: "execution_error_code option"

datatype stage_run_failure = HandlerFailed | HandlerPanicked | HandlerStopped

fun failure_code :: "stage_run_failure \<Rightarrow> string" where
  "failure_code HandlerFailed = ''handlerFailedUnknown''"
| "failure_code HandlerPanicked = ''handlerPanickedUnknown''"
| "failure_code HandlerStopped = ''handlerStoppedUnknown''"

datatype validation = ValidationPanicked | ValidationRejected job_error | ValidStages "stage_spec list"

text \<open>
  \<open>hd_run k spec cancelled\<close> is the run of the k-th stage; \<open>cancelled\<close> says whether the token was
  flipped while it ran.
\<close>

record job_handler =
  hd_kind :: string
  hd_version :: nat
  hd_validate :: "frozen_plan \<Rightarrow> validation"
  hd_run :: "nat \<Rightarrow> stage_spec \<Rightarrow> bool \<Rightarrow> stage_run_failure + stage_outcome"
  hd_result :: "stage_outcome \<Rightarrow> domain_result option"

type_synonym handler_registry = "(string \<times> nat, job_handler) btree"

definition register_handler :: "job_handler \<Rightarrow> handler_registry \<Rightarrow> handler_registry" where
  "register_handler h reg = bt_insert (hd_kind h, hd_version h) h reg"

definition resolve_handler :: "string \<Rightarrow> nat \<Rightarrow> handler_registry \<Rightarrow> job_handler option" where
  "resolve_handler kind v reg = bt_get reg (kind, v)"

section \<open>Calls\<close>

record run_env =
  re_between :: "nat \<Rightarrow> job_store \<times> ledger \<Rightarrow> job_store \<times> ledger"
  re_clock :: "nat \<Rightarrow> clock"
  re_now :: "nat \<Rightarrow> string"
  re_polls :: "nat \<Rightarrow> job_store list"

record run_state =
  rn_tick :: nat
  rn_store :: job_store
  rn_ledger :: ledger

type_synonym 'a run = "run_state \<Rightarrow> (port_error + 'a) \<times> run_state"

definition rreturn :: "'a \<Rightarrow> 'a run" where
  "rreturn x st = (Inr x, st)"

definition rfail :: "port_error \<Rightarrow> 'a run" where
  "rfail e st = (Inl e, st)"

definition rbind :: "'a run \<Rightarrow> ('a \<Rightarrow> 'b run) \<Rightarrow> 'b run" where
  "rbind m f st = (case m st of (Inl e, st1) \<Rightarrow> (Inl e, st1) | (Inr x, st1) \<Rightarrow> f x st1)"

definition interrupted :: "run_env \<Rightarrow> run_state \<Rightarrow> run_state" where
  "interrupted e st = (let w = re_between e (rn_tick st) (rn_store st, rn_ledger st)
     in \<lparr>rn_tick = rn_tick st + 1, rn_store = fst w, rn_ledger = snd w\<rparr>)"

definition repo_call :: "run_env \<Rightarrow> (clock \<Rightarrow> job_store \<Rightarrow> (port_error + 'a) \<times> job_store) \<Rightarrow> 'a run" where
  "repo_call e op st = (let st1 = interrupted e st; (r, s') = op (re_clock e (rn_tick st)) (rn_store st1)
     in (r, st1\<lparr>rn_store := s'\<rparr>))"

definition ledger_call :: "run_env \<Rightarrow> (ledger \<Rightarrow> 'r \<times> ledger) \<Rightarrow> run_state \<Rightarrow> 'r \<times> run_state" where
  "ledger_call e op st = (let st1 = interrupted e st; (r, l') = op (rn_ledger st1) in (r, st1\<lparr>rn_ledger := l'\<rparr>))"

definition get_job :: "run_env \<Rightarrow> request_context \<Rightarrow> string \<Rightarrow> job_record run" where
  "get_job e ctx i = repo_call e (\<lambda>clk s. (job_get ctx i s, s))"

section \<open>Stages\<close>

text \<open>The watcher polls until it sees the cancel request, the end of the job, or an error.\<close>

fun watch_cancel :: "(port_error + cancel_snapshot) list \<Rightarrow> bool" where
  "watch_cancel [] = False"
| "watch_cancel (Inl e # polls) = False"
| "watch_cancel (Inr snap # polls) =
     (if cs_cancel_requested snap then True else if cs_terminal snap then False else watch_cancel polls)"

definition accumulate :: "job_progress \<Rightarrow> job_progress \<Rightarrow> job_progress" where
  "accumulate acc delta = \<lparr>pg_read = sat_add64 (pg_read acc) (pg_read delta),
     pg_converted = sat_add64 (pg_converted acc) (pg_converted delta),
     pg_attempted = sat_add64 (pg_attempted acc) (pg_attempted delta),
     pg_committed = sat_add64 (pg_committed acc) (pg_committed delta),
     pg_unknown = sat_add64 (pg_unknown acc) (pg_unknown delta)\<rparr>"

record dispatch_acc =
  da_token :: bool
  da_progress :: job_progress
  da_boundary :: bool
  da_unknown :: bool
  da_failed :: bool
  da_cancelled :: bool
  da_committed :: "commit_boundary list"
  da_effect :: effect_outcome
  da_reason :: "string option"

definition dispatch_start :: dispatch_acc where
  "dispatch_start = \<lparr>da_token = False, da_progress = no_progress, da_boundary = False, da_unknown = False,
     da_failed = False, da_cancelled = False, da_committed = [], da_effect = EffNotStarted, da_reason = None\<rparr>"

definition absorb_outcome :: "stage_outcome \<Rightarrow> dispatch_acc \<Rightarrow> dispatch_acc" where
  "absorb_outcome out acc = acc\<lparr>da_progress := accumulate (da_progress acc) (so_progress out),
     da_boundary := da_boundary acc \<or> so_boundaries out \<noteq> [],
     da_unknown := da_unknown acc \<or> so_terminal out = StageUnknown \<or> so_effect out = EffUnknown,
     da_failed := da_failed acc \<or> so_terminal out = StageFailed,
     da_cancelled := da_cancelled acc \<or> so_terminal out = StageCancelled,
     da_effect := (if so_terminal out \<noteq> StageSucceeded then so_effect out else da_effect acc),
     da_reason := (if so_terminal out \<noteq> StageSucceeded
       then Some (if so_terminal out = StageUnknown then ''unknownCommitBoundary'' else ''handlerStageTerminated'')
       else da_reason acc),
     da_committed := da_committed acc @ so_boundaries out\<rparr>"

definition absorb_failure :: "stage_run_failure \<Rightarrow> dispatch_acc \<Rightarrow> dispatch_acc" where
  "absorb_failure f acc = acc\<lparr>da_failed := True, da_unknown := True, da_effect := EffUnknown, da_reason := Some (failure_code f)\<rparr>"

definition stage_row :: "string \<Rightarrow> string \<Rightarrow> stage_spec \<Rightarrow> string list \<Rightarrow> string \<Rightarrow> string option \<Rightarrow> stage_record" where
  "stage_row i worker spec execs started finished =
     \<lparr>sg_job = i, sg_id = ss_id spec, sg_kind = ss_kind spec, sg_claimed_by = Some worker, sg_executions = execs,
      sg_started = Some started, sg_finished = finished\<rparr>"

definition write_stage :: "run_env \<Rightarrow> request_context \<Rightarrow> job_claim \<Rightarrow> stage_record \<Rightarrow> unit run" where
  "write_stage e ctx cl sg = repo_call e (\<lambda>clk. job_record_stage clk ctx cl sg)"

fun write_boundaries :: "run_env \<Rightarrow> request_context \<Rightarrow> job_claim \<Rightarrow> commit_boundary list \<Rightarrow> unit run" where
  "write_boundaries e ctx cl [] = rreturn ()"
| "write_boundaries e ctx cl (b # bs) =
     rbind (repo_call e (\<lambda>clk. job_record_boundary clk ctx cl b)) (\<lambda>_. write_boundaries e ctx cl bs)"

definition write_result :: "run_env \<Rightarrow> request_context \<Rightarrow> job_claim \<Rightarrow> job_handler \<Rightarrow> stage_spec \<Rightarrow> stage_outcome \<Rightarrow> unit run" where
  "write_result e ctx cl h spec out =
     (case hd_result h out of None \<Rightarrow> rreturn ()
      | Some r \<Rightarrow>
          if dr_stage r \<noteq> ss_id spec \<or> list_ex (\<lambda>a. a \<notin> set (so_artifacts out)) (dr_artifacts r)
          then rfail (BackendUnavailable ''handler result does not match its stage output'')
          else repo_call e (\<lambda>clk. job_record_domain_result clk ctx cl r))"

definition write_outcome ::
  "run_env \<Rightarrow> request_context \<Rightarrow> string \<Rightarrow> job_claim \<Rightarrow> string \<Rightarrow> job_handler \<Rightarrow> stage_spec \<Rightarrow> string \<Rightarrow> stage_outcome \<Rightarrow>
   job_progress \<Rightarrow> unit run" where
  "write_outcome e ctx i cl worker h spec started out progress =
     rbind (write_boundaries e ctx cl (so_boundaries out)) (\<lambda>_ st.
     rbind (write_stage e ctx cl (stage_row i worker spec (so_executions out) started (Some (re_now e (rn_tick st))))) (\<lambda>_.
     rbind (repo_call e (\<lambda>clk. job_record_artifacts clk ctx cl (so_artifacts out))) (\<lambda>_.
     rbind (write_result e ctx cl h spec out) (\<lambda>_.
     repo_call e (\<lambda>clk. job_record_progress clk ctx cl progress)))) st)"

definition start_stage ::
  "run_env \<Rightarrow> request_context \<Rightarrow> string \<Rightarrow> job_claim \<Rightarrow> string \<Rightarrow> job_handler \<Rightarrow> nat \<Rightarrow> stage_spec \<Rightarrow>
   (string \<times> bool \<times> (stage_run_failure + stage_outcome)) run" where
  "start_stage e ctx i cl worker h k spec st =
     (let started = re_now e (rn_tick st) in
      rbind (write_stage e ctx cl (stage_row i worker spec [] started None)) (\<lambda>_ st1.
        let flipped = watch_cancel (map (cancel_poll ctx i) (re_polls e (rn_tick st1)))
        in rreturn (started, flipped, hd_run h k spec flipped) st1) st)"

fun run_stages ::
  "run_env \<Rightarrow> request_context \<Rightarrow> string \<Rightarrow> job_claim \<Rightarrow> string \<Rightarrow> job_handler \<Rightarrow> nat \<Rightarrow> stage_spec list \<Rightarrow> dispatch_acc \<Rightarrow>
   dispatch_acc run" where
  "run_stages e ctx i cl worker h k [] acc = rreturn acc"
| "run_stages e ctx i cl worker h k (spec # specs) acc =
     rbind (get_job e ctx i) (\<lambda>latest.
       if da_token acc \<or> jv_cancel_requested (jr_view latest)
       then rreturn (acc\<lparr>da_token := True, da_cancelled := True\<rparr>)
       else rbind (start_stage e ctx i cl worker h k spec) (\<lambda>(started, flipped, result).
         case result of
           Inl f \<Rightarrow> (\<lambda>st. rbind (write_stage e ctx cl (stage_row i worker spec [] started (Some (re_now e (rn_tick st)))))
             (\<lambda>_. rreturn (absorb_failure f (acc\<lparr>da_token := flipped\<rparr>))) st)
         | Inr out \<Rightarrow>
             let acc' = absorb_outcome out (acc\<lparr>da_token := flipped\<rparr>) in
             rbind (write_outcome e ctx i cl worker h spec started out (da_progress acc')) (\<lambda>_.
               if so_terminal out \<noteq> StageSucceeded then rreturn acc'
               else run_stages e ctx i cl worker h (k + 1) specs acc')))"

section \<open>Dispatch\<close>

definition write_checkpoint :: "run_env \<Rightarrow> request_context \<Rightarrow> string \<Rightarrow> job_claim \<Rightarrow> commit_boundary list \<Rightarrow> unit run" where
  "write_checkpoint e ctx i cl committed =
     (if committed = [] then rreturn ()
      else rbind (get_job e ctx i) (\<lambda>latest.
        repo_call e (\<lambda>clk. job_save_checkpoint clk ctx cl
          \<lparr>cp_job = i, cp_version = jr_version latest, cp_fingerprint = cb_fingerprint (hd committed),
           cp_committed = committed, cp_evidence = concat (map cb_evidence committed), cp_policy = ''resumeAfterVerify''\<rparr>)))"

definition job_outcome :: "dispatch_acc \<Rightarrow> job_state \<times> effect_outcome" where
  "job_outcome acc =
     (if da_unknown acc then (JobFailed, EffUnknown)
      else if da_failed acc then (JobFailed, if da_boundary acc then EffPartiallyApplied else da_effect acc)
      else if da_cancelled acc then (JobCancelled, if da_boundary acc then EffPartiallyApplied else da_effect acc)
      else (JobSucceeded, EffCompleted))"

definition outcome_error :: "dispatch_acc \<Rightarrow> string option" where
  "outcome_error acc =
     (if da_reason acc \<noteq> None then da_reason acc
      else if da_unknown acc then Some ''unknownCommitBoundary''
      else if da_failed acc then Some ''stageFailed'' else None)"

definition outcome_pending :: "dispatch_acc \<Rightarrow> string option" where
  "outcome_pending acc =
     (if da_unknown acc then Some (case da_reason acc of Some r \<Rightarrow> r | None \<Rightarrow> ''unknownCommitBoundary'') else None)"

record job_result =
  jq_state :: job_state
  jq_effect :: effect_outcome
  jq_progress :: job_progress
  jq_error :: "string option"

definition conclude :: "run_env \<Rightarrow> request_context \<Rightarrow> string \<Rightarrow> job_claim \<Rightarrow> dispatch_acc \<Rightarrow> job_result run" where
  "conclude e ctx i cl acc =
     rbind (write_checkpoint e ctx i cl (da_committed acc)) (\<lambda>_.
     rbind (get_job e ctx i) (\<lambda>latest.
     rbind (repo_call e (\<lambda>clk. job_finish clk ctx cl (jr_version latest) (fst (job_outcome acc)) (snd (job_outcome acc))
       (da_progress acc) (outcome_error acc) (outcome_pending acc))) (\<lambda>_.
     rreturn \<lparr>jq_state = fst (job_outcome acc), jq_effect = snd (job_outcome acc), jq_progress = da_progress acc,
       jq_error = outcome_error acc\<rparr>)))"

definition dispatch ::
  "(string \<Rightarrow> job_error + string) \<Rightarrow> run_env \<Rightarrow> request_context \<Rightarrow> string \<Rightarrow> string \<Rightarrow> job_handler \<Rightarrow> stage_spec list \<Rightarrow>
   job_result run" where
  "dispatch after e ctx i worker h specs =
     rbind (repo_call e (\<lambda>clk. job_claim_op after clk ctx i worker)) (\<lambda>cl.
     rbind (run_stages e ctx i cl worker h 0 specs dispatch_start) (conclude e ctx i cl))"

section \<open>Run\<close>

definition dispatch_and_release ::
  "(string \<Rightarrow> job_error + string) \<Rightarrow> run_env \<Rightarrow> request_context \<Rightarrow> string \<Rightarrow> string \<Rightarrow> job_handler \<Rightarrow> stage_spec list \<Rightarrow>
   endpoint_permits \<Rightarrow> job_result run" where
  "dispatch_and_release after e ctx i worker h specs mp st =
     (case dispatch after e ctx i worker h specs st of
        (Inr r, st1) \<Rightarrow> (Inr r, snd (ledger_call e (release_endpoints mp True) st1))
      | (Inl err, st1) \<Rightarrow>
          (Inl err, snd (repo_call e (\<lambda>clk. job_mark_pending clk ctx i ''dispatchNeedsVerification'')
                     (snd (ledger_call e (release_endpoints mp False) st1)))))"

definition fail_unstarted :: "run_env \<Rightarrow> request_context \<Rightarrow> string \<Rightarrow> string \<Rightarrow> port_error \<Rightarrow> 'a run" where
  "fail_unstarted e ctx i reason err =
     rbind (repo_call e (\<lambda>clk. job_mark_failed_unstarted clk ctx i reason)) (\<lambda>_. rfail err)"

definition reserve_and_dispatch ::
  "(string \<Rightarrow> job_error + string) \<Rightarrow> (denial_reason \<Rightarrow> string) \<Rightarrow> run_env \<Rightarrow> nat \<Rightarrow> request_context \<Rightarrow> string \<Rightarrow> string \<Rightarrow>
   job_handler \<Rightarrow> stage_spec list \<Rightarrow> endpoint_ref list \<Rightarrow> job_result run" where
  "reserve_and_dispatch after shown e now_ms ctx i worker h specs eps st =
     (case ledger_call e (reserve_endpoints shown eps Job (rx_org ctx) (rx_principal ctx) now_ms) st of
        (Inl err, st1) \<Rightarrow> fail_unstarted e ctx i ''jobBudgetRejected'' (port_of_job_error err) st1
      | (Inr mp, st1) \<Rightarrow> dispatch_and_release after e ctx i worker h specs mp st1)"

definition run_job ::
  "(string \<Rightarrow> job_error + string) \<Rightarrow> (denial_reason \<Rightarrow> string) \<Rightarrow> run_env \<Rightarrow> nat \<Rightarrow> handler_registry \<Rightarrow> request_context \<Rightarrow>
   string \<Rightarrow> string \<Rightarrow> endpoint_ref list \<Rightarrow> job_result run" where
  "run_job after shown e now_ms reg ctx i worker eps =
     rbind (get_job e ctx i) (\<lambda>job.
       let d = jr_definition job in
       if jv_state (jr_view job) \<noteq> JobQueued then rfail (CasConflict ''job'' i)
       else case project_frozen_plan (jd_kind d) (jd_payload d) of
         Inl err \<Rightarrow> fail_unstarted e ctx i ''invalidFrozenPlan'' (port_of_job_error err)
       | Inr plan \<Rightarrow> (case resolve_handler (jd_kind d) (fp_handler_version plan) reg of
           None \<Rightarrow> fail_unstarted e ctx i ''handlerNotRegistered'' (UnsupportedVersion
             (''handler '' @ jd_kind d @ ''@'' @ dec (fp_handler_version plan) @ '' not registered''))
         | Some h \<Rightarrow> (case hd_validate h plan of
             ValidationPanicked \<Rightarrow> fail_unstarted e ctx i ''handlerValidationPanicked''
               (BackendUnavailable ''handlerValidationPanicked'')
           | ValidationRejected err \<Rightarrow> fail_unstarted e ctx i ''handlerValidationFailed'' (port_of_job_error err)
           | ValidStages specs \<Rightarrow>
               rbind (get_job e ctx i) (\<lambda>latest.
                 if jv_cancel_requested (jr_view latest) then
                   rbind (repo_call e (\<lambda>clk. job_confirm_cancelled clk ctx i EffNotStarted)) (\<lambda>cancelled.
                     rreturn \<lparr>jq_state = jv_state (jr_view cancelled), jq_effect = EffNotStarted,
                       jq_progress = no_progress, jq_error = None\<rparr>)
                 else reserve_and_dispatch after shown e now_ms ctx i worker h specs eps))))"

end
