(* ===== verification/Job_Runs.thy ===== *)
theory Job_Runs
  imports Job_Runtime Budget_Numbers
begin

text \<open>
  What a job run guarantees whatever the handler does and whatever other tasks do between its calls:
  its store steps keep the invariant and the rows, the job is terminal when the run has returned, and
  the permits of the run are given back.
\<close>

section \<open>Rows that are kept\<close>

definition row_kept :: "job_row \<Rightarrow> job_row \<Rightarrow> bool" where
  "row_kept row row' \<longleftrightarrow> jr_definition (jw_record row') = jr_definition (jw_record row) \<and>
     (is_terminal (row_state row) \<longrightarrow> row_state row' = row_state row)"

definition kept_rows :: "job_store \<Rightarrow> job_store \<Rightarrow> bool" where
  "kept_rows s s' \<longleftrightarrow> (\<forall>i row. find_row i s = Some row \<longrightarrow> (\<exists>row'. find_row i s' = Some row' \<and> row_kept row row'))"

lemma row_kept_refl [simp]: "row_kept row row"
  by (simp add: row_kept_def)

lemma row_kept_trans: "row_kept a b \<Longrightarrow> row_kept b c \<Longrightarrow> row_kept a c"
  by (auto simp: row_kept_def)

lemma kept_rows_refl [simp]: "kept_rows s s"
  by (simp add: kept_rows_def)

lemma kept_rows_trans: "kept_rows a b \<Longrightarrow> kept_rows b c \<Longrightarrow> kept_rows a c"
  unfolding kept_rows_def using row_kept_trans by metis

lemma rows_next_kept: "rows_next s s' \<Longrightarrow> kept_rows s s'"
  unfolding rows_next_def kept_rows_def row_kept_def row_next_def by blast

lemma run_kept: "job_run after printed s s' \<Longrightarrow> store_inv printed s \<Longrightarrow> kept_rows s s'"
  using run_later unfolding kept_rows_def row_kept_def row_later_def by meson

section \<open>Safe programs\<close>

text \<open>The other tasks use the repository and the coordinator through their operations only.\<close>

definition env_ok :: "(string \<Rightarrow> job_error + string) \<Rightarrow> (json \<Rightarrow> string) \<Rightarrow> run_env \<Rightarrow> bool" where
  "env_ok after printed e \<longleftrightarrow> (\<forall>n s l. job_run after printed s (fst (re_between e n (s, l))) \<and>
     coord_run l (snd (re_between e n (s, l))))"

definition sound_op :: "(string \<Rightarrow> job_error + string) \<Rightarrow> (json \<Rightarrow> string) \<Rightarrow> (clock \<Rightarrow> job_store \<Rightarrow> 'r \<times> job_store) \<Rightarrow> bool" where
  "sound_op after printed op \<longleftrightarrow> (\<forall>clk s. snd (op clk s) = s \<or> (\<exists>who. job_step after printed who s (snd (op clk s))))"

definition run_ok :: "(json \<Rightarrow> string) \<Rightarrow> run_state \<Rightarrow> bool" where
  "run_ok printed st \<longleftrightarrow> store_inv printed (rn_store st) \<and> coord_inv (rn_ledger st)"

definition run_next :: "run_state \<Rightarrow> run_state \<Rightarrow> bool" where
  "run_next st st' \<longleftrightarrow> kept_rows (rn_store st) (rn_store st') \<and> numbers_kept (rn_ledger st) (rn_ledger st')"

lemma run_next_refl [simp]: "run_next st st"
  by (simp add: run_next_def)

lemma run_next_trans: "run_next a b \<Longrightarrow> run_next b c \<Longrightarrow> run_next a c"
  unfolding run_next_def using kept_rows_trans numbers_kept_trans by blast

definition safe :: "(json \<Rightarrow> string) \<Rightarrow> (run_state \<Rightarrow> 'r \<times> run_state) \<Rightarrow> bool" where
  "safe printed m \<longleftrightarrow> (\<forall>st. run_ok printed st \<longrightarrow> run_ok printed (snd (m st)) \<and> run_next st (snd (m st)))"

named_theorems safe_intros "composition of safe programs"

lemma safeD:
  "safe printed m \<Longrightarrow> run_ok printed st \<Longrightarrow> run_ok printed (snd (m st))"
  "safe printed m \<Longrightarrow> run_ok printed st \<Longrightarrow> run_next st (snd (m st))"
  by (simp_all add: safe_def)

lemma safe_rreturn [safe_intros]: "safe printed (rreturn x)"
  by (simp add: safe_def rreturn_def)

lemma safe_rfail [safe_intros]: "safe printed (rfail err)"
  by (simp add: safe_def rfail_def)

lemma safe_rbind [safe_intros]:
  assumes m: "safe printed m" and f: "\<And>x. safe printed (f x)"
  shows "safe printed (rbind m f)"
  unfolding safe_def
proof (intro allI impI)
  fix st assume ok: "run_ok printed st"
  obtain r st1 where run: "m st = (r, st1)" by (cases "m st")
  then have one: "run_ok printed st1" "run_next st st1" using safeD [OF m ok] by simp_all
  show "run_ok printed (snd (rbind m f st)) \<and> run_next st (snd (rbind m f st))"
  proof (cases r)
    case (Inl e)
    then show ?thesis using run one by (simp add: rbind_def)
  next
    case (Inr x)
    then show ?thesis using run safeD [OF f one(1)] one(2) by (auto simp: rbind_def intro: run_next_trans)
  qed
qed

lemma safe_state: "(\<And>st0. safe printed (m st0)) \<Longrightarrow> safe printed (\<lambda>st. m st st)"
  unfolding safe_def by blast

lemma interrupted_safe:
  assumes env: "env_ok after printed e" and ok: "run_ok printed st"
  shows "run_ok printed (interrupted e st)" "run_next st (interrupted e st)"
proof -
  have store: "job_run after printed (rn_store st) (rn_store (interrupted e st))"
    and ledger: "coord_run (rn_ledger st) (rn_ledger (interrupted e st))"
    using env by (simp_all add: env_ok_def interrupted_def Let_def)
  show "run_ok printed (interrupted e st)"
    using ok run_inv [OF store] coord_run_inv [OF ledger] by (simp add: run_ok_def)
  show "run_next st (interrupted e st)"
    using ok run_kept [OF store] coord_run_numbers [OF ledger] by (simp add: run_ok_def run_next_def)
qed

lemma sound_op_keeps:
  assumes "sound_op after printed op" "store_inv printed s"
  shows "store_inv printed (snd (op clk s)) \<and> kept_rows s (snd (op clk s))"
proof (cases "snd (op clk s) = s")
  case False
  then obtain who where "job_step after printed who s (snd (op clk s))" using assms(1) unfolding sound_op_def by blast
  then show ?thesis using step_inv assms(2) rows_next_kept by blast
qed (use assms(2) in simp)

lemma repo_call_state:
  "snd (repo_call e op st) = (interrupted e st)\<lparr>rn_store := snd (op (re_clock e (rn_tick st)) (rn_store (interrupted e st)))\<rparr>"
  "fst (repo_call e op st) = fst (op (re_clock e (rn_tick st)) (rn_store (interrupted e st)))"
  by (simp_all add: repo_call_def Let_def split: prod.split)

lemma ledger_call_state:
  "snd (ledger_call e op st) = (interrupted e st)\<lparr>rn_ledger := snd (op (rn_ledger (interrupted e st)))\<rparr>"
  "fst (ledger_call e op st) = fst (op (rn_ledger (interrupted e st)))"
  by (simp_all add: ledger_call_def Let_def split: prod.split)

lemma safe_repo_call:
  assumes env: "env_ok after printed e" and op: "sound_op after printed op"
  shows "safe printed (repo_call e op)"
  unfolding safe_def repo_call_state
proof (intro allI impI)
  fix st assume ok: "run_ok printed st"
  note here = interrupted_safe [OF env ok]
  let ?st' = "(interrupted e st)\<lparr>rn_store := snd (op (re_clock e (rn_tick st)) (rn_store (interrupted e st)))\<rparr>"
  have "run_ok printed ?st' \<and> run_next (interrupted e st) ?st'"
    using sound_op_keeps [OF op, of "rn_store (interrupted e st)"] here(1) by (simp add: run_ok_def run_next_def)
  then show "run_ok printed ?st' \<and> run_next st ?st'" using here(2) run_next_trans by blast
qed

lemma safe_ledger_call:
  assumes env: "env_ok after printed e" and op: "\<And>l. coord_inv l \<Longrightarrow> coord_run l (snd (op l))"
  shows "safe printed (ledger_call e op)"
  unfolding safe_def ledger_call_state
proof (intro allI impI)
  fix st assume ok: "run_ok printed st"
  note here = interrupted_safe [OF env ok]
  let ?st' = "(interrupted e st)\<lparr>rn_ledger := snd (op (rn_ledger (interrupted e st)))\<rparr>"
  have "coord_inv (rn_ledger (interrupted e st))" using here(1) by (simp add: run_ok_def)
  note run = op [OF this] coord_run_inv [OF op [OF this] this] coord_run_numbers [OF op [OF this] this]
  have "run_ok printed ?st' \<and> run_next (interrupted e st) ?st'"
    using run here(1) by (simp add: run_ok_def run_next_def)
  then show "run_ok printed ?st' \<and> run_next st ?st'" using here(2) run_next_trans by blast
qed

lemma release_records_run: "coord_run l (snd (release_records rs consumed now l))"
proof (induction rs arbitrary: l)
  case (Cons r rs)
  obtain out l1 where one: "release (to_port_permit r) consumed now l = (out, l1)" by (cases "release (to_port_permit r) consumed now l")
  then have "coord_run l l1"
    using coord_run.onward [OF coord_run.stay coord_step.release [of l "to_port_permit r" consumed now]] by simp
  then have "coord_run l (snd (release_records rs consumed now l1))" using coord_run_trans Cons by blast
  then show ?case using one by (simp add: case_prod_beta)
qed (simp add: coord_run.stay)

lemma safe_release: "env_ok after printed e \<Longrightarrow> safe printed (ledger_call e (release_endpoints mp consumed))"
  by (intro safe_ledger_call) (auto simp: release_endpoints_def release_records_run)

lemma sound_ops:
  "sound_op after printed (\<lambda>clk s. (job_get ctx i s, s))"
  "sound_op after printed (\<lambda>clk. job_claim_op after clk ctx i worker)"
  "sound_op after printed (\<lambda>clk. job_record_stage clk ctx cl sg)"
  "sound_op after printed (\<lambda>clk. job_record_boundary clk ctx cl b)"
  "sound_op after printed (\<lambda>clk. job_record_progress clk ctx cl pg)"
  "sound_op after printed (\<lambda>clk. job_record_artifacts clk ctx cl arts)"
  "sound_op after printed (\<lambda>clk. job_record_domain_result clk ctx cl r)"
  "sound_op after printed (\<lambda>clk. job_save_checkpoint clk ctx cl cp)"
  "sound_op after printed (\<lambda>clk. job_finish clk ctx cl expected st eff pg err pend)"
  "sound_op after printed (\<lambda>clk. job_confirm_cancelled clk ctx i eff)"
  "sound_op after printed (\<lambda>clk. job_mark_failed_unstarted clk ctx i reason)"
  "sound_op after printed (\<lambda>clk. job_mark_pending clk ctx i reason)"
  unfolding sound_op_def by (auto intro: job_step.intros)

lemmas safe_calls = safe_repo_call [OF _ sound_ops(1)] safe_repo_call [OF _ sound_ops(2)] safe_repo_call [OF _ sound_ops(3)]
  safe_repo_call [OF _ sound_ops(4)] safe_repo_call [OF _ sound_ops(5)] safe_repo_call [OF _ sound_ops(6)]
  safe_repo_call [OF _ sound_ops(7)] safe_repo_call [OF _ sound_ops(8)] safe_repo_call [OF _ sound_ops(9)]
  safe_repo_call [OF _ sound_ops(10)] safe_repo_call [OF _ sound_ops(11)] safe_repo_call [OF _ sound_ops(12)]

section \<open>The parts of a run are safe\<close>

lemma safe_get_job: "env_ok after printed e \<Longrightarrow> safe printed (get_job e ctx i)"
  unfolding get_job_def by (rule safe_calls)

lemma safe_write_stage: "env_ok after printed e \<Longrightarrow> safe printed (write_stage e ctx cl sg)"
  unfolding write_stage_def by (rule safe_calls)

lemma safe_write_boundaries: "env_ok after printed e \<Longrightarrow> safe printed (write_boundaries e ctx cl bs)"
  by (induction bs) (auto intro: safe_rreturn safe_rbind safe_calls)

lemma safe_write_result: "env_ok after printed e \<Longrightarrow> safe printed (write_result e ctx cl h spec out)"
  by (auto simp: write_result_def intro: safe_rreturn safe_rfail safe_calls split: option.split)

lemma safe_write_outcome:
  assumes env: "env_ok after printed e"
  shows "safe printed (write_outcome e ctx i cl worker h spec started out pg)"
  unfolding write_outcome_def
  by (intro safe_rbind safe_write_boundaries [OF env]
      safe_state [of printed "\<lambda>st. rbind (write_stage e ctx cl (stage_row i worker spec (so_executions out) started (Some (re_now e (rn_tick st))))) _"]
      safe_write_stage [OF env] safe_calls [OF env] safe_write_result [OF env])

lemma safe_start_stage:
  assumes env: "env_ok after printed e"
  shows "safe printed (start_stage e ctx i cl worker h k spec)"
proof -
  let ?polls = "\<lambda>st1. watch_cancel (map (cancel_poll ctx i) (re_polls e (rn_tick st1)))"
  have "safe printed (\<lambda>st1. rreturn (started, ?polls st1, hd_run h k spec (?polls st1)) st1)" for started
    by (rule safe_state [of printed "\<lambda>st1. rreturn (started, ?polls st1, hd_run h k spec (?polls st1))"]) (rule safe_rreturn)
  then have "safe printed (rbind (write_stage e ctx cl (stage_row i worker spec [] started None))
      (\<lambda>_ st1. rreturn (started, ?polls st1, hd_run h k spec (?polls st1)) st1))" for started
    by (intro safe_rbind safe_write_stage [OF env])
  then show ?thesis
    unfolding start_stage_def Let_def
    by (rule safe_state [of printed "\<lambda>st. rbind (write_stage e ctx cl (stage_row i worker spec [] (re_now e (rn_tick st)) None))
      (\<lambda>_ st1. rreturn (re_now e (rn_tick st), ?polls st1, hd_run h k spec (?polls st1)) st1)"])
qed

lemma safe_failed_stage:
  assumes env: "env_ok after printed e"
  shows "safe printed (\<lambda>st. rbind (write_stage e ctx cl (stage_row i worker spec [] started (Some (re_now e (rn_tick st)))))
     (\<lambda>_. rreturn x) st)"
  by (rule safe_state [of printed "\<lambda>st. rbind (write_stage e ctx cl (stage_row i worker spec [] started (Some (re_now e (rn_tick st))))) (\<lambda>_. rreturn x)"])
    (intro safe_rbind safe_write_stage [OF env] safe_rreturn)

lemma safe_run_stages:
  assumes env: "env_ok after printed e"
  shows "safe printed (run_stages e ctx i cl worker h k specs acc)"
proof (induction specs arbitrary: k acc)
  case (Cons spec specs)
  show ?case
    unfolding run_stages.simps Let_def
    by (auto intro!: safe_rbind safe_get_job [OF env] safe_rreturn safe_start_stage [OF env] safe_failed_stage [OF env]
        safe_write_outcome [OF env] Cons split: sum.split)
qed (simp add: safe_rreturn)

lemma safe_conclude: "env_ok after printed e \<Longrightarrow> safe printed (conclude e ctx i cl acc)"
  unfolding conclude_def write_checkpoint_def
  by (auto intro!: safe_rbind safe_get_job safe_rreturn intro: safe_calls)

lemma safe_dispatch: "env_ok after printed e \<Longrightarrow> safe printed (dispatch after e ctx i worker h specs)"
  unfolding dispatch_def by (intro safe_rbind safe_run_stages safe_conclude safe_calls)

section \<open>How a dispatch ends\<close>

lemma rbind_InrE:
  assumes "rbind m f st = (Inr y, st2)"
  obtains x st1 where "m st = (Inr x, st1)" "f x st1 = (Inr y, st2)"
  using assms by (auto simp: rbind_def split: prod.splits sum.splits)

lemma repo_callE:
  assumes "repo_call e op st = (r, st')"
  obtains "op (re_clock e (rn_tick st)) (rn_store (interrupted e st)) = (r, rn_store st')"
    "rn_ledger st' = rn_ledger (interrupted e st)"
  using assms by (auto simp: repo_call_def Let_def split: prod.splits)

lemma finish_success:
  assumes "job_finish clk ctx cl expected st eff pg err pend s = (Inr r, s')"
  shows "is_terminal st" "\<exists>row'. find_row (jc_job cl) s' = Some row' \<and> row_state row' = st \<and> jv_effect (row_view row') = Some eff"
proof -
  show "is_terminal st" using assms by (simp add: job_finish_def split: if_splits)
  have run: "fenced clk ctx cl (\<lambda>row. if row_version row \<noteq> expected then (Inl (CasConflict ''job'' (jc_job cl)), s)
      else let row' = clear_claim_if True (set_version (sat_add64 expected 1)
                (upd_view (\<lambda>v. v\<lparr>jv_state := st, jv_effect := Some eff, jv_progress := pg, jv_error := err,
                   jv_pending := pend, jv_updated := clk 1\<rparr>) row))
        in (Inr (jw_record row'),
            note_recovery (jc_job cl) (map_option pending_recovery pend) (put_row (jc_job cl) row' s))) s = (Inr r, s')"
    using assms by (simp add: job_finish_def split: if_splits)
  then have "check_claim s ctx cl (clk 0) = None" by (auto simp: fenced_def split: option.splits)
  then obtain row where row: "find_row (jc_job cl) s = Some row" using check_claim_None by blast
  have rows: "find_row j (note_recovery k rec t) = find_row j t" for j k rec t by (simp add: find_row_def)
  show "\<exists>row'. find_row (jc_job cl) s' = Some row' \<and> row_state row' = st \<and> jv_effect (row_view row') = Some eff"
    using run row \<open>check_claim s ctx cl (clk 0) = None\<close>
    by (auto simp: fenced_def Let_def rows row_simps split: if_splits)
qed

lemma dispatch_success:
  assumes "dispatch after e ctx i worker h specs st = (Inr r, st')"
  obtains cl acc st1 st2 where
    "repo_call e (\<lambda>clk. job_claim_op after clk ctx i worker) st = (Inr cl, st1)" "jc_job cl = i"
    "run_stages e ctx i cl worker h 0 specs dispatch_start st1 = (Inr acc, st2)"
    "jq_state r = fst (job_outcome acc)" "jq_effect r = snd (job_outcome acc)" "jq_error r = outcome_error acc"
    "is_terminal (jq_state r)"
    "\<exists>row'. find_row i (rn_store st') = Some row' \<and> row_state row' = jq_state r \<and> jv_effect (row_view row') = Some (jq_effect r)"
proof -
  obtain cl st1 where claim: "repo_call e (\<lambda>clk. job_claim_op after clk ctx i worker) st = (Inr cl, st1)"
    and rest: "rbind (run_stages e ctx i cl worker h 0 specs dispatch_start) (conclude e ctx i cl) st1 = (Inr r, st')"
    using assms unfolding dispatch_def by (rule rbind_InrE)
  obtain acc st2 where stages: "run_stages e ctx i cl worker h 0 specs dispatch_start st1 = (Inr acc, st2)"
    and fin: "conclude e ctx i cl acc st2 = (Inr r, st')"
    using rest by (rule rbind_InrE)
  have "job_claim_op after (re_clock e (rn_tick st)) ctx i worker (rn_store (interrupted e st)) = (Inr cl, rn_store st1)"
    using claim by (rule repo_callE)
  then have job: "jc_job cl = i" by (rule claim_success)
  obtain latest :: job_record and rec st3 where finish: "repo_call e (\<lambda>clk. job_finish clk ctx cl (jr_version latest) (fst (job_outcome acc))
      (snd (job_outcome acc)) (da_progress acc) (outcome_error acc) (outcome_pending acc)) st3 = (Inr rec, st')"
    and r: "r = \<lparr>jq_state = fst (job_outcome acc), jq_effect = snd (job_outcome acc), jq_progress = da_progress acc,
       jq_error = outcome_error acc\<rparr>"
    using fin unfolding conclude_def by (elim rbind_InrE) (auto simp: rreturn_def)
  have "job_finish (re_clock e (rn_tick st3)) ctx cl (jr_version latest) (fst (job_outcome acc)) (snd (job_outcome acc))
      (da_progress acc) (outcome_error acc) (outcome_pending acc) (rn_store (interrupted e st3)) = (Inr rec, rn_store st')"
    using finish by (rule repo_callE)
  from finish_success [OF this] show ?thesis
    using that [OF claim job stages] r job by simp
qed

lemma mark_pending_settles:
  assumes "find_row i s = Some row" "row_org row = rx_org ctx"
  shows "\<exists>row'. find_row i (snd (job_mark_pending clk ctx i reason s)) = Some row' \<and> is_terminal (row_state row') \<and>
    jv_pending (row_view row') = Some reason"
  using assms by (simp add: job_mark_pending_def own_row_def belongs_to_def Let_def row_simps fail_open_row_def row_state_view)

section \<open>What a successful run says about its stages\<close>

definition stage_succeeds :: "job_handler \<Rightarrow> nat \<Rightarrow> stage_spec \<Rightarrow> bool" where
  "stage_succeeds h k spec \<longleftrightarrow> (\<exists>flipped out. hd_run h k spec flipped = Inr out \<and> so_terminal out = StageSucceeded \<and>
     so_effect out \<noteq> EffUnknown)"

definition clean :: "dispatch_acc \<Rightarrow> bool" where
  "clean acc \<longleftrightarrow> \<not> da_unknown acc \<and> \<not> da_failed acc \<and> \<not> da_cancelled acc"

lemma clean_outcome: "fst (job_outcome acc) = JobSucceeded \<longleftrightarrow> clean acc"
  by (simp add: job_outcome_def clean_def)

lemma run_stages_clean:
  assumes "run_stages e ctx i cl worker h k specs acc st = (Inr acc', st')" "clean acc'"
  shows "clean acc \<and> da_reason acc' = da_reason acc \<and> (\<forall>j < length specs. stage_succeeds h (k + j) (specs ! j))"
  using assms
proof (induction specs arbitrary: k acc st)
  case Nil
  then show ?case by (simp add: rreturn_def)
next
  case (Cons spec specs)
  obtain latest :: job_record and st1 where one: "(if da_token acc \<or> jv_cancel_requested (jr_view latest)
       then rreturn (acc\<lparr>da_token := True, da_cancelled := True\<rparr>)
       else rbind (start_stage e ctx i cl worker h k spec) (\<lambda>(started, flipped, result).
         case result of
           Inl f \<Rightarrow> (\<lambda>st. rbind (write_stage e ctx cl (stage_row i worker spec [] started (Some (re_now e (rn_tick st)))))
             (\<lambda>_. rreturn (absorb_failure f (acc\<lparr>da_token := flipped\<rparr>))) st)
         | Inr out \<Rightarrow>
             let acc' = absorb_outcome out (acc\<lparr>da_token := flipped\<rparr>) in
             rbind (write_outcome e ctx i cl worker h spec started out (da_progress acc')) (\<lambda>_.
               if so_terminal out \<noteq> StageSucceeded then rreturn acc'
               else run_stages e ctx i cl worker h (k + 1) specs acc'))) st1 = (Inr acc', st')"
    using Cons.prems(1) unfolding run_stages.simps by (rule rbind_InrE)
  have "\<not> (da_token acc \<or> jv_cancel_requested (jr_view latest))"
    using one Cons.prems(2) by (auto simp: rreturn_def clean_def split: if_splits)
  then obtain started flipped result st2 where start: "start_stage e ctx i cl worker h k spec st1 = (Inr (started, flipped, result), st2)"
    and two: "(case result of
           Inl f \<Rightarrow> (\<lambda>st. rbind (write_stage e ctx cl (stage_row i worker spec [] started (Some (re_now e (rn_tick st)))))
             (\<lambda>_. rreturn (absorb_failure f (acc\<lparr>da_token := flipped\<rparr>))) st)
         | Inr out \<Rightarrow>
             let acc' = absorb_outcome out (acc\<lparr>da_token := flipped\<rparr>) in
             rbind (write_outcome e ctx i cl worker h spec started out (da_progress acc')) (\<lambda>_.
               if so_terminal out \<noteq> StageSucceeded then rreturn acc'
               else run_stages e ctx i cl worker h (k + 1) specs acc')) st2 = (Inr acc', st')"
    using one by (auto elim!: rbind_InrE)
  have result: "result = hd_run h k spec flipped"
    using start by (auto simp: start_stage_def rreturn_def Let_def elim!: rbind_InrE)
  show ?case
  proof (cases result)
    case (Inl f)
    then have "da_failed acc'" using two by (auto simp: rreturn_def absorb_failure_def elim!: rbind_InrE)
    then show ?thesis using Cons.prems(2) by (simp add: clean_def)
  next
    case (Inr out)
    let ?acc = "absorb_outcome out (acc\<lparr>da_token := flipped\<rparr>)"
    obtain st3 where three: "(if so_terminal out \<noteq> StageSucceeded then rreturn ?acc
        else run_stages e ctx i cl worker h (k + 1) specs ?acc) st3 = (Inr acc', st')"
      using two Inr by (auto simp: Let_def elim!: rbind_InrE)
    have ok: "so_terminal out = StageSucceeded"
    proof (rule ccontr)
      assume bad: "so_terminal out \<noteq> StageSucceeded"
      then have "acc' = ?acc" using three by (simp add: rreturn_def)
      then show False using bad Cons.prems(2)
        by (cases "so_terminal out") (simp_all add: absorb_outcome_def clean_def)
    qed
    have rest: "clean ?acc \<and> da_reason acc' = da_reason ?acc \<and> (\<forall>j < length specs. stage_succeeds h (k + 1 + j) (specs ! j))"
      using Cons.IH [of "k + 1" ?acc st3] three ok Cons.prems(2) by simp
    then have "stage_succeeds h k spec" "clean acc" "da_reason acc' = da_reason acc"
      using ok Inr result by (auto simp: stage_succeeds_def clean_def absorb_outcome_def)
    then show ?thesis using rest by (auto simp: nth_Cons split: nat.split)
  qed
qed

end
