(* ===== verification/Job_Host.thy ===== *)
theory Job_Host
  imports Job_Runs
begin

text \<open>
  The host of the jobs (\<open>jobs/application/host.rs\<close>): cancellation, the scan after a restart, recovery
  verification and dispatch, each a sequence of repository calls between which other tasks may act.
  A recovery verifier is a record of functions; it may fail or panic.
\<close>

definition host_cancel :: "run_env \<Rightarrow> request_context \<Rightarrow> string \<Rightarrow> job_record run" where
  "host_cancel e ctx i =
     rbind (repo_call e (\<lambda>clk. job_request_cancel clk ctx i)) (\<lambda>requested.
       if jv_state (jr_view requested) \<noteq> JobQueued then rreturn requested
       else (\<lambda>st. case repo_call e (\<lambda>clk. job_confirm_cancelled clk ctx i EffNotStarted) st of
           (Inr r, st1) \<Rightarrow> (Inr r, st1)
         | (Inl err, st1) \<Rightarrow> (case err of
             CasConflict _ _ \<Rightarrow> get_job e ctx i st1
           | StaleClaim \<Rightarrow> get_job e ctx i st1
           | _ \<Rightarrow> (Inl err, st1))))"

definition set_view_error :: "string \<Rightarrow> job_record \<Rightarrow> job_record" where
  "set_view_error reason r = r\<lparr>jr_view := (jr_view r)\<lparr>jv_error := Some reason\<rparr>\<rparr>"

definition mark_candidate :: "run_env \<Rightarrow> request_context \<Rightarrow> job_record \<Rightarrow> job_record run" where
  "mark_candidate e ctx candidate =
     (let i = jv_id (jr_view candidate) in
      if jv_state (jr_view candidate) = JobRunning then
        rbind (repo_call e (\<lambda>clk. job_mark_pending clk ctx i ''restartNeedsVerification'')) (\<lambda>record.
        rbind (repo_call e (\<lambda>clk. job_persist_recovery clk ctx i
            \<lparr>rv_verdict = PendingVerification, rv_resume_through = None, rv_reason = Some ''restartNeedsVerification''\<rparr>)) (\<lambda>_.
        rreturn (set_view_error ''restartNeedsVerification'' record)))
      else if jv_state (jr_view candidate) = JobQueued then
        repo_call e (\<lambda>clk. job_mark_failed_unstarted clk ctx i ''notDispatchedAfterRestart'')
      else rreturn candidate)"

fun mark_candidates :: "run_env \<Rightarrow> request_context \<Rightarrow> job_record list \<Rightarrow> job_record list run" where
  "mark_candidates e ctx [] = rreturn []"
| "mark_candidates e ctx (r # rs) =
     rbind (mark_candidate e ctx r) (\<lambda>x. rbind (mark_candidates e ctx rs) (\<lambda>xs. rreturn (x # xs)))"

definition mark_restart_candidates :: "run_env \<Rightarrow> request_context \<Rightarrow> recovery_filter \<Rightarrow> job_record list run" where
  "mark_restart_candidates e ctx f =
     rbind (repo_call e (\<lambda>clk s. (Inr (list_recoverable ctx f s), s))) (mark_candidates e ctx)"

record recovery_verifier =
  vr_kind :: string
  vr_verify :: "job_details \<Rightarrow> checkpoint option \<Rightarrow> (port_error + recovery_verification) option"

definition unavailable_verification :: recovery_verification where
  "unavailable_verification = \<lparr>vf_result = \<lparr>rv_verdict = RequireManualReview, rv_resume_through = None,
     rv_reason = Some ''verificationUnavailable''\<rparr>, vf_boundaries = [], vf_domain_results = []\<rparr>"

definition may_verify :: "recovery_verifier \<Rightarrow> job_details \<Rightarrow> bool" where
  "may_verify v d \<longleftrightarrow> jv_state (jx_job d) = JobFailed \<and> jv_pending (jx_job d) \<noteq> None \<and>
     (case jx_recovery d of None \<Rightarrow> False | Some r \<Rightarrow> rv_verdict r = PendingVerification) \<and> vr_kind v = jv_kind (jx_job d)"

definition get_details ::
  "(json \<Rightarrow> recovery_target list option) \<Rightarrow> run_env \<Rightarrow> request_context \<Rightarrow> string \<Rightarrow> job_details run" where
  "get_details decode e ctx i = repo_call e (\<lambda>clk s. (job_get_details decode ctx i s, s))"

definition verify_recovery ::
  "(json \<Rightarrow> recovery_target list option) \<Rightarrow> run_env \<Rightarrow> request_context \<Rightarrow> string \<Rightarrow> recovery_verifier \<Rightarrow> job_details run" where
  "verify_recovery decode e ctx i v =
     rbind (get_details decode e ctx i) (\<lambda>d.
       if \<not> may_verify v d then rfail (CasConflict ''job_recovery'' i)
       else rbind (repo_call e (\<lambda>clk s. (Inr (latest_checkpoint ctx i s), s))) (\<lambda>cp.
         let verification = (case vr_verify v d cp of Some (Inr x) \<Rightarrow> x | _ \<Rightarrow> unavailable_verification) in
         rbind (repo_call e (\<lambda>clk. job_persist_verification clk ctx i (jx_version d) verification)) (\<lambda>_.
         get_details decode e ctx i)))"

definition ensure_endpoint_services :: "endpoint_ref list \<Rightarrow> ledger \<Rightarrow> ledger" where
  "ensure_endpoint_services eps l = foldl (\<lambda>t ep. ensure_service (ep_conn ep) t) l eps"

definition host_dispatch ::
  "(string \<Rightarrow> job_error + string) \<Rightarrow> (denial_reason \<Rightarrow> string) \<Rightarrow> run_env \<Rightarrow> nat \<Rightarrow> request_context \<Rightarrow> string \<Rightarrow> string \<Rightarrow>
   endpoint_ref list \<Rightarrow> job_handler \<Rightarrow> job_result run" where
  "host_dispatch after shown e now_ms ctx i worker eps h =
     run_job after shown e now_ms (register_handler h []) ctx i worker eps"

section \<open>The scan after a restart\<close>

text \<open>Nobody else runs while the host scans: the process has just started.\<close>

definition alone :: "run_env \<Rightarrow> bool" where
  "alone e \<longleftrightarrow> re_between e = (\<lambda>n w. w)"

lemma alone_call:
  "alone e \<Longrightarrow> repo_call e op st = (let (r, s') = op (re_clock e (rn_tick st)) (rn_store st)
     in (r, \<lparr>rn_tick = rn_tick st + 1, rn_store = s', rn_ledger = rn_ledger st\<rparr>))"
  by (simp add: alone_def repo_call_def interrupted_def split: prod.split)

definition open_rows :: "request_context \<Rightarrow> recovery_filter \<Rightarrow> job_store \<Rightarrow> string set" where
  "open_rows ctx f s = {i. \<exists>row. find_row i s = Some row \<and> row_org row = rx_org ctx \<and>
     (rf_kinds f = [] \<or> jd_kind (jr_definition (jw_record row)) \<in> set (rf_kinds f)) \<and> \<not> is_terminal (row_state row)}"

lemma recoverable_lists_open:
  assumes "store_inv printed s" "i \<in> open_rows ctx f s"
  shows "\<exists>r \<in> set (list_recoverable ctx f s). jv_id (jr_view r) = i"
proof -
  obtain row where row: "find_row i s = Some row" "row_org row = rx_org ctx"
    "rf_kinds f = [] \<or> jd_kind (jr_definition (jw_record row)) \<in> set (rf_kinds f)" "\<not> is_terminal (row_state row)"
    using assms(2) by (auto simp: open_rows_def)
  have "row \<in> set (bt_values (js_jobs s))"
    using row(1) assms(1) by (auto simp: find_row_def bt_values_get store_inv_def)
  moreover have "recoverable_row s row"
    using row(4) by (cases "row_state row") (simp_all add: recoverable_row_def)
  ultimately have "jw_record row \<in> set (list_recoverable ctx f s)"
    using row(2,3) by (auto simp: list_recoverable_def by_created_def belongs_to_def)
  moreover have "jv_id (jr_view (jw_record row)) = i"
    using assms(1) row(1) by (simp add: store_inv_def row_ok_def row_view_def)
  ultimately show ?thesis by blast
qed

text \<open>How a scanned job looks afterwards, and what one candidate changes.\<close>

definition scanned :: "job_row \<Rightarrow> string \<Rightarrow> job_store \<Rightarrow> bool" where
  "scanned row i s \<longleftrightarrow> (\<exists>row'. find_row i s = Some row' \<and> jr_definition (jw_record row') = jr_definition (jw_record row) \<and>
     is_terminal (row_state row') \<and>
     (row_state row = JobRunning \<longrightarrow> row_state row' = JobFailed \<and> jw_claim row' = None \<and>
       jv_pending (row_view row') = Some ''restartNeedsVerification'' \<and>
       map_option rv_verdict (bt_get (js_recovery s) i) = Some PendingVerification))"

definition same_elsewhere :: "string \<Rightarrow> job_store \<Rightarrow> job_store \<Rightarrow> bool" where
  "same_elsewhere i s s' \<longleftrightarrow> (\<forall>j. j \<noteq> i \<longrightarrow> find_row j s' = find_row j s \<and> bt_get (js_recovery s') j = bt_get (js_recovery s) j)"

lemma find_row_note [simp]: "find_row j (note_recovery k v s) = find_row j s"
  by (simp add: find_row_def)

lemma recovery_note: "bt_get (js_recovery (note_recovery k (Some v) s)) j = (if j = k then Some v else bt_get (js_recovery s) j)"
  by (simp add: note_recovery_def map_laws)

lemma mark_candidate_step:
  assumes "alone e" "find_row i (rn_store st) = Some row" "row_org row = rx_org ctx" "jv_id (row_view row) = i"
    and "row_state row = JobQueued \<Longrightarrow> jw_claim row = None"
  shows "\<exists>x st'. mark_candidate e ctx (jw_record row) st = (Inr x, st') \<and> scanned row i (rn_store st') \<and>
    same_elsewhere i (rn_store st) (rn_store st')"
proof -
  have own: "own_row ctx i (rn_store st) = Some row" using assms(2,3) by (simp add: own_row_def belongs_to_def)
  have view: "jv_id (jr_view (jw_record row)) = i" "jv_state (jr_view (jw_record row)) = row_state row"
    using assms(4) by (simp_all add: row_view_def row_state_def)
  consider "row_state row = JobRunning" | "row_state row = JobQueued" | "is_terminal (row_state row)"
    by (cases "row_state row") simp_all
  then show ?thesis
  proof cases
    case 1
    let ?row' = "upd_view (\<lambda>v. v\<lparr>jv_pending := Some ''restartNeedsVerification'', jv_updated := re_clock e (rn_tick st) 0\<rparr>)
      (fail_open_row ''restartNeedsVerification'' row)"
    have row': "row_org ?row' = rx_org ctx" "row_state ?row' = JobFailed" "jw_claim ?row' = None"
      "jr_definition (jw_record ?row') = jr_definition (jw_record row)" "jv_pending (row_view ?row') = Some ''restartNeedsVerification''"
      using 1 assms(3) by (simp_all add: row_simps fail_open_row_def row_org_def row_state_view)
    have own': "own_row ctx i (put_row i ?row' (rn_store st)) = Some ?row'"
      using row'(1) by (simp add: own_row_def belongs_to_def)
    have touched: "row_state (touch t ?row') = JobFailed" "jw_claim (touch t ?row') = None"
      "jr_definition (jw_record (touch t ?row')) = jr_definition (jw_record row)"
      "jv_pending (row_view (touch t ?row')) = Some ''restartNeedsVerification''" for t
      using row' by (simp_all add: touch_def row_simps row_state_view)
    show ?thesis
      using 1 view own own' touched
      by (simp add: mark_candidate_def alone_call [OF assms(1)] rbind_def rreturn_def job_mark_pending_def job_persist_recovery_def
          scanned_def same_elsewhere_def recovery_note Let_def)
  next
    case 2
    then show ?thesis
      using view own assms(5)
      by (simp add: mark_candidate_def alone_call [OF assms(1)] job_mark_failed_unstarted_def scanned_def same_elsewhere_def
          recovery_note row_simps Let_def)
  next
    case 3
    then show ?thesis
      using view assms(2) by (auto simp: mark_candidate_def rreturn_def scanned_def same_elsewhere_def)
  qed
qed

lemma scanned_elsewhere: "scanned row j s \<Longrightarrow> j \<noteq> i \<Longrightarrow> same_elsewhere i s s' \<Longrightarrow> scanned row j s'"
  by (simp add: scanned_def same_elsewhere_def)

lemma mark_candidates_step:
  assumes "alone e" "distinct (map (\<lambda>row. jv_id (row_view row)) rows)"
    and "list_all (\<lambda>row. find_row (jv_id (row_view row)) (rn_store st) = Some row \<and> row_org row = rx_org ctx \<and>
      (row_state row = JobQueued \<longrightarrow> jw_claim row = None)) rows"
  shows "\<exists>xs st'. mark_candidates e ctx (map jw_record rows) st = (Inr xs, st') \<and>
    list_all (\<lambda>row. scanned row (jv_id (row_view row)) (rn_store st')) rows \<and>
    (\<forall>j. j \<notin> (\<lambda>row. jv_id (row_view row)) ` set rows \<longrightarrow> find_row j (rn_store st') = find_row j (rn_store st) \<and>
      bt_get (js_recovery (rn_store st')) j = bt_get (js_recovery (rn_store st)) j)"
  using assms(2,3)
proof (induction rows arbitrary: st)
  case (Cons row rows)
  let ?i = "jv_id (row_view row)"
  obtain x st1 where one: "mark_candidate e ctx (jw_record row) st = (Inr x, st1)" "scanned row ?i (rn_store st1)"
    "same_elsewhere ?i (rn_store st) (rn_store st1)"
    using mark_candidate_step [OF assms(1), of ?i st row ctx] Cons.prems(2) by auto
  have "list_all (\<lambda>row. find_row (jv_id (row_view row)) (rn_store st1) = Some row \<and> row_org row = rx_org ctx \<and>
      (row_state row = JobQueued \<longrightarrow> jw_claim row = None)) rows"
    using Cons.prems one(3) by (auto simp: list_all_iff same_elsewhere_def image_iff)
  then obtain xs st2 where two: "mark_candidates e ctx (map jw_record rows) st1 = (Inr xs, st2)"
    "list_all (\<lambda>row. scanned row (jv_id (row_view row)) (rn_store st2)) rows"
    "\<forall>j. j \<notin> (\<lambda>row. jv_id (row_view row)) ` set rows \<longrightarrow> find_row j (rn_store st2) = find_row j (rn_store st1) \<and>
      bt_get (js_recovery (rn_store st2)) j = bt_get (js_recovery (rn_store st1)) j"
    using Cons.IH [of st1] Cons.prems(1) by auto
  have "?i \<notin> (\<lambda>row. jv_id (row_view row)) ` set rows" using Cons.prems(1) by auto
  then have "scanned row ?i (rn_store st2)"
    using one(2) two(3) by (simp add: scanned_def)
  then show ?case
    using one two by (auto simp: rbind_def rreturn_def same_elsewhere_def)
qed (simp add: rreturn_def)

text \<open>The candidates are rows of the store, each once.\<close>

definition row_of :: "job_store \<Rightarrow> job_record \<Rightarrow> job_row" where
  "row_of s r = the (find_row (jv_id (jr_view r)) s)"

lemma recoverable_row_of:
  assumes "store_inv printed s" "r \<in> set (list_recoverable ctx f s)"
  shows "find_row (jv_id (jr_view r)) s = Some (row_of s r)" "jw_record (row_of s r) = r" "row_org (row_of s r) = rx_org ctx"
proof -
  obtain row where row: "row \<in> set (bt_values (js_jobs s))" "r = jw_record row" "row_org row = rx_org ctx"
    using assms(2) by (auto simp: list_recoverable_def by_created_def belongs_to_def)
  then obtain i where i: "find_row i s = Some row"
    using assms(1) by (auto simp: find_row_def bt_values_get store_inv_def)
  then have "jv_id (jr_view r) = i" using assms(1) row(2) by (simp add: store_inv_def row_ok_def row_view_def)
  then show "find_row (jv_id (jr_view r)) s = Some (row_of s r)" "jw_record (row_of s r) = r" "row_org (row_of s r) = rx_org ctx"
    using i row by (simp_all add: row_of_def)
qed

lemma values_distinct:
  assumes "store_inv printed s"
  shows "distinct (map (\<lambda>row. jv_id (row_view row)) (bt_values (js_jobs s)))"
proof -
  have wf: "bt_wf (js_jobs s)" using assms by (simp add: store_inv_def)
  have "jv_id (row_view (snd kv)) = fst kv" if mem: "kv \<in> set (js_jobs s)" for kv
  proof -
    obtain i row where kv: "kv = (i, row)" by (cases kv)
    then have "find_row i s = Some row" using bt_get_Some_iff [OF wf] mem by (simp add: find_row_def)
    then show ?thesis using assms kv by (simp add: store_inv_def row_ok_def)
  qed
  then have "map (\<lambda>row. jv_id (row_view row)) (bt_values (js_jobs s)) = map fst (js_jobs s)"
    by (simp add: bt_values_def)
  then show ?thesis using bt_wf_distinct [OF wf] by simp
qed

lemma list_recoverable_distinct:
  assumes "store_inv printed s"
  shows "distinct (map (\<lambda>r. jv_id (jr_view r)) (list_recoverable ctx f s))"
proof -
  have perm: "distinct (map g (sort_key k xs)) \<longleftrightarrow> distinct (map g xs)" for g :: "job_record \<Rightarrow> string" and k :: "job_record \<Rightarrow> string" and xs
    by (rule mset_eq_imp_distinct_iff) simp
  let ?rows = "filter (\<lambda>row. belongs_to row (rx_org ctx) \<and> recoverable_row s row) (bt_values (js_jobs s))"
  have "distinct (map (\<lambda>row. jv_id (row_view row)) ?rows)" by (rule distinct_map_filter [OF values_distinct [OF assms]])
  then have "distinct (map (\<lambda>r. jv_id (jr_view r)) (map jw_record ?rows))" by (simp add: comp_def row_view_def)
  then show ?thesis unfolding list_recoverable_def by_created_def perm by (rule distinct_map_filter)
qed

text \<open>A job marked without a recovery record is not open to verification.\<close>

lemma pending_without_recovery:
  assumes "alone e" "find_row i (rn_store st) = Some row" "row_org row = rx_org ctx"
    and "bt_get (js_recovery (rn_store st)) i = None"
  shows "fst (verify_recovery decode e ctx i v (st\<lparr>rn_store := snd (job_mark_pending clk ctx i reason (rn_store st))\<rparr>)) =
    Inl (CasConflict ''job_recovery'' i)"
proof -
  let ?row' = "upd_view (\<lambda>w. w\<lparr>jv_pending := Some reason, jv_updated := clk 0\<rparr>) (fail_open_row reason row)"
  have "row_org ?row' = rx_org ctx" using assms(3) by (simp add: row_org_def row_simps fail_open_row_def)
  then have "own_row ctx i (put_row i ?row' (rn_store st)) = Some ?row'" by (simp add: own_row_def belongs_to_def)
  moreover have "snd (job_mark_pending clk ctx i reason (rn_store st)) = put_row i ?row' (rn_store st)"
    using assms(2,3) by (simp add: job_mark_pending_def own_row_def belongs_to_def Let_def)
  ultimately show ?thesis using assms(4)
    by (simp add: verify_recovery_def get_details_def alone_call [OF assms(1)] rbind_def job_get_details_def Let_def may_verify_def rfail_def)
qed

end
