(* ===== verification/Job_Run_Theorems.thy ===== *)
theory Job_Run_Theorems
  imports Job_Runs Budget_Theorems
begin

text \<open>
  Properties of the endpoint check, the budget reservation and the run of a job, with concrete runs
  that show the hypotheses can hold.
\<close>

section \<open>Endpoints\<close>

text \<open>
  The endpoint check accepts a list exactly when no reader is followed by a writer of an object it
  reads on the same physical service, and, if there is a writer, every endpoint proves its identity.
\<close>

theorem overlap_check_exact:
  "detect_endpoint_overlap eps = None \<longleftrightarrow>
     sorted_wrt (\<lambda>a b. \<not> endpoints_meet a b) eps \<and>
     \<not> (list_ex (\<lambda>ep. identity_key ep = None) eps \<and> list_ex (\<lambda>ep. ep_role ep = TargetWriter) eps)"
  by (rule detect_endpoint_overlap_None)

definition demo_reader :: endpoint_ref where
  "demo_reader = \<lparr>ep_conn = ''a'', ep_service_key = ''db1'', ep_objects = [''t''], ep_role = SourceReader\<rparr>"

definition demo_writer :: endpoint_ref where
  "demo_writer = \<lparr>ep_conn = ''b'', ep_service_key = '' DB1 '', ep_objects = [''t''], ep_role = TargetWriter\<rparr>"

text \<open>The order matters: the same two endpoints are refused in one order and accepted in the other.\<close>

lemma overlap_depends_on_order:
  "detect_endpoint_overlap [demo_reader, demo_writer] = Some (EndpointOverlap (overlap_text ''t'' ''a'' ''b''))"
  "detect_endpoint_overlap [demo_writer, demo_reader] = None"
  by code_simp+

section \<open>The end of a run\<close>

text \<open>
  C6. A run that holds a reservation always settles. Whatever the handler returns, however it fails,
  and whatever other tasks do to the repository and the ledger meanwhile: when the run has returned,
  the job is terminal, in the state the caller is told or, on an error, marked for verification, and
  none of the reserved permits is live.
\<close>

theorem run_settles_the_job:
  assumes "env_ok after printed e" "job_reachable after printed (rn_store st)"
    and "coord_reachable cfg (rn_ledger st)" "cfg_bounds cfg"
    and "find_row i (rn_store st) = Some row" "row_org row = rx_org ctx"
    and "list_all (permit_live (rn_ledger st)) (mp_permits mp)"
    and "dispatch_and_release after e ctx i worker h specs mp st = (out, st')"
  shows "\<exists>row'. find_row i (rn_store st') = Some row' \<and> is_terminal (row_state row') \<and>
    (case out of Inr r \<Rightarrow> row_state row' = jq_state r
     | Inl err \<Rightarrow> jv_pending (row_view row') = Some ''dispatchNeedsVerification'') \<and>
    list_all (\<lambda>r. \<not> permit_live (rn_ledger st') r) (mp_permits mp)"
proof -
  have ok: "run_ok printed st"
    using reachable_inv [OF assms(2)] coord_inv_reachable [OF assms(4,3)] by (simp add: run_ok_def)
  obtain res st1 where d: "dispatch after e ctx i worker h specs st = (res, st1)"
    by (cases "dispatch after e ctx i worker h specs st")
  have ok1: "run_ok printed st1" "run_next st st1"
    using safeD [OF safe_dispatch [OF assms(1)] ok, of ctx i worker h specs] d by simp_all
  define consumed where "consumed = (case res of Inr _ \<Rightarrow> True | Inl _ \<Rightarrow> False)"
  define st2 where "st2 = snd (ledger_call e (release_endpoints mp consumed) st1)"
  have ok2: "run_ok printed st2" "run_next st1 st2"
    unfolding st2_def using safeD [OF safe_release [OF assms(1)] ok1(1)] by simp_all
  have gone: "\<not> permit_live (rn_ledger st2) r" if "r \<in> set (mp_permits mp)" for r
    using release_endpoints_gone [OF that] by (simp add: st2_def ledger_call_state)
  have spent2: "spent (rn_ledger st2) (p_id r)" if mem: "r \<in> set (mp_permits mp)" for r
  proof -
    obtain r0 where "bt_get (permits (rn_ledger st)) (p_id r) = Some r0"
      using assms(7) mem by (auto simp: list_all_iff permit_live_def)
    then have "issued (rn_ledger st) (p_id r)" using live_issued ok by (auto simp: run_ok_def)
    then have "issued (rn_ledger st2) (p_id r)"
      using issued_mono run_next_trans [OF ok1(2) ok2(2)] by (auto simp: run_next_def numbers_kept_def)
    then show ?thesis using gone [OF mem] by (simp add: spent_def permit_live_def)
  qed
  have kept: "\<exists>row1. find_row i (rn_store t) = Some row1 \<and> row_kept row row1" if "run_next st t" for t
    using that assms(5) unfolding run_next_def kept_rows_def by blast
  show ?thesis
  proof (cases res)
    case (Inr r)
    then have "consumed = True" by (simp add: consumed_def)
    then have st': "st' = st2" "out = Inr r"
      using assms(8) d Inr by (auto simp: dispatch_and_release_def st2_def)
    obtain row1 where "find_row i (rn_store st1) = Some row1" "row_state row1 = jq_state r" "is_terminal (jq_state r)"
      using dispatch_success [OF d [unfolded Inr]] by blast
    then obtain row2 where "find_row i (rn_store st2) = Some row2" "row_state row2 = jq_state r" "is_terminal (jq_state r)"
      using ok2(2) unfolding run_next_def kept_rows_def row_kept_def by metis
    then show ?thesis using st' gone by (simp add: list_all_iff)
  next
    case (Inl err)
    let ?op = "\<lambda>clk. job_mark_pending clk ctx i ''dispatchNeedsVerification''"
    have "consumed = False" by (simp add: consumed_def Inl)
    then have st': "st' = snd (repo_call e ?op st2)" "out = Inl err"
      using assms(8) d Inl by (auto simp: dispatch_and_release_def st2_def)
    note here = interrupted_safe [OF assms(1) ok2(1)]
    have all: "run_next st (interrupted e st2)" using ok1(2) ok2(2) here(2) run_next_trans by blast
    obtain row2 where row2: "find_row i (rn_store (interrupted e st2)) = Some row2" "row_org row2 = rx_org ctx"
      using kept [OF all] assms(6) by (auto simp: row_kept_def row_org_def)
    have "\<not> permit_live (rn_ledger st') r" if "r \<in> set (mp_permits mp)" for r
    proof -
      have "spent (rn_ledger (interrupted e st2)) (p_id r)"
        using numbers_kept_spent [OF _ spent2 [OF that]] here(2) by (simp add: run_next_def)
      then show ?thesis by (simp add: st' repo_call_state spent_def permit_live_def)
    qed
    then show ?thesis
      using mark_pending_settles [OF row2, of "re_clock e (rn_tick st2)" "''dispatchNeedsVerification''"]
      by (simp add: st' repo_call_state list_all_iff)
  qed
qed

text \<open>
  C18. Success is earned. A run that reports success has run every stage of the plan to the end, each
  with a known effect, reports the effect as completed and no error, and the stored job says the same.
\<close>

theorem success_is_earned:
  assumes "dispatch after e ctx i worker h specs st = (Inr r, st')" "jq_state r = JobSucceeded"
  shows "list_all (\<lambda>k. stage_succeeds h k (specs ! k)) [0..<length specs] \<and> jq_effect r = EffCompleted \<and> jq_error r = None \<and>
    (\<exists>row'. find_row i (rn_store st') = Some row' \<and> row_state row' = JobSucceeded \<and> jv_effect (row_view row') = Some EffCompleted)"
proof -
  obtain cl acc st1 st2 where "repo_call e (\<lambda>clk. job_claim_op after clk ctx i worker) st = (Inr cl, st1)" "jc_job cl = i"
    and stages: "run_stages e ctx i cl worker h 0 specs dispatch_start st1 = (Inr acc, st2)"
    and r: "jq_state r = fst (job_outcome acc)" "jq_effect r = snd (job_outcome acc)" "jq_error r = outcome_error acc"
    and "is_terminal (jq_state r)"
    and stored: "\<exists>row'. find_row i (rn_store st') = Some row' \<and> row_state row' = jq_state r \<and>
      jv_effect (row_view row') = Some (jq_effect r)"
    by (rule dispatch_success [OF assms(1)])
  have clean: "clean acc" using r(1) assms(2) clean_outcome [of acc] by simp
  have all: "da_reason acc = None \<and> (\<forall>j < length specs. stage_succeeds h j (specs ! j))"
    using run_stages_clean [OF stages clean] by (simp add: dispatch_start_def)
  moreover have "jq_effect r = EffCompleted" "jq_error r = None"
    using r clean all by (simp_all add: job_outcome_def outcome_error_def clean_def)
  ultimately show ?thesis using stored assms(2) by (simp add: list_all_iff)
qed

text \<open>
  C33. A dispatcher that comes too late ends the job of the one that came first. When the job is held
  by another worker with a valid claim, the claim of the late run is refused, and its cleanup marks
  the running job as failed and takes the claim away, so the worker that holds it is fenced off.
\<close>

theorem late_dispatch_fails_the_running_job:
  assumes "find_row i (rn_store (interrupted e st)) = Some row" "row_org row = rx_org ctx" "row_state row = JobRunning"
    and "jw_claim row = Some held" "jc_job held = i" "\<not> re_clock e (rn_tick st) 0 > jc_expires held"
    and "re_between e = (\<lambda>n w. w)"
    and "dispatch_and_release after e ctx i worker h specs mp st = (out, st')"
  shows "out = Inl StaleClaim \<and>
    (\<exists>row'. find_row i (rn_store st') = Some row' \<and> row_state row' = JobFailed \<and> jw_claim row' = None) \<and>
    job_finish clk ctx' held expected JobSucceeded EffCompleted pg None None (rn_store st') = (Inl StaleClaim, rn_store st')"
proof -
  have quiet: "rn_store (interrupted e t) = rn_store t" for t
    using assms(7) by (simp add: interrupted_def)
  have held: "job_claim_op after (re_clock e (rn_tick st)) ctx i worker (rn_store st) = (Inl StaleClaim, rn_store st)"
    using assms(1-6) quiet by (simp add: job_claim_op_def own_row_def belongs_to_def)
  define st1 where "st1 = (interrupted e st)\<lparr>rn_store := rn_store st\<rparr>"
  have d: "dispatch after e ctx i worker h specs st = (Inl StaleClaim, st1)"
    using held quiet by (simp add: dispatch_def rbind_def repo_call_def Let_def st1_def)
  define st2 where "st2 = snd (ledger_call e (release_endpoints mp False) st1)"
  have same: "rn_store st2 = rn_store st" by (simp add: st2_def ledger_call_state quiet st1_def)
  have st': "st' = snd (repo_call e (\<lambda>clk. job_mark_pending clk ctx i ''dispatchNeedsVerification'') st2)" "out = Inl StaleClaim"
    using assms(8) d by (simp_all add: dispatch_and_release_def st2_def)
  have row: "find_row i (rn_store st) = Some row" using assms(1) quiet by simp
  let ?row' = "upd_view (\<lambda>v. v\<lparr>jv_pending := Some ''dispatchNeedsVerification'', jv_updated := re_clock e (rn_tick st2) 0\<rparr>)
    (fail_open_row ''dispatchNeedsVerification'' row)"
  have after_rows: "find_row i (rn_store st') = Some ?row'"
    using row assms(2) by (simp add: st' repo_call_state quiet same job_mark_pending_def own_row_def belongs_to_def Let_def)
  have props: "row_state ?row' = JobFailed" "jw_claim ?row' = None" "row_org ?row' = rx_org ctx"
    using assms(2,3) by (simp_all add: row_simps fail_open_row_def row_state_view row_org_def)
  have "check_claim (rn_store st') ctx' held (clk 0) = Some JobStaleClaim"
    using after_rows props(2) assms(5) by (simp add: check_claim_def)
  then have "job_finish clk ctx' held expected JobSucceeded EffCompleted pg None None (rn_store st') = (Inl StaleClaim, rn_store st')"
    by (simp add: job_finish_def fenced_refuses)
  then show ?thesis using st'(2) after_rows props(1,2) by blast
qed

section \<open>Witnesses\<close>

definition demo_env :: run_env where
  "demo_env = \<lparr>re_between = (\<lambda>n w. w), re_clock = (\<lambda>n. at_time ''t1''), re_now = (\<lambda>n. ''t1''), re_polls = (\<lambda>n. [])\<rparr>"

definition demo_outcome :: "stage_spec \<Rightarrow> stage_outcome" where
  "demo_outcome spec = \<lparr>so_stage = ss_id spec, so_terminal = StageSucceeded, so_progress = no_progress, so_boundaries = [],
     so_executions = [''x1''], so_artifacts = [''a1''], so_effect = EffCompleted, so_error = None\<rparr>"

definition demo_handler :: job_handler where
  "demo_handler = \<lparr>hd_kind = ''dataSyncApply'', hd_version = 1, hd_validate = (\<lambda>p. ValidStages []),
     hd_run = (\<lambda>k spec flipped. Inr (demo_outcome spec)), hd_result = (\<lambda>out. None)\<rparr>"

definition demo_spec :: stage_spec where
  "demo_spec = \<lparr>ss_id = ''s1'', ss_kind = ''apply'', ss_depends = []\<rparr>"

definition demo_permits :: endpoint_permits where
  "demo_permits = \<lparr>mp_permits = bt_values (permits demo2), mp_now = 5\<rparr>"

definition demo_state :: "job_store \<Rightarrow> run_state" where
  "demo_state s = \<lparr>rn_tick = 0, rn_store = s, rn_ledger = demo2\<rparr>"

lemma demo_env_ok: "env_ok after printed demo_env"
  by (simp add: env_ok_def demo_env_def job_run.here coord_run.stay)

lemma demo_permits_live: "list_all (permit_live demo2) (mp_permits demo_permits)" "length (mp_permits demo_permits) = 2"
  by code_simp+

lemma demo_first_row: "find_row ''job1'' demo_store2 = Some (demo_row ''one'' ''job1'' ''plan1'')"
  by (simp add: demo_store2_eq find_row_def bt_get_def demo_with_def)

lemma demo_row_org: "row_org (demo_row org i plan) = org"
  by (simp add: row_org_def demo_row_def fresh_record_def)

theorem run_settles_the_job_witness:
  "\<exists>out st' row'. dispatch_and_release demo_after demo_env (demo_ctx ''one'') ''job1'' ''w1'' demo_handler [demo_spec]
       demo_permits (demo_state demo_store2) = (out, st') \<and>
     find_row ''job1'' (rn_store st') = Some row' \<and> is_terminal (row_state row')"
proof -
  let ?run = "dispatch_and_release demo_after demo_env (demo_ctx ''one'') ''job1'' ''w1'' demo_handler [demo_spec]
       demo_permits (demo_state demo_store2)"
  obtain out st' where run: "?run = (out, st')" by (cases ?run)
  show ?thesis
    using run_settles_the_job [OF demo_env_ok _ _ demo_cfg_bounds _ _ _ run, of demo_printed "demo_row ''one'' ''job1'' ''plan1''"]
      demo_jobs_reachable(2) demo_reachable(3) demo_first_row demo_permits_live(1) run
    by (auto simp: demo_state_def demo_row_org demo_ctx_def)
qed

theorem late_dispatch_fails_the_running_job_witness:
  "\<exists>st' row'. dispatch_and_release demo_after demo_env (demo_ctx ''one'') ''job1'' ''w2'' demo_handler [demo_spec]
       demo_permits (demo_state demo_store3) = (Inl StaleClaim, st') \<and>
     find_row ''job1'' (rn_store st') = Some row' \<and> row_state row' = JobFailed \<and> jw_claim row' = None"
proof -
  let ?run = "dispatch_and_release demo_after demo_env (demo_ctx ''one'') ''job1'' ''w2'' demo_handler [demo_spec]
       demo_permits (demo_state demo_store3)"
  obtain out st' where run: "?run = (out, st')" by (cases ?run)
  have "find_row ''job1'' (rn_store (interrupted demo_env (demo_state demo_store3))) = Some (demo_held demo_claim1 2)"
    by (simp add: interrupted_def demo_env_def demo_state_def demo_store3_eq find_row_def bt_get_def demo_with_def)
  moreover have "row_org (demo_held demo_claim1 2) = rx_org (demo_ctx ''one'')" "row_state (demo_held demo_claim1 2) = JobRunning"
    "jw_claim (demo_held demo_claim1 2) = Some demo_claim1"
    by (simp_all add: row_org_def demo_claim_simps)
  moreover have "jc_job demo_claim1 = ''job1''"
    "\<not> re_clock demo_env (rn_tick (demo_state demo_store3)) 0 > jc_expires demo_claim1"
    by (simp_all add: demo_claim1_def demo_env_def at_time_def demo_keys)
  moreover have "re_between demo_env = (\<lambda>n w. w)" by (simp add: demo_env_def)
  ultimately show ?thesis
    using late_dispatch_fails_the_running_job [OF _ _ _ _ _ _ _ run] run by blast
qed

lemma demo_env_simps [simp]:
  "re_now demo_env n = ''t1''" "re_polls demo_env n = []" "hd_result demo_handler out = None"
  "hd_run demo_handler k spec flipped = Inr (demo_outcome spec)"
  by (simp_all add: demo_env_def demo_handler_def)

lemma demo_call:
  "op (at_time ''t1'') s = (Inr x, s') \<Longrightarrow>
   repo_call demo_env op \<lparr>rn_tick = n, rn_store = s, rn_ledger = l\<rparr> = (Inr x, \<lparr>rn_tick = Suc n, rn_store = s', rn_ledger = l\<rparr>)"
  by (simp add: repo_call_def interrupted_def demo_env_def)

definition demo_worked :: "job_row \<Rightarrow> bool" where
  "demo_worked row \<longleftrightarrow> jw_claim row = Some demo_claim1 \<and> row_org row = ''one'' \<and> row_version row = 2 \<and>
     \<not> jv_cancel_requested (row_view row)"

lemma demo_checked:
  assumes "demo_worked row"
  shows "check_claim (demo_with row) (demo_ctx ''one'') demo_claim1 (at_time ''t1'' 0) = None"
    "find_row ''job1'' (demo_with row) = Some row"
    "put_row ''job1'' row' (demo_with row) = demo_with row'"
    "own_row (demo_ctx ''one'') ''job1'' (demo_with row) = Some row"
  using assms
  by (simp_all add: demo_worked_def check_claim_def belongs_to_def demo_claim1_def find_row_def bt_get_def demo_with_def
      demo_ctx_def at_time_def demo_keys own_row_def put_row_def)

lemma demo_writes:
  assumes "demo_worked row"
  shows "\<exists>row'. job_record_stage (at_time ''t1'') (demo_ctx ''one'') demo_claim1 sg (demo_with row) = (Inr (), demo_with row') \<and> demo_worked row'"
    "\<exists>row'. job_record_artifacts (at_time ''t1'') (demo_ctx ''one'') demo_claim1 arts (demo_with row) = (Inr (), demo_with row') \<and> demo_worked row'"
    "\<exists>row'. job_record_progress (at_time ''t1'') (demo_ctx ''one'') demo_claim1 pg (demo_with row) = (Inr (), demo_with row') \<and> demo_worked row'"
    "\<exists>r s'. job_finish (at_time ''t1'') (demo_ctx ''one'') demo_claim1 2 JobSucceeded eff pg None None (demo_with row) = (Inr r, s')"
proof -
  have i: "jc_job demo_claim1 = ''job1''" by (simp add: demo_claim1_def)
  note facts = demo_checked [OF assms] i
  have kept: "demo_worked (upd_view f row')"
    if "demo_worked row'" "\<And>v. jv_cancel_requested (f v) = jv_cancel_requested v" for f row'
    using that by (simp add: demo_worked_def row_simps row_org_def)
  have staged: "demo_worked (with_stage sg row)" using assms by (simp add: demo_worked_def row_simps row_org_def)
  show "\<exists>row'. job_record_stage (at_time ''t1'') (demo_ctx ''one'') demo_claim1 sg (demo_with row) = (Inr (), demo_with row') \<and> demo_worked row'"
    using facts by (simp add: job_record_stage_def fenced_def with_stage_def [symmetric]) (rule exI, rule conjI [OF refl], rule kept [OF staged], simp)
  show "\<exists>row'. job_record_artifacts (at_time ''t1'') (demo_ctx ''one'') demo_claim1 arts (demo_with row) = (Inr (), demo_with row') \<and> demo_worked row'"
    using facts by (simp add: job_record_artifacts_def fenced_def) (rule exI, rule conjI [OF refl], rule kept [OF assms], simp)
  show "\<exists>row'. job_record_progress (at_time ''t1'') (demo_ctx ''one'') demo_claim1 pg (demo_with row) = (Inr (), demo_with row') \<and> demo_worked row'"
    using facts by (simp add: job_record_progress_def fenced_def) (rule exI, rule conjI [OF refl], rule kept [OF assms], simp)
  show "\<exists>r s'. job_finish (at_time ''t1'') (demo_ctx ''one'') demo_claim1 2 JobSucceeded eff pg None None (demo_with row) = (Inr r, s')"
    using facts assms by (simp add: job_finish_def fenced_def demo_worked_def Let_def)
qed

abbreviation demo_at :: "nat \<Rightarrow> job_row \<Rightarrow> run_state" where
  "demo_at n row \<equiv> \<lparr>rn_tick = n, rn_store = demo_with row, rn_ledger = demo2\<rparr>"

lemma demo_get_job:
  "demo_worked row \<Longrightarrow> get_job demo_env (demo_ctx ''one'') ''job1'' (demo_at n row) = (Inr (jw_record row), demo_at (Suc n) row)"
  unfolding get_job_def by (rule demo_call) (simp add: job_get_def demo_checked)

lemma demo_stage:
  assumes "demo_worked row"
  obtains row' where "run_stages demo_env (demo_ctx ''one'') ''job1'' demo_claim1 ''w1'' demo_handler 0 [demo_spec] dispatch_start (demo_at n row) =
      (Inr (absorb_outcome (demo_outcome demo_spec) dispatch_start), demo_at (n + 5) row')" "demo_worked row'"
proof -
  let ?ctx = "demo_ctx ''one''" and ?clk = "at_time ''t1''" and ?out = "demo_outcome demo_spec"
  let ?sg1 = "stage_row ''job1'' ''w1'' demo_spec [] ''t1'' None"
  let ?sg2 = "stage_row ''job1'' ''w1'' demo_spec (so_executions ?out) ''t1'' (Some ''t1'')"
  obtain row1 where one: "job_record_stage ?clk ?ctx demo_claim1 ?sg1 (demo_with row) = (Inr (), demo_with row1)" "demo_worked row1"
    using demo_writes(1) [OF assms] by blast
  obtain row2 where two: "job_record_stage ?clk ?ctx demo_claim1 ?sg2 (demo_with row1) = (Inr (), demo_with row2)" "demo_worked row2"
    using demo_writes(1) [OF one(2)] by blast
  obtain row3 where three: "job_record_artifacts ?clk ?ctx demo_claim1 (so_artifacts ?out) (demo_with row2) = (Inr (), demo_with row3)" "demo_worked row3"
    using demo_writes(2) [OF two(2)] by blast
  let ?acc = "absorb_outcome ?out dispatch_start"
  obtain row4 where four: "job_record_progress ?clk ?ctx demo_claim1 (da_progress ?acc) (demo_with row3) = (Inr (), demo_with row4)" "demo_worked row4"
    using demo_writes(3) [OF three(2)] by blast
  have calls: "write_stage demo_env ?ctx demo_claim1 ?sg1 (demo_at (Suc n) row) = (Inr (), demo_at (Suc (Suc n)) row1)"
    "write_stage demo_env ?ctx demo_claim1 ?sg2 (demo_at (Suc (Suc n)) row1) = (Inr (), demo_at (Suc (Suc (Suc n))) row2)"
    "repo_call demo_env (\<lambda>clk. job_record_artifacts clk ?ctx demo_claim1 (so_artifacts ?out)) (demo_at (Suc (Suc (Suc n))) row2)
       = (Inr (), demo_at (Suc (Suc (Suc (Suc n)))) row3)"
    "repo_call demo_env (\<lambda>clk. job_record_progress clk ?ctx demo_claim1 (da_progress ?acc)) (demo_at (Suc (Suc (Suc (Suc n)))) row3)
       = (Inr (), demo_at (Suc (Suc (Suc (Suc (Suc n))))) row4)"
    unfolding write_stage_def by (rule demo_call; simp add: one two three four)+
  have facts: "\<not> jv_cancel_requested (jr_view (jw_record row))" "dispatch_start\<lparr>da_token := False\<rparr> = dispatch_start"
    "\<not> da_token dispatch_start" "so_boundaries ?out = []" "so_terminal ?out = StageSucceeded"
    using assms by (simp_all add: demo_worked_def row_view_def dispatch_start_def demo_outcome_def)
  have "run_stages demo_env ?ctx ''job1'' demo_claim1 ''w1'' demo_handler 0 [demo_spec] dispatch_start (demo_at n row) =
      (Inr ?acc, demo_at (Suc (Suc (Suc (Suc (Suc n))))) row4)"
    by (simp add: rbind_def start_stage_def write_outcome_def write_result_def rreturn_def Let_def
        demo_get_job [OF assms] calls facts)
  then show ?thesis using that [of row4] four(2) by (simp add: eval_nat_numeral)
qed

theorem success_is_earned_witness:
  "\<exists>r st'. dispatch demo_after demo_env (demo_ctx ''one'') ''job1'' ''w1'' demo_handler [demo_spec] (demo_state demo_store2) = (Inr r, st')
     \<and> jq_state r = JobSucceeded \<and> jq_effect r = EffCompleted"
proof -
  let ?ctx = "demo_ctx ''one''" and ?acc = "absorb_outcome (demo_outcome demo_spec) dispatch_start"
  let ?row = "demo_held demo_claim1 2"
  have ready: "demo_worked ?row" by (simp add: demo_worked_def demo_claim_simps)
  have claim: "repo_call demo_env (\<lambda>clk. job_claim_op demo_after clk ?ctx ''job1'' ''w1'') (demo_state demo_store2) =
      (Inr demo_claim1, demo_at 1 ?row)"
    unfolding demo_state_def 
    using demo_call [where op = "\<lambda>clk. job_claim_op demo_after clk ?ctx ''job1'' ''w1''", OF demo_claims(1), of 0 demo2] by simp
  obtain row' where stages: "run_stages demo_env ?ctx ''job1'' demo_claim1 ''w1'' demo_handler 0 [demo_spec] dispatch_start (demo_at 1 ?row) =
      (Inr ?acc, demo_at (1 + 5) row')" "demo_worked row'"
    using demo_stage [OF ready] by blast
  have acc: "da_committed ?acc = []" "job_outcome ?acc = (JobSucceeded, EffCompleted)" "outcome_error ?acc = None" "outcome_pending ?acc = None"
    by (simp_all add: absorb_outcome_def dispatch_start_def demo_outcome_def job_outcome_def outcome_error_def outcome_pending_def)
  obtain rec s' where fin: "job_finish (at_time ''t1'') ?ctx demo_claim1 2 JobSucceeded EffCompleted (da_progress ?acc) None None (demo_with row') = (Inr rec, s')"
    using demo_writes(4) [OF stages(2)] by blast
  have version: "jr_version (jw_record row') = 2" using stages(2) by (simp add: demo_worked_def row_version_def)
  have finish: "repo_call demo_env (\<lambda>clk. job_finish clk ?ctx demo_claim1 2 JobSucceeded EffCompleted (da_progress ?acc) None None)
      (demo_at 7 row') = (Inr rec, \<lparr>rn_tick = 8, rn_store = s', rn_ledger = demo2\<rparr>)"
    using demo_call [where op = "\<lambda>clk. job_finish clk ?ctx demo_claim1 2 JobSucceeded EffCompleted (da_progress ?acc) None None",
        OF fin, of 7 demo2] by simp
  obtain r st' where run: "dispatch demo_after demo_env ?ctx ''job1'' ''w1'' demo_handler [demo_spec] (demo_state demo_store2) = (Inr r, st')"
    "jq_state r = JobSucceeded"
    using claim stages(1) acc finish demo_get_job [OF stages(2), of 6] version
    by (simp add: dispatch_def conclude_def write_checkpoint_def rbind_def rreturn_def)
  then show ?thesis using success_is_earned [OF run] by blast
qed

end
