(* ===== verification/Job_Host_Theorems.thy ===== *)
theory Job_Host_Theorems
  imports Job_Host Job_Run_Theorems
begin

text \<open>The scan after a restart leaves no job open and makes every interrupted one verifiable.\<close>

text \<open>
  C19. After a restart the scan settles everything. If no queued job carries a claim, the scan returns,
  and then no job of the organization that the filter selects is queued or running: what was running
  has failed, is unclaimed and marked, with a recovery record that allows its verification; what was
  queued has ended unstarted. Jobs of other organizations are untouched, and nothing is dispatched.
\<close>

theorem restart_scan_settles_everything:
  assumes "alone e" "job_reachable after printed (rn_store st)"
    and "\<forall>i row. find_row i (rn_store st) = Some row \<longrightarrow> row_state row = JobQueued \<longrightarrow> jw_claim row = None"
  shows "\<exists>rs st'. mark_restart_candidates e ctx f st = (Inr rs, st') \<and> open_rows ctx f (rn_store st') = {} \<and>
    (\<forall>i row. find_row i (rn_store st) = Some row \<and> i \<in> open_rows ctx f (rn_store st) \<longrightarrow> scanned row i (rn_store st')) \<and>
    (\<forall>i row. find_row i (rn_store st) = Some row \<and> row_org row \<noteq> rx_org ctx \<longrightarrow> find_row i (rn_store st') = Some row)"
proof -
  let ?s = "rn_store st"
  have inv: "store_inv printed ?s" using reachable_inv [OF assms(2)] .
  let ?rs = "list_recoverable ctx f ?s" and ?st1 = "\<lparr>rn_tick = rn_tick st + 1, rn_store = ?s, rn_ledger = rn_ledger st\<rparr>"
  define rows where "rows = map (row_of ?s) ?rs"
  note row_of = recoverable_row_of [OF inv, of _ ctx f]
  have records: "map jw_record rows = ?rs" by (simp add: rows_def row_of(2) map_idI)
  have ids: "map (\<lambda>row. jv_id (row_view row)) rows = map (\<lambda>r. jv_id (jr_view r)) ?rs"
    by (simp add: rows_def row_view_def row_of(2))
  have distinct: "distinct (map (\<lambda>row. jv_id (row_view row)) rows)" unfolding ids by (rule list_recoverable_distinct [OF inv])
  have ready: "list_all (\<lambda>row. find_row (jv_id (row_view row)) (rn_store ?st1) = Some row \<and> row_org row = rx_org ctx \<and>
      (row_state row = JobQueued \<longrightarrow> jw_claim row = None)) rows"
  proof -
    have "find_row (jv_id (row_view (row_of ?s r))) ?s = Some (row_of ?s r) \<and> row_org (row_of ?s r) = rx_org ctx \<and>
        (row_state (row_of ?s r) = JobQueued \<longrightarrow> jw_claim (row_of ?s r) = None)" if "r \<in> set ?rs" for r
      using row_of [OF that] assms(3) by (simp add: row_view_def)
    then show ?thesis by (simp add: rows_def list_all_iff)
  qed
  obtain xs st' where run: "mark_candidates e ctx (map jw_record rows) ?st1 = (Inr xs, st')"
    and done_rows: "list_all (\<lambda>row. scanned row (jv_id (row_view row)) (rn_store st')) rows"
    and others: "\<forall>j. j \<notin> (\<lambda>row. jv_id (row_view row)) ` set rows \<longrightarrow> find_row j (rn_store st') = find_row j ?s"
    using mark_candidates_step [OF assms(1) distinct ready] by auto
  have result: "mark_restart_candidates e ctx f st = (Inr xs, st')"
    using run records by (simp add: mark_restart_candidates_def rbind_def alone_call [OF assms(1)])
  have ours: "row_org row = rx_org ctx \<and> scanned row i (rn_store st')"
    if "find_row i ?s = Some row" "i \<in> (\<lambda>row. jv_id (row_view row)) ` set rows" for i row
    using that done_rows ready by (auto simp: list_all_iff)
  have listed: "i \<in> (\<lambda>row. jv_id (row_view row)) ` set rows" if "i \<in> open_rows ctx f ?s" for i
  proof -
    have "i \<in> set (map (\<lambda>r. jv_id (jr_view r)) ?rs)" using recoverable_lists_open [OF inv that] by auto
    then show ?thesis unfolding ids [symmetric] by simp
  qed
  have closed: "i \<notin> open_rows ctx f (rn_store st')" for i
  proof
    assume still: "i \<in> open_rows ctx f (rn_store st')"
    show False
    proof (cases "i \<in> (\<lambda>row. jv_id (row_view row)) ` set rows")
      case True
      then obtain row where "find_row i ?s = Some row" using ready by (auto simp: list_all_iff)
      then show False using ours [OF _ True] still by (auto simp: scanned_def open_rows_def)
    next
      case False
      then have "i \<in> open_rows ctx f ?s" using others still by (simp add: open_rows_def)
      then show False using listed False by blast
    qed
  qed
  have foreign: "find_row i (rn_store st') = Some row" if "find_row i ?s = Some row" "row_org row \<noteq> rx_org ctx" for i row
  proof (cases "i \<in> (\<lambda>row. jv_id (row_view row)) ` set rows")
    case True
    then show ?thesis using ours [OF that(1)] that(2) by simp
  next
    case False
    then show ?thesis using others that(1) by simp
  qed
  have settled: "scanned row i (rn_store st')" if "find_row i ?s = Some row" "i \<in> open_rows ctx f ?s" for i row
    using ours [OF that(1) listed [OF that(2)]] by simp
  have "open_rows ctx f (rn_store st') = {}" using closed by blast
  then show ?thesis using result foreign settled by (intro exI [of _ xs] exI [of _ st']) simp
qed

theorem restart_scan_settles_everything_witness:
  "\<exists>rs st'. mark_restart_candidates demo_env (demo_ctx ''one'') \<lparr>rf_kinds = [], rf_older_than = None, rf_limit = None\<rparr>
       (demo_state demo_store3) = (Inr rs, st') \<and> scanned (demo_held demo_claim1 2) ''job1'' (rn_store st')"
proof -
  let ?f = "\<lparr>rf_kinds = [], rf_older_than = None, rf_limit = None\<rparr>" and ?ctx = "demo_ctx ''one''"
  have alone: "alone demo_env" by (simp add: alone_def demo_env_def)
  have store: "rn_store (demo_state demo_store3) = demo_store3" by (simp add: demo_state_def)
  have rows: "find_row i demo_store3 = Some row \<longrightarrow> row = demo_held demo_claim1 2 \<and> i = ''job1'' \<or> row = demo_row ''two'' ''job2'' ''plan2''" for i row
    by (auto simp: find_row_def bt_get_def demo_store3_eq demo_with_def split: if_splits)
  have unclaimed: "jw_claim (demo_row ''two'' ''job2'' ''plan2'') = None" "row_state (demo_held demo_claim1 2) = JobRunning"
    by (simp_all add: demo_row_def demo_claim_simps)
  have first: "find_row ''job1'' demo_store3 = Some (demo_held demo_claim1 2)"
    by (simp add: find_row_def bt_get_def demo_store3_eq demo_with_def)
  then have opened: "''job1'' \<in> open_rows ?ctx ?f demo_store3"
    using unclaimed(2) by (auto simp: open_rows_def row_org_def demo_claim_simps)
  have "\<forall>i row. find_row i demo_store3 = Some row \<longrightarrow> row_state row = JobQueued \<longrightarrow> jw_claim row = None"
    using rows unclaimed by force
  then have unclaimed_all: "\<forall>i row. find_row i (rn_store (demo_state demo_store3)) = Some row \<longrightarrow> row_state row = JobQueued \<longrightarrow> jw_claim row = None"
    by (simp add: store)
  have reach: "job_reachable demo_after demo_printed (rn_store (demo_state demo_store3))"
    using demo_jobs_reachable(3) by (simp add: store)
  obtain rs st' where scan: "mark_restart_candidates demo_env ?ctx ?f (demo_state demo_store3) = (Inr rs, st')"
    "\<forall>i row. find_row i demo_store3 = Some row \<and> i \<in> open_rows ?ctx ?f demo_store3 \<longrightarrow> scanned row i (rn_store st')"
    using restart_scan_settles_everything [OF alone reach unclaimed_all, of ?ctx ?f] unfolding store by blast
  then show ?thesis using first opened by blast
qed

end
