(* ===== verification/Sql_Text.thy ===== *)
theory Sql_Text
  imports Prelude
begin

text \<open>
  Text of SQL statements. A Rust \<open>String\<close> is a sequence of Unicode scalar values; here it is the list
  of their code points, so that the scanners of \<open>execution/domain/sql_guard\<close>, which work on
  \<open>Vec<char>\<close>, read the same. \<open>lit\<close> writes an ASCII literal.
\<close>

type_synonym utext = "nat list"

definition lit :: "string \<Rightarrow> utext" where
  "lit s = map of_char s"

lemma lit_simps [simp]: "lit [] = []" "lit (c # s) = of_char c # lit s"
  by (simp_all add: lit_def)

lemma lit_append: "lit (s @ t) = lit s @ lit t"
  by (simp add: lit_def)

lemma lit_range: "c \<in> set (lit s) \<Longrightarrow> c < 256"
  by (auto simp: lit_def)

section \<open>Characters\<close>

definition is_digit :: "nat \<Rightarrow> bool" where
  "is_digit c \<longleftrightarrow> 48 \<le> c \<and> c \<le> 57"

definition is_alphanumeric :: "nat \<Rightarrow> bool" where
  "is_alphanumeric c \<longleftrightarrow> is_digit c \<or> 65 \<le> c \<and> c \<le> 90 \<or> 97 \<le> c \<and> c \<le> 122"

definition is_word_char :: "nat \<Rightarrow> bool" where
  "is_word_char c \<longleftrightarrow> is_alphanumeric c \<or> c = 95"

text \<open>\<open>char::is_whitespace\<close>, the Unicode property White_Space.\<close>

definition is_whitespace :: "nat \<Rightarrow> bool" where
  "is_whitespace c \<longleftrightarrow> 9 \<le> c \<and> c \<le> 13 \<or> c = 32 \<or> c = 133 \<or> c = 160 \<or> c = 5760 \<or>
     8192 \<le> c \<and> c \<le> 8202 \<or> c = 8232 \<or> c = 8233 \<or> c = 8239 \<or> c = 8287 \<or> c = 12288"

text \<open>\<open>str::trim\<close> leaves nothing.\<close>

definition is_blank :: "utext \<Rightarrow> bool" where
  "is_blank cs \<longleftrightarrow> list_all is_whitespace cs"

definition ascii_lower :: "nat \<Rightarrow> nat" where
  "ascii_lower c = (if 65 \<le> c \<and> c \<le> 90 then c + 32 else c)"

text \<open>\<open>str::eq_ignore_ascii_case\<close>\<close>

definition eq_word :: "utext \<Rightarrow> utext \<Rightarrow> bool" where
  "eq_word a b \<longleftrightarrow> map ascii_lower a = map ascii_lower b"

definition one_of :: "string list \<Rightarrow> utext \<Rightarrow> bool" where
  "one_of ws t \<longleftrightarrow> list_ex (\<lambda>w. eq_word t (lit w)) ws"

lemma eq_word_refl [simp]: "eq_word a a"
  by (simp add: eq_word_def)

lemma eq_word_sym: "eq_word a b \<longleftrightarrow> eq_word b a"
  by (auto simp: eq_word_def)

lemma eq_word_length: "eq_word a b \<Longrightarrow> length a = length b"
  unfolding eq_word_def by (metis length_map)

lemma one_of_cong: "eq_word a b \<Longrightarrow> one_of ws a = one_of ws b"
  by (simp add: one_of_def eq_word_def)

text \<open>
  \<open>str::to_uppercase\<close> on the characters up to 255, the only ones that occur in tokens: the sharp s
  becomes two letters, the micro sign and the y with diaeresis leave the range.
\<close>

definition upper_char :: "nat \<Rightarrow> utext" where
  "upper_char c =
     (if 97 \<le> c \<and> c \<le> 122 then [c - 32]
      else if c = 181 then [924]
      else if c = 223 then [83, 83]
      else if 224 \<le> c \<and> c \<le> 254 \<and> c \<noteq> 247 then [c - 32]
      else if c = 255 then [376]
      else [c])"

definition to_uppercase :: "utext \<Rightarrow> utext" where
  "to_uppercase cs = concat (map upper_char cs)"

lemma to_uppercase_append: "to_uppercase (a @ b) = to_uppercase a @ to_uppercase b"
  by (simp add: to_uppercase_def)

lemma upper_char_ascii: "c < 128 \<Longrightarrow> map ascii_lower (upper_char c) = [ascii_lower c]"
  by (auto simp: upper_char_def ascii_lower_def)

lemma to_uppercase_ascii: "list_all (\<lambda>c. c < 128) cs \<Longrightarrow> eq_word (to_uppercase cs) cs"
  by (induction cs) (auto simp: eq_word_def to_uppercase_def upper_char_ascii)

section \<open>Bytes\<close>

text \<open>\<open>str::as_bytes\<close> of one character, and \<open>str::len\<close>.\<close>

definition utf8 :: "nat \<Rightarrow> nat list" where
  "utf8 c =
     (if c < 128 then [c]
      else if c < 2048 then [192 + c div 64, 128 + c mod 64]
      else if c < 65536 then [224 + c div 4096, 128 + c div 64 mod 64, 128 + c mod 64]
      else [240 + c div 262144, 128 + c div 4096 mod 64, 128 + c div 64 mod 64, 128 + c mod 64])"

definition bytes_of :: "utext \<Rightarrow> nat list" where
  "bytes_of cs = concat (map utf8 cs)"

lemma bytes_of_simps [simp]: "bytes_of [] = []" "bytes_of (c # cs) = utf8 c @ bytes_of cs"
  by (simp_all add: bytes_of_def)

lemma bytes_of_append: "bytes_of (a @ b) = bytes_of a @ bytes_of b"
  by (simp add: bytes_of_def)

lemma utf8_ascii [simp]: "c < 128 \<Longrightarrow> utf8 c = [c]"
  by (simp add: utf8_def)

text \<open>A byte below 128 stands for itself: the other bytes of an encoding are larger.\<close>

lemma utf8_high: "128 \<le> c \<Longrightarrow> b \<in> set (utf8 c) \<Longrightarrow> 128 \<le> b"
  by (auto simp: utf8_def split: if_splits)

lemma bytes_of_ascii: "list_all (\<lambda>c. c < 128) cs \<Longrightarrow> bytes_of cs = cs"
  by (induction cs) auto

lemma bytes_of_low: "b < 128 \<Longrightarrow> b \<in> set (bytes_of cs) \<longleftrightarrow> b \<in> set cs"
proof (induction cs)
  case (Cons c cs)
  show ?case
  proof (cases "c < 128")
    case False
    then have "b \<notin> set (utf8 c)" using utf8_high [of c b] Cons.prems by force
    then show ?thesis using Cons False by auto
  qed (use Cons in simp)
qed simp

text \<open>\<open>str::trim\<close>\<close>

definition utrim :: "utext \<Rightarrow> utext" where
  "utrim s = rev (dropWhile is_whitespace (rev (dropWhile is_whitespace s)))"

text \<open>\<open>i64::to_string\<close>\<close>

definition int_text :: "int \<Rightarrow> utext" where
  "int_text i = (if i < 0 then 45 # lit (dec (nat (- i))) else lit (dec (nat i)))"

section \<open>Fallible steps\<close>

text \<open>The \<open>?\<close> operator: the first error ends the computation.\<close>

definition obind :: "'e + 'a \<Rightarrow> ('a \<Rightarrow> 'e + 'b) \<Rightarrow> 'e + 'b" where
  "obind r f = (case r of Inl e \<Rightarrow> Inl e | Inr x \<Rightarrow> f x)"

lemma obind_simps [simp]: "obind (Inl e) f = Inl e" "obind (Inr x) f = f x"
  by (simp_all add: obind_def)

lemma obind_eq_Inr: "obind r f = Inr y \<longleftrightarrow> (\<exists>x. r = Inr x \<and> f x = Inr y)"
  by (cases r) auto

lemma obind_eq_Inl: "obind r f = Inl e \<longleftrightarrow> r = Inl e \<or> (\<exists>x. r = Inr x \<and> f x = Inl e)"
  by (cases r) auto

end
