(* ===== verification/Sql_Scanner.thy ===== *)
theory Sql_Scanner
  imports Sql_Text
begin

text \<open>
  The lexical scanners (\<open>execution/domain/sql_guard/scanner.rs\<close>). The code walks an index over a
  vector of characters; here a scanner works on the rest of the text from that index, and a length
  it returns is counted from there.
\<close>

section \<open>Quoted text and comments\<close>

text \<open>Length of a quoted text after its opening quote, the closing quote included if there is one.\<close>

fun quote_body :: "nat \<Rightarrow> utext \<Rightarrow> nat" where
  "quote_body q [] = 0"
| "quote_body q [c] = 1"
| "quote_body q (c # d # cs) =
     (if c = q then (if q = 39 \<and> d = 39 then 2 + quote_body q cs else 1) else 1 + quote_body q (d # cs))"

definition is_quote :: "nat \<Rightarrow> bool" where
  "is_quote c \<longleftrightarrow> c = 39 \<or> c = 34 \<or> c = 96"

fun skip_quoted :: "utext \<Rightarrow> (nat \<times> nat) option" where
  "skip_quoted [] = None"
| "skip_quoted (c # cs) = (if is_quote c then Some (1 + quote_body c cs, c) else None)"

fun find_tag :: "utext \<Rightarrow> utext \<Rightarrow> nat option" where
  "find_tag tag cs =
     (if length cs < length tag then None
      else if take (length tag) cs = tag then Some (length tag)
      else case cs of [] \<Rightarrow> None | c # cs' \<Rightarrow> map_option Suc (find_tag tag cs'))"

declare find_tag.simps [simp del]

fun skip_dollar_quoted :: "utext \<Rightarrow> nat option" where
  "skip_dollar_quoted [] = None"
| "skip_dollar_quoted (c # cs) =
     (if c \<noteq> 36 then None
      else let name = takeWhile is_word_char cs in
        case drop (length name) cs of
          [] \<Rightarrow> None
        | d # body \<Rightarrow>
            if d \<noteq> 36 then None
            else let tag = 36 # name @ [36] in
              Some (case find_tag tag body of Some k \<Rightarrow> length tag + k | None \<Rightarrow> length (c # cs)))"

fun starts_line_comment :: "utext \<Rightarrow> bool" where
  "starts_line_comment (c # d # cs) \<longleftrightarrow> c = 45 \<and> d = 45"
| "starts_line_comment _ \<longleftrightarrow> False"

fun starts_block_comment :: "utext \<Rightarrow> bool" where
  "starts_block_comment (c # d # cs) \<longleftrightarrow> c = 47 \<and> d = 42"
| "starts_block_comment _ \<longleftrightarrow> False"

definition line_length :: "utext \<Rightarrow> nat" where
  "line_length cs = length (takeWhile (\<lambda>c. c \<noteq> 10) cs)"

text \<open>Length of a block comment after its opening, up to the end of the text if it is not closed.\<close>

fun block_body :: "utext \<Rightarrow> nat" where
  "block_body [] = 0"
| "block_body [c] = 1"
| "block_body (c # d # cs) = (if c = 42 \<and> d = 47 then 2 else 1 + block_body (d # cs))"

definition block_length :: "utext \<Rightarrow> nat" where
  "block_length cs = 2 + block_body (drop 2 cs)"

lemma quote_body_le: "quote_body q cs \<le> length cs"
  by (induction q cs rule: quote_body.induct) auto

lemma block_body_le: "block_body cs \<le> length cs"
  by (induction cs rule: block_body.induct) auto

lemma skip_quoted_le: "skip_quoted cs = Some (n, q) \<Longrightarrow> 0 < n \<and> n \<le> length cs"
  using quote_body_le by (cases cs) (auto split: if_splits simp: Suc_le_eq less_Suc_eq_le)

lemma line_length_pos: "starts_line_comment cs \<Longrightarrow> 0 < line_length cs \<and> line_length cs \<le> length cs"
  by (cases cs rule: starts_line_comment.cases) (auto simp: line_length_def length_takeWhile_le le_SucI)

lemma block_length_le: "starts_block_comment cs \<Longrightarrow> 0 < block_length cs \<and> block_length cs \<le> length cs"
  using block_body_le by (cases cs rule: starts_block_comment.cases) (auto simp: block_length_def)

lemma find_tag_le: "find_tag tag cs = Some k \<Longrightarrow> length tag \<le> k \<and> k \<le> length cs"
proof (induction cs arbitrary: k)
  case Nil
  then show ?case by (subst (asm) find_tag.simps) (auto split: if_splits)
next
  case (Cons c cs)
  show ?case
  proof (cases "take (length tag) (c # cs) = tag")
    case True
    then show ?thesis using Cons.prems by (subst (asm) find_tag.simps) (auto split: if_splits)
  next
    case False
    then obtain m where "find_tag tag cs = Some m" "k = Suc m"
      using Cons.prems by (subst (asm) find_tag.simps) (auto split: if_splits)
    then show ?thesis using Cons.IH [of m] by simp
  qed
qed

lemma skip_dollar_le: "skip_dollar_quoted cs = Some n \<Longrightarrow> 0 < n \<and> n \<le> length cs"
proof (cases cs)
  case (Cons c cs')
  assume n: "skip_dollar_quoted cs = Some n"
  let ?name = "takeWhile is_word_char cs'"
  obtain d body where rest: "drop (length ?name) cs' = d # body"
    using n Cons by (auto split: if_splits list.splits simp: Let_def)
  have len: "length cs' = length ?name + Suc (length body)"
    using arg_cong [OF rest, of length] length_takeWhile_le [of is_word_char cs'] by simp
  show ?thesis
    using n Cons rest len by (auto split: if_splits option.splits dest: find_tag_le simp: Let_def)
qed simp

lemma skip_quoted_shrinks: "skip_quoted cs = Some (n, q) \<Longrightarrow> length cs - n < length cs"
  using skip_quoted_le [of cs n q] by linarith

lemma skip_dollar_shrinks: "skip_dollar_quoted cs = Some n \<Longrightarrow> length cs - n < length cs"
  using skip_dollar_le [of cs n] by linarith

lemma line_shrinks: "starts_line_comment cs \<Longrightarrow> length cs - line_length cs < length cs"
  using line_length_pos [of cs] by linarith

lemma block_shrinks: "starts_block_comment cs \<Longrightarrow> length cs - block_length cs < length cs"
  using block_length_le [of cs] by linarith

declare skip_quoted.simps(2) [simp del] skip_dollar_quoted.simps(2) [simp del]

lemmas scan_shrinks_all = skip_quoted_shrinks skip_dollar_shrinks line_shrinks block_shrinks

section \<open>Statements\<close>

function split_chunks :: "utext \<Rightarrow> utext \<Rightarrow> utext list" where
  "split_chunks cur cs =
     (case cs of [] \<Rightarrow> [cur]
      | c # cs' \<Rightarrow>
        (case skip_quoted cs of
           Some (n, q) \<Rightarrow> split_chunks (cur @ take n cs) (drop n cs)
         | None \<Rightarrow>
             if starts_line_comment cs then split_chunks (cur @ take (line_length cs) cs) (drop (line_length cs) cs)
             else if starts_block_comment cs then split_chunks (cur @ take (block_length cs) cs) (drop (block_length cs) cs)
             else if c = 59 then cur # split_chunks [] cs'
             else split_chunks (cur @ [c]) cs'))"
  by pat_completeness auto
termination
  by (relation "measure (\<lambda>(cur, cs). length cs)") (auto dest: scan_shrinks_all)

declare split_chunks.simps [simp del]

definition split_statements :: "utext \<Rightarrow> utext list" where
  "split_statements sql = filter (\<lambda>chunk. \<not> is_blank chunk) (split_chunks [] sql)"

section \<open>Ranges without parameters\<close>

function ranges_from :: "nat \<Rightarrow> utext \<Rightarrow> (nat \<times> nat) list" where
  "ranges_from i cs =
     (case cs of [] \<Rightarrow> []
      | c # cs' \<Rightarrow>
        (case skip_quoted cs of
           Some (n, q) \<Rightarrow> (i, i + n) # ranges_from (i + n) (drop n cs)
         | None \<Rightarrow>
             if starts_line_comment cs then (i, i + line_length cs) # ranges_from (i + line_length cs) (drop (line_length cs) cs)
             else if starts_block_comment cs then (i, i + block_length cs) # ranges_from (i + block_length cs) (drop (block_length cs) cs)
             else (case skip_dollar_quoted cs of
                 Some n \<Rightarrow> (i, i + n) # ranges_from (i + n) (drop n cs)
               | None \<Rightarrow> ranges_from (i + 1) cs')))"
  by pat_completeness auto
termination
  by (relation "measure (\<lambda>(i, cs). length cs)") (auto dest: scan_shrinks_all)

declare ranges_from.simps [simp del]

definition non_replaceable_ranges :: "utext \<Rightarrow> (nat \<times> nat) list" where
  "non_replaceable_ranges sql = ranges_from 0 sql"

definition is_in_non_replaceable :: "nat \<Rightarrow> nat \<Rightarrow> (nat \<times> nat) list \<Rightarrow> bool" where
  "is_in_non_replaceable pos end_pos ranges \<longleftrightarrow> list_ex (\<lambda>(from_pos, to_pos). pos < to_pos \<and> from_pos < end_pos) ranges"

text \<open>A separator is put where a comment was, unless there is white space already.\<close>

definition push_separator :: "utext \<Rightarrow> utext" where
  "push_separator out = (if out = [] \<or> last out = 32 \<or> last out = 10 \<or> last out = 9 then out else out @ [32])"

end
