(* ===== verification/Sql_Tokens.thy ===== *)
theory Sql_Tokens
  imports Sql_Scanner
begin

text \<open>
  Tokens and the main verb of a statement (\<open>execution/domain/sql_guard/keyword.rs\<close>), with the mapping
  of full-width letters that \<open>safety.rs\<close> provides.
\<close>

definition main_verbs :: "string list" where
  "main_verbs = [''SELECT'', ''INSERT'', ''UPDATE'', ''DELETE'', ''MERGE'', ''UPSERT'', ''REPLACE'', ''CALL'',
     ''EXEC'', ''EXECUTE'', ''DO'', ''SHOW'', ''DESCRIBE'', ''DESC'', ''EXPLAIN'', ''SET'', ''USE'', ''BEGIN'',
     ''COMMIT'', ''ROLLBACK'', ''SAVEPOINT'', ''RELEASE'', ''PREPARE'', ''DEALLOCATE'', ''ANALYZE'', ''VACUUM'',
     ''COPY'', ''LOAD'', ''UNLOAD'', ''HANDLER'', ''OPTIMIZE'', ''REPAIR'', ''CHECKSUM'', ''CHECK'', ''FLUSH'',
     ''RESET'', ''KILL'', ''SHUTDOWN'', ''CREATE'', ''ALTER'', ''DROP'', ''TRUNCATE'', ''GRANT'', ''REVOKE'',
     ''RENAME'', ''COMMENT'', ''LOCK'', ''UNLOCK'', ''PURGE'']"

definition is_main_verb :: "utext \<Rightarrow> bool" where
  "is_main_verb t = one_of main_verbs t"

definition wide_char :: "nat \<Rightarrow> nat" where
  "wide_char c = (if 65281 \<le> c \<and> c \<le> 65374 then c - 65248 else c)"

definition normalize_fullwidth :: "utext \<Rightarrow> utext" where
  "normalize_fullwidth sql = map wide_char sql"

text \<open>
  The comment stripper of the tokenizer goes over the bytes of the text and pushes each as a
  character of its own. It does not know quotes.
\<close>

function strip_bytes :: "nat list \<Rightarrow> utext" where
  "strip_bytes bs =
     (case bs of [] \<Rightarrow> []
      | b # bs' \<Rightarrow>
          if starts_line_comment bs then strip_bytes (drop (line_length bs) bs)
          else if starts_block_comment bs then strip_bytes (drop (block_length bs) bs)
          else b # strip_bytes bs')"
  by pat_completeness auto
termination
  by (relation "measure length") (auto dest: scan_shrinks_all)

declare strip_bytes.simps [simp del]

definition strip_comments_for_tokenize :: "utext \<Rightarrow> utext" where
  "strip_comments_for_tokenize sql = strip_bytes (bytes_of sql)"

text \<open>
  \<open>tokens_from quoted current cs\<close> reads on: \<open>quoted\<close> is the quote the reader is inside of, if any, and
  \<open>current\<close> the token that is being collected.
\<close>

definition flush_token :: "utext \<Rightarrow> utext list" where
  "flush_token current = (if current = [] then [] else [current])"

definition is_break :: "nat \<Rightarrow> bool" where
  "is_break c \<longleftrightarrow> is_whitespace c \<or> c = 59 \<or> c = 44"

fun tokens_from :: "nat option \<Rightarrow> utext \<Rightarrow> utext \<Rightarrow> utext list" where
  "tokens_from quoted current [] = flush_token current"
| "tokens_from (Some q) current (c # cs) = tokens_from (if c = q then None else Some q) current cs"
| "tokens_from None current (c # cs) =
     (if is_quote c then tokens_from (Some c) current cs
      else if is_break c then flush_token current @ tokens_from None [] cs
      else if c = 40 \<or> c = 41 then flush_token current @ [[c]] @ tokens_from None [] cs
      else tokens_from None (current @ [c]) cs)"

definition tokenize_sql :: "utext \<Rightarrow> utext list" where
  "tokenize_sql sql = tokens_from None [] (strip_comments_for_tokenize sql)"

definition open_paren :: utext where
  "open_paren = [40]"

definition close_paren :: utext where
  "close_paren = [41]"

text \<open>The search for the verb after the common table expressions: \<open>with_verb i depth tokens\<close>.\<close>

fun with_verb :: "nat \<Rightarrow> nat \<Rightarrow> utext list \<Rightarrow> nat option" where
  "with_verb i depth [] = None"
| "with_verb i depth (t # ts) =
     (if t = open_paren then with_verb (i + 1) (depth + 1) ts
      else if t = close_paren \<and> depth > 0 then with_verb (i + 1) (depth - 1) ts
      else if depth = 0 \<and> is_main_verb t then Some i
      else with_verb (i + 1) depth ts)"

definition skip_with_clause :: "utext list \<Rightarrow> nat option" where
  "skip_with_clause tokens = with_verb 1 0 (drop 1 tokens)"

definition find_main_verb_index :: "utext list \<Rightarrow> nat option" where
  "find_main_verb_index tokens =
     (case tokens of [] \<Rightarrow> None
      | t # ts \<Rightarrow> if eq_word t (lit ''WITH'') then skip_with_clause tokens else Some 0)"

definition sql_main_keyword :: "utext \<Rightarrow> utext option" where
  "sql_main_keyword sql =
     (let tokens = tokenize_sql (normalize_fullwidth sql) in
      case find_main_verb_index tokens of None \<Rightarrow> None | Some i \<Rightarrow> Some (to_uppercase (tokens ! i)))"

text \<open>The index that is found is always an index of the tokens, so no access is out of bounds.\<close>

lemma with_verb_range: "with_verb i depth ts = Some k \<Longrightarrow> i \<le> k \<and> k < i + length ts \<and> is_main_verb (ts ! (k - i))"
proof (induction i depth ts rule: with_verb.induct)
  case (2 i depth t ts)
  have step: "i \<le> k \<and> k < i + length (t # ts) \<and> is_main_verb ((t # ts) ! (k - i))"
    if "i + 1 \<le> k \<and> k < i + 1 + length ts \<and> is_main_verb (ts ! (k - (i + 1)))"
  proof -
    have "k - i = Suc (k - (i + 1))" using that by linarith
    then show ?thesis using that by simp
  qed
  show ?case
  proof (cases "t = open_paren")
    case True
    then show ?thesis using step "2.IH"(1) "2.prems" by simp
  next
    case opened: False
    show ?thesis
    proof (cases "t = close_paren \<and> depth > 0")
      case True
      then show ?thesis using step "2.IH"(2) "2.prems" opened by simp
    next
      case closed: False
      show ?thesis
      proof (cases "depth = 0 \<and> is_main_verb t")
        case True
        then show ?thesis using "2.prems" opened closed by simp
      next
        case False
        then have "with_verb (i + 1) depth ts = Some k"
          using "2.prems" opened closed by (simp only: with_verb.simps if_False)
        then show ?thesis using step "2.IH"(3) opened closed False by blast
      qed
    qed
  qed
qed simp

lemma main_verb_index_range: "find_main_verb_index tokens = Some i \<Longrightarrow> i < length tokens"
  by (cases tokens) (auto simp: find_main_verb_index_def skip_with_clause_def split: if_splits dest: with_verb_range)

end
