(* ===== verification/Sql_Safety.thy ===== *)
theory Sql_Safety
  imports Sql_Tokens
begin

text \<open>
  The guard of a connection (\<open>execution/domain/sql_guard/safety.rs\<close>): read-only connections, Safe Mode
  and the test of a write proposal. A slice of the token vector is a list; where the code keeps an
  index into the vector, the rest of the list from that index is kept.
\<close>

section \<open>Text\<close>

definition null_bytes_error :: utext where
  "null_bytes_error = lit ''SQL contains null bytes which are not allowed''"

definition normalize_sql :: "utext \<Rightarrow> utext + utext" where
  "normalize_sql sql = (if 0 \<in> set sql then Inl null_bytes_error else Inr (normalize_fullwidth sql))"

function strip_from :: "utext \<Rightarrow> utext \<Rightarrow> utext" where
  "strip_from out cs =
     (case cs of [] \<Rightarrow> out
      | c # cs' \<Rightarrow>
        (case skip_quoted cs of
           Some (n, q) \<Rightarrow> strip_from (out @ take n cs) (drop n cs)
         | None \<Rightarrow>
             if c = 35 then strip_from (push_separator out) (drop (line_length cs) cs)
             else if starts_line_comment cs then strip_from (push_separator out) (drop (line_length cs) cs)
             else if starts_block_comment cs then strip_from (push_separator out) (drop (block_length cs) cs)
             else (case skip_dollar_quoted cs of
                 Some n \<Rightarrow> strip_from (out @ take n cs) (drop n cs)
               | None \<Rightarrow> strip_from (out @ [c]) cs')))"
  by pat_completeness auto
termination
proof (relation "measure (\<lambda>(out, cs). length cs)")
  fix out cs c cs'
  assume cs: "cs = c # cs'" "c = (35::nat)"
  then show "((push_separator out, drop (line_length cs) cs), out, cs) \<in> measure (\<lambda>(out, cs). length cs)"
    by (simp add: line_length_def)
qed (auto dest: scan_shrinks_all)

declare strip_from.simps [simp del]

definition strip_sql_comments :: "utext \<Rightarrow> utext" where
  "strip_sql_comments sql = strip_from [] sql"

section \<open>Verbs\<close>

definition write_verbs :: "string list" where
  "write_verbs = [''INSERT'', ''UPDATE'', ''DELETE'', ''MERGE'', ''UPSERT'', ''REPLACE'', ''CREATE'', ''ALTER'',
     ''DROP'', ''TRUNCATE'', ''GRANT'', ''REVOKE'', ''RENAME'', ''COPY'', ''LOAD'', ''UNLOAD'', ''CALL'', ''EXEC'',
     ''EXECUTE'', ''DO'', ''HANDLER'', ''OPTIMIZE'', ''REPAIR'', ''FLUSH'', ''RESET'', ''KILL'', ''SHUTDOWN'',
     ''PURGE'', ''VACUUM'', ''LOCK'', ''UNLOCK'', ''COMMENT'']"

definition safe_mode_needs_where :: "string list" where
  "safe_mode_needs_where = [''UPDATE'', ''DELETE'']"

definition safe_mode_blocked :: "string list" where
  "safe_mode_blocked = [''TRUNCATE'', ''DROP'']"

definition read_verbs :: "string list" where
  "read_verbs = [''SELECT'', ''SHOW'', ''DESCRIBE'', ''DESC'', ''EXPLAIN'', ''PRAGMA'', ''USE'', ''WITH'', ''VALUES'']"

definition is_read_verb :: "utext \<Rightarrow> bool" where
  "is_read_verb v = one_of read_verbs v"

definition is_write_verb :: "utext \<Rightarrow> bool" where
  "is_write_verb v = one_of write_verbs v"

section \<open>Data-modifying common table expressions\<close>

text \<open>
  \<open>close_from i depth tokens\<close> looks for the parenthesis that closes the one at the start of the list.
  The counter does not go below zero: the list starts with an opening parenthesis.
\<close>

fun close_from :: "nat \<Rightarrow> nat \<Rightarrow> utext list \<Rightarrow> nat option" where
  "close_from i depth [] = None"
| "close_from i depth (t # ts) =
     (if t = open_paren then close_from (i + 1) (depth + 1) ts
      else if t = close_paren then (if depth - 1 = 0 then Some i else close_from (i + 1) (depth - 1) ts)
      else close_from (i + 1) depth ts)"

definition matching_close_paren :: "utext list \<Rightarrow> nat option" where
  "matching_close_paren tokens = close_from 0 0 tokens"

lemma close_from_range: "close_from i depth ts = Some k \<Longrightarrow> i \<le> k \<and> k < i + length ts"
  by (induction i depth ts rule: close_from.induct) (fastforce split: if_splits)+

text \<open>The optional words between \<open>AS\<close> and the parenthesis.\<close>

definition skip_word :: "string \<Rightarrow> utext list \<Rightarrow> utext list" where
  "skip_word w ts = (case ts of [] \<Rightarrow> [] | t # ts' \<Rightarrow> if eq_word t (lit w) then ts' else ts)"

definition after_as :: "utext list \<Rightarrow> utext list" where
  "after_as ts =
     (case ts of [] \<Rightarrow> []
      | t # ts' \<Rightarrow> if eq_word t (lit ''NOT'') then skip_word ''MATERIALIZED'' ts' else skip_word ''MATERIALIZED'' ts)"

lemma skip_word_le: "length (skip_word w ts) \<le> length ts"
  by (cases ts) (auto simp: skip_word_def)

lemma after_as_le: "length (after_as ts) \<le> length ts"
  using skip_word_le [of "''MATERIALIZED''" "tl ts"] skip_word_le [of "''MATERIALIZED''" ts]
  by (cases ts) (auto simp: after_as_def)

definition main_verb :: "utext list \<Rightarrow> utext option" where
  "main_verb tokens = (case find_main_verb_index tokens of None \<Rightarrow> None | Some i \<Rightarrow> Some (tokens ! i))"

definition main_verb_writes :: "utext list \<Rightarrow> bool" where
  "main_verb_writes tokens = (case main_verb tokens of None \<Rightarrow> False | Some verb \<Rightarrow> is_write_verb verb)"

text \<open>The body after \<open>AS\<close>, with what follows it.\<close>

definition split_body :: "utext list \<Rightarrow> (utext list \<times> utext list) option" where
  "split_body ts =
     (case ts of [] \<Rightarrow> None
      | t # rest \<Rightarrow>
          if t \<noteq> open_paren then None
          else case matching_close_paren ts of None \<Rightarrow> None | Some k \<Rightarrow> Some (take (k - 1) rest, drop (k + 1) ts))"

lemma split_body_le:
  "split_body ts = Some (body, rest) \<Longrightarrow> length body < length ts \<and> length rest < length ts"
  by (cases ts) (auto simp: split_body_def matching_close_paren_def split: if_splits option.splits dest: close_from_range)

lemma split_body_shrinks:
  "split_body (after_as ts) = Some (body, rest) \<Longrightarrow> length body < Suc (length ts) \<and> length rest < Suc (length ts)"
  using split_body_le [of "after_as ts" body rest] after_as_le [of ts] by simp

function data_modifying_cte_bodies :: "utext list \<Rightarrow> utext list list" where
  "data_modifying_cte_bodies [] = []"
| "data_modifying_cte_bodies (t # ts) =
     (if \<not> eq_word t (lit ''AS'') then data_modifying_cte_bodies ts
      else case split_body (after_as ts) of
          None \<Rightarrow> data_modifying_cte_bodies ts
        | Some (body, rest) \<Rightarrow>
            (if main_verb_writes body then [body] else []) @ data_modifying_cte_bodies body @ data_modifying_cte_bodies rest)"
  by pat_completeness auto
termination
  by (relation "measure length") (auto dest: split_body_shrinks)

definition has_data_modifying_cte :: "utext list \<Rightarrow> bool" where
  "has_data_modifying_cte tokens \<longleftrightarrow> data_modifying_cte_bodies tokens \<noteq> []"

section \<open>EXPLAIN ANALYZE\<close>

definition is_analyze_option_keyword :: "utext \<Rightarrow> bool" where
  "is_analyze_option_keyword t = one_of [''ANALYZE'', ''ANALYSE''] t"

definition is_explicit_bool :: "utext \<Rightarrow> bool" where
  "is_explicit_bool t = one_of [''TRUE'', ''FALSE'', ''ON'', ''OFF'', ''YES'', ''NO'', ''1'', ''0''] t"

definition is_false_value :: "utext \<Rightarrow> bool" where
  "is_false_value t = one_of [''FALSE'', ''OFF'', ''NO'', ''0''] t"

text \<open>The tokens after the optional equals sign and boolean, and whether the boolean is false.\<close>

definition skip_analyze_bool :: "utext list \<Rightarrow> utext list \<times> bool" where
  "skip_analyze_bool ts =
     (let vs = (case ts of [] \<Rightarrow> [] | t # ts' \<Rightarrow> if t = lit ''='' then ts' else ts) in
      case vs of [] \<Rightarrow> (ts, False)
      | v # rest \<Rightarrow> if is_explicit_bool v then (rest, is_false_value v) else (ts, False))"

definition analyse_bool_is_false :: "utext list \<Rightarrow> nat \<Rightarrow> bool" where
  "analyse_bool_is_false options i = snd (skip_analyze_bool (drop (i + 1) options))"

lemma skip_analyze_bool_le: "length (fst (skip_analyze_bool ts)) \<le> length ts"
  by (cases ts) (auto simp: skip_analyze_bool_def Let_def split: list.splits)

function explain_options :: "bool \<Rightarrow> utext list \<Rightarrow> utext list option" where
  "explain_options saw [] = (if saw then Some [] else None)"
| "explain_options saw (t # ts) =
     (if is_analyze_option_keyword t
      then (if snd (skip_analyze_bool ts) then None else explain_options True (fst (skip_analyze_bool ts)))
      else if eq_word t (lit ''VERBOSE'') then explain_options saw ts
      else if saw then Some (t # ts) else None)"
  by pat_completeness auto
termination
  by (relation "measure (\<lambda>(saw, ts). length ts)") (auto simp: skip_analyze_bool_le less_Suc_eq_le)

definition explain_analyze_statement :: "utext list \<Rightarrow> utext list option" where
  "explain_analyze_statement tokens =
     (case tokens of [] \<Rightarrow> None
      | t # ts \<Rightarrow>
          if \<not> eq_word t (lit ''EXPLAIN'') then None
          else if ts \<noteq> [] \<and> hd ts = open_paren then
            (case matching_close_paren ts of None \<Rightarrow> None
             | Some k \<Rightarrow>
                let options = take (k - 1) (drop 1 ts) in
                (case find_index is_analyze_option_keyword options of None \<Rightarrow> None
                 | Some i \<Rightarrow> if analyse_bool_is_false options i then None else Some (drop (k + 1) ts)))
          else explain_options False ts)"

section \<open>SELECT INTO\<close>

definition mark_depth :: "nat \<Rightarrow> bool list \<Rightarrow> bool list" where
  "mark_depth depth ds = (ds @ replicate (max (length ds) (depth + 1) - length ds) False)[depth := True]"

fun select_into_from :: "bool list \<Rightarrow> nat \<Rightarrow> utext list \<Rightarrow> bool" where
  "select_into_from ds depth [] = False"
| "select_into_from ds depth (t # ts) =
     (if t = open_paren then select_into_from ds (depth + 1) ts
      else if t = close_paren then select_into_from ds (depth - 1) ts
      else if eq_word t (lit ''SELECT'') then select_into_from (mark_depth depth ds) depth ts
      else if eq_word t (lit ''INTO'') \<and> depth < length ds \<and> ds ! depth then True
      else select_into_from ds depth ts)"

definition has_select_into :: "utext list \<Rightarrow> bool" where
  "has_select_into tokens = select_into_from [] 0 tokens"

definition has_write_operation :: "utext list \<Rightarrow> bool" where
  "has_write_operation tokens \<longleftrightarrow> main_verb_writes tokens \<or> has_data_modifying_cte tokens \<or> has_select_into tokens"

section \<open>Comments\<close>

text \<open>The text of a block comment after its opening; of an unclosed one the last character is missing.\<close>

fun block_text :: "utext \<Rightarrow> utext" where
  "block_text [] = []"
| "block_text [c] = []"
| "block_text (c # d # cs) = (if c = 42 \<and> d = 47 then [] else c # block_text (d # cs))"

text \<open>\<open>str::split_whitespace\<close>\<close>

fun words_from :: "utext \<Rightarrow> utext \<Rightarrow> utext list" where
  "words_from current [] = flush_token current"
| "words_from current (c # cs) =
     (if is_whitespace c then flush_token current @ words_from [] cs else words_from (current @ [c]) cs)"

function comment_hides_write_verb :: "utext \<Rightarrow> bool" where
  "comment_hides_write_verb cs =
     (case cs of [] \<Rightarrow> False
      | c # cs' \<Rightarrow>
          if starts_block_comment cs then
            list_ex is_write_verb (words_from [] (normalize_fullwidth (block_text (drop 2 cs)))) \<or>
            comment_hides_write_verb (drop (block_length cs) cs)
          else comment_hides_write_verb cs')"
  by pat_completeness auto
termination
  by (relation "measure length") (auto dest: scan_shrinks_all)

declare comment_hides_write_verb.simps [simp del]

section \<open>WHERE\<close>

function where_from :: "nat \<Rightarrow> utext \<Rightarrow> utext \<Rightarrow> bool" where
  "where_from depth ident cs =
     (case cs of [] \<Rightarrow> depth = 0 \<and> eq_word ident (lit ''WHERE'')
      | c # cs' \<Rightarrow>
        (case skip_quoted cs of
           Some (n, q) \<Rightarrow> where_from depth [] (drop n cs)
         | None \<Rightarrow>
          (case skip_dollar_quoted cs of
             Some n \<Rightarrow> where_from depth [] (drop n cs)
           | None \<Rightarrow>
               if c = 40 then where_from (depth + 1) [] cs'
               else if c = 41 \<and> depth > 0 then where_from (depth - 1) [] cs'
               else if is_word_char c then where_from depth (ident @ [c]) cs'
               else if depth = 0 \<and> eq_word ident (lit ''WHERE'') then True
               else where_from depth [] cs')))"
  by pat_completeness auto
termination
  by (relation "measure (\<lambda>(depth, ident, cs). length cs)") (auto dest: scan_shrinks_all)

declare where_from.simps [simp del]

definition has_top_level_where :: "utext \<Rightarrow> bool" where
  "has_top_level_where sql = where_from 0 [] sql"

fun join_words :: "utext list \<Rightarrow> utext" where
  "join_words [] = []"
| "join_words [t] = t"
| "join_words (t # u # ts) = t @ [32] @ join_words (u # ts)"

section \<open>The guard of a connection\<close>

definition read_only_verb_error :: "utext \<Rightarrow> utext" where
  "read_only_verb_error verb = lit ''Connection is read-only; '' @ [39] @ verb @ [39] @ lit '' statements are not allowed''"

definition read_only_write_error :: utext where
  "read_only_write_error = lit ''Connection is read-only; data-modifying statements are not allowed''"

definition safe_block_error :: "string \<Rightarrow> utext \<Rightarrow> utext" where
  "safe_block_error what verb = lit ''Safe Mode blocks '' @ lit what @ verb"

definition safe_where_error :: "string \<Rightarrow> utext \<Rightarrow> utext" where
  "safe_where_error what verb = lit ''Safe Mode requires a WHERE clause on '' @ lit what @ verb @ lit '' statements''"

definition hidden_verb_error :: "utext \<Rightarrow> utext" where
  "hidden_verb_error verb = lit ''Comment hides a write verb; '' @ [39] @ verb @ [39] @ lit '' statement is not allowed''"

definition executed_tokens :: "utext \<Rightarrow> utext list \<Rightarrow> utext list option" where
  "executed_tokens verb tokens = (if eq_word verb (lit ''EXPLAIN'') then explain_analyze_statement tokens else Some tokens)"

definition executes_write :: "utext \<Rightarrow> utext list \<Rightarrow> bool" where
  "executes_write verb tokens = (case executed_tokens verb tokens of None \<Rightarrow> False | Some ts \<Rightarrow> has_write_operation ts)"

text \<open>The first refusal, if there is one.\<close>

fun first_refusal :: "('a \<Rightarrow> utext option) \<Rightarrow> 'a list \<Rightarrow> utext option" where
  "first_refusal f [] = None"
| "first_refusal f (x # xs) = (case f x of Some e \<Rightarrow> Some e | None \<Rightarrow> first_refusal f xs)"

definition check_body :: "bool \<Rightarrow> bool \<Rightarrow> utext list \<Rightarrow> utext option" where
  "check_body read_only safe_mode body =
     (case main_verb body of None \<Rightarrow> None
      | Some v \<Rightarrow>
          let verb = to_uppercase v in
          if read_only \<and> is_write_verb verb then Some (read_only_verb_error verb)
          else if safe_mode \<and> one_of safe_mode_blocked verb then Some (safe_block_error ''CTE '' verb)
          else if safe_mode \<and> one_of safe_mode_needs_where verb \<and> \<not> has_top_level_where (join_words body)
          then Some (safe_where_error ''CTE '' verb)
          else None)"

definition check_statement :: "bool \<Rightarrow> bool \<Rightarrow> utext \<Rightarrow> utext option" where
  "check_statement read_only safe_mode stmt =
     (let stripped = strip_sql_comments stmt; tokens = tokenize_sql stripped in
      case main_verb tokens of None \<Rightarrow> None
      | Some v \<Rightarrow>
          let verb = to_uppercase v in
          if read_only \<and> is_write_verb verb then Some (read_only_verb_error verb)
          else if read_only \<and> executes_write verb tokens then Some read_only_write_error
          else if safe_mode \<and> one_of safe_mode_blocked verb then Some (safe_block_error '''' verb)
          else if safe_mode \<and> one_of safe_mode_needs_where verb \<and> \<not> has_top_level_where stripped
          then Some (safe_where_error '''' verb)
          else if \<not> is_write_verb verb \<and> \<not> is_read_verb verb \<and> comment_hides_write_verb stmt \<and> (read_only \<or> safe_mode)
          then Some (hidden_verb_error verb)
          else first_refusal (check_body read_only safe_mode) (data_modifying_cte_bodies tokens))"

definition check_sql :: "utext \<Rightarrow> bool \<Rightarrow> bool \<Rightarrow> utext option" where
  "check_sql sql read_only safe_mode =
     (if \<not> read_only \<and> \<not> safe_mode then None
      else case normalize_sql sql of Inl err \<Rightarrow> Some err
        | Inr text \<Rightarrow> first_refusal (check_statement read_only safe_mode) (split_statements text))"

section \<open>Write proposals\<close>

definition writable_pragmas :: "string list" where
  "writable_pragmas = [''application_id'', ''auto_vacuum'', ''automatic_index'', ''busy_timeout'', ''cache_size'',
     ''case_sensitive_like'', ''checkpoint_fullfsync'', ''defer_foreign_keys'', ''foreign_keys'', ''fullfsync'',
     ''ignore_check_constraints'', ''journal_mode'', ''journal_size_limit'', ''legacy_alter_table'', ''locking_mode'',
     ''max_page_count'', ''mmap_size'', ''page_size'', ''query_only'', ''read_uncommitted'', ''recursive_triggers'',
     ''reverse_unordered_selects'', ''secure_delete'', ''soft_heap_limit'', ''synchronous'', ''temp_store'', ''threads'',
     ''trusted_schema'', ''user_version'', ''wal_autocheckpoint'', ''writable_schema'']"

text \<open>The part of a name after its last dot.\<close>

definition last_segment :: "utext \<Rightarrow> utext" where
  "last_segment name = rev (takeWhile (\<lambda>c. c \<noteq> 46) (rev name))"

definition pragma_is_write :: "utext list \<Rightarrow> bool" where
  "pragma_is_write tokens =
     (case tokens of [] \<Rightarrow> False
      | t # ts \<Rightarrow>
          eq_word t (lit ''PRAGMA'') \<and>
          (list_ex (\<lambda>u. 61 \<in> set u) ts \<or>
           (case ts of
              name # u # _ \<Rightarrow> u = open_paren \<and> one_of writable_pragmas (last_segment name)
            | _ \<Rightarrow> False)))"

definition is_dml_or_ddl :: "utext \<Rightarrow> bool" where
  "is_dml_or_ddl verb = one_of [''INSERT'', ''UPDATE'', ''DELETE'', ''MERGE'', ''UPSERT'', ''REPLACE'', ''CREATE'',
     ''ALTER'', ''DROP'', ''TRUNCATE'', ''RENAME'', ''COMMENT''] verb"

definition writes_only :: "utext list \<Rightarrow> bool" where
  "writes_only tokens =
     (case main_verb tokens of None \<Rightarrow> False
      | Some verb \<Rightarrow>
          if one_of [''EXPLAIN'', ''SHOW'', ''DESCRIBE'', ''DESC''] verb then False
          else if eq_word verb (lit ''PRAGMA'') then pragma_is_write tokens
          else is_dml_or_ddl verb \<or> eq_word verb (lit ''SELECT'') \<and> has_data_modifying_cte tokens)"

fun all_write_only :: "bool \<Rightarrow> utext list \<Rightarrow> bool" where
  "all_write_only saw [] = saw"
| "all_write_only saw (stmt # stmts) =
     (let tokens = tokenize_sql (strip_sql_comments stmt) in
      if tokens = [] then all_write_only saw stmts
      else if writes_only tokens then all_write_only True stmts
      else False)"

definition is_write_only_sql :: "utext \<Rightarrow> bool" where
  "is_write_only_sql sql =
     (case normalize_sql sql of Inl _ \<Rightarrow> False | Inr text \<Rightarrow> all_write_only False (split_statements text))"

end
