(* ===== verification/Sql_Lexing.thy ===== *)
theory Sql_Lexing
  imports Sql_Scanner
begin

text \<open>
  Splitting in general. A \<open>span\<close> tells how long an opaque piece (a quoted text, a comment) at the
  start of a text is. \<open>cut_at span sep\<close> cuts a text at every separator outside of the opaque pieces.
  The locale states what a span has to satisfy for the cut to be lossless and final; the splitter of
  the code is an instance, and so is the splitter that also knows dollar quotes.
\<close>

function cut_at :: "(utext \<Rightarrow> nat option) \<Rightarrow> nat \<Rightarrow> utext \<Rightarrow> utext \<Rightarrow> utext list" where
  "cut_at span sep cur cs =
     (case cs of [] \<Rightarrow> [cur]
      | c # cs' \<Rightarrow>
        (case span cs of
           Some (Suc m) \<Rightarrow> cut_at span sep (cur @ take (Suc m) cs) (drop (Suc m) cs)
         | _ \<Rightarrow> if c = sep then cur # cut_at span sep [] cs' else cut_at span sep (cur @ [c]) cs'))"
  by pat_completeness auto
termination
  by (relation "measure (\<lambda>(span, sep, cur, cs). length cs)") auto

declare cut_at.simps [simp del]

fun join_at :: "nat \<Rightarrow> utext list \<Rightarrow> utext" where
  "join_at sep [] = []"
| "join_at sep [t] = t"
| "join_at sep (t # u # ts) = t @ sep # join_at sep (u # ts)"

lemma cut_at_Nil [simp]: "cut_at span sep cur [] = [cur]"
  by (simp add: cut_at.simps)

lemma cut_at_not_Nil: "cut_at span sep cur cs \<noteq> []"
proof (induction span sep cur cs rule: cut_at.induct)
  case (1 span sep cur cs)
  then show ?case by (subst cut_at.simps) (auto split: list.splits option.splits nat.splits)
qed

lemma join_at_Cons: "ts \<noteq> [] \<Longrightarrow> join_at sep (t # ts) = t @ sep # join_at sep ts"
  by (cases ts) auto

locale span_scanner =
  fixes span :: "utext \<Rightarrow> nat option"
  assumes span_range: "span cs = Some n \<Longrightarrow> 0 < n \<and> n \<le> length cs"
    and span_cut: "span cs = Some n \<Longrightarrow> n \<le> k \<Longrightarrow> span (take k cs) = Some n"
    and span_none: "span cs = None \<Longrightarrow> span (take k cs) = None"
begin

lemma cut_span: "span (c # cs) = Some n \<Longrightarrow> cut_at span sep cur (c # cs) = cut_at span sep (cur @ take n (c # cs)) (drop n (c # cs))"
  using span_range [of "c # cs" n] by (cases n) (simp_all add: cut_at.simps [of span sep cur "c # cs"])

lemma cut_some: "span cs = Some n \<Longrightarrow> cut_at span sep cur cs = cut_at span sep (cur @ take n cs) (drop n cs)"
  using span_range [of cs n] cut_span [of "hd cs" "tl cs"] by (cases cs) auto

lemma cut_sep: "span (sep # cs) = None \<Longrightarrow> cut_at span sep cur (sep # cs) = cur # cut_at span sep [] cs"
  by (simp add: cut_at.simps [of span sep cur "sep # cs"])

lemma cut_char: "span (c # cs) = None \<Longrightarrow> c \<noteq> sep \<Longrightarrow> cut_at span sep cur (c # cs) = cut_at span sep (cur @ [c]) cs"
  by (simp add: cut_at.simps [of span sep cur "c # cs"])

text \<open>An induction that follows the pieces of a text.\<close>

lemma piece_induct [case_names Nil Span Sep Char]:
  assumes "\<And>cur. P cur []"
    and "\<And>cur c cs n. span (c # cs) = Some n \<Longrightarrow> 0 < n \<Longrightarrow> n \<le> Suc (length cs) \<Longrightarrow>
           P (cur @ take n (c # cs)) (drop n (c # cs)) \<Longrightarrow> P cur (c # cs)"
    and "\<And>cur cs. span (sep # cs) = None \<Longrightarrow> P [] cs \<Longrightarrow> P cur (sep # cs)"
    and "\<And>cur c cs. span (c # cs) = None \<Longrightarrow> c \<noteq> sep \<Longrightarrow> P (cur @ [c]) cs \<Longrightarrow> P cur (c # cs)"
  shows "P cur cs"
proof (induction "length cs" arbitrary: cur cs rule: less_induct)
  case less
  show ?case
  proof (cases cs)
    case Nil
    then show ?thesis using assms(1) by simp
  next
    case (Cons c cs')
    show ?thesis
    proof (cases "span cs")
      case None
      have "P cur' cs'" for cur' using less Cons by simp
      then show ?thesis using assms(3,4) None Cons by (cases "c = sep") auto
    next
      case (Some n)
      have n: "0 < n" "n \<le> Suc (length cs')" using span_range [OF Some] Cons by auto
      then have "P (cur @ take n cs) (drop n cs)" using less Cons by simp
      then show ?thesis using assms(2) Some n Cons by simp
    qed
  qed
qed

lemma cut_current:
  "cut_at span sep (pre @ cur) cs = (pre @ hd (cut_at span sep cur cs)) # tl (cut_at span sep cur cs)"
  by (induction cur cs rule: piece_induct [where sep = sep])
    (simp_all add: cut_span cut_sep cut_char)

lemma cut_lossless: "join_at sep (cut_at span sep cur cs) = cur @ cs"
  by (induction cur cs rule: piece_induct [where sep = sep])
    (simp_all add: cut_span cut_sep cut_char join_at_Cons [OF cut_at_not_Nil])

lemma cut_first:
  "cut_at span sep cur cs = y # ys \<Longrightarrow>
   \<exists>k \<le> length cs. y = cur @ take k cs \<and> cut_at span sep cur (take k cs) = [y] \<and>
     (ys = [] \<or> k < length cs \<and> ys = cut_at span sep [] (drop (Suc k) cs))"
proof (induction cur cs rule: piece_induct [where sep = sep])
  case (Span cur c cs n)
  let ?t = "c # cs"
  have "cut_at span sep (cur @ take n ?t) (drop n ?t) = y # ys" using Span by (simp add: cut_span)
  then obtain k where k: "k \<le> length (drop n ?t)" "y = (cur @ take n ?t) @ take k (drop n ?t)"
    "cut_at span sep (cur @ take n ?t) (take k (drop n ?t)) = [y]"
    "ys = [] \<or> k < length (drop n ?t) \<and> ys = cut_at span sep [] (drop (Suc k) (drop n ?t))"
    using Span.IH by blast
  have whole: "take (n + k) ?t = take n ?t @ take k (drop n ?t)" by (simp add: take_add)
  obtain d ds where cut: "take (n + k) ?t = d # ds" using Span.hyps by (cases "take (n + k) ?t") auto
  have "take n (d # ds) = take n ?t" "drop n (d # ds) = take k (drop n ?t)"
    unfolding cut [symmetric] whole using Span.hyps by simp_all
  then have "cut_at span sep cur (take (n + k) ?t) = [y]"
    using span_cut [OF Span.hyps(1), of "n + k"] k(3) cut by (simp add: cut_span)
  moreover have "drop (Suc (n + k)) ?t = drop (Suc k) (drop n ?t)" by (simp add: add.commute)
  ultimately show ?case using k(1,2,4) whole Span.hyps by (intro exI [of _ "n + k"]) auto
next
  case (Sep cur cs)
  then show ?case by (intro exI [of _ 0]) (auto simp: cut_sep)
next
  case (Char cur c cs)
  have "cut_at span sep (cur @ [c]) cs = y # ys" using Char by (simp add: cut_char)
  then obtain k where k: "k \<le> length cs" "y = (cur @ [c]) @ take k cs"
    "cut_at span sep (cur @ [c]) (take k cs) = [y]" "ys = [] \<or> k < length cs \<and> ys = cut_at span sep [] (drop (Suc k) cs)"
    using Char.IH by blast
  have "span (c # take k cs) = None" using span_none [OF Char.hyps(1), of "Suc k"] by simp
  then have "cut_at span sep cur (c # take k cs) = [y]" using Char.hyps(2) k(3) by (simp add: cut_char)
  then show ?case using k by (intro exI [of _ "Suc k"]) auto
qed simp_all

lemma cut_final: "y \<in> set (cut_at span sep [] cs) \<Longrightarrow> cut_at span sep [] y = [y]"
proof (induction "length cs" arbitrary: cs rule: less_induct)
  case less
  obtain z zs where parts: "cut_at span sep [] cs = z # zs"
    using cut_at_not_Nil by (cases "cut_at span sep [] cs") auto
  obtain k where k: "z = take k cs" "cut_at span sep [] (take k cs) = [z]"
    "zs = [] \<or> k < length cs \<and> zs = cut_at span sep [] (drop (Suc k) cs)"
    using cut_first [OF parts] by auto
  consider "y = z" | "y \<in> set zs" using less.prems parts by auto
  then show ?case
  proof cases
    case 1
    then show ?thesis using k by simp
  next
    case 2
    then have "k < length cs" "y \<in> set (cut_at span sep [] (drop (Suc k) cs))" using k(3) by auto
    then show ?thesis using less.hyps [of "drop (Suc k) cs"] by simp
  qed
qed

end

section \<open>Quotes and comments are spans\<close>

definition quoted_span :: "utext \<Rightarrow> nat option" where
  "quoted_span cs = map_option fst (skip_quoted cs)"

definition comment_span :: "utext \<Rightarrow> nat option" where
  "comment_span cs =
     (if starts_line_comment cs then Some (line_length cs)
      else if starts_block_comment cs then Some (block_length cs) else None)"

definition or_else :: "(utext \<Rightarrow> nat option) \<Rightarrow> (utext \<Rightarrow> nat option) \<Rightarrow> utext \<Rightarrow> nat option" where
  "or_else f g cs = (case f cs of Some n \<Rightarrow> Some n | None \<Rightarrow> g cs)"

definition opaque_span :: "utext \<Rightarrow> nat option" where
  "opaque_span = or_else quoted_span comment_span"

text \<open>What a server that knows dollar quotes takes as opaque.\<close>

definition dollar_aware_span :: "utext \<Rightarrow> nat option" where
  "dollar_aware_span = or_else opaque_span skip_dollar_quoted"

lemma span_scanner_or_else:
  assumes "span_scanner f" "span_scanner g"
  shows "span_scanner (or_else f g)"
proof
  fix cs n k
  show "or_else f g cs = Some n \<Longrightarrow> 0 < n \<and> n \<le> length cs"
    using span_scanner.span_range [OF assms(1)] span_scanner.span_range [OF assms(2)]
    by (auto simp: or_else_def split: option.splits)
  show "or_else f g cs = Some n \<Longrightarrow> n \<le> k \<Longrightarrow> or_else f g (take k cs) = Some n"
    using span_scanner.span_cut [OF assms(1)] span_scanner.span_cut [OF assms(2)] span_scanner.span_none [OF assms(1)]
    by (auto simp: or_else_def split: option.splits)
  show "or_else f g cs = None \<Longrightarrow> or_else f g (take k cs) = None"
    using span_scanner.span_none [OF assms(1)] span_scanner.span_none [OF assms(2)]
    by (auto simp: or_else_def split: option.splits)
qed

lemma quote_body_pos: "0 < quote_body q (c # cs)"
  by (cases cs) auto

lemma quote_body_take: "quote_body q cs \<le> k \<Longrightarrow> quote_body q (take k cs) = quote_body q cs"
proof (induction q cs arbitrary: k rule: quote_body.induct)
  case (3 q c d cs)
  have pos: "0 < quote_body q (d # cs)" by (rule quote_body_pos)
  consider "k = 0" | "k = 1" | m where "k = Suc (Suc m)" by (metis One_nat_def old.nat.exhaust)
  then show ?case
  proof cases
    case 1
    then show ?thesis using "3.prems" quote_body_pos [of q c "d # cs"] by linarith
  next
    case 2
    then have "c = q \<and> \<not> (q = 39 \<and> d = 39)" using "3.prems" pos by (auto split: if_splits)
    then show ?thesis using 2 by simp
  next
    case m: 3
    consider "c = q \<and> q = 39 \<and> d = 39" | "c = q \<and> \<not> (q = 39 \<and> d = 39)" | "c \<noteq> q" by blast
    then show ?thesis
    proof cases
      case 1
      then have "quote_body q (take m cs) = quote_body q cs" using "3.prems" m by (intro "3.IH"(1)) auto
      then show ?thesis using 1 m by simp
    next
      case 2
      then show ?thesis using m by auto
    next
      case 3
      then have "quote_body q (take (Suc m) (d # cs)) = quote_body q (d # cs)"
        using "3.prems" m by (intro "3.IH"(2)) auto
      then show ?thesis using 3 m by simp
    qed
  qed
qed (auto simp: take_Cons' Suc_le_eq)

lemma block_body_pos: "0 < block_body (c # cs)"
  by (cases cs) auto

lemma block_body_take: "block_body cs \<le> k \<Longrightarrow> block_body (take k cs) = block_body cs"
proof (induction cs arbitrary: k rule: block_body.induct)
  case (3 c d cs)
  show ?case
  proof (cases "c = 42 \<and> d = 47")
    case True
    then obtain m where "k = Suc (Suc m)" using "3.prems" by (cases k) (auto simp: Suc_le_eq gr0_conv_Suc)
    then show ?thesis using True by simp
  next
    case False
    then have "Suc (Suc 0) \<le> k" using "3.prems" block_body_pos [of d cs] by auto
    then obtain m where k: "k = Suc (Suc m)" by (metis Suc_le_D Suc_le_mono)
    have "block_body (take (Suc m) (d # cs)) = block_body (d # cs)"
      using False "3.prems" k by (intro "3.IH") auto
    then show ?thesis using False k by auto
  qed
qed (auto simp: take_Cons' Suc_le_eq)

interpretation quotes: span_scanner quoted_span
proof
  fix cs n k
  show "quoted_span cs = Some n \<Longrightarrow> 0 < n \<and> n \<le> length cs"
    by (auto simp: quoted_span_def dest: skip_quoted_le)
  show "quoted_span cs = Some n \<Longrightarrow> n \<le> k \<Longrightarrow> quoted_span (take k cs) = Some n"
    using quote_body_take [of "hd cs" "tl cs" "k - 1"]
    by (cases cs; cases k) (auto simp: quoted_span_def skip_quoted.simps(2) split: if_splits)
  show "quoted_span cs = None \<Longrightarrow> quoted_span (take k cs) = None"
    by (cases cs; cases k) (auto simp: quoted_span_def skip_quoted.simps(2) split: if_splits)
qed

lemma line_comment_take: "starts_line_comment (take k cs) \<longleftrightarrow> starts_line_comment cs \<and> 2 \<le> k"
  by (cases cs rule: starts_line_comment.cases; cases k; cases "k - 1") auto

lemma block_comment_take: "starts_block_comment (take k cs) \<longleftrightarrow> starts_block_comment cs \<and> 2 \<le> k"
  by (cases cs rule: starts_block_comment.cases; cases k; cases "k - 1") auto

lemma line_length_ge: "starts_line_comment cs \<Longrightarrow> 2 \<le> line_length cs"
  by (cases cs rule: starts_line_comment.cases) (auto simp: line_length_def)

lemma block_length_ge: "2 \<le> block_length cs"
  by (simp add: block_length_def)

lemma line_length_take: "line_length cs \<le> k \<Longrightarrow> line_length (take k cs) = line_length cs"
  unfolding line_length_def
proof (induction cs arbitrary: k)
  case (Cons c cs)
  then show ?case by (cases k) (auto split: if_splits)
qed simp

lemma block_length_take: "starts_block_comment cs \<Longrightarrow> block_length cs \<le> k \<Longrightarrow> block_length (take k cs) = block_length cs"
  using block_body_take [of "drop 2 cs" "k - 2"] by (auto simp: block_length_def drop_take)

lemma not_line_and_block: "starts_line_comment cs \<Longrightarrow> \<not> starts_block_comment cs"
  by (cases cs rule: starts_line_comment.cases) auto

interpretation comments: span_scanner comment_span
proof
  fix cs n k
  show "comment_span cs = Some n \<Longrightarrow> 0 < n \<and> n \<le> length cs"
    using line_length_pos [of cs] block_length_le [of cs] by (auto simp: comment_span_def split: if_splits)
  show "comment_span cs = Some n \<Longrightarrow> n \<le> k \<Longrightarrow> comment_span (take k cs) = Some n"
    using line_length_ge [of cs] block_length_ge [of cs] line_length_take [of cs k] block_length_take [of cs k]
    by (auto simp: comment_span_def line_comment_take block_comment_take split: if_splits)
  show "comment_span cs = None \<Longrightarrow> comment_span (take k cs) = None"
    by (auto simp: comment_span_def line_comment_take block_comment_take split: if_splits)
qed

interpretation opaque: span_scanner opaque_span
  unfolding opaque_span_def by (rule span_scanner_or_else) unfold_locales

section \<open>Dollar quotes are spans\<close>

lemma find_tag_here: "take (length tag) cs = tag \<Longrightarrow> find_tag tag cs = Some (length tag)"
  by (subst find_tag.simps) (metis length_take min.absorb_iff2 min.cobounded1 not_le)

lemma find_tag_next:
  "take (length tag) (c # cs) \<noteq> tag \<Longrightarrow> length tag \<le> Suc (length cs) \<Longrightarrow> find_tag tag (c # cs) = map_option Suc (find_tag tag cs)"
  by (subst find_tag.simps) simp

lemma find_tag_take: "find_tag tag cs = Some m \<Longrightarrow> m \<le> k \<Longrightarrow> find_tag tag (take k cs) = Some m"
proof (induction cs arbitrary: m k)
  case Nil
  then show ?case by simp
next
  case (Cons c cs)
  have len: "length tag \<le> m" "m \<le> Suc (length cs)" using find_tag_le [OF Cons.prems(1)] by simp_all
  then have same: "take (length tag) (take k (c # cs)) = take (length tag) (c # cs)"
    using Cons.prems(2) by (simp add: min_absorb1)
  show ?case
  proof (cases "take (length tag) (c # cs) = tag")
    case True
    then show ?thesis using find_tag_here [OF True] find_tag_here [of tag "take k (c # cs)"] same Cons.prems(1) by simp
  next
    case False
    then obtain m' where m': "find_tag tag cs = Some m'" "m = Suc m'"
      using Cons.prems(1) len find_tag_next [OF False] by auto
    obtain k' where k': "k = Suc k'" using Cons.prems(2) m'(2) by (cases k) auto
    have "find_tag tag (take k' cs) = Some m'" using Cons.IH [OF m'(1)] Cons.prems(2) m'(2) k' by simp
    moreover have "length tag \<le> Suc (length (take k' cs))" using len Cons.prems(2) k' by simp
    ultimately show ?thesis using find_tag_next [of tag c "take k' cs"] False same m'(2) k' by simp
  qed
qed

definition dollar_length :: "utext \<Rightarrow> utext \<Rightarrow> nat" where
  "dollar_length name body =
     length name + 2 + (case find_tag (36 # name @ [36]) body of Some m \<Rightarrow> m | None \<Rightarrow> length body)"

lemma takeWhile_word: "list_all is_word_char name \<Longrightarrow> takeWhile is_word_char (name @ 36 # body) = name"
  by (induction name) (auto simp: is_word_char_def is_alphanumeric_def is_digit_def)

lemma skip_dollar_intro:
  "list_all is_word_char name \<Longrightarrow> skip_dollar_quoted (36 # name @ 36 # body) = Some (dollar_length name body)"
  by (simp add: skip_dollar_quoted.simps(2) takeWhile_word Let_def dollar_length_def split: option.splits)

lemma skip_dollar_elim:
  assumes "skip_dollar_quoted cs = Some n"
  obtains name body where "cs = 36 # name @ 36 # body" "list_all is_word_char name" "n = dollar_length name body"
proof (cases cs)
  case (Cons c ds)
  let ?name = "takeWhile is_word_char ds"
  obtain body where "c = 36" "drop (length ?name) ds = 36 # body"
    using assms Cons by (auto simp: skip_dollar_quoted.simps(2) Let_def split: if_splits list.splits)
  then have shape: "cs = 36 # ?name @ 36 # body" using Cons by (metis append_take_drop_id takeWhile_eq_take)
  have word: "list_all is_word_char ?name" by (auto simp: list_all_iff dest: set_takeWhileD)
  have "n = dollar_length ?name body" using assms shape skip_dollar_intro [OF word, of body] by simp
  then show thesis using that shape word by blast
qed (use assms in simp)

interpretation dollars: span_scanner skip_dollar_quoted
proof
  fix cs n k
  show "skip_dollar_quoted cs = Some n \<Longrightarrow> 0 < n \<and> n \<le> length cs" by (rule skip_dollar_le)
  show "skip_dollar_quoted cs = None \<Longrightarrow> skip_dollar_quoted (take k cs) = None"
  proof (rule ccontr)
    assume none: "skip_dollar_quoted cs = None" and "skip_dollar_quoted (take k cs) \<noteq> None"
    then obtain name body where cut: "take k cs = 36 # name @ 36 # body" "list_all is_word_char name"
      by (metis not_None_eq skip_dollar_elim)
    have "cs = 36 # name @ 36 # (body @ drop k cs)"
      using append_take_drop_id [of k cs] cut(1) by simp
    then show False using none skip_dollar_intro [OF cut(2), of "body @ drop k cs"] by simp
  qed
  show "skip_dollar_quoted (take k cs) = Some n" if some: "skip_dollar_quoted cs = Some n" and "n \<le> k"
  proof (cases "length cs \<le> k")
    case False
    obtain name body where cs: "cs = 36 # name @ 36 # body" "list_all is_word_char name" "n = dollar_length name body"
      using skip_dollar_elim [OF some] .
    then obtain m where m: "find_tag (36 # name @ [36]) body = Some m" "n = length name + 2 + m"
      using \<open>n \<le> k\<close> False by (cases "find_tag (36 # name @ [36]) body") (auto simp: dollar_length_def)
    let ?j = "k - length name - 2"
    have j: "m \<le> ?j" "k = Suc (length name + Suc ?j)" using m(2) \<open>n \<le> k\<close> by linarith+
    have "take k cs = 36 # name @ 36 # take ?j body" unfolding cs(1) by (subst j(2)) simp
    then show ?thesis
      using skip_dollar_intro [OF cs(2), of "take ?j body"] find_tag_take [OF m(1) j(1)] m(2)
      by (simp add: dollar_length_def)
  qed (use some in simp)
qed

interpretation dollar_aware: span_scanner dollar_aware_span
  unfolding dollar_aware_span_def
  by (rule span_scanner_or_else [OF opaque.span_scanner_axioms dollars.span_scanner_axioms])

section \<open>The splitter of the code\<close>

lemma split_chunks_cut: "split_chunks cur cs = cut_at opaque_span 59 cur cs"
proof (induction cur cs rule: opaque.piece_induct [where sep = 59])
  case (Nil cur)
  show ?case by (simp add: split_chunks.simps)
next
  case (Span cur c cs n)
  have "split_chunks cur (c # cs) = split_chunks (cur @ take n (c # cs)) (drop n (c # cs))"
    using Span.hyps(1) not_line_and_block [of "c # cs"]
    by (subst split_chunks.simps)
      (auto simp: opaque_span_def or_else_def quoted_span_def comment_span_def split: option.splits if_splits)
  then show ?case using Span by (simp add: opaque.cut_span)
next
  case (Sep cur cs)
  have "split_chunks cur (59 # cs) = cur # split_chunks [] cs"
    using Sep.hyps(1)
    by (subst split_chunks.simps)
      (auto simp: opaque_span_def or_else_def quoted_span_def comment_span_def split: option.splits if_splits)
  then show ?case using Sep by (simp add: opaque.cut_sep)
next
  case (Char cur c cs)
  have "split_chunks cur (c # cs) = split_chunks (cur @ [c]) cs"
    using Char.hyps
    by (subst split_chunks.simps)
      (auto simp: opaque_span_def or_else_def quoted_span_def comment_span_def split: option.splits if_splits)
  then show ?case using Char by (simp add: opaque.cut_char)
qed

lemma split_statements_cut: "split_statements sql = filter (\<lambda>t. \<not> is_blank t) (cut_at opaque_span 59 [] sql)"
  by (simp add: split_statements_def split_chunks_cut)

lemma split_chunks_join: "join_at 59 (split_chunks cur cs) = cur @ cs"
  by (simp add: split_chunks_cut opaque.cut_lossless)

lemma split_statements_final: "stmt \<in> set (split_statements sql) \<Longrightarrow> split_statements stmt = [stmt]"
  using opaque.cut_final [of stmt 59 sql] by (simp add: split_statements_cut)

lemma split_without_separator: "59 \<notin> set cs \<Longrightarrow> cut_at opaque_span 59 cur cs = [cur @ cs]"
proof (induction cur cs rule: opaque.piece_induct [where sep = 59])
  case (Span cur c cs n)
  have "59 \<notin> set (drop n (c # cs))" using Span.prems by (meson in_set_dropD)
  then have "cut_at opaque_span 59 (cur @ take n (c # cs)) (drop n (c # cs)) = [(cur @ take n (c # cs)) @ drop n (c # cs)]"
    by (rule Span.IH)
  then show ?case by (simp only: opaque.cut_span [OF Span.hyps(1)] append_assoc append_take_drop_id)
qed (simp_all add: opaque.cut_char)

end
