(* ===== verification/Sql_Guard.thy ===== *)
theory Sql_Guard
  imports Sql_Safety Sql_Lexing
begin

text \<open>
  What the guard sees: the search for data-modifying common table expressions finds every one, at any
  depth, and the verbs it compares survive the conversion to upper case.
\<close>

section \<open>Verbs\<close>

lemma ascii_lower_low: "ascii_lower c < 128 \<Longrightarrow> c < 128"
  by (simp add: ascii_lower_def split: if_splits)

lemma eq_word_ascii: "eq_word t w \<Longrightarrow> list_all (\<lambda>c. c < 128) w \<Longrightarrow> list_all (\<lambda>c. c < 128) t"
proof -
  assume same: "eq_word t w" and low: "list_all (\<lambda>c. c < 128) w"
  have "list_all (\<lambda>c. c < 128) (map ascii_lower w)" using low by (auto simp: list_all_iff ascii_lower_def)
  then have "list_all (\<lambda>c. c < 128) (map ascii_lower t)" using same by (simp add: eq_word_def)
  then show ?thesis by (auto simp: list_all_iff dest: ascii_lower_low)
qed

definition ascii_words :: "string list \<Rightarrow> bool" where
  "ascii_words ws \<longleftrightarrow> list_all (\<lambda>w. list_all (\<lambda>c. c < 128) (lit w)) ws"

lemma one_of_upper:
  assumes "ascii_words ws" "one_of ws v"
  shows "one_of ws (to_uppercase v)"
proof -
  have "list_all (\<lambda>c. c < 128) v"
    using assms eq_word_ascii by (auto simp: one_of_def ascii_words_def list_ex_iff list_all_iff)
  then show ?thesis using one_of_cong [OF to_uppercase_ascii] assms(2) by blast
qed

lemma ascii_verbs: "ascii_words write_verbs" "ascii_words [w] \<longleftrightarrow> list_all (\<lambda>c. c < 128) (lit w)"
proof -
  show "ascii_words write_verbs" by code_simp
qed (simp add: ascii_words_def)

lemma is_write_upper: "is_write_verb v \<Longrightarrow> is_write_verb (to_uppercase v)"
  unfolding is_write_verb_def by (rule one_of_upper [OF ascii_verbs(1)])

section \<open>Nested parentheses\<close>

text \<open>The depth after a list of tokens, if the reader has not met the closing parenthesis it looks for.\<close>

fun depth_after :: "nat \<Rightarrow> utext list \<Rightarrow> nat option" where
  "depth_after d [] = Some d"
| "depth_after d (t # ts) =
     (if t = open_paren then depth_after (d + 1) ts
      else if t = close_paren then (if d - 1 = 0 then None else depth_after (d - 1) ts)
      else depth_after d ts)"

lemma parens_differ [simp]: "open_paren \<noteq> close_paren" "close_paren \<noteq> open_paren"
  by (simp_all add: open_paren_def close_paren_def)

lemma close_from_append:
  "close_from i d (xs @ ys) = (case depth_after d xs of Some e \<Rightarrow> close_from (i + length xs) e ys | None \<Rightarrow> close_from i d xs)"
  by (induction d xs arbitrary: i rule: depth_after.induct) (auto split: option.splits)

lemma close_from_None: "close_from i d xs = None \<longleftrightarrow> depth_after d xs \<noteq> None"
  by (induction d xs arbitrary: i rule: depth_after.induct) auto

lemma depth_after_more: "depth_after d xs = Some e \<Longrightarrow> 0 < d \<Longrightarrow> depth_after (d + m) xs = Some (e + m) \<and> 0 < e"
  by (induction d xs rule: depth_after.induct) (auto split: if_splits)

lemma depth_after_append: "depth_after d (xs @ ys) = Option.bind (depth_after d xs) (\<lambda>e. depth_after e ys)"
  by (induction d xs rule: depth_after.induct) auto

lemma close_from_shift: "close_from (i + m) d xs = map_option (\<lambda>k. k + m) (close_from i d xs)"
proof (induction i d xs rule: close_from.induct)
  case (2 i d t ts)
  then show ?case by (auto simp: add.commute add.left_commute)
qed simp

text \<open>An opening parenthesis inside a body is closed inside the body.\<close>

lemma inner_close:
  assumes "depth_after 1 (u @ open_paren # v) = Some 1" "close_from 0 1 (v @ w) = Some k"
  shows "k < length v \<and> close_from 0 1 v = Some k"
proof -
  obtain e where e: "depth_after 1 u = Some e" "depth_after (e + 1) v = Some 1"
    using assms(1) by (auto simp: depth_after_append bind_eq_Some_conv)
  then have "0 < e" using depth_after_more [of 1 u e 0] by simp
  have found: "depth_after 1 v = None"
  proof (rule ccontr)
    assume "depth_after 1 v \<noteq> None"
    then obtain f where "depth_after 1 v = Some f" by blast
    then have "depth_after (1 + e) v = Some (f + e) \<and> 0 < f" using depth_after_more [of 1 v f e] by simp
    then show False using e(2) \<open>0 < e\<close> by (simp add: add.commute)
  qed
  then have "close_from 0 1 v = Some k" using assms(2) by (simp add: close_from_append)
  then show ?thesis using close_from_range by fastforce
qed

lemma split_body_Some:
  "split_body ts = Some (body, rest) \<longleftrightarrow>
   (\<exists>R k. ts = open_paren # R \<and> close_from 0 1 R = Some k \<and> body = take k R \<and> rest = drop (Suc k) R)"
proof (cases ts)
  case (Cons t R)
  have "close_from 0 0 (open_paren # R) = map_option Suc (close_from 0 1 R)"
    using close_from_shift [of 0 1 1 R] by simp
  then show ?thesis using Cons by (auto simp: split_body_def matching_close_paren_def split: option.splits)
qed (simp add: split_body_def)

lemma close_from_at:
  "close_from i d R = Some k \<Longrightarrow> 0 < d \<Longrightarrow>
   i \<le> k \<and> k - i < length R \<and> R ! (k - i) = close_paren \<and> depth_after d (take (k - i) R) = Some 1"
proof (induction i d R rule: close_from.induct)
  case (2 i d t ts)
  have step: "i \<le> k \<and> k - i < length (t # ts) \<and> (t # ts) ! (k - i) = close_paren \<and> depth_after d (take (k - i) (t # ts)) = Some 1"
    if "i + 1 \<le> k" "k - (i + 1) < length ts" "ts ! (k - (i + 1)) = close_paren"
      "depth_after d (t # take (k - (i + 1)) ts) = Some 1"
  proof -
    have "k - i = Suc (k - (i + 1))" using that(1) by linarith
    then show ?thesis using that by simp
  qed
  show ?case
  proof (cases "t = open_paren")
    case True
    then have "i + 1 \<le> k \<and> k - (i + 1) < length ts \<and> ts ! (k - (i + 1)) = close_paren \<and>
        depth_after (d + 1) (take (k - (i + 1)) ts) = Some 1"
      using "2.IH"(1) "2.prems" by simp
    then show ?thesis using True by (intro step) simp_all
  next
    case opened: False
    show ?thesis
    proof (cases "t = close_paren")
      case closes: True
      show ?thesis
      proof (cases "d - 1 = 0")
        case True
        then show ?thesis using "2.prems" closes by auto
      next
        case False
        then have "i + 1 \<le> k \<and> k - (i + 1) < length ts \<and> ts ! (k - (i + 1)) = close_paren \<and>
            depth_after (d - 1) (take (k - (i + 1)) ts) = Some 1"
          using "2.IH"(2) "2.prems" closes by simp
        then show ?thesis using closes False by (intro step) simp_all
      qed
    next
      case False
      then have "i + 1 \<le> k \<and> k - (i + 1) < length ts \<and> ts ! (k - (i + 1)) = close_paren \<and>
          depth_after d (take (k - (i + 1)) ts) = Some 1"
        using "2.IH"(3) "2.prems" opened by simp
      then show ?thesis using opened False by (intro step) simp_all
    qed
  qed
qed simp

section \<open>Every body is found\<close>

lemma eq_word_differs: "length a \<noteq> length b \<Longrightarrow> \<not> eq_word a b"
  by (auto dest: eq_word_length)

lemma after_as_drop:
  "\<exists>n. after_as ts = drop n ts \<and> list_all (\<lambda>t. eq_word t (lit ''NOT'') \<or> eq_word t (lit ''MATERIALIZED'')) (take n ts)"
proof (cases ts)
  case (Cons t us)
  consider "eq_word t (lit ''NOT'')" "skip_word ''MATERIALIZED'' us = us" | "eq_word t (lit ''NOT'')" "skip_word ''MATERIALIZED'' us \<noteq> us"
    | "\<not> eq_word t (lit ''NOT'')" "eq_word t (lit ''MATERIALIZED'')" | "\<not> eq_word t (lit ''NOT'')" "\<not> eq_word t (lit ''MATERIALIZED'')"
    by blast
  then show ?thesis
  proof cases
    case 1
    then show ?thesis using Cons by (intro exI [of _ 1]) (simp add: after_as_def del: lit_simps)
  next
    case 2
    then show ?thesis using Cons
      by (intro exI [of _ 2]) (auto simp: after_as_def skip_word_def take_Cons' simp del: lit_simps split: list.splits if_splits)
  next
    case 3
    then show ?thesis using Cons by (intro exI [of _ 1]) (simp add: after_as_def skip_word_def del: lit_simps)
  next
    case 4
    then show ?thesis using Cons by (intro exI [of _ 0]) (simp add: after_as_def skip_word_def del: lit_simps)
  qed
qed (auto simp: after_as_def)

lemma after_as_close: "after_as (v @ close_paren # r) = after_as v @ close_paren # r"
proof -
  have "\<not> eq_word close_paren (lit w)" if "length w \<noteq> 1" for w
    using that by (intro eq_word_differs) (simp add: close_paren_def lit_def)
  then show ?thesis
    by (cases v; cases "tl v") (auto simp: after_as_def skip_word_def simp del: lit_simps)
qed

lemma split_body_cut:
  assumes "depth_after 1 (u @ w # v) = Some 1" "w \<noteq> open_paren" "w \<noteq> close_paren"
    and "split_body (after_as (v @ close_paren # r)) = Some (body, rest)"
  shows "\<exists>rest'. split_body (after_as v) = Some (body, rest')"
proof -
  obtain n where n: "after_as v = drop n v" using after_as_drop by blast
  obtain R k where R: "after_as v @ close_paren # r = open_paren # R" "close_from 0 1 R = Some k" "body = take k R"
    using assms(4) unfolding after_as_close split_body_Some by blast
  then obtain x where x: "after_as v = open_paren # x" "R = x @ close_paren # r" by (cases "after_as v") auto
  then have "v = take n v @ open_paren # x" using n by (metis append_take_drop_id)
  then have "depth_after 1 ((u @ w # take n v) @ open_paren # x) = Some 1" using assms(1) by (metis append_Cons append_assoc)
  then have "k < length x \<and> close_from 0 1 x = Some k" using inner_close R(2) x(2) by blast
  then have "split_body (after_as v) = Some (body, drop (Suc k) x)"
    unfolding split_body_Some using x R(3) by (intro exI [of _ x] exI [of _ k]) auto
  then show ?thesis by blast
qed

lemma cons_in_append:
  "xs @ w # ys = as @ bs \<Longrightarrow> (\<exists>zs. as = xs @ w # zs \<and> ys = zs @ bs) \<or> (\<exists>zs. xs = as @ zs \<and> bs = zs @ w # ys)"
  by (auto simp: append_eq_append_conv2 Cons_eq_append_conv)

lemma cte_found:
  "tokens = pre @ w # ts \<Longrightarrow> eq_word w (lit ''AS'') \<Longrightarrow> split_body (after_as ts) = Some (body, rest) \<Longrightarrow>
   main_verb_writes body \<Longrightarrow> body \<in> set (data_modifying_cte_bodies tokens)"
proof (induction "length tokens" arbitrary: tokens pre ts rest rule: less_induct)
  case less
  have plain: "w \<noteq> open_paren" "w \<noteq> close_paren" "\<not> eq_word w (lit ''NOT'')" "\<not> eq_word w (lit ''MATERIALIZED'')"
    using eq_word_length [OF less.prems(2)] by (auto simp: open_paren_def close_paren_def dest: eq_word_length)
  obtain t tl where tokens: "tokens = t # tl" using less.prems(1) by (cases pre) auto
  show ?case
  proof (cases pre)
    case Nil
    then show ?thesis using less.prems tokens by (auto simp del: lit_simps)
  next
    case (Cons p ps)
    then have tl: "tl = ps @ w # ts" using less.prems(1) tokens by simp
    then have later: "body \<in> set (data_modifying_cte_bodies tl)"
      by (intro less.hyps [of tl ps ts rest]) (use less.prems tokens tl in simp_all)
    show ?thesis
    proof (cases "eq_word t (lit ''AS'') \<and> split_body (after_as tl) \<noteq> None")
      case False
      then show ?thesis using later tokens by (auto simp del: lit_simps split: option.splits)
    next
      case True
      then obtain b1 r1 where b1: "eq_word t (lit ''AS'')" "split_body (after_as tl) = Some (b1, r1)" by auto
      then obtain R k where R: "after_as tl = open_paren # R" "close_from 0 1 R = Some k" "b1 = take k R" "r1 = drop (Suc k) R"
        unfolding split_body_Some by blast
      have k: "k < length R" "R ! k = close_paren" "depth_after 1 b1 = Some 1" using close_from_at [OF R(2)] R(3) by auto
      then have R_parts: "R = b1 @ close_paren # r1" using R(3,4) id_take_nth_drop [OF k(1)] k(2) by metis
      obtain n where n: "after_as tl = drop n tl" "list_all (\<lambda>t. eq_word t (lit ''NOT'') \<or> eq_word t (lit ''MATERIALIZED'')) (take n tl)"
        using after_as_drop by blast
      have shorter: "length b1 < length tokens" "length r1 < length tokens" using split_body_shrinks [OF b1(2)] tokens by simp_all
      have whole: "ps @ w # ts = take n tl @ (open_paren # b1 @ close_paren # r1)"
        using R(1) R_parts n(1) tl by (metis append_take_drop_id)
      have "w \<notin> set (take n tl)" using n(2) plain(3,4) by (auto simp: list_all_iff)
      then obtain zs where "open_paren # b1 @ close_paren # r1 = zs @ w # ts"
        using cons_in_append [OF whole] by (metis in_set_conv_decomp)
      then obtain ys where "b1 @ close_paren # r1 = ys @ w # ts" using plain(1) by (cases zs) auto
      then have inside: "(\<exists>v. b1 = ys @ w # v \<and> ts = v @ close_paren # r1) \<or> (\<exists>x. close_paren # r1 = x @ w # ts)"
        using cons_in_append [of ys w ts b1 "close_paren # r1"] by metis
      then consider v where "b1 = ys @ w # v" "ts = v @ close_paren # r1" | x where "r1 = x @ w # ts"
        using plain(2) by (auto simp: Cons_eq_append_conv)
      then have "body \<in> set (data_modifying_cte_bodies b1) \<union> set (data_modifying_cte_bodies r1)"
      proof cases
        case 1
        then obtain rest' where cut: "split_body (after_as v) = Some (body, rest')"
          using split_body_cut [of ys w v r1 body rest] k(3) plain(1,2) less.prems(3) by auto
        have "body \<in> set (data_modifying_cte_bodies b1)"
          by (rule less.hyps [OF shorter(1) 1(1) less.prems(2) cut less.prems(4)])
        then show ?thesis by simp
      next
        case 2
        have "body \<in> set (data_modifying_cte_bodies r1)"
          by (rule less.hyps [OF shorter(2) 2 less.prems(2,3,4)])
        then show ?thesis by simp
      qed
      then show ?thesis using tokens b1 by (auto simp del: lit_simps)
    qed
  qed
qed

section \<open>Nothing else is found\<close>

lemma split_body_append: "split_body xs = Some (body, r) \<Longrightarrow> split_body (xs @ ys) = Some (body, r @ ys)"
proof -
  assume "split_body xs = Some (body, r)"
  then obtain R k where R: "xs = open_paren # R" "close_from 0 1 R = Some k" "body = take k R" "r = drop (Suc k) R"
    unfolding split_body_Some by blast
  then have "depth_after 1 R = None" using close_from_None [of 0 1 R] by (metis option.distinct(1))
  then have "close_from 0 1 (R @ ys) = Some k" using R(2) by (simp add: close_from_append)
  moreover have "k < length R" using close_from_range [OF R(2)] by simp
  ultimately show ?thesis using R unfolding split_body_Some by (intro exI [of _ "R @ ys"] exI [of _ k]) simp
qed

lemma split_body_whole:
  assumes "split_body (after_as ts) = Some (body, rest)"
  shows "\<exists>skipped. ts = skipped @ open_paren # body @ close_paren # rest"
proof -
  obtain n where n: "after_as ts = drop n ts" using after_as_drop by blast
  obtain R k where R: "after_as ts = open_paren # R" "close_from 0 1 R = Some k" "body = take k R" "rest = drop (Suc k) R"
    using assms unfolding split_body_Some by blast
  have k: "k < length R" "R ! k = close_paren" using close_from_at [OF R(2)] by auto
  have "R = body @ close_paren # rest" using id_take_nth_drop [OF k(1)] k(2) R(3,4) by simp
  then have "ts = take n ts @ open_paren # body @ close_paren # rest" using n R(1) by (metis append_take_drop_id)
  then show ?thesis by blast
qed

definition cte_body :: "utext list \<Rightarrow> utext list \<Rightarrow> bool" where
  "cte_body tokens body \<longleftrightarrow>
     (\<exists>pre w ts rest. tokens = pre @ w # ts \<and> eq_word w (lit ''AS'') \<and> split_body (after_as ts) = Some (body, rest))"

lemma cte_body_here: "eq_word w (lit ''AS'') \<Longrightarrow> split_body (after_as ts) = Some (body, rest) \<Longrightarrow> cte_body (w # ts) body"
  unfolding cte_body_def by (metis append_Nil)

lemma cte_body_prefix: "cte_body tokens body \<Longrightarrow> cte_body (xs @ tokens) body"
  unfolding cte_body_def by (metis append_assoc)

lemma cte_body_inside: "cte_body tokens body \<Longrightarrow> cte_body (tokens @ close_paren # rest) body"
  unfolding cte_body_def by (metis append_assoc append_Cons after_as_close split_body_append)

lemma cte_only: "body \<in> set (data_modifying_cte_bodies tokens) \<Longrightarrow> main_verb_writes body \<and> cte_body tokens body"
proof (induction tokens rule: data_modifying_cte_bodies.induct)
  case (2 t ts)
  have later: "cte_body (t # ts) body" if "cte_body ts body" using cte_body_prefix [OF that, of "[t]"] by simp
  show ?case
  proof (cases "eq_word t (lit ''AS'') \<and> split_body (after_as ts) \<noteq> None")
    case False
    then have "body \<in> set (data_modifying_cte_bodies ts)"
      using "2.prems" by (auto simp del: lit_simps split: option.splits if_splits)
    then show ?thesis using "2.IH" False later by blast
  next
    case True
    then obtain b rest where b: "eq_word t (lit ''AS'')" "split_body (after_as ts) = Some (b, rest)" by auto
    then obtain skipped where ts: "ts = skipped @ open_paren # b @ close_paren # rest" using split_body_whole by blast
    consider "body = b" "main_verb_writes b" | "body \<in> set (data_modifying_cte_bodies b)" | "body \<in> set (data_modifying_cte_bodies rest)"
      using "2.prems" b by (auto simp del: lit_simps split: if_splits)
    then show ?thesis
    proof cases
      case 1
      then show ?thesis using cte_body_here [OF b] by simp
    next
      case 2
      then have "main_verb_writes body \<and> cte_body b body" using "2.IH"(3) [OF _ b(2) refl] b(1) by blast
      then show ?thesis using cte_body_prefix [OF cte_body_inside, of b body "t # skipped @ [open_paren]" rest] ts by simp
    next
      case 3
      then have "main_verb_writes body \<and> cte_body rest body" using "2.IH"(4) [OF _ b(2) refl] b(1) by blast
      then show ?thesis using cte_body_prefix [of rest body "t # skipped @ open_paren # b @ [close_paren]"] ts by simp
    qed
  qed
qed simp

lemma cte_bodies_exact: "body \<in> set (data_modifying_cte_bodies tokens) \<longleftrightarrow> main_verb_writes body \<and> cte_body tokens body"
  using cte_only cte_found unfolding cte_body_def by metis

lemma has_write_operation_exact:
  "has_write_operation tokens \<longleftrightarrow>
   main_verb_writes tokens \<or> has_select_into tokens \<or> (\<exists>body. main_verb_writes body \<and> cte_body tokens body)"
proof -
  have "has_data_modifying_cte tokens \<longleftrightarrow> (\<exists>body. body \<in> set (data_modifying_cte_bodies tokens))"
    by (cases "data_modifying_cte_bodies tokens") (auto simp: has_data_modifying_cte_def)
  then show ?thesis unfolding has_write_operation_def cte_bodies_exact by blast
qed

end
