(* ===== verification/Sql_Params.thy ===== *)
theory Sql_Params
  imports Sql_Scanner
begin

text \<open>
  Binding of parameters (\<open>execution/domain/sql_guard/params.rs\<close>). A payload is a JSON value whose texts
  are code points. An object is the list of its entries in the order in which they are visited. How
  an array or an object prints is the argument \<open>shown\<close>; a float carries its text.
\<close>

datatype bind_json =
    BNull
  | BBool bool
  | BInt int
  | BFloat utext
  | BString utext
  | BArray "bind_json list"
  | BObject "(utext \<times> bind_json) list"

fun as_object :: "bind_json \<Rightarrow> (utext \<times> bind_json) list option" where
  "as_object (BObject kvs) = Some kvs"
| "as_object _ = None"

fun as_array :: "bind_json \<Rightarrow> bind_json list option" where
  "as_array (BArray vs) = Some vs"
| "as_array _ = None"

fun as_text :: "bind_json \<Rightarrow> utext option" where
  "as_text (BString s) = Some s"
| "as_text _ = None"

fun as_u64 :: "bind_json \<Rightarrow> nat option" where
  "as_u64 (BInt i) = (if 0 \<le> i \<and> i < 2 ^ 64 then Some (nat i) else None)"
| "as_u64 _ = None"

fun as_i64 :: "bind_json \<Rightarrow> int option" where
  "as_i64 (BInt i) = (if - (2 ^ 63) \<le> i \<and> i < 2 ^ 63 then Some i else None)"
| "as_i64 _ = None"

definition field :: "string \<Rightarrow> (utext \<times> bind_json) list \<Rightarrow> bind_json option" where
  "field name kvs = map_of kvs (lit name)"

section \<open>Literals\<close>

definition double_char :: "nat \<Rightarrow> utext \<Rightarrow> utext" where
  "double_char q s = concat (map (\<lambda>c. if c = q then [q, q] else [c]) s)"

definition sql_string :: "utext \<Rightarrow> utext" where
  "sql_string s = [39] @ double_char 39 (double_char 92 s) @ [39]"

fun json_to_sql_literal :: "(bind_json \<Rightarrow> utext) \<Rightarrow> bind_json \<Rightarrow> utext" where
  "json_to_sql_literal shown BNull = lit ''NULL''"
| "json_to_sql_literal shown (BBool b) = lit (if b then ''TRUE'' else ''FALSE'')"
| "json_to_sql_literal shown (BInt i) = int_text i"
| "json_to_sql_literal shown (BFloat s) = s"
| "json_to_sql_literal shown (BString s) = sql_string s"
| "json_to_sql_literal shown other = sql_string (shown other)"

section \<open>Occurrences\<close>

record occurrence =
  oc_from :: nat
  oc_to :: nat
  oc_id :: utext
  oc_token :: utext

definition required :: "string \<Rightarrow> 'a option \<Rightarrow> utext + 'a" where
  "required err x = (case x of None \<Rightarrow> Inl (lit err) | Some v \<Rightarrow> Inr v)"

definition parse_occurrence :: "bind_json \<Rightarrow> utext + occurrence" where
  "parse_occurrence item =
     obind (required ''Invalid occurrence entry'' (as_object item)) (\<lambda>kvs.
     obind (required ''Occurrence missing from'' (Option.bind (field ''from'' kvs) as_u64)) (\<lambda>f.
     obind (required ''Occurrence missing to'' (Option.bind (field ''to'' kvs) as_u64)) (\<lambda>t.
     obind (required ''Occurrence missing id'' (Option.bind (field ''id'' kvs) as_text)) (\<lambda>i.
     obind (required ''Occurrence missing token'' (Option.bind (field ''token'' kvs) as_text)) (\<lambda>tok.
     Inr \<lparr>oc_from = f, oc_to = t, oc_id = i, oc_token = tok\<rparr>)))))"

fun parse_occurrences :: "bind_json list \<Rightarrow> utext + occurrence list" where
  "parse_occurrences [] = Inr []"
| "parse_occurrences (item # items) =
     obind (parse_occurrence item) (\<lambda>oc. obind (parse_occurrences items) (\<lambda>ocs. Inr (oc # ocs)))"

definition num :: "nat \<Rightarrow> utext" where
  "num n = lit (dec n)"

definition quoted_name :: "utext \<Rightarrow> utext" where
  "quoted_name s = [39] @ s @ [39]"

definition span_error :: "nat \<Rightarrow> occurrence \<Rightarrow> utext" where
  "span_error len oc = lit ''Invalid occurrence span '' @ num (oc_from oc) @ lit ''..'' @ num (oc_to oc) @
     lit '' for SQL length '' @ num len"

definition order_error :: utext where
  "order_error = lit ''Occurrence spans must be ordered and non-overlapping''"

definition token_error :: "occurrence \<Rightarrow> utext \<Rightarrow> utext" where
  "token_error oc actual = lit ''Token mismatch at span '' @ num (oc_from oc) @ lit ''..'' @ num (oc_to oc) @
     lit '': expected '' @ quoted_name (oc_token oc) @ lit '', got '' @ quoted_name actual"

definition span_text :: "utext \<Rightarrow> occurrence \<Rightarrow> utext" where
  "span_text sql oc = take (oc_to oc - oc_from oc) (drop (oc_from oc) sql)"

fun validate_from :: "utext \<Rightarrow> nat \<Rightarrow> occurrence list \<Rightarrow> utext option" where
  "validate_from sql prev [] = None"
| "validate_from sql prev (oc # ocs) =
     (if oc_from oc \<ge> oc_to oc \<or> oc_to oc > length sql then Some (span_error (length sql) oc)
      else if oc_from oc < prev then Some order_error
      else if span_text sql oc \<noteq> oc_token oc then Some (token_error oc (span_text sql oc))
      else validate_from sql (oc_to oc) ocs)"

definition validate_occurrences :: "utext \<Rightarrow> occurrence list \<Rightarrow> utext option" where
  "validate_occurrences sql ocs = validate_from sql 0 ocs"

definition blocked_error :: "occurrence \<Rightarrow> utext" where
  "blocked_error oc = lit ''Parameter occurrence '' @ quoted_name (oc_token oc) @ lit '' is inside a non-replaceable region''"

definition missing_error :: "occurrence \<Rightarrow> utext" where
  "missing_error oc = lit ''Missing value for parameter '' @ quoted_name (oc_id oc)"

fun unbound_occurrence :: "(nat \<times> nat) list \<Rightarrow> (utext \<times> bind_json) list \<Rightarrow> occurrence list \<Rightarrow> utext option" where
  "unbound_occurrence blocked vals [] = None"
| "unbound_occurrence blocked vals (oc # ocs) =
     (if is_in_non_replaceable (oc_from oc) (oc_to oc) blocked then Some (blocked_error oc)
      else if map_of vals (oc_id oc) = None then Some (missing_error oc)
      else unbound_occurrence blocked vals ocs)"

fun splice_all :: "(bind_json \<Rightarrow> utext) \<Rightarrow> (utext \<times> bind_json) list \<Rightarrow> occurrence list \<Rightarrow> utext \<Rightarrow> utext + utext" where
  "splice_all shown vals [] result = Inr result"
| "splice_all shown vals (oc # ocs) result =
     (case map_of vals (oc_id oc) of None \<Rightarrow> Inl (missing_error oc)
      | Some v \<Rightarrow> splice_all shown vals ocs (take (oc_from oc) result @ json_to_sql_literal shown v @ drop (oc_to oc) result))"

definition last_first :: "occurrence list \<Rightarrow> occurrence list" where
  "last_first ocs = sort_key (\<lambda>oc. - int (oc_from oc)) ocs"

definition bind_occurrences ::
  "(bind_json \<Rightarrow> utext) \<Rightarrow> utext \<Rightarrow> (utext \<times> bind_json) list \<Rightarrow> occurrence list \<Rightarrow> utext + utext" where
  "bind_occurrences shown sql vals ocs =
     (case validate_occurrences sql ocs of Some err \<Rightarrow> Inl err
      | None \<Rightarrow>
        (case unbound_occurrence (non_replaceable_ranges sql) vals ocs of Some err \<Rightarrow> Inl err
         | None \<Rightarrow> splice_all shown vals (last_first ocs) sql))"

definition apply_params_v2 :: "(bind_json \<Rightarrow> utext) \<Rightarrow> utext \<Rightarrow> bind_json \<Rightarrow> utext + utext" where
  "apply_params_v2 shown sql params =
     obind (required ''Invalid v2 params payload'' (as_object params)) (\<lambda>obj.
     obind (required ''v2 params missing values object'' (Option.bind (field ''values'' obj) as_object)) (\<lambda>vals.
     obind (required ''v2 params missing occurrences array'' (Option.bind (field ''occurrences'' obj) as_array)) (\<lambda>items.
     obind (parse_occurrences items) (bind_occurrences shown sql vals))))"

section \<open>The legacy payloads\<close>

function question_from :: "utext \<Rightarrow> bool \<Rightarrow> utext \<Rightarrow> utext \<Rightarrow> utext \<times> bool" where
  "question_from literal replaced out cs =
     (case cs of [] \<Rightarrow> (out, replaced)
      | c # cs' \<Rightarrow>
        (case skip_quoted cs of
           Some (n, q) \<Rightarrow> question_from literal replaced (out @ take n cs) (drop n cs)
         | None \<Rightarrow>
             if c = 63 \<and> \<not> replaced then question_from literal True (out @ literal) cs'
             else question_from literal replaced (out @ [c]) cs'))"
  by pat_completeness auto
termination
  by (relation "measure (\<lambda>(l, r, out, cs). length cs)") (auto dest: scan_shrinks_all)

declare question_from.simps [simp del]

definition replace_next_question :: "utext \<Rightarrow> utext \<Rightarrow> utext" where
  "replace_next_question sql literal =
     (let (out, replaced) = question_from literal False [] sql in if replaced then out else sql)"

definition at_placeholder :: "utext \<Rightarrow> utext \<Rightarrow> bool" where
  "at_placeholder needle cs \<longleftrightarrow> take (length needle) cs = needle \<and>
     (case drop (length needle) cs of [] \<Rightarrow> True | c # _ \<Rightarrow> \<not> is_word_char c)"

function placeholder_from :: "utext \<Rightarrow> utext \<Rightarrow> utext \<Rightarrow> utext \<Rightarrow> utext" where
  "placeholder_from needle literal out cs =
     (case cs of [] \<Rightarrow> out
      | c # cs' \<Rightarrow>
        (case skip_quoted cs of
           Some (n, q) \<Rightarrow> placeholder_from needle literal (out @ take n cs) (drop n cs)
         | None \<Rightarrow>
             if needle \<noteq> [] \<and> at_placeholder needle cs
             then placeholder_from needle literal (out @ literal) (drop (length needle) cs)
             else placeholder_from needle literal (out @ [c]) cs'))"
  by pat_completeness auto
termination
  by (relation "measure (\<lambda>(d, l, out, cs). length cs)") (auto dest: scan_shrinks_all)

declare placeholder_from.simps [simp del]

definition replace_placeholder :: "utext \<Rightarrow> utext \<Rightarrow> utext \<Rightarrow> utext" where
  "replace_placeholder sql needle literal = (if needle = [] then sql else placeholder_from needle literal [] sql)"

fun replace_names :: "(bind_json \<Rightarrow> utext) \<Rightarrow> (utext \<times> bind_json) list \<Rightarrow> utext \<Rightarrow> utext" where
  "replace_names shown [] out = out"
| "replace_names shown ((name, v) # kvs) out =
     replace_names shown kvs (replace_placeholder (replace_placeholder out (58 # name) (json_to_sql_literal shown v))
       (36 # name) (json_to_sql_literal shown v))"

definition apply_params_legacy_object :: "(bind_json \<Rightarrow> utext) \<Rightarrow> utext \<Rightarrow> (utext \<times> bind_json) list \<Rightarrow> utext" where
  "apply_params_legacy_object shown sql kvs =
     replace_names shown (sort_key (\<lambda>kv. - int (length (bytes_of (fst kv)))) kvs) sql"

fun replace_positions :: "(bind_json \<Rightarrow> utext) \<Rightarrow> nat \<Rightarrow> bind_json list \<Rightarrow> utext \<Rightarrow> utext" where
  "replace_positions shown i [] out = out"
| "replace_positions shown i (v # vs) out =
     replace_positions shown (i + 1) vs
       (replace_placeholder (replace_next_question out (json_to_sql_literal shown v)) (36 # num (i + 1)) (json_to_sql_literal shown v))"

definition apply_params_legacy_array :: "(bind_json \<Rightarrow> utext) \<Rightarrow> utext \<Rightarrow> bind_json list \<Rightarrow> utext" where
  "apply_params_legacy_array shown sql vs = replace_positions shown 0 vs sql"

definition apply_params :: "(bind_json \<Rightarrow> utext) \<Rightarrow> utext \<Rightarrow> bind_json \<Rightarrow> utext + utext" where
  "apply_params shown sql params =
     (case params of
        BObject kvs \<Rightarrow>
          if Option.bind (field ''version'' kvs) as_i64 = Some 2 then apply_params_v2 shown sql params
          else if kvs \<noteq> [] then Inr (apply_params_legacy_object shown sql kvs)
          else Inr sql
      | BArray vs \<Rightarrow> Inr (apply_params_legacy_array shown sql vs)
      | _ \<Rightarrow> Inr sql)"

end
