(* ===== verification/Sql_Binding.thy ===== *)
theory Sql_Binding
  imports Sql_Params Sql_Lexing "HOL-Library.Multiset"
begin

text \<open>
  What the binder writes: a string value is one quoted token, and the replacement of the occurrences
  from the last to the first is the text with every span replaced, read from left to right.
\<close>

section \<open>String literals\<close>

lemma double_char_simps [simp]:
  "double_char q [] = []" "double_char q (c # s) = (if c = q then q # q # double_char q s else c # double_char q s)"
  by (simp_all add: double_char_def)

lemma quote_body_doubled:
  "rest = [] \<or> hd rest \<noteq> 39 \<Longrightarrow> quote_body 39 (double_char 39 s @ 39 # rest) = length (double_char 39 s) + 1"
proof (induction s)
  case Nil
  then show ?case by (cases rest) auto
next
  case (Cons c s)
  obtain d ds where rest: "double_char 39 s @ 39 # rest = d # ds" by (cases "double_char 39 s @ 39 # rest") auto
  then show ?case using Cons by (cases "c = 39") auto
qed

lemma skip_sql_string:
  "rest = [] \<or> hd rest \<noteq> 39 \<Longrightarrow> skip_quoted (sql_string s @ rest) = Some (length (sql_string s), 39)"
  by (simp add: sql_string_def skip_quoted.simps(2) is_quote_def quote_body_doubled)

text \<open>How a reader of the literal undoes the doubled quotes.\<close>

fun undouble :: "nat \<Rightarrow> utext \<Rightarrow> utext" where
  "undouble q (c # d # cs) = (if c = q \<and> d = q then q # undouble q cs else c # undouble q (d # cs))"
| "undouble q cs = cs"

lemma undouble_doubled: "undouble q (double_char q s) = s"
proof (induction s)
  case (Cons c s)
  then show ?case by (cases "double_char q s") auto
qed simp

section \<open>Occurrences\<close>

definition occurrence_ok :: "utext \<Rightarrow> (utext \<times> bind_json) list \<Rightarrow> occurrence \<Rightarrow> bool" where
  "occurrence_ok sql vals oc \<longleftrightarrow> oc_from oc < oc_to oc \<and> oc_to oc \<le> length sql \<and> span_text sql oc = oc_token oc \<and>
     \<not> is_in_non_replaceable (oc_from oc) (oc_to oc) (non_replaceable_ranges sql) \<and> map_of vals (oc_id oc) \<noteq> None"

definition in_order :: "occurrence list \<Rightarrow> bool" where
  "in_order ocs \<longleftrightarrow> sorted_wrt (\<lambda>a b. oc_to a \<le> oc_from b) ocs"

text \<open>The text with every span replaced; \<open>rest\<close> is the text from position \<open>pos\<close>.\<close>

fun filled :: "(bind_json \<Rightarrow> utext) \<Rightarrow> (utext \<times> bind_json) list \<Rightarrow> nat \<Rightarrow> occurrence list \<Rightarrow> utext \<Rightarrow> utext" where
  "filled shown vals pos [] rest = rest"
| "filled shown vals pos (oc # ocs) rest =
     take (oc_from oc - pos) rest @ json_to_sql_literal shown (the (map_of vals (oc_id oc))) @
     filled shown vals (oc_to oc) ocs (drop (oc_to oc - pos) rest)"

lemma validate_from_None:
  "validate_from sql prev ocs = None \<longleftrightarrow>
   list_all (\<lambda>oc. oc_from oc < oc_to oc \<and> oc_to oc \<le> length sql \<and> span_text sql oc = oc_token oc) ocs \<and>
   in_order ocs \<and> list_all (\<lambda>oc. prev \<le> oc_from oc) ocs"
proof (induction ocs arbitrary: prev)
  case (Cons oc ocs)
  have "list_all (\<lambda>x. prev \<le> oc_from x) ocs"
    if "prev \<le> oc_from oc" "oc_from oc < oc_to oc" "list_all (\<lambda>x. oc_to oc \<le> oc_from x) ocs"
    using that by (auto simp: list_all_iff)
  then show ?case using Cons [of "oc_to oc"] by (auto simp: in_order_def list_all_iff not_le not_less)
qed (simp add: in_order_def)

lemma unbound_None:
  "unbound_occurrence blocked vals ocs = None \<longleftrightarrow>
   list_all (\<lambda>oc. \<not> is_in_non_replaceable (oc_from oc) (oc_to oc) blocked \<and> map_of vals (oc_id oc) \<noteq> None) ocs"
  by (induction ocs) auto

lemma last_first_rev:
  assumes "in_order ocs" "list_all (\<lambda>oc. oc_from oc < oc_to oc) ocs"
  shows "last_first ocs = rev ocs"
proof -
  have rising: "sorted_wrt (\<lambda>a b. oc_from a < oc_from b) ocs"
    using assms unfolding in_order_def
    by (induction ocs) (auto simp: list_all_iff intro: less_le_trans)
  have "inj_on (\<lambda>oc. - int (oc_from oc)) (set ocs)"
  proof (rule inj_onI)
    fix a b
    assume "a \<in> set ocs" "b \<in> set ocs" "- int (oc_from a) = - int (oc_from b)"
    moreover have "distinct (map oc_from ocs)" using rising by (induction ocs) fastforce+
    ultimately show "a = b" by (auto dest: inj_onD [OF iffD1 [OF distinct_map, THEN conjunct2]])
  qed
  moreover have "sorted (map (\<lambda>oc. - int (oc_from oc)) (rev ocs))"
    using rising by (simp add: sorted_wrt_rev sorted_wrt_map rev_map) (auto elim: sorted_wrt_mono_rel [rotated])
  ultimately show ?thesis unfolding last_first_def by (intro sort_key_inj_key_eq) auto
qed

lemma splice_all_append:
  "splice_all shown vals (xs @ ys) r = obind (splice_all shown vals xs r) (splice_all shown vals ys)"
  by (induction xs arbitrary: r) (auto simp: obind_def split: option.splits)

lemma splice_rev_filled:
  assumes "in_order ocs" "list_all (\<lambda>oc. prev \<le> oc_from oc \<and> oc_from oc < oc_to oc \<and> oc_to oc \<le> length sql) ocs"
    and "list_all (\<lambda>oc. map_of vals (oc_id oc) \<noteq> None) ocs"
  shows "splice_all shown vals (rev ocs) sql = Inr (take prev sql @ filled shown vals prev ocs (drop prev sql))"
  using assms
proof (induction ocs arbitrary: prev)
  case (Cons oc ocs)
  have oc: "prev \<le> oc_from oc" "oc_from oc < oc_to oc" "oc_to oc \<le> length sql" using Cons.prems by auto
  have "splice_all shown vals (rev ocs) sql = Inr (take (oc_to oc) sql @ filled shown vals (oc_to oc) ocs (drop (oc_to oc) sql))"
    using Cons.prems by (intro Cons.IH) (auto simp: in_order_def list_all_iff)
  moreover have "take prev sql @ drop prev (take (oc_from oc) sql) = take (oc_from oc) sql"
    using append_take_drop_id [of prev "take (oc_from oc) sql"] oc by (simp add: min_absorb1)
  ultimately show ?case
    using oc Cons.prems by (auto simp: splice_all_append obind_def min_absorb1 take_drop)
qed simp

lemma bind_occurrences_Inr:
  "bind_occurrences shown sql vals ocs = Inr out \<longleftrightarrow>
   in_order ocs \<and> list_all (occurrence_ok sql vals) ocs \<and> out = filled shown vals 0 ocs sql"
proof (cases "in_order ocs \<and> list_all (occurrence_ok sql vals) ocs")
  case True
  then have parts: "in_order ocs" "list_all (\<lambda>oc. oc_from oc < oc_to oc) ocs"
    "list_all (\<lambda>oc. 0 \<le> oc_from oc \<and> oc_from oc < oc_to oc \<and> oc_to oc \<le> length sql) ocs"
    "list_all (\<lambda>oc. map_of vals (oc_id oc) \<noteq> None) ocs"
    by (auto simp: list_all_iff occurrence_ok_def)
  have "validate_occurrences sql ocs = None"
    using True unfolding validate_occurrences_def validate_from_None by (auto simp: list_all_iff occurrence_ok_def)
  moreover have "unbound_occurrence (non_replaceable_ranges sql) vals ocs = None"
    using True unfolding unbound_None by (auto simp: list_all_iff occurrence_ok_def)
  ultimately show ?thesis
    using True splice_rev_filled [OF parts(1,3,4)] by (auto simp: bind_occurrences_def last_first_rev [OF parts(1,2)])
next
  case False
  then have "validate_occurrences sql ocs \<noteq> None \<or> unbound_occurrence (non_replaceable_ranges sql) vals ocs \<noteq> None"
    unfolding validate_occurrences_def validate_from_None unbound_None
    by (auto simp: list_all_iff occurrence_ok_def)
  then show ?thesis using False by (auto simp: bind_occurrences_def split: option.splits)
qed

end
