(* ===== verification/Sql_Placeholders.thy ===== *)
theory Sql_Placeholders
  imports Sql_Binding
begin

text \<open>
  A placeholder that the binder accepts stands outside of every opaque piece. The walk over the text
  before it does not look at what replaces it, so a string literal in its place is read as one piece
  and the pieces before and after it stay what they were.
\<close>

lemmas dollar_aware_simps = dollar_aware_span_def opaque_span_def or_else_def quoted_span_def comment_span_def

lemma ranges_from_step:
  "ranges_from i (c # cs) =
     (case dollar_aware_span (c # cs) of
        Some n \<Rightarrow> (i, i + n) # ranges_from (i + n) (drop n (c # cs)) | None \<Rightarrow> ranges_from (i + 1) cs)"
  using not_line_and_block [of "c # cs"]
  by (subst ranges_from.simps) (auto simp: dollar_aware_simps split: option.splits if_splits)

lemma ranges_from_some:
  "dollar_aware_span cs = Some n \<Longrightarrow> ranges_from i cs = (i, i + n) # ranges_from (i + n) (drop n cs)"
  using dollar_aware.span_range [of cs n] by (cases cs) (auto simp: ranges_from_step)

lemma ranges_from_shift: "ranges_from (i + d) cs = map (\<lambda>(f, t). (f + d, t + d)) (ranges_from i cs)"
proof (induction "length cs" arbitrary: i cs rule: less_induct)
  case less
  show ?case
  proof (cases cs)
    case (Cons c ds)
    have "ranges_from (i + n + d) (drop n cs) = map (\<lambda>(f, t). (f + d, t + d)) (ranges_from (i + n) (drop n cs))" if "0 < n" for n
      using that Cons by (intro less.hyps) simp
    from this this [of 1] show ?thesis
      using dollar_aware.span_range [of cs] Cons by (auto simp: ranges_from_step ac_simps split: option.splits)
  qed (simp add: ranges_from.simps)
qed

section \<open>Walks\<close>

text \<open>\<open>walk rest a\<close>: reading \<open>a\<close>, which \<open>rest\<close> follows, piece by piece ends exactly at the end of \<open>a\<close>.\<close>

inductive walk :: "utext \<Rightarrow> utext \<Rightarrow> bool" for rest :: utext where
  walk_done: "walk rest []"
| walk_span: "dollar_aware_span (a @ rest) = Some n \<Longrightarrow> n \<le> length a \<Longrightarrow> walk rest (drop n a) \<Longrightarrow> walk rest a"
| walk_char: "dollar_aware_span (c # a @ rest) = None \<Longrightarrow> walk rest a \<Longrightarrow> walk rest (c # a)"

lemma walk_before:
  assumes "\<not> is_in_non_replaceable (i + length a) e (ranges_from i (a @ rest))" "i + length a < e"
  shows "walk rest a"
  using assms
proof (induction "length a" arbitrary: i a rule: less_induct)
  case less
  show ?case
  proof (cases a)
    case Nil
    then show ?thesis using walk_done by simp
  next
    case (Cons c cs)
    note step = ranges_from_step [of i c "cs @ rest"]
    show ?thesis
    proof (cases "dollar_aware_span (a @ rest)")
      case None
      then have avoid: "\<not> is_in_non_replaceable (i + 1 + length cs) e (ranges_from (i + 1) (cs @ rest))"
        using less.prems(1) step Cons by simp
      have "walk rest cs" using less.hyps [OF _ avoid] less.prems(2) Cons by simp
      then show ?thesis using None Cons walk_char by simp
    next
      case (Some n)
      then have ranges: "ranges_from i (a @ rest) = (i, i + n) # ranges_from (i + n) (drop n (a @ rest))"
        using step Cons by simp
      have n: "n \<le> length a" "0 < n"
        using less.prems dollar_aware.span_range [OF Some] unfolding ranges by (auto simp: is_in_non_replaceable_def)
      have "\<not> is_in_non_replaceable (i + n + length (drop n a)) e (ranges_from (i + n) (drop n a @ rest))"
        using less.prems(1) n unfolding ranges by (simp add: is_in_non_replaceable_def)
      then have "walk rest (drop n a)"
        using less.hyps [of "drop n a" "i + n"] less.prems(2) n by simp
      then show ?thesis using walk_span [OF Some n(1)] by blast
    qed
  qed
qed

lemma ranges_through:
  assumes "\<not> is_in_non_replaceable i (i + length tok) (ranges_from i (tok @ rest))"
  shows "ranges_from i (tok @ rest) = ranges_from (i + length tok) rest"
  using assms
proof (induction tok arbitrary: i)
  case (Cons c cs)
  have plain: "dollar_aware_span (c # cs @ rest) = None"
  proof (rule ccontr)
    assume "dollar_aware_span (c # cs @ rest) \<noteq> None"
    then obtain n where n: "dollar_aware_span (c # cs @ rest) = Some n" by blast
    then have "0 < n" using dollar_aware.span_range by blast
    then show False using Cons.prems n by (simp add: ranges_from_step is_in_non_replaceable_def)
  qed
  have "\<not> is_in_non_replaceable (i + 1) (i + 1 + length cs) (ranges_from (i + 1) (cs @ rest))"
    using Cons.prems plain by (auto simp: ranges_from_step is_in_non_replaceable_def list_ex_iff)
  then show ?case using Cons.IH [of "i + 1"] plain by (simp add: ranges_from_step)
qed simp

section \<open>What is before a placeholder does not see what replaces it\<close>

lemma quote_body_swap:
  "quote_body q (a @ r) \<le> length a \<Longrightarrow> r \<noteq> [] \<Longrightarrow> (q = 39 \<longrightarrow> a = [] \<or> last a \<noteq> 39) \<Longrightarrow>
   quote_body q (a @ r') = quote_body q (a @ r)"
proof (induction q a rule: quote_body.induct)
  case (1 q)
  then show ?case using quote_body_pos [of q "hd r" "tl r"] by simp
next
  case (2 q c)
  obtain d ds where r: "r = d # ds" using "2.prems" by (cases r) auto
  then have "c = q" "q \<noteq> 39"
    using "2.prems" quote_body_pos [of q d ds] by (auto split: if_splits)
  then show ?case using r by (cases r') auto
next
  case (3 q c d cs)
  consider "c = q \<and> q = 39 \<and> d = 39" | "c = q \<and> \<not> (q = 39 \<and> d = 39)" | "c \<noteq> q" by blast
  then show ?case
  proof cases
    case 1
    then have "quote_body q (cs @ r') = quote_body q (cs @ r)"
      using "3.prems" by (intro "3.IH"(1)) (auto split: if_splits)
    then show ?thesis using 1 by simp
  next
    case 2
    then show ?thesis by auto
  next
    case 3
    then have "quote_body q ((d # cs) @ r') = quote_body q ((d # cs) @ r)"
      using "3.prems" by (intro "3.IH"(2)) auto
    then show ?thesis using 3 by simp
  qed
qed

lemma block_body_swap:
  "block_body (a @ r) \<le> length a \<Longrightarrow> r \<noteq> [] \<Longrightarrow> block_body (a @ r') = block_body (a @ r)"
proof (induction a rule: block_body.induct)
  case 1
  then show ?case using block_body_pos [of "hd r" "tl r"] by simp
next
  case (2 c)
  then show ?case using block_body_pos [of "hd r" "tl r"] by (cases r) (auto split: if_splits)
qed auto

lemma line_length_swap:
  "line_length (a @ t # r) \<le> length a \<Longrightarrow> t \<noteq> 10 \<Longrightarrow> line_length (a @ r') = line_length (a @ t # r)"
  unfolding line_length_def by (induction a) (auto split: if_splits)

lemma find_tag_extend: "find_tag tag cs = Some m \<Longrightarrow> find_tag tag (cs @ zs) = Some m"
proof (induction cs arbitrary: m)
  case Nil
  then have "tag = [] \<and> m = 0" using find_tag_le [of tag "[]" m] by auto
  then show ?case by (simp add: find_tag_here)
next
  case (Cons c cs)
  have len: "length tag \<le> Suc (length cs)" using find_tag_le [OF Cons.prems] by simp
  then have same: "take (length tag) (c # cs @ zs) = take (length tag) (c # cs)"
    by (metis append_Cons length_Cons take_all_iff take_append append_Nil2 diff_is_0_eq take0)
  show ?case
  proof (cases "take (length tag) (c # cs) = tag")
    case True
    then show ?thesis using find_tag_here [OF True] find_tag_here [of tag "c # cs @ zs"] same Cons.prems by simp
  next
    case False
    then obtain m' where m': "find_tag tag cs = Some m'" "m = Suc m'" using Cons.prems len find_tag_next [OF False] by auto
    then show ?thesis using Cons.IH [OF m'(1)] find_tag_next [of tag c "cs @ zs"] False same len by simp
  qed
qed

text \<open>The three kinds of pieces in turn, then a piece in general.\<close>

lemma quoted_swap:
  assumes "quoted_span (a @ r) = Some n" "n \<le> length a" "r \<noteq> []" "last a \<noteq> 39"
  shows "quoted_span (a @ r') = Some n"
proof (cases a)
  case Nil
  then show ?thesis using assms quotes.span_range [OF assms(1)] by simp
next
  case (Cons q b)
  then have "quote_body q (b @ r) \<le> length b"
    using assms(1,2) by (auto simp: quoted_span_def skip_quoted.simps(2) split: if_splits)
  then have "quote_body q (b @ r') = quote_body q (b @ r)"
    using assms(3,4) Cons by (intro quote_body_swap) (auto split: if_splits)
  then show ?thesis using assms(1) Cons by (auto simp: quoted_span_def skip_quoted.simps(2) split: if_splits)
qed

lemma quoted_none_swap: "quoted_span (c # a) = None \<longleftrightarrow> quoted_span (c # b) = None"
  by (simp add: quoted_span_def skip_quoted.simps(2))

lemma comment_swap:
  assumes "comment_span (a @ t # r) = Some n" "n \<le> length a" "t \<noteq> 10"
  shows "comment_span (a @ r') = Some n"
proof -
  have "2 \<le> n" using assms(1) line_length_ge block_length_ge by (auto simp: comment_span_def split: if_splits)
  then obtain c d b where a: "a = c # d # b" using assms(2) by (cases a; cases "tl a") auto
  show ?thesis
    using assms line_length_swap [of a t r r'] block_body_swap [of b "t # r" r'] a
    by (auto simp: comment_span_def block_length_def split: if_splits)
qed

lemma comment_none_swap:
  assumes "comment_span (c # a @ t # r) = None" "x \<noteq> 45" "x \<noteq> 42"
  shows "comment_span (c # a @ x # r') = None"
  using assms by (cases a) (auto simp: comment_span_def split: if_splits)

lemma dollar_swap:
  assumes "skip_dollar_quoted (a @ t # r) = Some n" "n \<le> length a"
  shows "skip_dollar_quoted (a @ r') = Some n"
proof -
  obtain name body where shape: "a @ t # r = 36 # name @ 36 # body" "list_all is_word_char name" "n = dollar_length name body"
    using skip_dollar_elim [OF assms(1)] .
  have len: "length a + Suc (length r) = length name + 2 + length body" using arg_cong [OF shape(1), of length] by simp
  then obtain m where m: "find_tag (36 # name @ [36]) body = Some m" "n = length name + 2 + m"
    using shape(3) assms(2) by (cases "find_tag (36 # name @ [36]) body") (auto simp: dollar_length_def)
  let ?j = "length a - length name - 2"
  have j: "m \<le> ?j" "length a = Suc (length name + Suc ?j)" using m(2) assms(2) by linarith+
  have "a = take (length a) (36 # name @ 36 # body)" using shape(1) by (metis append_eq_conv_conj)
  also have "\<dots> = 36 # name @ 36 # take ?j body" by (subst j(2)) simp
  finally have "a @ r' = (36 # name @ 36 # take ?j body) @ r'" by (rule arg_cong)
  also have "\<dots> = 36 # name @ 36 # (take ?j body @ r')" by simp
  finally have cut: "a @ r' = 36 # name @ 36 # (take ?j body @ r')" .
  have "dollar_length name (take ?j body @ r') = n"
    using find_tag_extend [OF find_tag_take [OF m(1) j(1)]] m(2) by (simp add: dollar_length_def)
  then show ?thesis unfolding cut using skip_dollar_intro [OF shape(2)] by simp
qed

lemma dollar_none_swap:
  assumes "skip_dollar_quoted (c # a @ r) = None" "\<not> is_word_char x" "x \<noteq> 36"
  shows "skip_dollar_quoted (c # a @ x # r') = None"
proof (rule ccontr)
  assume "skip_dollar_quoted (c # a @ x # r') \<noteq> None"
  then obtain name body where shape: "c # a @ x # r' = 36 # name @ 36 # body" "list_all is_word_char name"
    by (metis not_None_eq skip_dollar_elim)
  then have "a @ x # r' = name @ 36 # body" by simp
  then consider us where "a = name @ us" "us @ x # r' = 36 # body" | us where "a @ us = name" "x # r' = us @ 36 # body"
    by (auto simp: append_eq_append_conv2)
  then show False
  proof cases
    case 1
    then obtain vs where "us = 36 # vs" using assms(3) by (cases us) auto
    then show False using 1 shape assms(1) skip_dollar_intro [OF shape(2), of "vs @ r"] by simp
  next
    case 2
    then obtain vs where "us = x # vs" using assms(3) by (cases us) auto
    then show False using 2(1) shape(2) assms(2) by auto
  qed
qed

lemma piece_swap:
  assumes "dollar_aware_span (a @ t # r) = Some n" "n \<le> length a" "t \<noteq> 10" "last a \<noteq> 39"
  shows "dollar_aware_span (a @ 39 # r') = Some n"
proof -
  obtain c b where a: "a = c # b" using dollar_aware.span_range [OF assms(1)] assms(2) by (cases a) auto
  have quoted: "quoted_span (a @ t # r) = None \<Longrightarrow> quoted_span (a @ 39 # r') = None"
    using a quoted_none_swap [of c "b @ t # r" "b @ 39 # r'"] by simp
  have comment: "comment_span (a @ t # r) = None \<Longrightarrow> comment_span (a @ 39 # r') = None"
    using a comment_none_swap [of c b t r 39 r'] by simp
  consider "quoted_span (a @ t # r) = Some n"
    | "quoted_span (a @ t # r) = None" "comment_span (a @ t # r) = Some n"
    | "quoted_span (a @ t # r) = None" "comment_span (a @ t # r) = None" "skip_dollar_quoted (a @ t # r) = Some n"
    using assms(1) by (auto simp: dollar_aware_span_def opaque_span_def or_else_def split: option.splits)
  then show ?thesis
  proof cases
    case 1
    then show ?thesis
      using quoted_swap [of a "t # r" n "39 # r'"] assms by (simp add: dollar_aware_span_def opaque_span_def or_else_def)
  next
    case 2
    then show ?thesis
      using quoted comment_swap [OF 2(2) assms(2,3)] by (simp add: dollar_aware_span_def opaque_span_def or_else_def)
  next
    case 3
    then show ?thesis
      using quoted comment dollar_swap [OF 3(3) assms(2)] by (simp add: dollar_aware_span_def opaque_span_def or_else_def)
  qed
qed

lemma no_piece_swap:
  assumes "dollar_aware_span (c # a @ t # r) = None"
  shows "dollar_aware_span (c # a @ 39 # r') = None"
proof -
  have "quoted_span (c # a @ t # r) = None" "comment_span (c # a @ t # r) = None" "skip_dollar_quoted (c # a @ t # r) = None"
    using assms by (auto simp: dollar_aware_span_def opaque_span_def or_else_def split: option.splits)
  then show ?thesis
    using quoted_none_swap [of c "a @ t # r" "a @ 39 # r'"] comment_none_swap [of c a t r 39 r']
      dollar_none_swap [of c a "t # r" 39 r']
    by (simp add: dollar_aware_span_def opaque_span_def or_else_def is_word_char_def is_alphanumeric_def is_digit_def)
qed

lemma ranges_around_walk:
  assumes "walk (t # r) a" "t \<noteq> 10" "a = [] \<or> last a \<noteq> 39"
  shows "\<exists>before. ranges_from i (a @ t # r) = before @ ranges_from (i + length a) (t # r) \<and>
    ranges_from i (a @ 39 # r') = before @ ranges_from (i + length a) (39 # r') \<and>
    list_all (\<lambda>(f, e). e \<le> i + length a) before"
  using assms
proof (induction arbitrary: i rule: walk.induct)
  case (walk_span a n)
  have a: "a \<noteq> []" using walk_span.hyps(1,2) dollar_aware.span_range by fastforce
  then have swapped: "dollar_aware_span (a @ 39 # r') = Some n"
    using walk_span.hyps(1,2) walk_span.prems by (intro piece_swap) auto
  have "drop n a = [] \<or> last (drop n a) \<noteq> 39" using walk_span.prems a by (cases "n < length a") auto
  then obtain before where
    "ranges_from (i + n) (drop n a @ t # r) = before @ ranges_from (i + length a) (t # r)"
    "ranges_from (i + n) (drop n a @ 39 # r') = before @ ranges_from (i + length a) (39 # r')"
    "list_all (\<lambda>(f, e). e \<le> i + length a) before"
    using walk_span.IH [OF walk_span.prems(1), of "i + n"] walk_span.hyps(2) by auto
  then show ?case
    using ranges_from_some [OF walk_span.hyps(1)] ranges_from_some [OF swapped] walk_span.hyps(2)
    by (intro exI [of _ "(i, i + n) # before"]) simp
next
  case (walk_char c a)
  obtain before where
    "ranges_from (i + 1) (a @ t # r) = before @ ranges_from (i + length (c # a)) (t # r)"
    "ranges_from (i + 1) (a @ 39 # r') = before @ ranges_from (i + length (c # a)) (39 # r')"
    "list_all (\<lambda>(f, e). e \<le> i + length (c # a)) before"
    using walk_char.IH [of "i + 1"] walk_char.prems by (auto split: if_splits)
  then show ?case
    using walk_char.hyps(1) no_piece_swap [OF walk_char.hyps(1)] by (intro exI [of _ before]) (simp add: ranges_from_step)
qed simp

section \<open>One string in place of a placeholder\<close>

definition shifted :: "nat \<Rightarrow> (nat \<times> nat) list \<Rightarrow> (nat \<times> nat) list" where
  "shifted d ranges = map (\<lambda>(f, t). (f + d, t + d)) ranges"

lemma ranges_with_string:
  assumes "\<not> is_in_non_replaceable (length a) (length a + length tok) (non_replaceable_ranges (a @ tok @ b))"
    and "tok \<noteq> []" "hd tok \<noteq> 10" "a = [] \<or> last a \<noteq> 39" "b = [] \<or> hd b \<noteq> 39"
  shows "\<exists>before. non_replaceable_ranges (a @ tok @ b) =
      before @ shifted (length a + length tok) (non_replaceable_ranges b) \<and>
    non_replaceable_ranges (a @ sql_string s @ b) = before @ (length a, length a + length (sql_string s)) #
      shifted (length a + length (sql_string s)) (non_replaceable_ranges b) \<and>
    list_all (\<lambda>(f, e). e \<le> length a) before"
proof -
  obtain t ts where tok: "tok = t # ts" using assms(2) by (cases tok) auto
  obtain r' where literal: "sql_string s @ b = 39 # r'" by (simp add: sql_string_def)
  have "walk (tok @ b) a"
    using walk_before [of 0 a "length a + length tok" "tok @ b"] assms(1,2) by (auto simp: non_replaceable_ranges_def)
  then obtain before where before: "ranges_from 0 (a @ tok @ b) = before @ ranges_from (length a) (tok @ b)"
    "ranges_from 0 (a @ sql_string s @ b) = before @ ranges_from (length a) (sql_string s @ b)"
    "list_all (\<lambda>(f, e). e \<le> length a) before"
    unfolding literal using ranges_around_walk [of t "ts @ b" a 0 r'] assms(3,4) tok by auto
  have "\<not> is_in_non_replaceable (length a) (length a + length tok) (ranges_from (length a) (tok @ b))"
    using assms(1) before(1) by (simp add: non_replaceable_ranges_def is_in_non_replaceable_def)
  then have "ranges_from (length a) (tok @ b) = ranges_from (length a + length tok) b" by (rule ranges_through)
  moreover have "ranges_from (length a) (sql_string s @ b) =
      (length a, length a + length (sql_string s)) # ranges_from (length a + length (sql_string s)) b"
    using skip_sql_string [OF assms(5), of s]
    by (subst ranges_from_some [where n = "length (sql_string s)"])
      (simp_all add: dollar_aware_span_def opaque_span_def or_else_def quoted_span_def)
  moreover have "ranges_from k b = shifted k (non_replaceable_ranges b)" for k
    using ranges_from_shift [of 0 k b] by (simp add: non_replaceable_ranges_def shifted_def)
  ultimately show ?thesis
    using before by (intro exI [of _ before]) (simp add: non_replaceable_ranges_def [of "a @ tok @ b"] non_replaceable_ranges_def [of "a @ sql_string s @ b"])
qed

end
