(* ===== verification/Sql_Splitting.thy ===== *)
theory Sql_Splitting
  imports Sql_Placeholders
begin

text \<open>
  Where the splitter cuts. The guard cuts a text with one scanner (\<open>split_statements\<close>) and the binder
  finds quoted texts and comments with another (\<open>non_replaceable_ranges\<close>). Where no dollar quote opens
  the two agree: the cuts are the semicolons that the second scanner leaves free.
\<close>

section \<open>Free semicolons\<close>

definition no_dollar_quote :: "utext \<Rightarrow> bool" where
  "no_dollar_quote sql \<longleftrightarrow> list_all (\<lambda>p. skip_dollar_quoted (drop p sql) = None) [0..<length sql]"

definition free_semicolons :: "nat \<Rightarrow> utext \<Rightarrow> nat list" where
  "free_semicolons i cs =
     filter (\<lambda>p. cs ! (p - i) = 59 \<and> \<not> is_in_non_replaceable p (p + 1) (ranges_from i cs)) [i..<i + length cs]"

text \<open>The parts between the positions \<open>ps\<close> of a text that starts at position \<open>i\<close>.\<close>

fun parts_between :: "nat \<Rightarrow> nat list \<Rightarrow> utext \<Rightarrow> utext list" where
  "parts_between i [] cs = [cs]"
| "parts_between i (p # ps) cs = take (p - i) cs # parts_between (p + 1) ps (drop (p + 1 - i) cs)"

lemma no_dollar_quote_drop: "no_dollar_quote cs \<Longrightarrow> no_dollar_quote (drop n cs)"
proof -
  assume free: "no_dollar_quote cs"
  have "skip_dollar_quoted (drop p (drop n cs)) = None" if "p < length cs - n" for p
    using free that by (simp add: no_dollar_quote_def list_all_iff)
  then show ?thesis by (simp add: no_dollar_quote_def list_all_iff)
qed

lemma no_dollar_quote_here: "no_dollar_quote cs \<Longrightarrow> dollar_aware_span cs = opaque_span cs"
proof -
  assume "no_dollar_quote cs"
  then have "cs \<noteq> [] \<Longrightarrow> skip_dollar_quoted (drop 0 cs) = None"
    unfolding no_dollar_quote_def list_all_iff by (elim bspec) simp
  then have "skip_dollar_quoted cs = None" by (cases cs) simp_all
  then show ?thesis by (simp add: dollar_aware_span_def or_else_def split: option.splits)
qed

lemma ranges_from_start: "list_all (\<lambda>(f, t). i \<le> f) (ranges_from i cs)"
proof (induction "length cs" arbitrary: i cs rule: less_induct)
  case less
  show ?case
  proof (cases cs)
    case (Cons c ds)
    have later: "list_all (\<lambda>(f, t). i \<le> f) (ranges_from (i + n) (drop n cs))" if "0 < n" for n
      using less.hyps [of "drop n cs" "i + n"] that Cons by (auto simp: list_all_iff)
    show ?thesis
      using later [of 1] later dollar_aware.span_range [of cs] Cons by (auto simp: ranges_from_step split: option.splits)
  qed (simp add: ranges_from.simps)
qed

lemma free_semicolons_span:
  assumes "dollar_aware_span cs = Some n" "n \<le> length cs"
  shows "free_semicolons i cs = free_semicolons (i + n) (drop n cs)"
proof -
  let ?free = "\<lambda>p. cs ! (p - i) = 59 \<and> \<not> is_in_non_replaceable p (p + 1) (ranges_from i cs)"
  have "[i..<i + length cs] = [i..<i + n] @ [i + n..<i + n + length (drop n cs)]"
    using assms(2) upt_add_eq_append [of i "i + n" "length cs - n"] by simp
  moreover have "filter ?free [i..<i + n] = []"
    by (auto simp: filter_empty_conv ranges_from_some [OF assms(1)] is_in_non_replaceable_def)
  moreover have "filter ?free [i + n..<i + n + length (drop n cs)] = free_semicolons (i + n) (drop n cs)"
    unfolding free_semicolons_def
  proof (rule filter_cong [OF refl])
    fix p
    assume "p \<in> set [i + n..<i + n + length (drop n cs)]"
    then show "?free p \<longleftrightarrow> drop n cs ! (p - (i + n)) = 59 \<and>
        \<not> is_in_non_replaceable p (p + 1) (ranges_from (i + n) (drop n cs))"
      using assms(2) by (auto simp: ranges_from_some [OF assms(1)] is_in_non_replaceable_def)
  qed
  ultimately show ?thesis unfolding free_semicolons_def [of i] by simp
qed

lemma free_semicolons_char:
  assumes "dollar_aware_span (c # cs) = None"
  shows "free_semicolons i (c # cs) = (if c = 59 then [i] else []) @ free_semicolons (i + 1) cs"
proof -
  have ranges: "ranges_from i (c # cs) = ranges_from (i + 1) cs" using assms by (simp add: ranges_from_step)
  have "\<not> is_in_non_replaceable i (i + 1) (ranges_from (i + 1) cs)"
    using ranges_from_start [of "i + 1" cs] by (auto simp: is_in_non_replaceable_def list_ex_iff list_all_iff)
  moreover have "[i..<i + length (c # cs)] = i # [i + 1..<i + 1 + length cs]"
    using upt_conv_Cons [of i "i + length (c # cs)"] by simp
  moreover have "filter (\<lambda>p. (c # cs) ! (p - i) = 59 \<and> \<not> is_in_non_replaceable p (p + 1) (ranges_from (i + 1) cs)) [i + 1..<i + 1 + length cs] =
      free_semicolons (i + 1) cs"
    unfolding free_semicolons_def
  proof (rule filter_cong [OF refl])
    fix p
    assume "p \<in> set [i + 1..<i + 1 + length cs]"
    then have "p - i = Suc (p - (i + 1))" by auto
    then show "(c # cs) ! (p - i) = 59 \<and> \<not> is_in_non_replaceable p (p + 1) (ranges_from (i + 1) cs) \<longleftrightarrow>
        cs ! (p - (i + 1)) = 59 \<and> \<not> is_in_non_replaceable p (p + 1) (ranges_from (i + 1) cs)"
      by simp
  qed
  ultimately show ?thesis unfolding free_semicolons_def [of i] ranges by (cases "c = 59") (simp_all del: upt_Suc)
qed

lemma free_semicolons_from: "list_all (\<lambda>p. i \<le> p) (free_semicolons i cs)"
  by (auto simp: free_semicolons_def list_all_iff)

lemma parts_between_skip:
  "list_all (\<lambda>p. i + n \<le> p) ps \<Longrightarrow> n \<le> length cs \<Longrightarrow>
   parts_between i ps cs = (take n cs @ hd (parts_between (i + n) ps (drop n cs))) # tl (parts_between (i + n) ps (drop n cs))"
  by (cases ps) (auto simp: take_add [of n _ cs, symmetric] Suc_diff_le)

section \<open>The cuts are the free semicolons\<close>

lemma cut_is_parts:
  "no_dollar_quote cs \<Longrightarrow>
   cut_at opaque_span 59 cur cs =
     (cur @ hd (parts_between i (free_semicolons i cs) cs)) # tl (parts_between i (free_semicolons i cs) cs)"
proof (induction cur cs arbitrary: i rule: opaque.piece_induct [where sep = 59])
  case (Nil cur)
  then show ?case by (simp add: free_semicolons_def)
next
  case (Span cur c cs n)
  let ?t = "c # cs"
  have "dollar_aware_span ?t = Some n" using Span no_dollar_quote_here by simp
  then have same: "free_semicolons i ?t = free_semicolons (i + n) (drop n ?t)"
    using Span.hyps by (intro free_semicolons_span) simp_all
  have "parts_between i (free_semicolons i ?t) ?t =
     (take n ?t @ hd (parts_between (i + n) (free_semicolons i ?t) (drop n ?t))) #
       tl (parts_between (i + n) (free_semicolons i ?t) (drop n ?t))"
    using Span.hyps free_semicolons_from [of "i + n" "drop n ?t"] unfolding same by (intro parts_between_skip) simp_all
  then show ?case
    using Span.IH [OF no_dollar_quote_drop [OF Span.prems], of "i + n"] opaque.cut_span [OF Span.hyps(1), of 59 cur] same by simp
next
  case (Sep cur cs)
  have "no_dollar_quote cs" using no_dollar_quote_drop [OF Sep.prems, of 1] by simp
  moreover have "dollar_aware_span (59 # cs) = None" using Sep no_dollar_quote_here by simp
  moreover have "parts_between (i + 1) qs cs \<noteq> []" for qs by (cases qs) simp_all
  ultimately show ?case using Sep.IH [of "i + 1"] Sep.hyps by (simp add: opaque.cut_sep free_semicolons_char)
next
  case (Char cur c cs)
  have plain: "no_dollar_quote cs" using no_dollar_quote_drop [OF Char.prems, of 1] by simp
  have "dollar_aware_span (c # cs) = None" using Char no_dollar_quote_here by simp
  then have same: "free_semicolons i (c # cs) = free_semicolons (i + 1) cs" using Char.hyps by (simp add: free_semicolons_char)
  have "parts_between i (free_semicolons i (c # cs)) (c # cs) =
     (take 1 (c # cs) @ hd (parts_between (i + 1) (free_semicolons i (c # cs)) (drop 1 (c # cs)))) #
       tl (parts_between (i + 1) (free_semicolons i (c # cs)) (drop 1 (c # cs)))"
    using free_semicolons_from [of "i + 1" cs] unfolding same by (intro parts_between_skip) simp_all
  then show ?case using Char.IH [OF plain, of "i + 1"] Char.hyps same by (simp add: opaque.cut_char)
qed

lemma chunks_are_parts: "no_dollar_quote sql \<Longrightarrow> split_chunks [] sql = parts_between 0 (free_semicolons 0 sql) sql"
  using cut_is_parts [of sql "[]" 0] by (cases "free_semicolons 0 sql") (simp_all add: split_chunks_cut)

end
