(* ===== verification/Sql_Theorems.thy ===== *)
theory Sql_Theorems
  imports Sql_Guard Sql_Splitting
begin

text \<open>
  Properties of the SQL guard and of the parameter binder, with concrete texts that show the
  hypotheses can hold.
\<close>

section \<open>Statements\<close>

text \<open>
  C35. Where no dollar quote opens, the splitter cuts at exactly the semicolons that the scanner of the
  binder leaves free: those outside of every quoted text and comment. The statements are the parts
  between them that are not blank. A single-quoted value is never cut, whatever it holds and whatever
  follows (except another quote).
\<close>

theorem splitter_cuts_at_free_semicolons:
  assumes "no_dollar_quote sql" "rest = [] \<or> hd rest \<noteq> 39"
  shows "split_statements sql = filter (\<lambda>part. \<not> is_blank part) (parts_between 0
      (filter (\<lambda>p. sql ! p = 59 \<and> \<not> is_in_non_replaceable p (p + 1) (non_replaceable_ranges sql)) [0..<length sql]) sql) \<and>
    split_chunks cur (sql_string s @ rest) = split_chunks (cur @ sql_string s) rest"
proof
  show "split_statements sql = filter (\<lambda>part. \<not> is_blank part) (parts_between 0
      (filter (\<lambda>p. sql ! p = 59 \<and> \<not> is_in_non_replaceable p (p + 1) (non_replaceable_ranges sql)) [0..<length sql]) sql)"
    using chunks_are_parts [OF assms(1)] by (simp add: split_statements_def free_semicolons_def non_replaceable_ranges_def)
  show "split_chunks cur (sql_string s @ rest) = split_chunks (cur @ sql_string s) rest"
  proof -
    have "opaque_span (sql_string s @ rest) = Some (length (sql_string s))"
      using skip_sql_string [OF assms(2), of s] by (simp add: opaque_span_def or_else_def quoted_span_def)
    then show ?thesis using opaque.cut_some [of "sql_string s @ rest"] by (simp add: split_chunks_cut)
  qed
qed

section \<open>Writes on a read-only connection\<close>

lemma first_refusal_None: "first_refusal f xs = None \<longleftrightarrow> list_all (\<lambda>x. f x = None) xs"
  by (induction xs) (auto split: option.splits)

lemma check_sql_None:
  "normalize_sql sql = Inr text \<Longrightarrow> read_only \<or> safe_mode \<Longrightarrow>
   check_sql sql read_only safe_mode = None \<longleftrightarrow> list_all (\<lambda>s. check_statement read_only safe_mode s = None) (split_statements text)"
  by (auto simp: check_sql_def first_refusal_None)

lemma read_only_statement:
  assumes "main_verb tokens = Some v" "tokens = tokenize_sql (strip_sql_comments stmt)"
    and "is_write_verb v \<or> executes_write (to_uppercase v) tokens"
  shows "check_statement True safe_mode stmt \<noteq> None"
  using assms is_write_upper [of v] by (auto simp: check_statement_def Let_def)

lemma no_refused_body: "first_refusal (check_body True False) (data_modifying_cte_bodies tokens) = None \<longleftrightarrow>
   \<not> (\<exists>body. main_verb_writes body \<and> cte_body tokens body)"
proof -
  have "check_body True False body \<noteq> None" if "main_verb_writes body" for body
    using that is_write_upper by (auto simp: main_verb_writes_def check_body_def Let_def split: option.splits)
  then show ?thesis unfolding first_refusal_None list_all_iff Ball_def cte_bodies_exact by blast
qed

text \<open>
  What a read-only connection lets pass of one statement: \<open>writes_somewhere\<close> is a write as main verb, as
  body of a common table expression at any depth, or by SELECT INTO.
\<close>

definition writes_somewhere :: "utext list \<Rightarrow> bool" where
  "writes_somewhere tokens \<longleftrightarrow>
     main_verb_writes tokens \<or> has_select_into tokens \<or> (\<exists>body. main_verb_writes body \<and> cte_body tokens body)"

definition passes_read_only :: "utext \<Rightarrow> bool" where
  "passes_read_only stmt \<longleftrightarrow>
     (let tokens = tokenize_sql (strip_sql_comments stmt) in
      case main_verb tokens of None \<Rightarrow> True
      | Some v \<Rightarrow>
          let verb = to_uppercase v in
          \<not> is_write_verb verb \<and> \<not> (\<exists>body. main_verb_writes body \<and> cte_body tokens body) \<and>
          (if eq_word verb (lit ''EXPLAIN'')
           then case explain_analyze_statement tokens of None \<Rightarrow> True | Some ts \<Rightarrow> \<not> writes_somewhere ts
           else \<not> writes_somewhere tokens) \<and>
          (is_read_verb verb \<or> \<not> comment_hides_write_verb stmt))"

text \<open>
  C2. A read-only connection accepts a text exactly if it has no null character and each of its
  statements passes. A statement without a main verb passes. A statement with one passes if the verb
  does not write, no body of a common table expression in it writes, at any depth, it neither writes
  nor selects INTO (for an EXPLAIN this is asked of the statement after an ANALYZE that is on, and of
  nothing otherwise), and no comment holds a write verb if its own verb is unknown.
\<close>

theorem read_only_accepts_exactly:
  "check_sql sql True False = None \<longleftrightarrow>
   (\<exists>text. normalize_sql sql = Inr text \<and> list_all passes_read_only (split_statements text))"
proof -
  have statement: "check_statement True False stmt = None \<longleftrightarrow> passes_read_only stmt" for stmt
    using no_refused_body
    by (auto simp: check_statement_def passes_read_only_def executes_write_def executed_tokens_def Let_def
        has_write_operation_exact writes_somewhere_def [symmetric] simp del: lit_simps split: option.splits)
  show ?thesis
  proof (cases "normalize_sql sql")
    case (Inr t)
    then show ?thesis using check_sql_None [OF Inr, of True False] statement by simp
  qed (simp add: check_sql_def)
qed

text \<open>
  Two things that pass: a write in a common table expression whose statement has no verb that the guard
  knows, and a SELECT INTO that is only explained.
\<close>

lemma passes_without_main_verb:
  "main_verb (tokenize_sql (strip_sql_comments stmt)) = None \<Longrightarrow> passes_read_only stmt \<and> check_statement True safe_mode stmt = None"
  by (simp add: passes_read_only_def check_statement_def)

lemma accepted_read_only:
  "check_sql (lit ''WITH d AS (DELETE FROM t RETURNING id) TABLE d'') True True = None"
  "check_sql (lit ''EXPLAIN SELECT a INTO x FROM t'') True True = None"
  "check_sql (lit ''EXPLAIN ANALYZE SELECT a INTO x FROM t'') True True \<noteq> None"
  by code_simp+

text \<open>
  C36. What may be proposed as a write is refused on a read-only connection, unless it sets a pragma.
\<close>

theorem proposed_write_is_refused_read_only:
  assumes "is_write_only_sql sql" "normalize_sql sql = Inr text"
    and "list_all (\<lambda>stmt. case main_verb (tokenize_sql (strip_sql_comments stmt)) of
           None \<Rightarrow> True | Some verb \<Rightarrow> \<not> eq_word verb (lit ''PRAGMA'')) (split_statements text)"
  shows "check_sql sql True safe_mode \<noteq> None"
proof -
  have "\<exists>stmt \<in> set stmts. writes_only (tokenize_sql (strip_sql_comments stmt))"
    if "all_write_only False stmts" for stmts
    using that by (induction stmts) (auto simp: Let_def split: if_splits)
  then obtain stmt where stmt: "stmt \<in> set (split_statements text)" "writes_only (tokenize_sql (strip_sql_comments stmt))"
    using assms(1,2) by (auto simp: is_write_only_sql_def)
  define tokens where "tokens = tokenize_sql (strip_sql_comments stmt)"
  obtain v where v: "main_verb tokens = Some v" using stmt(2) by (auto simp: writes_only_def tokens_def split: option.splits)
  have "\<not> eq_word v (lit ''PRAGMA'')" using assms(3) stmt(1) v by (auto simp: list_all_iff tokens_def simp del: lit_simps)
  then consider "is_dml_or_ddl v" | "eq_word v (lit ''SELECT'')" "has_data_modifying_cte tokens"
    using stmt(2) v by (auto simp: writes_only_def tokens_def simp del: lit_simps split: if_splits)
  then have "is_write_verb v \<or> executes_write (to_uppercase v) tokens"
  proof cases
    case 1
    then show ?thesis by (auto simp: is_dml_or_ddl_def is_write_verb_def write_verbs_def one_of_def simp del: lit_simps)
  next
    case 2
    have "one_of [''SELECT''] (to_uppercase v)" by (rule one_of_upper) (use 2 in \<open>simp_all add: ascii_words_def one_of_def\<close>)
    then have "length (to_uppercase v) = 6" by (auto simp: one_of_def dest: eq_word_length)
    then have "\<not> eq_word (to_uppercase v) (lit ''EXPLAIN'')" by (intro eq_word_differs) simp
    then show ?thesis using 2 by (simp add: executes_write_def executed_tokens_def has_write_operation_def)
  qed
  then have "check_statement True safe_mode stmt \<noteq> None" using v by (intro read_only_statement) (auto simp: tokens_def)
  then show ?thesis using assms(2) stmt(1) by (auto simp: check_sql_None list_all_iff)
qed

section \<open>Writes that the guard does not see\<close>

text \<open>The prefix whose quoted dashes the tokenizer takes for a comment.\<close>

definition quoted_dashes :: utext where
  "quoted_dashes = lit ''WITH x AS (SELECT '' @ [39, 45, 45, 39] @ lit '') ''"

lemma strip_from_out: "\<exists>w. strip_from out cs = out @ w \<and> set w \<subseteq> insert 32 (set cs)"
proof (induction "length cs" arbitrary: out cs rule: less_induct)
  case less
  have step: "\<exists>w. strip_from (out @ o') (drop n cs) = out @ w \<and> set w \<subseteq> insert 32 (set cs)"
    if "0 < n" "cs \<noteq> []" "set o' \<subseteq> insert 32 (set cs)" for o' n
  proof -
    obtain w where "strip_from (out @ o') (drop n cs) = (out @ o') @ w" "set w \<subseteq> insert 32 (set (drop n cs))"
      using less.hyps [of "drop n cs" "out @ o'"] \<open>0 < n\<close> \<open>cs \<noteq> []\<close> by auto
    then show ?thesis using that(3) by (intro exI [of _ "o' @ w"]) (auto dest: in_set_dropD)
  qed
  have sep: "\<exists>o'. push_separator out = out @ o' \<and> set o' \<subseteq> insert 32 (set cs)"
    by (auto simp: push_separator_def)
  show ?case
  proof (cases cs)
    case (Cons c cs')
    consider n q where "skip_quoted cs = Some (n, q)"
      | "skip_quoted cs = None" "c = 35 \<or> starts_line_comment cs"
      | "skip_quoted cs = None" "\<not> (c = 35 \<or> starts_line_comment cs)" "starts_block_comment cs"
      | n where "skip_quoted cs = None" "\<not> (c = 35 \<or> starts_line_comment cs)" "\<not> starts_block_comment cs" "skip_dollar_quoted cs = Some n"
      | "skip_quoted cs = None" "\<not> (c = 35 \<or> starts_line_comment cs)" "\<not> starts_block_comment cs" "skip_dollar_quoted cs = None"
      by (cases "skip_quoted cs"; cases "skip_dollar_quoted cs") auto
    then show ?thesis
    proof cases
      case 1
      then have "0 < n" using skip_quoted_le by blast
      then have "\<exists>w. strip_from (out @ take n cs) (drop n cs) = out @ w \<and> set w \<subseteq> insert 32 (set cs)"
        using Cons set_take_subset [of n cs] by (intro step) auto
      then show ?thesis using 1 Cons by (subst strip_from.simps) simp
    next
      case 2
      then have "0 < line_length cs" using Cons line_length_pos [of cs] by (auto simp: line_length_def)
      then show ?thesis using step sep 2 Cons by (subst strip_from.simps) auto
    next
      case 3
      then have "0 < block_length cs" using block_length_le by blast
      then show ?thesis using step sep 3 Cons by (subst strip_from.simps) auto
    next
      case 4
      then have "0 < n" using skip_dollar_le by blast
      then have "\<exists>w. strip_from (out @ take n cs) (drop n cs) = out @ w \<and> set w \<subseteq> insert 32 (set cs)"
        using Cons set_take_subset [of n cs] by (intro step) auto
      then show ?thesis using 4 Cons by (subst strip_from.simps) simp
    next
      case 5
      then show ?thesis using step [of 1 "[c]"] Cons by (subst strip_from.simps) auto
    qed
  qed (simp add: strip_from.simps)
qed

lemma strip_from_char:
  "\<not> is_quote c \<Longrightarrow> c \<noteq> 35 \<Longrightarrow> c \<noteq> 36 \<Longrightarrow> c \<noteq> 45 \<Longrightarrow> c \<noteq> 47 \<Longrightarrow> strip_from out (c # cs) = strip_from (out @ [c]) cs"
  by (subst strip_from.simps; cases cs) (simp_all add: skip_quoted.simps(2) skip_dollar_quoted.simps(2))

lemma strip_from_quote:
  "is_quote q \<Longrightarrow> strip_from out (q # cs) = strip_from (out @ q # take (quote_body q cs) cs) (drop (quote_body q cs) cs)"
  by (subst strip_from.simps) (simp add: skip_quoted.simps(2))

lemma strip_quoted_dashes: "strip_from [] (quoted_dashes @ w) = strip_from quoted_dashes w"
  by (simp add: quoted_dashes_def strip_from_char strip_from_quote is_quote_def)

lemma strip_bytes_char: "c \<noteq> 45 \<Longrightarrow> c \<noteq> 47 \<Longrightarrow> strip_bytes (c # cs) = c # strip_bytes cs"
  by (subst strip_bytes.simps; cases cs) simp_all

lemma strip_bytes_line: "10 \<notin> set cs \<Longrightarrow> strip_bytes (45 # 45 # cs) = []"
proof -
  assume "10 \<notin> set cs"
  then have "takeWhile (\<lambda>c. c \<noteq> 10) cs = cs" by (auto simp: takeWhile_eq_all_conv)
  then have "line_length (45 # 45 # cs) = length (45 # 45 # cs)" unfolding line_length_def by (simp only: takeWhile.simps if_True) simp
  then have "strip_bytes (45 # 45 # cs) = strip_bytes (drop (length (45 # 45 # cs)) (45 # 45 # cs))"
    by (subst strip_bytes.simps) simp
  then show ?thesis by (simp add: strip_bytes.simps)
qed

lemma tokens_of_quoted_dashes:
  "10 \<notin> set w \<Longrightarrow> tokenize_sql (quoted_dashes @ w) =
     [lit ''WITH'', lit ''x'', lit ''AS'', open_paren, lit ''SELECT'']"
  by (simp add: tokenize_sql_def strip_comments_for_tokenize_def quoted_dashes_def bytes_of_append strip_bytes_char
      strip_bytes_line bytes_of_low is_quote_def is_break_def is_whitespace_def flush_token_def open_paren_def)

text \<open>
  C37. The guard can be switched off. After a common table expression that selects two quoted dashes,
  any statement without line breaks, semicolons and null characters is accepted, on a read-only
  connection and in Safe Mode.
\<close>

theorem guard_blind_after_quoted_dashes:
  assumes "list_all (\<lambda>c. c \<noteq> 0 \<and> c \<noteq> 10 \<and> wide_char c \<noteq> 59) w"
  shows "check_sql (quoted_dashes @ w) read_only safe_mode = None"
proof -
  let ?w = "normalize_fullwidth w"
  have prefix: "normalize_fullwidth quoted_dashes = quoted_dashes" "0 \<notin> set quoted_dashes" "59 \<notin> set quoted_dashes"
    "\<not> is_blank quoted_dashes"
    by code_simp+
  have "wide_char c \<noteq> 10" if "c \<noteq> 10" for c using that by (auto simp: wide_char_def)
  then have w: "0 \<notin> set w" "59 \<notin> set ?w" "10 \<notin> set ?w"
    using assms by (fastforce simp: list_all_iff normalize_fullwidth_def)+
  have normal: "normalize_sql (quoted_dashes @ w) = Inr (quoted_dashes @ ?w)"
    using prefix(1,2) w(1) by (simp add: normalize_sql_def normalize_fullwidth_def)
  have "split_statements (quoted_dashes @ ?w) = [quoted_dashes @ ?w]"
    using split_without_separator [of "quoted_dashes @ ?w" "[]"] prefix(3,4) w(2)
    by (simp add: split_statements_cut is_blank_def)
  moreover have "check_statement read_only safe_mode (quoted_dashes @ ?w) = None"
  proof -
    obtain v where v: "strip_sql_comments (quoted_dashes @ ?w) = quoted_dashes @ v" "set v \<subseteq> insert 32 (set ?w)"
      using strip_from_out [of quoted_dashes ?w] by (auto simp: strip_sql_comments_def strip_quoted_dashes)
    then have "10 \<notin> set v" using w(3) by auto
    then have "main_verb (tokenize_sql (quoted_dashes @ v)) = None"
      unfolding tokens_of_quoted_dashes [OF \<open>10 \<notin> set v\<close>] by code_simp
    then show ?thesis using v(1) by (simp add: check_statement_def)
  qed
  ultimately show ?thesis
    by (cases "read_only \<or> safe_mode") (simp_all add: check_sql_None [OF normal], simp add: check_sql_def)
qed

definition hidden_delete :: utext where
  "hidden_delete = lit ''DELETE FROM t''"

definition dollar_text :: utext where
  "dollar_text = lit ''SELECT $$'' @ [39] @ lit ''$$; '' @ hidden_delete @ lit ''; --'' @ [39]"

text \<open>
  Two texts with a DELETE that both guards accept: a statement after a quote inside a dollar-quoted
  string, which the splitter does not know, and an EXPLAIN that turns ANALYZE off and on again, of which
  the guard reads the first option.
\<close>

lemma hidden_deletes_accepted:
  "check_sql dollar_text True True = None" "split_statements dollar_text = [dollar_text]"
  "check_sql (lit ''EXPLAIN (ANALYZE FALSE, ANALYZE TRUE) '' @ hidden_delete) True True = None"
  "check_sql (lit ''EXPLAIN (ANALYZE TRUE) '' @ hidden_delete) True True \<noteq> None"
  by code_simp+

lemma block_body_closed: "42 \<notin> set w \<Longrightarrow> block_body (w @ [42, 47]) = length w + 2"
proof (induction w)
  case (Cons c w)
  then show ?case by (cases w) auto
qed simp

text \<open>
  What stands in an executable comment of MySQL is not looked at: a text that is one such comment is
  accepted on a read-only connection and in Safe Mode, whatever the comment holds (apart from null
  characters and further stars), even if the guard's own search finds a write verb in it.
\<close>

theorem executable_comment_is_not_checked:
  assumes "list_all (\<lambda>c. c \<noteq> 0 \<and> wide_char c \<noteq> 42) w"
  shows "check_sql (lit ''/*!'' @ w @ lit ''*/'') read_only safe_mode = None"
proof -
  let ?t = "lit ''/*!'' @ normalize_fullwidth w @ lit ''*/''"
  have w: "0 \<notin> set w" "42 \<notin> set (normalize_fullwidth w)" using assms by (auto simp: list_all_iff normalize_fullwidth_def)
  have "wide_char c = c" if "c < 128" for c using that by (simp add: wide_char_def)
  then have normal: "normalize_sql (lit ''/*!'' @ w @ lit ''*/'') = Inr ?t"
    using w(1) by (simp add: normalize_sql_def normalize_fullwidth_def)
  have block: "starts_block_comment ?t" "block_length ?t = length ?t" "\<not> starts_line_comment ?t" "skip_quoted ?t = None"
    using block_body_closed [of "33 # normalize_fullwidth w"] w(2)
    by (simp_all add: block_length_def skip_quoted.simps(2) is_quote_def)
  then have "opaque_span ?t = Some (length ?t)"
    by (simp add: opaque_span_def or_else_def quoted_span_def comment_span_def)
  then have "split_statements ?t = [?t]"
    using opaque.cut_some [of ?t "length ?t" 59 "[]"] by (simp add: split_statements_cut is_blank_def is_whitespace_def)
  moreover have "check_statement read_only safe_mode ?t = None"
  proof -
    have "strip_from [] ?t = strip_from (push_separator []) (drop (length ?t) ?t)"
      using block by (subst strip_from.simps) simp
    then have "strip_sql_comments ?t = []" by (simp add: strip_sql_comments_def push_separator_def strip_from.simps)
    then have "main_verb (tokenize_sql (strip_sql_comments ?t)) = None" by (simp only:) code_simp
    then show ?thesis by (simp add: check_statement_def)
  qed
  ultimately show ?thesis
    using normal unfolding check_sql_def by simp
qed

section \<open>Parameters\<close>

text \<open>
  C34. The binder is a splice. It succeeds exactly if the spans are in order, lie in the text, carry
  their token, meet no string or comment and have a value; then the result is the text with every
  span replaced by its literal, read from left to right.
\<close>

theorem binder_is_splice:
  "bind_occurrences shown sql vals ocs = Inr out \<longleftrightarrow>
   in_order ocs \<and> list_all (occurrence_ok sql vals) ocs \<and> out = filled shown vals 0 ocs sql"
  by (rule bind_occurrences_Inr)

text \<open>
  C13. Binding a string changes one piece of the text. Let the binder accept one occurrence with a string
  value, whose token does not start with a line break and touches no single quote. Then the text is
  unchanged before and after the token; the quoted texts and comments of the new text, as the code's
  scanner finds them, are those of the old text, those after the token moved, and in between exactly the
  literal; and undoing its doubled quotes gives the value with every backslash doubled.
\<close>

theorem bound_string_is_one_piece:
  assumes "bind_occurrences shown sql vals [oc] = Inr out" "map_of vals (oc_id oc) = Some (BString s)"
    and "hd (oc_token oc) \<noteq> 10"
    and "oc_from oc = 0 \<or> sql ! (oc_from oc - 1) \<noteq> 39" "oc_to oc = length sql \<or> sql ! oc_to oc \<noteq> 39"
  shows "out = take (oc_from oc) sql @ sql_string s @ drop (oc_to oc) sql \<and>
    (\<exists>before after. non_replaceable_ranges sql = before @ shifted (oc_to oc) after \<and>
       non_replaceable_ranges out = before @ (oc_from oc, oc_from oc + length (sql_string s)) #
         shifted (oc_from oc + length (sql_string s)) after \<and>
       list_all (\<lambda>(f, t). t \<le> oc_from oc) before) \<and>
    undouble 39 (butlast (tl (sql_string s))) = double_char 92 s"
proof -
  have ok: "occurrence_ok sql vals oc" "out = filled shown vals 0 [oc] sql"
    using assms(1) by (simp_all add: bind_occurrences_Inr)
  let ?a = "take (oc_from oc) sql" and ?b = "drop (oc_to oc) sql"
  have span: "oc_from oc < oc_to oc" "oc_to oc \<le> length sql" "oc_token oc = take (oc_to oc - oc_from oc) (drop (oc_from oc) sql)"
    "\<not> is_in_non_replaceable (oc_from oc) (oc_to oc) (non_replaceable_ranges sql)"
    using ok(1) by (auto simp: occurrence_ok_def span_text_def)
  have "drop (oc_from oc) sql = oc_token oc @ ?b"
    using append_take_drop_id [of "oc_to oc - oc_from oc" "drop (oc_from oc) sql"] span(1,3) by simp
  then have parts: "?a @ oc_token oc @ ?b = sql" by (metis append_take_drop_id)
  have len: "length ?a = oc_from oc" "length (oc_token oc) = oc_to oc - oc_from oc" using span by simp_all
  have out: "out = ?a @ sql_string s @ ?b" using ok(2) assms(2) by simp
  have edges: "?a = [] \<or> last ?a \<noteq> 39" "?b = [] \<or> hd ?b \<noteq> 39"
    using assms(4,5) span(1,2) by (auto simp: last_conv_nth hd_drop_conv_nth min_absorb2)
  have "\<not> is_in_non_replaceable (length ?a) (length ?a + length (oc_token oc)) (non_replaceable_ranges (?a @ oc_token oc @ ?b))"
    using span(1,4) len by (simp add: parts)
  moreover have "oc_token oc \<noteq> []" using len(2) span(1) by auto
  ultimately obtain before where "non_replaceable_ranges sql = before @ shifted (oc_to oc) (non_replaceable_ranges ?b)"
    "non_replaceable_ranges out = before @ (oc_from oc, oc_from oc + length (sql_string s)) #
       shifted (oc_from oc + length (sql_string s)) (non_replaceable_ranges ?b)"
    "list_all (\<lambda>(f, t). t \<le> oc_from oc) before"
    using ranges_with_string [of ?a "oc_token oc" ?b s] assms(3) edges span(1) unfolding out parts len by auto
  then show ?thesis using out by (auto simp: sql_string_def undouble_doubled butlast_append)
qed

lemma dec_no_break: "10 \<notin> set (lit (dec n))"
proof (induction n rule: dec.induct)
  case (1 n)
  have "n mod 10 < 10" by simp
  then have digit: "(48 + n mod 10) mod 256 = 48 + n mod 10" by (intro mod_less) linarith
  show ?case
  proof (cases "n < 10")
    case True
    then show ?thesis by (subst dec.simps) simp
  next
    case False
    then show ?thesis using 1 digit by (subst dec.simps) (simp add: lit_append)
  qed
qed

lemma plain_char_span: "\<not> is_quote c \<Longrightarrow> c \<noteq> 36 \<Longrightarrow> c \<noteq> 45 \<Longrightarrow> c \<noteq> 47 \<Longrightarrow> dollar_aware_span (c # cs) = None"
  by (cases cs) (simp_all add: dollar_aware_simps skip_quoted.simps(2) skip_dollar_quoted.simps(2))

lemma minus_span: "d \<noteq> 45 \<Longrightarrow> dollar_aware_span (45 # d # cs) = None"
  by (simp add: dollar_aware_simps skip_quoted.simps(2) skip_dollar_quoted.simps(2) is_quote_def)

text \<open>
  C38. A bound number may not. A negative value after a minus sign opens a line comment: whatever
  follows on the line, conditions included, is no longer part of the statement.
\<close>

theorem negative_value_opens_a_comment:
  assumes "i < 0" "10 \<notin> set rest"
  shows "bind_occurrences shown (lit ''a-?'' @ rest) [(lit ''k'', BInt i)]
      [\<lparr>oc_from = 2, oc_to = 3, oc_id = lit ''k'', oc_token = lit ''?''\<rparr>] = Inr (lit ''a-'' @ int_text i @ rest) \<and>
    strip_sql_comments (lit ''a-'' @ int_text i @ rest) = lit ''a ''"
proof
  have "ranges_from 0 (lit ''a-?'' @ rest) = ranges_from (0 + 1 + 1 + 1) rest"
    by (simp add: ranges_from_step plain_char_span minus_span is_quote_def)
  then have free: "\<not> is_in_non_replaceable 2 3 (non_replaceable_ranges (lit ''a-?'' @ rest))"
    using ranges_from_start [of "0 + 1 + 1 + 1" rest]
    by (auto simp: non_replaceable_ranges_def is_in_non_replaceable_def list_ex_iff list_all_iff)
  show "bind_occurrences shown (lit ''a-?'' @ rest) [(lit ''k'', BInt i)]
      [\<lparr>oc_from = 2, oc_to = 3, oc_id = lit ''k'', oc_token = lit ''?''\<rparr>] = Inr (lit ''a-'' @ int_text i @ rest)"
    unfolding bind_occurrences_Inr using free
    by (simp add: in_order_def occurrence_ok_def span_text_def)
  obtain ds where ds: "int_text i = 45 # ds" "10 \<notin> set ds" using assms(1) dec_no_break by (auto simp: int_text_def)
  have "line_length (45 # 45 # ds @ rest) = length (45 # 45 # ds @ rest)"
  proof -
    have "takeWhile (\<lambda>c. c \<noteq> 10) (ds @ rest) = ds @ rest" using assms(2) ds(2) by (auto simp: takeWhile_eq_all_conv)
    then show ?thesis unfolding line_length_def by (simp only: takeWhile.simps if_True) simp
  qed
  then have "strip_from [97] (45 # 45 # ds @ rest) = push_separator [97]"
    by (subst strip_from.simps) (simp add: skip_quoted.simps(2) is_quote_def strip_from.simps)
  then show "strip_sql_comments (lit ''a-'' @ int_text i @ rest) = lit ''a ''"
    by (simp add: strip_sql_comments_def strip_from_char is_quote_def ds(1) push_separator_def)
qed

section \<open>The hypotheses can hold\<close>

text \<open>A write two levels deep is found.\<close>

lemma nested_delete_refused:
  "check_sql (lit ''SELECT * FROM (WITH d AS (DELETE FROM t) SELECT 1) q'') True False \<noteq> None"
  by code_simp

definition quoted_semicolons :: utext where
  "quoted_semicolons = lit ''SELECT '' @ [39] @ lit ''a;b'' @ [39] @ lit '' /* ; */; SELECT 2 -- ; x''"

theorem splitter_cuts_at_free_semicolons_witness:
  "split_statements quoted_semicolons = parts_between 0 [20] quoted_semicolons"
proof -
  have free: "no_dollar_quote quoted_semicolons" by code_simp
  have "filter (\<lambda>p. quoted_semicolons ! p = 59 \<and>
      \<not> is_in_non_replaceable p (p + 1) (non_replaceable_ranges quoted_semicolons)) [0..<length quoted_semicolons] = [20]"
    by code_simp
  moreover have "filter (\<lambda>part. \<not> is_blank part) (parts_between 0 [20] quoted_semicolons) = parts_between 0 [20] quoted_semicolons"
    by code_simp
  ultimately show ?thesis using splitter_cuts_at_free_semicolons [OF free, of "[]" "[]" "[]"] by simp
qed

definition plain_insert :: utext where
  "plain_insert = lit ''INSERT INTO t VALUES (1)''"

lemma plain_insert_facts:
  "is_write_only_sql plain_insert" "normalize_sql plain_insert = Inr plain_insert"
  "list_all (\<lambda>stmt. case main_verb (tokenize_sql (strip_sql_comments stmt)) of
     None \<Rightarrow> True | Some verb \<Rightarrow> \<not> eq_word verb (lit ''PRAGMA'')) (split_statements plain_insert)"
  by code_simp+

theorem proposed_write_is_refused_read_only_witness:
  "is_write_only_sql plain_insert \<and> check_sql plain_insert True False \<noteq> None"
  using proposed_write_is_refused_read_only [OF plain_insert_facts] plain_insert_facts(1) by simp

text \<open>The exception is real: setting a pragma is a write proposal that a read-only connection accepts.\<close>

lemma pragma_write_is_accepted_read_only:
  "is_write_only_sql (lit ''PRAGMA user_version = 5'')" "check_sql (lit ''PRAGMA user_version = 5'') True True = None"
  by code_simp+

theorem guard_blind_after_quoted_dashes_witness:
  "check_sql (quoted_dashes @ hidden_delete) True True = None \<and> check_sql hidden_delete True True \<noteq> None"
proof
  have "list_all (\<lambda>c. c \<noteq> 0 \<and> c \<noteq> 10 \<and> wide_char c \<noteq> 59) hidden_delete" by code_simp
  then show "check_sql (quoted_dashes @ hidden_delete) True True = None" by (rule guard_blind_after_quoted_dashes)
  show "check_sql hidden_delete True True \<noteq> None" by code_simp
qed

theorem executable_comment_is_not_checked_witness:
  "check_sql (lit ''/*!'' @ (lit ''50000 '' @ hidden_delete) @ lit ''*/'') True True = None \<and>
   comment_hides_write_verb (lit ''/*!'' @ (lit ''50000 '' @ hidden_delete) @ lit ''*/'')"
proof
  have "list_all (\<lambda>c. c \<noteq> 0 \<and> wide_char c \<noteq> 42) (lit ''50000 '' @ hidden_delete)" by code_simp
  then show "check_sql (lit ''/*!'' @ (lit ''50000 '' @ hidden_delete) @ lit ''*/'') True True = None"
    by (rule executable_comment_is_not_checked)
  show "comment_hides_write_verb (lit ''/*!'' @ (lit ''50000 '' @ hidden_delete) @ lit ''*/'')" by code_simp
qed

definition named_query :: utext where
  "named_query = lit ''SELECT a FROM t WHERE b = :n; SELECT 1''"

definition named_occurrence :: occurrence where
  "named_occurrence = \<lparr>oc_from = 26, oc_to = 28, oc_id = lit ''n'', oc_token = lit '':n''\<rparr>"

text \<open>The value ends a quote, a statement and the line.\<close>

definition hostile_value :: utext where
  "hostile_value = [39] @ lit ''; DROP TABLE t; --''"

definition bound_query :: utext where
  "bound_query = lit ''SELECT a FROM t WHERE b = '' @ [39, 39, 39] @ lit ''; DROP TABLE t; --'' @ [39] @ lit ''; SELECT 1''"

lemma named_query_facts:
  "bind_occurrences (\<lambda>_. []) named_query [(lit ''n'', BString hostile_value)] [named_occurrence] = Inr bound_query"
  "map_of [(lit ''n'', BString hostile_value)] (oc_id named_occurrence) = Some (BString hostile_value)"
  "hd (oc_token named_occurrence) \<noteq> 10"
  "oc_from named_occurrence = 0 \<or> named_query ! (oc_from named_occurrence - 1) \<noteq> 39"
  "oc_to named_occurrence = length named_query \<or> named_query ! oc_to named_occurrence \<noteq> 39"
  by code_simp+

theorem bound_string_is_one_piece_witness:
  "non_replaceable_ranges named_query = [] \<and> non_replaceable_ranges bound_query = [(26, 48)]"
proof -
  have old: "non_replaceable_ranges named_query = []" by code_simp
  have "length (sql_string hostile_value) = 22" by code_simp
  moreover obtain before after where "non_replaceable_ranges named_query = before @ shifted (oc_to named_occurrence) after"
    "non_replaceable_ranges bound_query = before @ (oc_from named_occurrence, oc_from named_occurrence + length (sql_string hostile_value)) #
       shifted (oc_from named_occurrence + length (sql_string hostile_value)) after"
    using bound_string_is_one_piece [OF named_query_facts] by auto
  ultimately show ?thesis using old by (simp add: shifted_def named_occurrence_def)
qed

theorem negative_value_opens_a_comment_witness:
  "strip_sql_comments (lit ''a-'' @ int_text (-1) @ lit '' FROM t WHERE owner = 1'') = lit ''a ''"
proof -
  have "10 \<notin> set (lit '' FROM t WHERE owner = 1'')" by code_simp
  then show ?thesis using negative_value_opens_a_comment [of "-1" "lit '' FROM t WHERE owner = 1''" "\<lambda>_. []"] by simp
qed

end
