(* ===== verification/Sync_Values.thy ===== *)
theory Sync_Values
  imports Sql_Text "HOL-Library.Word" "HOL-Library.Product_Lexorder"
begin

unbundle bit_operations_syntax

text \<open>
  Values and keys of the data synchronization (\<open>datazen-driver-api/src/types.rs\<close>,
  \<open>datazen-driver-api/src/sync/key.rs\<close> and the comparison functions of
  \<open>migration/data_sync/compare.rs\<close> and \<open>model.rs\<close>). A JSON value is of a type parameter: the code
  compares such values for equality and by their printed text, which is a parameter \<open>jt\<close>. A float is
  its 64-bit pattern.
\<close>

section \<open>Orderings\<close>

datatype ordering = Less | Equal | Greater

definition cmp :: "'a::linorder \<Rightarrow> 'a \<Rightarrow> ordering" where
  "cmp a b = (if a < b then Less else if a = b then Equal else Greater)"

fun reverse :: "ordering \<Rightarrow> ordering" where
  "reverse Less = Greater"
| "reverse Equal = Equal"
| "reverse Greater = Less"

definition then_with :: "ordering \<Rightarrow> ordering \<Rightarrow> ordering" where
  "then_with a b = (if a = Equal then b else a)"

lemma cmp_iff [simp]:
  "cmp a b = Less \<longleftrightarrow> a < b" "cmp a b = Equal \<longleftrightarrow> a = b" "cmp a b = Greater \<longleftrightarrow> b < a"
  by (auto simp: cmp_def)

lemma cmp_refl [simp]: "cmp a a = Equal"
  by simp

lemma cmp_swap: "cmp b a = reverse (cmp a b)"
  by (auto simp: cmp_def)

text \<open>
  The contract of a comparison function on the \<open>valid\<close> elements: exchanging the arguments reverses
  the answer, and the order is transitive and respects equality. A merge relies on nothing else.
\<close>

locale comparison =
  fixes compare :: "'k \<Rightarrow> 'k \<Rightarrow> ordering" and valid :: "'k \<Rightarrow> bool"
  assumes swap: "valid a \<Longrightarrow> valid b \<Longrightarrow> compare b a = reverse (compare a b)"
    and less_trans: "valid a \<Longrightarrow> valid b \<Longrightarrow> valid c \<Longrightarrow>
      compare a b = Less \<Longrightarrow> compare b c = Less \<Longrightarrow> compare a c = Less"
    and equal_left: "valid a \<Longrightarrow> valid b \<Longrightarrow> valid c \<Longrightarrow> compare a b = Equal \<Longrightarrow> compare a c = compare b c"
begin

lemma refl: "valid a \<Longrightarrow> compare a a = Equal"
  using swap [of a a] by (cases "compare a a") auto

lemma greater_iff: "valid a \<Longrightarrow> valid b \<Longrightarrow> compare a b = Greater \<longleftrightarrow> compare b a = Less"
  using swap [of a b] by (cases "compare a b") auto

lemma equal_sym: "valid a \<Longrightarrow> valid b \<Longrightarrow> compare a b = Equal \<Longrightarrow> compare b a = Equal"
  using swap [of a b] by simp

lemma equal_right:
  "valid a \<Longrightarrow> valid b \<Longrightarrow> valid c \<Longrightarrow> compare a b = Equal \<Longrightarrow> compare c a = compare c b"
  using equal_left [of a b c] swap [of a c] swap [of b c] by simp

lemma equal_less: "valid a \<Longrightarrow> valid b \<Longrightarrow> valid c \<Longrightarrow> compare a b = Equal \<Longrightarrow> compare b c = Less \<Longrightarrow> compare a c = Less"
  using equal_left [of a b c] by simp

lemma less_equal: "valid a \<Longrightarrow> valid b \<Longrightarrow> valid c \<Longrightarrow> compare a b = Less \<Longrightarrow> compare b c = Equal \<Longrightarrow> compare a c = Less"
  using equal_right [of b c a] by simp

end

text \<open>
  A comparison is often that of codes in a linear order in which equal elements coincide.
\<close>

locale coded_comparison =
  fixes compare :: "'k \<Rightarrow> 'k \<Rightarrow> ordering" and valid :: "'k \<Rightarrow> bool" and code :: "'k \<Rightarrow> 'c::linorder"
  assumes compare_code: "valid a \<Longrightarrow> valid b \<Longrightarrow> compare a b = cmp (code a) (code b)"

sublocale coded_comparison \<subseteq> comparison
proof
  fix a b c
  assume v: "valid a" "valid b"
  show "compare b a = reverse (compare a b)"
    unfolding compare_code [OF v] compare_code [OF v(2,1)] by (rule cmp_swap)
  assume c: "valid c"
  show "compare a c = Less" if "compare a b = Less" "compare b c = Less"
    using that by (simp add: compare_code v c)
  show "compare a c = compare b c" if "compare a b = Equal"
    using that by (simp add: compare_code v c)
qed

section \<open>Values\<close>

datatype 'j cell =
    VNull
  | VBool bool
  | VInteger int
  | VFloat "64 word"
  | VString utext
  | VBytes "nat list"
  | VTimestamp utext
  | VJson 'j

type_synonym 'j row = "'j cell option list"

fun value_rank :: "'j cell \<Rightarrow> nat" where
  "value_rank VNull = 0"
| "value_rank (VBool _) = 1"
| "value_rank (VInteger _) = 2"
| "value_rank (VFloat _) = 3"
| "value_rank (VString _) = 4"
| "value_rank (VBytes _) = 5"
| "value_rank (VTimestamp _) = 6"
| "value_rank (VJson _) = 7"

text \<open>\<open>f64::total_cmp\<close>: the bit pattern read as a signed number, the bits below the sign flipped when it is set.\<close>

definition total_key :: "64 word \<Rightarrow> int" where
  "total_key w = sint (if sint w < 0 then w XOR 0x7FFFFFFFFFFFFFFF else w)"

text \<open>\<open>str::cmp\<close> compares the UTF-8 bytes.\<close>

definition cmp_text :: "utext \<Rightarrow> utext \<Rightarrow> ordering" where
  "cmp_text a b = cmp (bytes_of a) (bytes_of b)"

text \<open>
  \<open>cmp_values\<close>. In its last branch the debug texts are compared when the ranks agree; the branches
  before it have caught every pair of equal rank.
\<close>

fun cmp_values :: "('j \<Rightarrow> utext) \<Rightarrow> 'j cell \<Rightarrow> 'j cell \<Rightarrow> ordering" where
  "cmp_values jt VNull VNull = Equal"
| "cmp_values jt VNull _ = Less"
| "cmp_values jt _ VNull = Greater"
| "cmp_values jt (VBool a) (VBool b) = cmp a b"
| "cmp_values jt (VInteger a) (VInteger b) = cmp a b"
| "cmp_values jt (VFloat a) (VFloat b) = cmp (total_key a) (total_key b)"
| "cmp_values jt (VString a) (VString b) = cmp_text a b"
| "cmp_values jt (VBytes a) (VBytes b) = cmp a b"
| "cmp_values jt (VTimestamp a) (VTimestamp b) = cmp_text a b"
| "cmp_values jt (VJson a) (VJson b) = cmp_text (jt a) (jt b)"
| "cmp_values jt a b = cmp (value_rank a) (value_rank b)"

fun cmp_keys :: "('j \<Rightarrow> utext) \<Rightarrow> 'j cell list \<Rightarrow> 'j cell list \<Rightarrow> ordering" where
  "cmp_keys jt (a # as) (b # bs) =
     (if cmp_values jt a b \<noteq> Equal then cmp_values jt a b else cmp_keys jt as bs)"
| "cmp_keys jt as bs = cmp (length as) (length bs)"

fun values_equal :: "'j cell \<Rightarrow> 'j cell \<Rightarrow> bool" where
  "values_equal VNull VNull = True"
| "values_equal (VBool a) (VBool b) = (a = b)"
| "values_equal (VInteger a) (VInteger b) = (a = b)"
| "values_equal (VFloat a) (VFloat b) = (a = b)"
| "values_equal (VString a) (VString b) = (a = b)"
| "values_equal (VBytes a) (VBytes b) = (a = b)"
| "values_equal (VTimestamp a) (VTimestamp b) = (a = b)"
| "values_equal (VJson a) (VJson b) = (a = b)"
| "values_equal _ _ = False"

fun optional_values_equal :: "'j cell option \<Rightarrow> 'j cell option \<Rightarrow> bool" where
  "optional_values_equal None None = True"
| "optional_values_equal (Some a) (Some b) = values_equal a b"
| "optional_values_equal None (Some v) = (v = VNull)"
| "optional_values_equal (Some v) None = (v = VNull)"

definition keys_equal :: "'j cell list \<Rightarrow> 'j cell list \<Rightarrow> bool" where
  "keys_equal a b \<longleftrightarrow> length a = length b \<and> list_all (\<lambda>(x, y). values_equal x y) (zip a b)"

definition rows_equal :: "'j row \<Rightarrow> 'j row \<Rightarrow> bool" where
  "rows_equal a b \<longleftrightarrow>
     length a = length b \<and> list_all (\<lambda>(x, y). optional_values_equal x y) (zip a b)"

subsection \<open>The order of values is total\<close>

fun value_code :: "('j \<Rightarrow> utext) \<Rightarrow> 'j cell \<Rightarrow> nat \<times> int \<times> nat list" where
  "value_code jt VNull = (0, 0, [])"
| "value_code jt (VBool b) = (1, of_bool b, [])"
| "value_code jt (VInteger i) = (2, i, [])"
| "value_code jt (VFloat w) = (3, total_key w, [])"
| "value_code jt (VString s) = (4, 0, bytes_of s)"
| "value_code jt (VBytes bs) = (5, 0, bs)"
| "value_code jt (VTimestamp s) = (6, 0, bytes_of s)"
| "value_code jt (VJson j) = (7, 0, bytes_of (jt j))"

lemma cmp_values_code: "cmp_values jt a b = cmp (value_code jt a) (value_code jt b)"
  by (cases a; cases b) (auto simp: cmp_def cmp_text_def less_prod_def)

interpretation value_order: coded_comparison "cmp_values jt" "\<lambda>_. True" "value_code jt" for jt
  by unfold_locales (rule cmp_values_code)

lemma cmp_Cons: "cmp (x # xs) (y # ys) = (if cmp x y \<noteq> Equal then cmp x y else cmp xs ys)"
  by (auto simp: cmp_def)

lemma cmp_Nil: "cmp [] xs = cmp 0 (length xs)" "cmp xs [] = cmp (length xs) 0"
  by (cases xs; simp add: cmp_def)+

lemma cmp_keys_code: "cmp_keys jt as bs = cmp (map (value_code jt) as) (map (value_code jt) bs)"
proof (induction jt as bs rule: cmp_keys.induct)
  case (1 jt a as b bs)
  then show ?case by (simp add: cmp_Cons cmp_values_code del: cmp_iff)
qed (simp_all add: cmp_Nil del: cmp_iff)

interpretation raw_key_order: coded_comparison "cmp_keys jt" "\<lambda>_. True" "map (value_code jt)" for jt
  by unfold_locales (rule cmp_keys_code)

end
