(* ===== verification/Sync_Model.thy ===== *)
theory Sync_Model
  imports Sync_Values
begin

text \<open>
  The records of a data synchronization (\<open>migration/data_sync/model.rs\<close>, \<open>changeset.rs\<close>, \<open>state.rs\<close>
  and \<open>session.rs\<close>): options, row changes, results of a comparison, the change set that is executed,
  and the session that leads from a draft to an execution.
\<close>

section \<open>Errors\<close>

datatype sync_error =
    DsValidation utext
  | DsConflict utext
  | DsIllegalTransition string string
  | DsIncompatible utext
  | DsCancelled utext
  | DsNotStarted utext
  | DsOutcomeUnknown utext

definition invalid :: "string \<Rightarrow> sync_error" where
  "invalid s = DsValidation (lit s)"

section \<open>Options\<close>

datatype conflict_policy = AbortOnConflict | SkipConflict | ForceWrite

datatype large_value_mode = FullValues | HashValues

datatype change_operation = OpInsert | OpUpdate | OpDelete | OpUnchanged

record sync_options =
  so_insert :: bool
  so_update :: bool
  so_delete :: bool
  so_batch_size :: nat
  so_large_values :: large_value_mode
  so_conflict_policy :: conflict_policy

definition default_options :: sync_options where
  "default_options = \<lparr>so_insert = True, so_update = True, so_delete = False, so_batch_size = 1000,
     so_large_values = FullValues, so_conflict_policy = AbortOnConflict\<rparr>"

definition options_validate :: "sync_options \<Rightarrow> sync_error option" where
  "options_validate os =
     (if so_batch_size os = 0 \<or> so_batch_size os > 1000
      then Some (invalid ''batchSize must be between 1 and 1000'') else None)"

fun allows :: "sync_options \<Rightarrow> change_operation \<Rightarrow> bool" where
  "allows os OpInsert = so_insert os"
| "allows os OpUpdate = so_update os"
| "allows os OpDelete = so_delete os"
| "allows os OpUnchanged = False"

fun default_selected :: "change_operation \<Rightarrow> sync_options \<Rightarrow> bool" where
  "default_selected OpInsert os = allows os OpInsert"
| "default_selected OpUpdate os = allows os OpUpdate"
| "default_selected OpDelete os = False"
| "default_selected OpUnchanged os = False"

section \<open>Row changes\<close>

record 'j sync_change =
  rc_operation :: change_operation
  rc_key :: "'j cell list"
  rc_source :: "'j row option"
  rc_target :: "'j row option"
  rc_columns :: "utext list"
  rc_selected :: bool

definition insert_change :: "'j cell list \<Rightarrow> 'j row \<Rightarrow> sync_options \<Rightarrow> 'j sync_change" where
  "insert_change key src os =
     \<lparr>rc_operation = OpInsert, rc_key = key, rc_source = Some src, rc_target = None, rc_columns = [],
      rc_selected = default_selected OpInsert os\<rparr>"

definition update_change ::
    "'j cell list \<Rightarrow> 'j row \<Rightarrow> 'j row \<Rightarrow> utext list \<Rightarrow> sync_options \<Rightarrow> 'j sync_change" where
  "update_change key src tgt cols os =
     \<lparr>rc_operation = OpUpdate, rc_key = key, rc_source = Some src, rc_target = Some tgt, rc_columns = cols,
      rc_selected = default_selected OpUpdate os\<rparr>"

definition delete_change :: "'j cell list \<Rightarrow> 'j row \<Rightarrow> sync_options \<Rightarrow> 'j sync_change" where
  "delete_change key tgt os =
     \<lparr>rc_operation = OpDelete, rc_key = key, rc_source = None, rc_target = Some tgt, rc_columns = [],
      rc_selected = default_selected OpDelete os\<rparr>"

definition unchanged_change :: "'j cell list \<Rightarrow> 'j row \<Rightarrow> 'j row \<Rightarrow> 'j sync_change" where
  "unchanged_change key src tgt =
     \<lparr>rc_operation = OpUnchanged, rc_key = key, rc_source = Some src, rc_target = Some tgt, rc_columns = [],
      rc_selected = False\<rparr>"

lemmas change_defs = insert_change_def update_change_def delete_change_def unchanged_change_def

definition eligible_for_changeset :: "sync_options \<Rightarrow> 'j sync_change \<Rightarrow> bool" where
  "eligible_for_changeset os c \<longleftrightarrow>
     rc_selected c \<and> rc_operation c \<noteq> OpUnchanged \<and> allows os (rc_operation c)"

section \<open>Results\<close>

datatype table_status = Matched | UnmappedSource | UnmappedTarget | TableDisabled | TableIncompatible

record 'j table_result =
  tr_source_table :: utext
  tr_target_table :: utext
  tr_status :: table_status
  tr_reason :: "utext option"
  tr_columns :: "utext list"
  tr_primary_keys :: "utext list"
  tr_unchanged :: nat
  tr_rows :: "'j sync_change list"

definition matched_table :: "utext \<Rightarrow> utext \<Rightarrow> 'j sync_change list \<Rightarrow> 'j table_result" where
  "matched_table s t rows =
     \<lparr>tr_source_table = s, tr_target_table = t, tr_status = Matched, tr_reason = None, tr_columns = [],
      tr_primary_keys = [], tr_unchanged = 0, tr_rows = rows\<rparr>"

definition rowless_table :: "utext \<Rightarrow> utext \<Rightarrow> table_status \<Rightarrow> utext option \<Rightarrow> 'j table_result" where
  "rowless_table s t status reason =
     \<lparr>tr_source_table = s, tr_target_table = t, tr_status = status, tr_reason = reason, tr_columns = [],
      tr_primary_keys = [], tr_unchanged = 0, tr_rows = []\<rparr>"

definition incompatible_table :: "utext \<Rightarrow> utext \<Rightarrow> utext \<Rightarrow> 'j table_result" where
  "incompatible_table s t reason = rowless_table s t TableIncompatible (Some reason)"

definition disabled_table :: "utext \<Rightarrow> utext \<Rightarrow> 'j table_result" where
  "disabled_table s t = rowless_table s t TableDisabled None"

definition unmapped_source_table :: "utext \<Rightarrow> 'j table_result" where
  "unmapped_source_table s = rowless_table s [] UnmappedSource None"

definition unmapped_target_table :: "utext \<Rightarrow> 'j table_result" where
  "unmapped_target_table t = rowless_table [] t UnmappedTarget None"

definition count_op :: "change_operation \<Rightarrow> 'j sync_change list \<Rightarrow> nat" where
  "count_op p rows = length (filter (\<lambda>r. rc_operation r = p) rows)"

definition unchanged_row_count :: "'j table_result \<Rightarrow> nat" where
  "unchanged_row_count t = tr_unchanged t + count_op OpUnchanged (tr_rows t)"

definition has_row_differences :: "'j table_result \<Rightarrow> bool" where
  "has_row_differences t \<longleftrightarrow>
     tr_status t = Matched \<and> list_ex (\<lambda>r. rc_operation r \<noteq> OpUnchanged) (tr_rows t)"

text \<open>A \<open>ComparisonResult\<close> is the list of its tables.\<close>

type_synonym 'j comparison_result = "'j table_result list"

definition comparison_count :: "change_operation \<Rightarrow> 'j comparison_result \<Rightarrow> nat" where
  "comparison_count p cmpr = sum_list (map (\<lambda>t. count_op p (tr_rows t)) cmpr)"

definition unchanged_table_count :: "'j comparison_result \<Rightarrow> nat" where
  "unchanged_table_count cmpr = length (filter (\<lambda>t. tr_status t = Matched \<and> \<not> has_row_differences t) cmpr)"

definition incompatible_count :: "'j comparison_result \<Rightarrow> nat" where
  "incompatible_count cmpr = length (filter (\<lambda>t. tr_status t = TableIncompatible) cmpr)"

definition tables_with_differences :: "'j comparison_result \<Rightarrow> nat" where
  "tables_with_differences cmpr = length (filter has_row_differences cmpr)"

section \<open>Change sets\<close>

record 'j table_changes =
  tc_source_table :: utext
  tc_target_table :: utext
  tc_changes :: "'j sync_change list"

record 'j change_set =
  cs_task :: utext
  cs_tables :: "'j table_changes list"

definition table_changeset :: "sync_options \<Rightarrow> 'j table_result \<Rightarrow> 'j table_changes option" where
  "table_changeset os t =
     (let changes = filter (eligible_for_changeset os) (tr_rows t)
      in if changes = [] then None
         else Some \<lparr>tc_source_table = tr_source_table t, tc_target_table = tr_target_table t, tc_changes = changes\<rparr>)"

definition from_comparison :: "utext \<Rightarrow> 'j comparison_result \<Rightarrow> sync_options \<Rightarrow> 'j change_set" where
  "from_comparison task cmpr os =
     \<lparr>cs_task = task,
      cs_tables = List.map_filter (table_changeset os) (filter (\<lambda>t. tr_status t = Matched) cmpr)\<rparr>"

definition change_set_empty :: "'j change_set \<Rightarrow> bool" where
  "change_set_empty cs \<longleftrightarrow> list_all (\<lambda>t. tc_changes t = []) (cs_tables cs)"

definition validate_executable :: "'j change_set \<Rightarrow> sync_error option" where
  "validate_executable cs =
     (if change_set_empty cs then Some (invalid ''change set is empty; nothing to execute'') else None)"

definition changeset_count :: "change_operation \<Rightarrow> 'j change_set \<Rightarrow> nat" where
  "changeset_count p cs = sum_list (map (\<lambda>t. count_op p (tc_changes t)) (cs_tables cs))"

definition empty_change_set :: "utext \<Rightarrow> 'j change_set" where
  "empty_change_set task = \<lparr>cs_task = task, cs_tables = []\<rparr>"

definition total_changes :: "'j change_set \<Rightarrow> nat" where
  "total_changes cs = changeset_count OpInsert cs + changeset_count OpUpdate cs + changeset_count OpDelete cs"

definition requires_delete_confirmation :: "'j change_set \<Rightarrow> bool" where
  "requires_delete_confirmation cs \<longleftrightarrow> changeset_count OpDelete cs > 0"

section \<open>Tasks\<close>

record sync_endpoint =
  er_session :: utext
  er_database :: utext
  er_schema :: "utext option"

definition normalized_schema :: "sync_endpoint \<Rightarrow> utext option" where
  "normalized_schema e =
     (case er_schema e of None \<Rightarrow> None | Some s \<Rightarrow> (let t = utrim s in if t = [] then None else Some t))"

definition same_database_as :: "sync_endpoint \<Rightarrow> sync_endpoint \<Rightarrow> bool" where
  "same_database_as a b \<longleftrightarrow>
     er_session a = er_session b \<and> er_database a = er_database b \<and> normalized_schema a = normalized_schema b"

record sync_task =
  st_id :: utext
  st_source :: sync_endpoint
  st_target :: sync_endpoint
  st_options :: sync_options

definition task_validate :: "sync_task \<Rightarrow> sync_error option" where
  "task_validate t =
     (if utrim (st_id t) = [] then Some (invalid ''sync task id is required'')
      else if utrim (er_session (st_source t)) = [] \<or> utrim (er_session (st_target t)) = []
        then Some (invalid ''source and target db session ids are required'')
      else if utrim (er_database (st_source t)) = [] \<or> utrim (er_database (st_target t)) = []
        then Some (invalid ''source and target databases are required'')
      else if same_database_as (st_source t) (st_target t)
        then Some (invalid ''self-sync of the same database is not allowed'')
      else options_validate (st_options t))"

section \<open>Phases\<close>

datatype sync_phase =
    Draft | Configured | Comparing | Compared | Reviewing | GeneratingSql | ReadyToExecute
  | Revalidating | Executing | Completed | CompareFailed | ValidationFailed | ExecutionFailed
  | SyncCancelled | SyncRolledBack

fun phase_name :: "sync_phase \<Rightarrow> string" where
  "phase_name Draft = ''DRAFT''"
| "phase_name Configured = ''CONFIGURED''"
| "phase_name Comparing = ''COMPARING''"
| "phase_name Compared = ''COMPARED''"
| "phase_name Reviewing = ''REVIEWING''"
| "phase_name GeneratingSql = ''GENERATING_SQL''"
| "phase_name ReadyToExecute = ''READY_TO_EXECUTE''"
| "phase_name Revalidating = ''REVALIDATING''"
| "phase_name Executing = ''EXECUTING''"
| "phase_name Completed = ''COMPLETED''"
| "phase_name CompareFailed = ''COMPARE_FAILED''"
| "phase_name ValidationFailed = ''VALIDATION_FAILED''"
| "phase_name ExecutionFailed = ''EXECUTION_FAILED''"
| "phase_name SyncCancelled = ''CANCELLED''"
| "phase_name SyncRolledBack = ''ROLLED_BACK''"

definition is_terminal_success :: "sync_phase \<Rightarrow> bool" where
  "is_terminal_success p \<longleftrightarrow> p = Completed"

definition is_failure :: "sync_phase \<Rightarrow> bool" where
  "is_failure p \<longleftrightarrow> p \<in> {CompareFailed, ValidationFailed, ExecutionFailed, SyncCancelled, SyncRolledBack}"

definition is_comparing :: "sync_phase \<Rightarrow> bool" where
  "is_comparing p \<longleftrightarrow> p = Comparing"

definition is_execute_related :: "sync_phase \<Rightarrow> bool" where
  "is_execute_related p \<longleftrightarrow> p \<in> {GeneratingSql, ReadyToExecute, Revalidating, Executing, Completed}"

text \<open>The phases that may follow a phase.\<close>

fun next_phases :: "sync_phase \<Rightarrow> sync_phase list" where
  "next_phases Draft = [Configured, SyncCancelled]"
| "next_phases Configured = [Comparing, Draft, SyncCancelled]"
| "next_phases Comparing = [Compared, CompareFailed, SyncCancelled]"
| "next_phases Compared = [Reviewing, Comparing, SyncCancelled]"
| "next_phases Reviewing = [GeneratingSql, Comparing, SyncCancelled]"
| "next_phases GeneratingSql = [ReadyToExecute, ValidationFailed, SyncCancelled]"
| "next_phases ReadyToExecute = [Revalidating, Reviewing, ValidationFailed, SyncCancelled]"
| "next_phases Revalidating = [Executing, ValidationFailed, SyncCancelled]"
| "next_phases Executing = [Completed, ExecutionFailed, SyncCancelled, SyncRolledBack]"
| "next_phases Completed = [Comparing, SyncCancelled]"
| "next_phases CompareFailed = [Configured, Comparing, SyncCancelled]"
| "next_phases ValidationFailed = [ReadyToExecute, Reviewing, SyncCancelled]"
| "next_phases ExecutionFailed = [ReadyToExecute, SyncRolledBack, SyncCancelled]"
| "next_phases SyncCancelled = [Draft, Configured]"
| "next_phases SyncRolledBack = [Reviewing, Comparing, SyncCancelled]"

definition can_transition_to :: "sync_phase \<Rightarrow> sync_phase \<Rightarrow> bool" where
  "can_transition_to p q \<longleftrightarrow>
     p \<noteq> q \<and> \<not> (p = Comparing \<and> is_execute_related q) \<and> q \<in> set (next_phases p)"

definition phase_transition :: "sync_phase \<Rightarrow> sync_phase \<Rightarrow> sync_error + sync_phase" where
  "phase_transition p q =
     (if can_transition_to p q then Inr q else Inl (DsIllegalTransition (phase_name p) (phase_name q)))"

section \<open>Sessions\<close>

text \<open>
  An operation returns the session it leaves behind, also when it fails: the fields are assigned
  before the phase is checked.
\<close>

record 'j sync_session =
  ss_task :: sync_task
  ss_phase :: sync_phase
  ss_comparison :: "'j comparison_result option"
  ss_change_set :: "'j change_set option"

definition session_new :: "sync_task \<Rightarrow> 'j sync_session" where
  "session_new t = \<lparr>ss_task = t, ss_phase = Draft, ss_comparison = None, ss_change_set = None\<rparr>"

type_synonym 'j session_op = "'j sync_session \<Rightarrow> sync_error option \<times> 'j sync_session"

definition go :: "sync_phase \<Rightarrow> 'j session_op" where
  "go q s = (case phase_transition (ss_phase s) q of
     Inl e \<Rightarrow> (Some e, s) | Inr p \<Rightarrow> (None, s\<lparr>ss_phase := p\<rparr>))"

definition configure :: "'j session_op" where
  "configure s = (case task_validate (ss_task s) of Some e \<Rightarrow> (Some e, s) | None \<Rightarrow> go Configured s)"

definition start_compare :: "'j session_op" where
  "start_compare s =
     (case task_validate (ss_task s) of
        Some e \<Rightarrow> (Some e, s)
      | None \<Rightarrow> go Comparing (s\<lparr>ss_comparison := None, ss_change_set := None\<rparr>))"

definition finish_compare :: "'j comparison_result \<Rightarrow> 'j session_op" where
  "finish_compare c s = go Compared (s\<lparr>ss_comparison := Some c\<rparr>)"

definition fail_compare :: "'j session_op" where
  "fail_compare = go CompareFailed"

definition begin_review :: "'j session_op" where
  "begin_review s =
     (if ss_comparison s = None then (Some (invalid ''cannot review without a comparison result''), s)
      else go Reviewing s)"

definition generate_change_set :: "'j session_op" where
  "generate_change_set s =
     (case go GeneratingSql s of
        (Some e, s') \<Rightarrow> (Some e, s')
      | (None, s') \<Rightarrow>
          (case ss_comparison s' of
             None \<Rightarrow> (Some (invalid ''cannot generate change set without comparison''), s')
           | Some c \<Rightarrow>
               go ReadyToExecute
                 (s'\<lparr>ss_change_set := Some (from_comparison (st_id (ss_task s')) c (st_options (ss_task s')))\<rparr>)))"

definition start_revalidate :: "'j session_op" where
  "start_revalidate s =
     (case ss_change_set s of
        None \<Rightarrow> (Some (invalid ''cannot execute without a change set''), s)
      | Some cs \<Rightarrow> (case validate_executable cs of Some e \<Rightarrow> (Some e, s) | None \<Rightarrow> go Revalidating s))"

definition start_execute :: "'j session_op" where
  "start_execute = go Executing"

definition complete_session :: "'j session_op" where
  "complete_session = go Completed"

definition fail_validation :: "'j session_op" where
  "fail_validation = go ValidationFailed"

definition fail_execution :: "'j session_op" where
  "fail_execution = go ExecutionFailed"

definition rollback_session :: "'j session_op" where
  "rollback_session = go SyncRolledBack"

definition cancel_session :: "'j session_op" where
  "cancel_session = go SyncCancelled"

definition reset_to_draft :: "'j session_op" where
  "reset_to_draft s = go Draft (s\<lparr>ss_comparison := None, ss_change_set := None\<rparr>)"

lemmas session_op_defs = configure_def start_compare_def finish_compare_def fail_compare_def
  begin_review_def generate_change_set_def start_revalidate_def start_execute_def
  complete_session_def fail_validation_def fail_execution_def rollback_session_def
  cancel_session_def reset_to_draft_def

end
