(* ===== verification/Sync_Decimal.thy ===== *)
theory Sync_Decimal
  imports Sync_Values
begin

text \<open>
  The normalized key values of the data synchronization (\<open>datazen-driver-api/src/sync/key.rs\<close>): exact
  decimals with their order, and the contract of a key column that turns a value into such a key.
  What the code takes from elsewhere is the parameter \<open>env\<close>: printing a float, and the two chrono
  functions that parse a timestamp and print it in the fixed layout.
\<close>

section \<open>Numbers in text\<close>

definition all_digits :: "utext \<Rightarrow> bool" where
  "all_digits s \<longleftrightarrow> list_all is_digit s"

definition digits_val :: "utext \<Rightarrow> nat" where
  "digits_val s = foldl (\<lambda>a c. a * 10 + (c - 48)) 0 s"

text \<open>\<open>str::parse\<close> of a signed integer type with the given range.\<close>

fun sign_of :: "utext \<Rightarrow> bool \<times> utext" where
  "sign_of [] = (False, [])"
| "sign_of (c # s) = (if c = 45 then (True, s) else if c = 43 then (False, s) else (False, c # s))"

definition in_quotes :: "utext \<Rightarrow> utext" where
  "in_quotes s = 39 # s @ [39]"

definition parse_int :: "int \<Rightarrow> int \<Rightarrow> utext \<Rightarrow> int option" where
  "parse_int lo hi s =
     (let (neg, ds) = sign_of s; v = (if neg then - int (digits_val ds) else int (digits_val ds))
      in if ds = [] \<or> \<not> all_digits ds \<or> v < lo \<or> hi < v then None else Some v)"

definition parse_i32 :: "utext \<Rightarrow> int option" where
  "parse_i32 = parse_int (- (2 ^ 31)) (2 ^ 31 - 1)"

definition parse_i128 :: "utext \<Rightarrow> int option" where
  "parse_i128 = parse_int (- (2 ^ 127)) (2 ^ 127 - 1)"

text \<open>The \<open>i32\<close> subtraction of the release build wraps.\<close>

definition wrap_i32 :: "int \<Rightarrow> int" where
  "wrap_i32 i = (i + 2 ^ 31) mod 2 ^ 32 - 2 ^ 31"

fun split_char :: "nat \<Rightarrow> utext \<Rightarrow> utext list" where
  "split_char sep [] = [[]]"
| "split_char sep (c # cs) =
     (if c = sep then [] # split_char sep cs
      else (case split_char sep cs of p # ps \<Rightarrow> (c # p) # ps | [] \<Rightarrow> [[c]]))"

section \<open>Decimal keys\<close>

record decimal_key =
  dk_negative :: bool
  dk_digits :: utext
  dk_scale :: nat

fun drop_leading_zeros :: "utext \<Rightarrow> utext" where
  "drop_leading_zeros (c # d # ds) = (if c = 48 then drop_leading_zeros (d # ds) else c # d # ds)"
| "drop_leading_zeros ds = ds"

text \<open>The trailing zeros of a fraction; the digits are reversed.\<close>

fun drop_fraction_zeros :: "utext \<Rightarrow> nat \<Rightarrow> utext \<times> nat" where
  "drop_fraction_zeros (c # ds) (Suc n) = (if c = 48 then drop_fraction_zeros ds n else (c # ds, Suc n))"
| "drop_fraction_zeros ds n = (ds, n)"

lemma drop_fraction_zeros_code [code]:
  "drop_fraction_zeros ds n =
     (case ds of [] \<Rightarrow> ([], n) | c # cs \<Rightarrow> if c = 48 \<and> 0 < n then drop_fraction_zeros cs (n - 1) else (ds, n))"
  by (cases n) (auto split: list.splits)

definition zero_key :: decimal_key where
  "zero_key = \<lparr>dk_negative = False, dk_digits = [48], dk_scale = 0\<rparr>"

definition normal_decimal :: "bool \<Rightarrow> utext \<Rightarrow> nat \<Rightarrow> decimal_key" where
  "normal_decimal neg digits scale =
     (let (rds, s) = drop_fraction_zeros (rev (drop_leading_zeros digits)) scale; ds = rev rds
      in if list_all (\<lambda>c. c = 48) ds then zero_key
         else \<lparr>dk_negative = neg, dk_digits = ds, dk_scale = s\<rparr>)"

definition split_exponent :: "utext \<Rightarrow> utext \<Rightarrow> utext + utext \<times> int" where
  "split_exponent raw s =
     (let m = takeWhile (\<lambda>c. c \<noteq> 101 \<and> c \<noteq> 69) s; rest = drop (length m) s
      in if rest = [] then Inr (s, 0)
         else (case parse_i32 (tl rest) of
                 None \<Rightarrow> Inl (lit ''invalid decimal exponent in '' @ in_quotes raw)
               | Some e \<Rightarrow> Inr (m, e)))"

definition split_mantissa :: "utext \<Rightarrow> (utext \<times> utext) option" where
  "split_mantissa m =
     (case split_char 46 m of
        [w] \<Rightarrow> if w \<noteq> [] \<and> all_digits w then Some (w, []) else None
      | [w, f] \<Rightarrow> if (w \<noteq> [] \<or> f \<noteq> []) \<and> all_digits w \<and> all_digits f then Some (w, f) else None
      | _ \<Rightarrow> None)"

definition scaled_decimal :: "bool \<Rightarrow> utext \<Rightarrow> int \<Rightarrow> utext + decimal_key" where
  "scaled_decimal neg digits scale =
     (if scale < 0 then
        if scale = - (2 ^ 31) then Inl (lit ''decimal exponent is outside the supported range'')
        else if - scale > 4096 then Inl (lit ''decimal exponent exceeds the normalization limit'')
        else Inr (normal_decimal neg (digits @ replicate (nat (- scale)) 48) 0)
      else if scale > 4096 then Inl (lit ''decimal scale exceeds the normalization limit'')
      else Inr (normal_decimal neg digits (nat scale)))"

definition decimal_parse :: "utext \<Rightarrow> utext + decimal_key" where
  "decimal_parse raw0 =
     (let raw = utrim raw0
      in if raw = [] then Inl (lit ''decimal sync key is empty'')
         else if length (bytes_of raw) > 4096
              then Inl (lit ''decimal sync key exceeds the 4096-byte normalization limit'')
         else (let (neg, body) = sign_of raw
               in obind (split_exponent raw body) (\<lambda>(mantissa, exponent).
                  case split_mantissa mantissa of
                    None \<Rightarrow> Inl (lit ''invalid decimal sync key '' @ in_quotes raw)
                  | Some (whole, fraction) \<Rightarrow>
                      scaled_decimal neg (whole @ fraction)
                        (wrap_i32 (int (length fraction) - exponent)))))"

subsection \<open>Order\<close>

definition integral_digits :: "decimal_key \<Rightarrow> nat" where
  "integral_digits k = length (dk_digits k) - dk_scale k"

definition padded :: "nat \<Rightarrow> decimal_key \<Rightarrow> utext" where
  "padded scale k = dk_digits k @ replicate (scale - dk_scale k) 48"

definition cmp_magnitude :: "decimal_key \<Rightarrow> decimal_key \<Rightarrow> ordering" where
  "cmp_magnitude a b =
     (let scale = max (dk_scale a) (dk_scale b)
      in then_with (cmp (integral_digits a) (integral_digits b)) (cmp (padded scale a) (padded scale b)))"

definition cmp_decimal :: "decimal_key \<Rightarrow> decimal_key \<Rightarrow> ordering" where
  "cmp_decimal a b =
     (if dk_negative a \<noteq> dk_negative b then if dk_negative a then Less else Greater
      else if dk_negative a then reverse (cmp_magnitude a b) else cmp_magnitude a b)"

section \<open>Normalized keys\<close>

datatype sync_key =
    KInteger int
  | KText "nat list"
  | KDecimal decimal_key
  | KTimestamp utext

fun sync_key_kind_rank :: "sync_key \<Rightarrow> nat" where
  "sync_key_kind_rank (KInteger _) = 0"
| "sync_key_kind_rank (KText _) = 1"
| "sync_key_kind_rank (KDecimal _) = 2"
| "sync_key_kind_rank (KTimestamp _) = 3"

fun cmp_sync_key :: "sync_key \<Rightarrow> sync_key \<Rightarrow> ordering" where
  "cmp_sync_key (KInteger a) (KInteger b) = cmp a b"
| "cmp_sync_key (KText a) (KText b) = cmp a b"
| "cmp_sync_key (KDecimal a) (KDecimal b) = cmp_decimal a b"
| "cmp_sync_key (KTimestamp a) (KTimestamp b) = cmp_text a b"
| "cmp_sync_key a b = cmp (sync_key_kind_rank a) (sync_key_kind_rank b)"

text \<open>\<open>Vec::cmp\<close>: element by element, then the lengths.\<close>

fun cmp_sync_keys :: "sync_key list \<Rightarrow> sync_key list \<Rightarrow> ordering" where
  "cmp_sync_keys (a # as) (b # bs) = then_with (cmp_sync_key a b) (cmp_sync_keys as bs)"
| "cmp_sync_keys as bs = cmp (length as) (length bs)"

definition same_kind :: "sync_key \<Rightarrow> sync_key \<Rightarrow> bool" where
  "same_kind a b \<longleftrightarrow> sync_key_kind_rank a = sync_key_kind_rank b"

fun from_value :: "'j cell \<Rightarrow> utext + sync_key" where
  "from_value (VInteger i) = Inr (KInteger i)"
| "from_value (VString s) = Inr (KText (bytes_of s))"
| "from_value (VBytes bs) = Inr (KText bs)"
| "from_value _ = Inl (lit ''value has no generic sync key ordering'')"

subsection \<open>Key contracts\<close>

datatype key_kind =
    IntegerKind bool
  | TextKind
  | DecimalKind "nat option"
  | TimestampKind bool nat

definition is_finite_float :: "64 word \<Rightarrow> bool" where
  "is_finite_float w \<longleftrightarrow> drop_bit 52 w AND 0x7FF \<noteq> 0x7FF"

fun integer_text :: "'j cell \<Rightarrow> utext + utext" where
  "integer_text (VInteger i) = Inr (int_text i)"
| "integer_text (VString s) = Inr (utrim s)"
| "integer_text _ = Inl (lit ''integer sync key was returned with a non-integer value'')"

definition normalize_integer :: "bool \<Rightarrow> utext \<Rightarrow> utext + sync_key" where
  "normalize_integer u text =
     (case parse_i128 text of
        None \<Rightarrow> Inl (lit ''integer sync key '' @ in_quotes text @ lit '' is outside the supported exact range'')
      | Some i \<Rightarrow> if u \<and> i < 0 then Inl (lit ''unsigned sync key cannot be negative: '' @ text)
                  else Inr (KInteger i))"

fun normalize_text :: "'j cell \<Rightarrow> utext + sync_key" where
  "normalize_text (VString s) = Inr (KText (bytes_of s))"
| "normalize_text (VBytes bs) = Inr (KText bs)"
| "normalize_text _ = Inl (lit ''text sync key was returned with a non-text value'')"

fun decimal_text :: "(64 word \<Rightarrow> utext) \<Rightarrow> 'j cell \<Rightarrow> utext + utext" where
  "decimal_text fl (VInteger i) = Inr (int_text i)"
| "decimal_text fl (VFloat w) = (if is_finite_float w then Inr (fl w)
     else Inl (lit ''decimal sync key was returned with a non-numeric value''))"
| "decimal_text fl (VString s) = Inr (utrim s)"
| "decimal_text fl _ = Inl (lit ''decimal sync key was returned with a non-numeric value'')"

fun timestamp_text :: "'j cell \<Rightarrow> utext + utext" where
  "timestamp_text (VTimestamp s) = Inr s"
| "timestamp_text (VString s) = Inr s"
| "timestamp_text _ = Inl (lit ''timestamp sync key was returned with a non-text value'')"

definition null_key_error :: utext where
  "null_key_error = lit ''NULL key values are not supported by the Data Sync key contract''"

definition format_timestamp :: "utext \<Rightarrow> nat \<Rightarrow> utext" where
  "format_timestamp v precision =
     (let pre = takeWhile (\<lambda>c. c \<noteq> 46) v; rest = drop (length pre) v
      in if rest = [] then v
         else (let frac = takeWhile is_digit (tl rest); kept = take precision frac
               in pre @ (if kept = [] then [] else 46 # kept) @ drop (length frac) (tl rest)))"

record key_env =
  float_text :: "64 word \<Rightarrow> utext"
  chrono_utc :: "utext \<Rightarrow> utext option"
  chrono_naive :: "utext \<Rightarrow> utext option"

definition normalize_timestamp :: "key_env \<Rightarrow> utext \<Rightarrow> bool \<Rightarrow> nat \<Rightarrow> utext + utext" where
  "normalize_timestamp env raw0 tz precision =
     (let raw = utrim raw0
      in if tz then
           (case chrono_utc env raw of
              None \<Rightarrow> Inl (lit ''timestamp sync key '' @ in_quotes raw @ lit '' is not a valid RFC3339 timestamp'')
            | Some s \<Rightarrow> Inr (format_timestamp s precision))
         else
           (case chrono_naive env (map (\<lambda>c. if c = 84 then 32 else c) raw) of
              None \<Rightarrow> Inl (lit ''timestamp sync key '' @ in_quotes raw @ lit '' is not a valid timezone-free timestamp'')
            | Some s \<Rightarrow> Inr (format_timestamp s precision)))"

text \<open>\<open>SyncKeyContract::normalize\<close>; the only null policy is to reject.\<close>

definition normalize_key :: "key_env \<Rightarrow> key_kind \<Rightarrow> 'j cell option \<Rightarrow> utext + sync_key" where
  "normalize_key env kind cell =
     (case cell of
        None \<Rightarrow> Inl null_key_error
      | Some VNull \<Rightarrow> Inl null_key_error
      | Some v \<Rightarrow>
          (case kind of
             IntegerKind u \<Rightarrow> obind (integer_text v) (normalize_integer u)
           | TextKind \<Rightarrow> normalize_text v
           | DecimalKind _ \<Rightarrow>
               obind (decimal_text (float_text env) v) (\<lambda>t. obind (decimal_parse t) (\<lambda>k. Inr (KDecimal k)))
           | TimestampKind tz precision \<Rightarrow>
               obind (timestamp_text v) (\<lambda>t. obind (normalize_timestamp env t tz precision) (\<lambda>s. Inr (KTimestamp s)))))"

end
