(* ===== verification/Sync_Compare.thy ===== *)
theory Sync_Compare
  imports Sync_Model Sync_Decimal
begin

text \<open>
  The comparison of two tables (\<open>migration/data_sync/compare.rs\<close>): the merge of two sorted lists of
  rows, and the streaming merge that fetches the rows page by page from two sources, checks every
  page and hands each difference to a sink. A page source is a state machine that answers a request
  for the page after a key; the driver behind it, the size of a serialized value and the state of the
  sink are parameters. \<open>ce_cancelled\<close> tells whether the cancel flag is seen set in a round of the loop.
\<close>

section \<open>Rows\<close>

fun extract_key :: "'j row \<Rightarrow> nat list \<Rightarrow> sync_error + 'j cell list" where
  "extract_key row [] = Inr []"
| "extract_key row (i # is) =
     (if length row \<le> i
      then Inl (DsValidation (lit ''primary key index '' @ int_text (int i) @ lit '' out of row bounds''))
      else obind (extract_key row is) (\<lambda>k. Inr ((case row ! i of None \<Rightarrow> VNull | Some v \<Rightarrow> v) # k)))"

definition diff_changed_columns :: "'j row \<Rightarrow> 'j row \<Rightarrow> utext list \<Rightarrow> nat list \<Rightarrow> utext list" where
  "diff_changed_columns src tgt names pk =
     map (\<lambda>i. names ! i)
       (filter (\<lambda>i. i \<notin> set pk \<and> \<not> optional_values_equal (src ! i) (tgt ! i))
         [0..<min (length names) (min (length src) (length tgt))])"

section \<open>The merge in memory\<close>

definition paired_change :: "'j cell list \<Rightarrow> 'j row \<Rightarrow> 'j row \<Rightarrow> nat list \<Rightarrow> utext list \<Rightarrow> sync_options \<Rightarrow> 'j sync_change" where
  "paired_change key src tgt pk names os =
     (let cols = diff_changed_columns src tgt names pk
      in if cols = [] then unchanged_change key src tgt else update_change key src tgt cols os)"

definition prepend :: "'a \<Rightarrow> 'e + 'a list \<Rightarrow> 'e + 'a list" where
  "prepend x r = obind r (\<lambda>xs. Inr (x # xs))"

fun compare_sorted_rows ::
    "('j \<Rightarrow> utext) \<Rightarrow> nat list \<Rightarrow> utext list \<Rightarrow> sync_options \<Rightarrow> 'j row list \<Rightarrow> 'j row list \<Rightarrow>
     sync_error + 'j sync_change list" where
  "compare_sorted_rows jt pk names os [] [] = Inr []"
| "compare_sorted_rows jt pk names os [] (t # ts) =
     obind (extract_key t pk) (\<lambda>key.
       prepend (delete_change key t os) (compare_sorted_rows jt pk names os [] ts))"
| "compare_sorted_rows jt pk names os (s # ss) [] =
     obind (extract_key s pk) (\<lambda>key.
       prepend (insert_change key s os) (compare_sorted_rows jt pk names os ss []))"
| "compare_sorted_rows jt pk names os (s # ss) (t # ts) =
     obind (extract_key s pk) (\<lambda>skey. obind (extract_key t pk) (\<lambda>tkey.
       (case cmp_keys jt skey tkey of
          Less \<Rightarrow> prepend (insert_change skey s os) (compare_sorted_rows jt pk names os ss (t # ts))
        | Greater \<Rightarrow> prepend (delete_change tkey t os) (compare_sorted_rows jt pk names os (s # ss) ts)
        | Equal \<Rightarrow> prepend (paired_change skey s t pk names os) (compare_sorted_rows jt pk names os ss ts))))"

section \<open>Pages\<close>

record ('s, 'j) page_source =
  next_page :: "'s \<Rightarrow> 'j cell list option \<Rightarrow> nat \<Rightarrow> (sync_error + 'j row list) \<times> 's"
  normalize_raw :: "'j cell list \<Rightarrow> sync_error + sync_key list"

definition max_page_bytes :: nat where
  "max_page_bytes = 8 * 1024 * 1024"

definition page_size_error :: sync_error where
  "page_size_error =
     invalid ''comparison page exceeds 1000 rows / 8 MiB; reduce batch size or large column values''"

definition width_error :: sync_error where
  "width_error =
     invalid ''row width differs from canonical projection; compare again after checking the driver''"

definition missing_key_error :: sync_error where
  "missing_key_error = invalid ''comparison requires primary key columns''"

definition null_key_cell_error :: sync_error where
  "null_key_cell_error = invalid ''comparison requires non-null primary keys''"

definition key_order_error :: sync_error where
  "key_order_error = invalid (''normalized primary key stream is not strictly increasing; check key collation, '' @
     ''duplicate keys and driver ordering, then compare again'')"

fun validate_rows ::
    "('j cell list \<Rightarrow> sync_error + sync_key list) \<Rightarrow> nat list \<Rightarrow> utext list \<Rightarrow> sync_key list option \<Rightarrow>
     'j row list \<Rightarrow> sync_error + unit" where
  "validate_rows norm pk names prev [] = Inr ()"
| "validate_rows norm pk names prev (row # rows) =
     (if length row \<noteq> length names then Inl width_error
      else obind (extract_key row pk) (\<lambda>raw.
        if raw = [] then Inl missing_key_error
        else if list_ex (\<lambda>v. v = VNull) raw then Inl null_key_cell_error
        else obind (norm raw) (\<lambda>key.
          if (case prev of None \<Rightarrow> False | Some p \<Rightarrow> cmp_sync_keys key p \<noteq> Greater) then Inl key_order_error
          else validate_rows norm pk names (Some key) rows)))"

fun normalize_after ::
    "('j cell list \<Rightarrow> sync_error + sync_key list) \<Rightarrow> 'j cell list option \<Rightarrow> sync_error + sync_key list option" where
  "normalize_after norm None = Inr None"
| "normalize_after norm (Some raw) = obind (norm raw) (\<lambda>k. Inr (Some k))"

definition validate_page ::
    "('j row list \<Rightarrow> sync_error + nat) \<Rightarrow> ('j cell list \<Rightarrow> sync_error + sync_key list) \<Rightarrow> nat list \<Rightarrow>
     utext list \<Rightarrow> 'j row list \<Rightarrow> 'j cell list option \<Rightarrow> sync_error + unit" where
  "validate_page page_bytes norm pk names page after =
     (if length page > 1000 then Inl page_size_error
      else obind (page_bytes page) (\<lambda>n.
        if n > max_page_bytes then Inl page_size_error
        else obind (normalize_after norm after) (\<lambda>prev. validate_rows norm pk names prev page)))"

section \<open>The streaming merge\<close>

record ('s, 't, 'j, 'k) compare_env =
  ce_source :: "('s, 'j) page_source"
  ce_target :: "('t, 'j) page_source"
  ce_pk :: "nat list"
  ce_columns :: "utext list"
  ce_options :: sync_options
  ce_page_bytes :: "'j row list \<Rightarrow> sync_error + nat"
  ce_change_bytes :: "'j sync_change \<Rightarrow> sync_error + nat"
  ce_push :: "'j sync_change \<Rightarrow> 'k \<Rightarrow> sync_error + 'k"
  ce_unchanged :: "'k \<Rightarrow> sync_error + 'k"
  ce_cancelled :: "nat \<Rightarrow> bool"
  ce_limits :: "(nat \<times> nat) option"

record ('s, 'j) cursor =
  cu_source :: 's
  cu_page :: "'j row list"
  cu_index :: nat

record 'k merge_progress =
  mp_unchanged :: nat
  mp_bytes :: nat
  mp_count :: nat
  mp_sink :: 'k
  mp_round :: nat

record ('s, 't, 'j, 'k) merge_state =
  ms_source :: "('s, 'j) cursor"
  ms_target :: "('t, 'j) cursor"
  ms_progress :: "'k merge_progress"

definition check_page ::
    "('s, 't, 'j, 'k) compare_env \<Rightarrow> ('p, 'j) page_source \<Rightarrow> 'j row list \<Rightarrow> 'j cell list option \<Rightarrow> sync_error + unit" where
  "check_page E src page after =
     validate_page (ce_page_bytes E) (normalize_raw src) (ce_pk E) (ce_columns E) page after"

definition refill ::
    "('s, 't, 'j, 'k) compare_env \<Rightarrow> ('p, 'j) page_source \<Rightarrow> ('p, 'j) cursor \<Rightarrow> sync_error + ('p, 'j) cursor" where
  "refill E src c =
     (if length (cu_page c) \<le> cu_index c \<and> cu_page c \<noteq> []
      then obind (extract_key (last (cu_page c)) (ce_pk E)) (\<lambda>after.
        (let (r, p) = next_page src (cu_source c) (Some after) (so_batch_size (ce_options E))
         in obind r (\<lambda>page. obind (check_page E src page (Some after)) (\<lambda>_.
              Inr \<lparr>cu_source = p, cu_page = page, cu_index = 0\<rparr>))))
      else Inr c)"

definition count_overflow_error :: sync_error where
  "count_overflow_error = invalid ''comparison change count overflowed''"

definition record_change ::
    "('s, 't, 'j, 'k) compare_env \<Rightarrow> 'j sync_change \<Rightarrow> 'k merge_progress \<Rightarrow> sync_error + 'k merge_progress" where
  "record_change E c p =
     obind (ce_change_bytes E c) (\<lambda>n.
       if mp_count p + 1 > u64_max then Inl count_overflow_error
       else obind (ce_push E c (mp_sink p)) (\<lambda>k.
         Inr (p\<lparr>mp_bytes := sat_add64 (mp_bytes p) n, mp_count := mp_count p + 1, mp_sink := k\<rparr>)))"

definition record_unchanged ::
    "('s, 't, 'j, 'k) compare_env \<Rightarrow> 'k merge_progress \<Rightarrow> sync_error + 'k merge_progress" where
  "record_unchanged E p =
     obind (ce_unchanged E (mp_sink p)) (\<lambda>k. Inr (p\<lparr>mp_unchanged := mp_unchanged p + 1, mp_sink := k\<rparr>))"

definition contracts_differ_error :: sync_error where
  "contracts_differ_error = invalid (''source and target normalized key contracts differ; compare again after '' @
     ''checking driver capabilities and key types'')"

definition same_contract :: "sync_key list \<Rightarrow> sync_key list \<Rightarrow> bool" where
  "same_contract a b \<longleftrightarrow> length a = length b \<and> list_all (\<lambda>(x, y). same_kind x y) (zip a b)"

datatype merge_move = TakeSource | TakeTarget | TakeBoth

text \<open>One row of the source or of the target, or one of each, is settled.\<close>

definition delete_row ::
    "('s, 't, 'j, 'k) compare_env \<Rightarrow> 'j row \<Rightarrow> 'k merge_progress \<Rightarrow> sync_error + merge_move \<times> 'k merge_progress" where
  "delete_row E t p =
     obind (extract_key t (ce_pk E)) (\<lambda>key.
     obind (record_change E (delete_change key t (ce_options E)) p) (\<lambda>p'. Inr (TakeTarget, p')))"

definition insert_row ::
    "('s, 't, 'j, 'k) compare_env \<Rightarrow> 'j row \<Rightarrow> 'k merge_progress \<Rightarrow> sync_error + merge_move \<times> 'k merge_progress" where
  "insert_row E s p =
     obind (extract_key s (ce_pk E)) (\<lambda>key.
     obind (record_change E (insert_change key s (ce_options E)) p) (\<lambda>p'. Inr (TakeSource, p')))"

definition merge_rows ::
    "('s, 't, 'j, 'k) compare_env \<Rightarrow> 'j row \<Rightarrow> 'j row \<Rightarrow> 'k merge_progress \<Rightarrow> sync_error + merge_move \<times> 'k merge_progress" where
  "merge_rows E s t p =
     obind (extract_key s (ce_pk E)) (\<lambda>sraw. obind (extract_key t (ce_pk E)) (\<lambda>traw.
     obind (normalize_raw (ce_source E) sraw) (\<lambda>skey. obind (normalize_raw (ce_target E) traw) (\<lambda>tkey.
       if \<not> same_contract skey tkey then Inl contracts_differ_error
       else (case cmp_sync_keys skey tkey of
          Less \<Rightarrow> obind (record_change E (insert_change sraw s (ce_options E)) p) (\<lambda>p'. Inr (TakeSource, p'))
        | Greater \<Rightarrow> obind (record_change E (delete_change traw t (ce_options E)) p) (\<lambda>p'. Inr (TakeTarget, p'))
        | Equal \<Rightarrow>
            (let cols = diff_changed_columns s t (ce_columns E) (ce_pk E)
             in if cols = [] then obind (record_unchanged E p) (\<lambda>p'. Inr (TakeBoth, p'))
                else obind (record_change E (update_change sraw s t cols (ce_options E)) p)
                       (\<lambda>p'. Inr (TakeBoth, p'))))))))"

definition review_limit_error :: sync_error where
  "review_limit_error = invalid (''comparison exceeds the current 10,000 difference / 32 MiB review limit; '' @
     ''select fewer tables or a smaller dataset'')"

definition over_limit :: "('s, 't, 'j, 'k) compare_env \<Rightarrow> 'k merge_progress \<Rightarrow> bool" where
  "over_limit E p \<longleftrightarrow> (case ce_limits E of None \<Rightarrow> False
     | Some (rows, bytes) \<Rightarrow> mp_count p > rows \<or> mp_bytes p > bytes)"

text \<open>The checks at the head of a round.\<close>

definition round_check ::
    "('s, 't, 'j, 'k) compare_env \<Rightarrow> 'k merge_progress \<Rightarrow> sync_error + 'k merge_progress" where
  "round_check E p =
     (if over_limit E p then Inl review_limit_error
      else if ce_cancelled E (mp_round p) then Inl (DsCancelled (lit ''compare cancelled''))
      else Inr (p\<lparr>mp_round := mp_round p + 1\<rparr>))"

definition settle_move :: "merge_move \<Rightarrow> ('s, 't, 'j, 'k) merge_state \<Rightarrow> ('s, 't, 'j, 'k) merge_state" where
  "settle_move m st =
     (case m of
        TakeSource \<Rightarrow> st\<lparr>ms_source := (ms_source st)\<lparr>cu_index := cu_index (ms_source st) + 1\<rparr>\<rparr>
      | TakeTarget \<Rightarrow> st\<lparr>ms_target := (ms_target st)\<lparr>cu_index := cu_index (ms_target st) + 1\<rparr>\<rparr>
      | TakeBoth \<Rightarrow> st\<lparr>ms_source := (ms_source st)\<lparr>cu_index := cu_index (ms_source st) + 1\<rparr>,
                      ms_target := (ms_target st)\<lparr>cu_index := cu_index (ms_target st) + 1\<rparr>\<rparr>)"

text \<open>One round of the loop: \<open>None\<close> when both sides are exhausted.\<close>

definition current_row :: "('p, 'j) cursor \<Rightarrow> 'j row" where
  "current_row c = cu_page c ! cu_index c"

definition merge_round ::
    "('s, 't, 'j, 'k) compare_env \<Rightarrow> ('s, 't, 'j, 'k) merge_state \<Rightarrow>
     sync_error + ('s, 't, 'j, 'k) merge_state option \<times> 'k merge_progress" where
  "merge_round E st =
     obind (round_check E (ms_progress st)) (\<lambda>p.
     obind (refill E (ce_source E) (ms_source st)) (\<lambda>src.
     obind (refill E (ce_target E) (ms_target st)) (\<lambda>tgt.
       if cu_page src = [] \<and> cu_page tgt = [] then Inr (None, p)
       else obind
         (if cu_page src = [] then delete_row E (current_row tgt) p
          else if cu_page tgt = [] then insert_row E (current_row src) p
          else merge_rows E (current_row src) (current_row tgt) p)
         (\<lambda>(m, p'). Inr (Some (settle_move m \<lparr>ms_source = src, ms_target = tgt, ms_progress = p'\<rparr>), p')))))"

partial_function (option) merge_loop ::
    "('s, 't, 'j, 'k) compare_env \<Rightarrow> ('s, 't, 'j, 'k) merge_state \<Rightarrow> (sync_error + 'k merge_progress) option" where
  "merge_loop E st =
     (case merge_round E st of
        Inl e \<Rightarrow> Some (Inl e)
      | Inr (None, p) \<Rightarrow> Some (Inr p)
      | Inr (Some st', _) \<Rightarrow> merge_loop E st')"

definition first_pages ::
    "('s, 't, 'j, 'k) compare_env \<Rightarrow> 's \<Rightarrow> 't \<Rightarrow> sync_error + ('s, 'j) cursor \<times> ('t, 'j) cursor" where
  "first_pages E s t =
     (let (rs, s') = next_page (ce_source E) s None (so_batch_size (ce_options E))
      in obind rs (\<lambda>spage.
         let (rt, t') = next_page (ce_target E) t None (so_batch_size (ce_options E))
         in obind rt (\<lambda>tpage.
            obind (check_page E (ce_source E) spage None) (\<lambda>_.
            obind (check_page E (ce_target E) tpage None) (\<lambda>_.
              Inr (\<lparr>cu_source = s', cu_page = spage, cu_index = 0\<rparr>,
                   \<lparr>cu_source = t', cu_page = tpage, cu_index = 0\<rparr>))))))"

definition start_progress :: "'k \<Rightarrow> 'k merge_progress" where
  "start_progress k = \<lparr>mp_unchanged = 0, mp_bytes = 0, mp_count = 0, mp_sink = k, mp_round = 0\<rparr>"

text \<open>
  \<open>compare_table_pages_into\<close>: the result and the sink, or \<open>None\<close> when the sources never end.
\<close>

definition compare_table_pages_into ::
    "('s, 't, 'j, 'k) compare_env \<Rightarrow> utext \<Rightarrow> utext \<Rightarrow> 's \<Rightarrow> 't \<Rightarrow> 'k \<Rightarrow> (sync_error + 'j table_result \<times> 'k) option" where
  "compare_table_pages_into E source_table target_table s t k =
     (case options_validate (ce_options E) of
        Some e \<Rightarrow> Some (Inl e)
      | None \<Rightarrow>
          (case first_pages E s t of
             Inl e \<Rightarrow> Some (Inl e)
           | Inr (src, tgt) \<Rightarrow>
               map_option (\<lambda>r. obind r (\<lambda>p.
                   Inr ((matched_table source_table target_table [])
                          \<lparr>tr_columns := ce_columns E,
                           tr_primary_keys := map (\<lambda>i. ce_columns E ! i) (ce_pk E),
                           tr_unchanged := mp_unchanged p\<rparr>, mp_sink p)))
                 (merge_loop E \<lparr>ms_source = src, ms_target = tgt, ms_progress = start_progress k\<rparr>)))"

definition max_diff_rows :: nat where
  "max_diff_rows = 10000"

definition max_result_bytes :: nat where
  "max_result_bytes = 32 * 1024 * 1024"

text \<open>The sink of \<open>compare_table_pages\<close> is a vector; its result is limited.\<close>

definition vec_sink ::
    "('s, 't, 'j, 'k) compare_env \<Rightarrow> ('s, 't, 'j, 'j sync_change list) compare_env" where
  "vec_sink E =
     \<lparr>ce_source = ce_source E, ce_target = ce_target E, ce_pk = ce_pk E, ce_columns = ce_columns E,
      ce_options = ce_options E, ce_page_bytes = ce_page_bytes E, ce_change_bytes = ce_change_bytes E,
      ce_push = (\<lambda>c rows. Inr (rows @ [c])), ce_unchanged = Inr, ce_cancelled = ce_cancelled E,
      ce_limits = Some (max_diff_rows, max_result_bytes)\<rparr>"

definition compare_table_pages ::
    "('s, 't, 'j, 'k) compare_env \<Rightarrow> utext \<Rightarrow> utext \<Rightarrow> 's \<Rightarrow> 't \<Rightarrow> (sync_error + 'j table_result) option" where
  "compare_table_pages E source_table target_table s t =
     map_option (\<lambda>r. obind r (\<lambda>(res, rows). Inr (res\<lparr>tr_rows := rows\<rparr>)))
       (compare_table_pages_into (vec_sink E) source_table target_table s t [])"

definition compare_table_pages_to_sink ::
    "('s, 't, 'j, 'k) compare_env \<Rightarrow> utext \<Rightarrow> utext \<Rightarrow> 's \<Rightarrow> 't \<Rightarrow> 'k \<Rightarrow> (sync_error + 'j table_result \<times> 'k) option" where
  "compare_table_pages_to_sink E source_table target_table s t k =
     compare_table_pages_into (E\<lparr>ce_limits := None\<rparr>) source_table target_table s t k"

section \<open>An in-memory source\<close>

text \<open>\<open>slice::sort_by\<close> is stable.\<close>

fun insert_by :: "('a \<Rightarrow> 'a \<Rightarrow> ordering) \<Rightarrow> 'a \<Rightarrow> 'a list \<Rightarrow> 'a list" where
  "insert_by cmpf x [] = [x]"
| "insert_by cmpf x (y # ys) = (if cmpf x y = Greater then y # insert_by cmpf x ys else x # y # ys)"

definition sort_by :: "('a \<Rightarrow> 'a \<Rightarrow> ordering) \<Rightarrow> 'a list \<Rightarrow> 'a list" where
  "sort_by cmpf xs = foldr (insert_by cmpf) xs []"

definition key_or_default :: "nat list \<Rightarrow> 'j row \<Rightarrow> 'j cell list" where
  "key_or_default pk row = (case extract_key row pk of Inl _ \<Rightarrow> [] | Inr k \<Rightarrow> k)"

definition cmp_rows :: "('j \<Rightarrow> utext) \<Rightarrow> nat list \<Rightarrow> 'j row \<Rightarrow> 'j row \<Rightarrow> ordering" where
  "cmp_rows jt pk a b = cmp_keys jt (key_or_default pk a) (key_or_default pk b)"

definition slice_new :: "('j \<Rightarrow> utext) \<Rightarrow> nat list \<Rightarrow> 'j row list \<Rightarrow> 'j row list" where
  "slice_new jt pk rows = sort_by (cmp_rows jt pk) rows"

fun slice_after :: "('j \<Rightarrow> utext) \<Rightarrow> nat list \<Rightarrow> 'j cell list \<Rightarrow> 'j row list \<Rightarrow> sync_error + 'j row list" where
  "slice_after jt pk after [] = Inr []"
| "slice_after jt pk after (r # rs) =
     obind (extract_key r pk) (\<lambda>k.
       if cmp_keys jt k after = Greater then Inr (r # rs) else slice_after jt pk after rs)"

fun slice_rest :: "('j \<Rightarrow> utext) \<Rightarrow> nat list \<Rightarrow> 'j cell list option \<Rightarrow> 'j row list \<Rightarrow> sync_error + 'j row list" where
  "slice_rest jt pk None rows = Inr rows"
| "slice_rest jt pk (Some after) rows = slice_after jt pk after rows"

fun normalize_cells :: "'j cell list \<Rightarrow> sync_error + sync_key list" where
  "normalize_cells [] = Inr []"
| "normalize_cells (v # vs) =
     (case from_value v of
        Inl e \<Rightarrow> Inl (DsValidation e)
      | Inr k \<Rightarrow> obind (normalize_cells vs) (\<lambda>ks. Inr (k # ks)))"

definition slice_source :: "('j \<Rightarrow> utext) \<Rightarrow> nat list \<Rightarrow> ('j row list, 'j) page_source" where
  "slice_source jt pk =
     \<lparr>next_page = (\<lambda>rows after limit.
        (obind (slice_rest jt pk after rows) (\<lambda>rest. Inr (take (max limit 1) rest)), rows)),
      normalize_raw = normalize_cells\<rparr>"

section \<open>Key contracts of a table\<close>

text \<open>\<open>normalize_key\<close> of a keyset source whose adapter normalizes with the contract.\<close>

fun contract_values :: "key_env \<Rightarrow> key_kind list \<Rightarrow> 'j cell list \<Rightarrow> sync_error + sync_key list" where
  "contract_values env (k # ks) (v # vs) =
     (case normalize_key env k (Some v) of
        Inl e \<Rightarrow> Inl (DsValidation e)
      | Inr n \<Rightarrow> obind (contract_values env ks vs) (\<lambda>ns. Inr (n # ns)))"
| "contract_values env _ _ = Inr []"

definition contract_keys :: "key_env \<Rightarrow> key_kind list \<Rightarrow> 'j cell list \<Rightarrow> sync_error + sync_key list" where
  "contract_keys env kinds raw =
     (if length raw \<noteq> length kinds then Inl (invalid ''key value count does not match normalized key contract'')
      else contract_values env kinds raw)"

end
