(* ===== verification/Sync_Keys.thy ===== *)
theory Sync_Keys
  imports Complex_Main Sync_Decimal
begin

text \<open>
  What the normalized decimal keys mean: the number of a key, the canonical form that
  \<open>decimal_parse\<close> produces, its uniqueness, and where the order of the keys is the order of the
  numbers.
\<close>

section \<open>Digit strings\<close>

lemma digits_val_snoc: "digits_val (s @ [c]) = digits_val s * 10 + (c - 48)"
  by (simp add: digits_val_def)

lemma digits_val_Nil [simp]: "digits_val [] = 0"
  by (simp add: digits_val_def)

lemma digits_val_append: "digits_val (a @ b) = digits_val a * 10 ^ length b + digits_val b"
  by (induction b rule: rev_induct)
    (simp_all add: digits_val_snoc algebra_simps flip: append_assoc)

lemma digits_val_single: "digits_val [c] = c - 48"
  by (simp add: digits_val_def)

lemma digits_val_Cons: "digits_val (c # s) = (c - 48) * 10 ^ length s + digits_val s"
  using digits_val_append [of "[c]" s] by (simp add: digits_val_single)

lemma all_digits_simps [simp]:
  "all_digits []" "all_digits (c # s) \<longleftrightarrow> is_digit c \<and> all_digits s"
  "all_digits (a @ b) \<longleftrightarrow> all_digits a \<and> all_digits b" "all_digits (rev a) \<longleftrightarrow> all_digits a"
  by (simp_all add: all_digits_def)

lemma all_digits_replicate [simp]: "all_digits (replicate n 48)"
  by (induction n) (simp_all add: is_digit_def)

lemma digits_val_zeros [simp]: "digits_val (replicate n 48) = 0"
  by (induction n) (simp_all add: digits_val_Cons)

lemma digits_val_upper: "all_digits s \<Longrightarrow> digits_val s < 10 ^ length s"
proof (induction s)
  case (Cons c s)
  then have "(c - 48) * 10 ^ length s \<le> 9 * 10 ^ length s" by (intro mult_right_mono) (auto simp: is_digit_def)
  moreover have "digits_val s < 10 ^ length s" using Cons by simp
  ultimately have "(c - 48) * 10 ^ length s + digits_val s < 10 * 10 ^ length s" by linarith
  then show ?case by (simp add: digits_val_Cons)
qed simp

lemma digits_val_lower: "s \<noteq> [] \<Longrightarrow> all_digits s \<Longrightarrow> hd s \<noteq> 48 \<Longrightarrow> 10 ^ (length s - 1) \<le> digits_val s"
proof (cases s)
  case (Cons c t)
  assume "all_digits s" "hd s \<noteq> 48"
  then have "1 * 10 ^ length t \<le> (c - 48) * 10 ^ length t"
    using Cons by (intro mult_right_mono) (auto simp: is_digit_def)
  then have "10 ^ length t \<le> (c - 48) * 10 ^ length t + digits_val t" by linarith
  then show ?thesis using Cons by (simp add: digits_val_Cons)
qed simp

text \<open>On digit strings of one length the lexicographic order is the order of the numbers.\<close>

lemma digits_order:
  "all_digits a \<Longrightarrow> all_digits b \<Longrightarrow> length a = length b \<Longrightarrow> cmp a b = cmp (digits_val a) (digits_val b)"
proof (induction a arbitrary: b)
  case (Cons x a)
  then obtain y b' where b: "b = y # b'" by (cases b) auto
  have len: "length a = length b'" and d: "all_digits a" "all_digits b'" "is_digit x" "is_digit y"
    using Cons.prems b by auto
  have up: "digits_val a < 10 ^ length a" "digits_val b' < 10 ^ length a"
    using digits_val_upper d len by metis+
  have step: "u * 10 ^ length a + p < v * 10 ^ length a + q" if "u < v" "p < 10 ^ length a" for u v p q :: nat
  proof -
    have "u * 10 ^ length a + 10 ^ length a \<le> v * 10 ^ length a"
      using that(1) by (metis Suc_leI add.commute mult_Suc mult_le_mono1)
    with that(2) show ?thesis by linarith
  qed
  consider "x < y" | "y < x" | "x = y" by linarith
  then show ?case
  proof cases
    case 1
    then have "x - 48 < y - 48" using d by (auto simp: is_digit_def)
    from step [OF this up(1)] 1 show ?thesis by (simp add: b digits_val_Cons len cmp_def)
  next
    case 2
    then have "y - 48 < x - 48" using d by (auto simp: is_digit_def)
    from step [OF this up(2), of "digits_val a"] 2 show ?thesis by (simp add: b digits_val_Cons len cmp_def)
  next
    case 3
    with Cons.IH [OF d(1,2) len] show ?thesis by (simp add: b digits_val_Cons len cmp_def split: if_splits)
  qed
qed (simp add: cmp_def)

lemma digits_unique:
  "all_digits a \<Longrightarrow> all_digits b \<Longrightarrow> length a = length b \<Longrightarrow> digits_val a = digits_val b \<Longrightarrow> a = b"
  using digits_order [of a b] by (simp add: cmp_def split: if_splits)

lemma digits_length_mono:
  assumes "a \<noteq> []" "all_digits a" "hd a \<noteq> 48" "all_digits b" "length b < length a"
  shows "digits_val b < digits_val a"
proof -
  have "digits_val b < 10 ^ length b" using assms digits_val_upper by blast
  also have "\<dots> \<le> 10 ^ (length a - 1)" using assms by (intro power_increasing) auto
  also have "\<dots> \<le> digits_val a" using assms digits_val_lower by blast
  finally show ?thesis .
qed

section \<open>The number of a key\<close>

definition signed :: "bool \<Rightarrow> rat \<Rightarrow> rat" where
  "signed neg x = (if neg then - x else x)"

text \<open>The number of a digit string with \<open>scale\<close> digits after the point (or zeros to append).\<close>

definition scaled_val :: "utext \<Rightarrow> int \<Rightarrow> rat" where
  "scaled_val ds scale =
     (if scale < 0 then of_nat (digits_val ds) * 10 ^ nat (- scale) else of_nat (digits_val ds) / 10 ^ nat scale)"

definition magnitude :: "decimal_key \<Rightarrow> rat" where
  "magnitude k = of_nat (digits_val (dk_digits k)) / 10 ^ dk_scale k"

definition decimal_val :: "decimal_key \<Rightarrow> rat" where
  "decimal_val k = signed (dk_negative k) (magnitude k)"

definition canonical :: "decimal_key \<Rightarrow> bool" where
  "canonical k \<longleftrightarrow> k = zero_key \<or>
     dk_digits k \<noteq> [] \<and> all_digits (dk_digits k) \<and> hd (dk_digits k) \<noteq> 48 \<and>
     (dk_scale k = 0 \<or> last (dk_digits k) \<noteq> 48)"

subsection \<open>Normal form\<close>

lemma drop_leading_zeros_props:
  "all_digits ds \<Longrightarrow> all_digits (drop_leading_zeros ds) \<and> digits_val (drop_leading_zeros ds) = digits_val ds
     \<and> (drop_leading_zeros ds = [] \<longleftrightarrow> ds = [])
     \<and> (drop_leading_zeros ds = [] \<or> drop_leading_zeros ds = [48] \<or> hd (drop_leading_zeros ds) \<noteq> 48)"
proof (induction ds rule: drop_leading_zeros.induct)
  case (1 c d ds)
  then show ?case by (cases "c = 48") (auto simp: digits_val_Cons)
qed (simp_all add: is_digit_def)

lemma drop_fraction_zeros_props:
  assumes "drop_fraction_zeros rds n = (r, m)" "all_digits rds"
  shows "all_digits r \<and> m \<le> n \<and> rds = replicate (n - m) 48 @ r \<and> (r = [] \<or> m = 0 \<or> hd r \<noteq> 48)"
  using assms
proof (induction rds n rule: drop_fraction_zeros.induct)
  case (1 c ds n)
  show ?case
  proof (cases "c = 48")
    case True
    with 1 have "drop_fraction_zeros ds n = (r, m)" "all_digits ds" by simp_all
    with 1 True have "all_digits r \<and> m \<le> n \<and> ds = replicate (n - m) 48 @ r \<and> (r = [] \<or> m = 0 \<or> hd r \<noteq> 48)" by blast
    with True show ?thesis by (simp add: Suc_diff_le)
  next
    case False
    with 1 show ?thesis by auto
  qed
qed auto

lemma digits_val_zero: "all_digits ds \<Longrightarrow> digits_val ds = 0 \<longleftrightarrow> list_all (\<lambda>c. c = 48) ds"
  by (induction ds) (auto simp: digits_val_Cons is_digit_def)

lemma normal_decimal_props:
  assumes "all_digits ds"
  shows "canonical (normal_decimal neg ds scale) \<and>
    decimal_val (normal_decimal neg ds scale) = signed neg (of_nat (digits_val ds) / 10 ^ scale)"
proof -
  define ld where "ld = drop_leading_zeros ds"
  obtain r m where rm: "drop_fraction_zeros (rev ld) scale = (r, m)" by (cases "drop_fraction_zeros (rev ld) scale")
  have ld: "all_digits ld" "digits_val ld = digits_val ds" "ld = [] \<or> ld = [48] \<or> hd ld \<noteq> 48"
    using drop_leading_zeros_props [OF assms] unfolding ld_def by blast+
  have r: "all_digits r" "m \<le> scale" "rev ld = replicate (scale - m) 48 @ r" "r = [] \<or> m = 0 \<or> hd r \<noteq> 48"
    using drop_fraction_zeros_props [OF rm] ld by simp_all
  have eq: "ld = rev r @ replicate (scale - m) 48" using r(3) by (metis rev_append rev_replicate rev_rev_ident)
  have "10 ^ scale = (10 ^ m * 10 ^ (scale - m) :: rat)" using r(2) by (simp flip: power_add)
  then have val: "of_nat (digits_val ds) / 10 ^ scale = (of_nat (digits_val (rev r)) / 10 ^ m :: rat)"
    by (simp add: eq digits_val_append flip: ld(2))
  show ?thesis
  proof (cases "list_all (\<lambda>c. c = 48) (rev r)")
    case True
    then have "digits_val (rev r) = 0" using digits_val_zero [of "rev r"] r(1) by simp
    with True val show ?thesis
      by (simp add: normal_decimal_def rm Let_def zero_key_def canonical_def decimal_val_def signed_def
          magnitude_def digits_val_def flip: ld_def)
  next
    case False
    then have "r \<noteq> []" by auto
    moreover have "ld \<noteq> [48]"
    proof
      assume "ld = [48]"
      then have "set (rev r) \<subseteq> {48}" using eq by (metis Un_subset_iff empty_set list.simps(15) set_append subset_refl)
      then show False using False by (auto simp: list_all_iff)
    qed
    ultimately have "hd (rev r) \<noteq> 48" using ld(3) eq by auto
    moreover have "last (rev r) = hd r" using \<open>r \<noteq> []\<close> by (simp add: last_rev)
    ultimately show ?thesis
      using False val r(1,4) \<open>r \<noteq> []\<close>
      by (auto simp: normal_decimal_def rm Let_def canonical_def decimal_val_def magnitude_def simp flip: ld_def)
  qed
qed

lemma normal_decimal_canonical: "all_digits ds \<Longrightarrow> canonical (normal_decimal neg ds scale)"
  using normal_decimal_props by blast

lemma normal_decimal_val:
  "all_digits ds \<Longrightarrow> decimal_val (normal_decimal neg ds scale) = signed neg (of_nat (digits_val ds) / 10 ^ scale)"
  using normal_decimal_props by blast

lemma scaled_decimal_cases:
  assumes "scaled_decimal neg ds scale = Inr k"
  obtains "scale < 0" "- 4096 \<le> scale" "k = normal_decimal neg (ds @ replicate (nat (- scale)) 48) 0"
  | "0 \<le> scale" "scale \<le> 4096" "k = normal_decimal neg ds (nat scale)"
proof (cases "scale < 0")
  case True
  then have "- 4096 \<le> scale \<and> k = normal_decimal neg (ds @ replicate (nat (- scale)) 48) 0"
    using assms unfolding scaled_decimal_def
    by (cases "scale = - (2 ^ 31)"; cases "- scale > 4096") (simp_all add: True del: replicate_Suc)
  with True that(1) show ?thesis by blast
next
  case False
  then have "scale \<le> 4096 \<and> k = normal_decimal neg ds (nat scale)"
    using assms unfolding scaled_decimal_def by (cases "scale > 4096") simp_all
  with False that(2) show ?thesis by force
qed

lemma scaled_decimal_props:
  assumes "all_digits ds" "scaled_decimal neg ds scale = Inr k"
  shows "canonical k" "decimal_val k = signed neg (scaled_val ds scale)"
  using assms(2)
  by (cases rule: scaled_decimal_cases;
      simp add: assms(1) scaled_val_def normal_decimal_canonical normal_decimal_val digits_val_append)+

lemma scaled_decimal_range: "scaled_decimal neg ds scale = Inr k \<Longrightarrow> - 4096 \<le> scale \<and> scale \<le> 4096"
  by (erule scaled_decimal_cases) auto

subsection \<open>Two keys of one number are one key\<close>

lemma magnitude_nonneg: "0 \<le> magnitude k"
  by (simp add: magnitude_def)

lemma canonical_digits: "canonical k \<Longrightarrow> dk_digits k \<noteq> [] \<and> all_digits (dk_digits k)"
  by (auto simp: canonical_def zero_key_def is_digit_def)

lemma canonical_positive: "canonical k \<Longrightarrow> k \<noteq> zero_key \<Longrightarrow> 0 < magnitude k"
  using digits_val_lower [of "dk_digits k"]
  by (auto simp: canonical_def magnitude_def intro!: divide_pos_pos)
    (metis gr0I not_le zero_less_numeral zero_less_power)+

lemma magnitude_zero_key [simp]: "magnitude zero_key = 0"
  by (simp add: magnitude_def zero_key_def digits_val_def)

lemma decimal_val_sign:
  assumes "canonical a" "canonical b" "decimal_val a = decimal_val b"
  shows "dk_negative a = dk_negative b" "magnitude a = magnitude b"
proof -
  have neg: "dk_negative k \<Longrightarrow> canonical k \<Longrightarrow> 0 < magnitude k" for k
    using canonical_positive [of k] by (cases "k = zero_key") (auto simp: zero_key_def)
  have "dk_negative a = dk_negative b \<and> magnitude a = magnitude b"
    using assms neg [of a] neg [of b] magnitude_nonneg [of a] magnitude_nonneg [of b]
    by (auto simp: decimal_val_def signed_def split: if_splits)
  then show "dk_negative a = dk_negative b" "magnitude a = magnitude b" by blast+
qed

lemma last_digit: "s \<noteq> [] \<Longrightarrow> all_digits s \<Longrightarrow> digits_val s mod 10 = last s - 48"
proof (cases s rule: rev_cases)
  case (snoc t c)
  assume "all_digits s"
  then have "c - 48 < 10" using snoc by (auto simp: is_digit_def)
  then show ?thesis using snoc by (simp add: digits_val_snoc)
qed simp

lemma same_magnitude_scale:
  assumes "canonical a" "canonical b" "magnitude a = magnitude b"
  shows "dk_scale a \<le> dk_scale b"
proof (rule ccontr)
  assume "\<not> dk_scale a \<le> dk_scale b"
  then obtain n where n: "dk_scale a = Suc n + dk_scale b" by (metis add.commute less_imp_Suc_add not_le add_Suc_right add_Suc)
  then have a: "a \<noteq> zero_key" by (auto simp: zero_key_def)
  have "of_nat (digits_val (dk_digits a)) = (of_nat (digits_val (dk_digits b) * 10 ^ Suc n) :: rat)"
    using assms(3) by (simp add: magnitude_def n power_add field_simps)
  then have "digits_val (dk_digits a) mod 10 = 0" by (simp only: of_nat_eq_iff) simp
  moreover have "dk_digits a \<noteq> []" "all_digits (dk_digits a)" using canonical_digits [OF assms(1)] by auto
  ultimately have l: "last (dk_digits a) - 48 = 0" using last_digit by metis
  have "is_digit (last (dk_digits a))"
    using canonical_digits [OF assms(1)] last_in_set by (auto simp: all_digits_def list_all_iff)
  with l have "last (dk_digits a) = 48" by (auto simp: is_digit_def)
  then show False using assms(1) a n by (auto simp: canonical_def)
qed

lemma same_length:
  assumes "canonical a" "canonical b" "digits_val (dk_digits a) = digits_val (dk_digits b)"
  shows "length (dk_digits a) \<le> length (dk_digits b)"
proof (rule ccontr)
  assume lt: "\<not> length (dk_digits a) \<le> length (dk_digits b)"
  have b: "0 < length (dk_digits b)" using canonical_digits [OF assms(2)] by simp
  have "length (dk_digits zero_key) = 1" by (simp add: zero_key_def)
  then have "a \<noteq> zero_key" using lt b by (metis One_nat_def Suc_leI)
  then have "digits_val (dk_digits b) < digits_val (dk_digits a)"
    using assms(1) canonical_digits [OF assms(2)] lt by (intro digits_length_mono) (auto simp: canonical_def)
  with assms(3) show False by simp
qed

theorem canonical_unique:
  assumes "canonical a" "canonical b" "decimal_val a = decimal_val b"
  shows "a = b"
proof -
  have sign: "dk_negative a = dk_negative b" and mag: "magnitude a = magnitude b"
    using decimal_val_sign [OF assms] by auto
  have scale: "dk_scale a = dk_scale b"
    using same_magnitude_scale [OF assms(1,2) mag] same_magnitude_scale [OF assms(2,1) mag [symmetric]] by simp
  with mag have val: "digits_val (dk_digits a) = digits_val (dk_digits b)" by (simp add: magnitude_def)
  have "length (dk_digits a) = length (dk_digits b)"
    using same_length [OF assms(1,2) val] same_length [OF assms(2,1) val [symmetric]] by simp
  then have "dk_digits a = dk_digits b"
    using digits_unique val canonical_digits assms(1,2) by blast
  with sign scale show ?thesis by simp
qed

section \<open>Parsing\<close>

text \<open>
  The decimal notation: an optional sign, digits with at most one point, an optional exponent.
\<close>

definition sign_text :: "bool \<Rightarrow> utext \<Rightarrow> bool" where
  "sign_text neg s \<longleftrightarrow> (if neg then s = [45] else s = [] \<or> s = [43])"

definition exponent_text :: "int \<Rightarrow> utext \<Rightarrow> bool" where
  "exponent_text e s \<longleftrightarrow> s = [] \<and> e = 0 \<or>
     (\<exists>c neg sg ds. s = c # sg @ ds \<and> c \<in> {101, 69} \<and> sign_text neg sg \<and> ds \<noteq> [] \<and> all_digits ds \<and>
        e = (if neg then - int (digits_val ds) else int (digits_val ds)))"

definition denotes :: "utext \<Rightarrow> rat \<Rightarrow> bool" where
  "denotes s x \<longleftrightarrow>
     (\<exists>neg sg whole point fraction e ex.
        s = sg @ whole @ point @ ex \<and> sign_text neg sg \<and> exponent_text e ex \<and>
        (point = [] \<and> fraction = [] \<or> point = 46 # fraction) \<and>
        all_digits whole \<and> all_digits fraction \<and> whole @ fraction \<noteq> [] \<and>
        x = signed neg (scaled_val (whole @ fraction) (int (length fraction) - e)))"

lemma sign_of_text: "sign_of s = (neg, r) \<Longrightarrow> \<exists>sg. s = sg @ r \<and> sign_text neg sg"
proof (cases s)
  case (Cons c t)
  assume "sign_of s = (neg, r)"
  then show ?thesis using Cons by (auto simp: sign_text_def split: if_splits)
qed (simp add: sign_text_def)

lemma split_char_join: "split_char sep s = [w] \<Longrightarrow> s = w" "split_char sep s = [w, f] \<Longrightarrow> s = w @ sep # f"
proof (induction s arbitrary: w f)
  case (Cons c s)
  have ne: "split_char sep s \<noteq> []" for s by (induction s) (auto split: list.splits)
  { case 1 then show ?case using Cons.IH(1) ne [of s] by (auto split: if_splits list.splits) }
  { case 2 then show ?case using Cons.IH ne [of s] by (auto split: if_splits list.splits) }
qed auto

lemma split_mantissa_text:
  assumes "split_mantissa m = Some (w, f)"
  shows "all_digits w \<and> all_digits f \<and> w @ f \<noteq> [] \<and>
    (\<exists>point. m = w @ point \<and> (point = [] \<and> f = [] \<or> point = 46 # f))"
  using assms
  by (auto simp: split_mantissa_def split: list.splits if_splits dest: split_char_join)

lemma split_exponent_text:
  assumes "split_exponent raw s = Inr (m, e)"
  shows "- (2 ^ 31) \<le> e \<and> e < 2 ^ 31 \<and> (\<exists>ex. s = m @ ex \<and> exponent_text e ex)"
proof -
  define mant where "mant = takeWhile (\<lambda>c. c \<noteq> 101 \<and> c \<noteq> 69) s"
  define rest where "rest = drop (length mant) s"
  have rest: "rest = dropWhile (\<lambda>c. c \<noteq> 101 \<and> c \<noteq> 69) s"
    by (simp add: rest_def mant_def dropWhile_eq_drop)
  have s: "s = mant @ rest" by (simp add: rest mant_def)
  have eq: "split_exponent raw s = (if rest = [] then Inr (s, 0)
      else case parse_i32 (tl rest) of
        None \<Rightarrow> Inl (lit ''invalid decimal exponent in '' @ in_quotes raw) | Some e \<Rightarrow> Inr (mant, e))"
    by (simp only: split_exponent_def Let_def mant_def rest_def)
  show ?thesis
  proof (cases rest)
    case Nil
    then show ?thesis using assms by (simp add: eq exponent_text_def)
  next
    case (Cons c t)
    then have c: "c \<in> {101, 69}" using rest hd_dropWhile [of "\<lambda>c. c \<noteq> 101 \<and> c \<noteq> 69" s] by auto
    obtain neg ds where sg: "sign_of t = (neg, ds)" by (cases "sign_of t")
    obtain sg' where t: "t = sg' @ ds" "sign_text neg sg'" using sign_of_text [OF sg] by blast
    have "m = mant \<and> parse_i32 t = Some e"
      using assms unfolding eq Cons by (cases "parse_i32 t") simp_all
    then have m: "m = mant" and p: "parse_i32 t = Some e" by blast+
    have e: "e = (if neg then - int (digits_val ds) else int (digits_val ds))" "ds \<noteq> []" "all_digits ds"
      "- (2 ^ 31) \<le> e" "e < 2 ^ 31"
      using p by (auto simp: parse_i32_def parse_int_def sg Let_def split: if_splits)
    have "exponent_text e rest"
      unfolding exponent_text_def using Cons c t e by blast
    with e m s show ?thesis by blast
  qed
qed

lemma bytes_of_length: "length s \<le> length (bytes_of s)"
proof (induction s)
  case (Cons c s)
  have "1 \<le> length (utf8 c)" by (simp add: utf8_def)
  with Cons have "1 + length s \<le> length (utf8 c) + length (bytes_of s)" by (rule add_mono [rotated])
  then show ?case by simp
qed simp

lemma wrap_i32_exact: "- (2 ^ 31) \<le> i \<Longrightarrow> i < 2 ^ 31 \<Longrightarrow> wrap_i32 i = i"
  by (simp add: wrap_i32_def)

lemma wrap_i32_high: "2 ^ 31 \<le> i \<Longrightarrow> i < 2 ^ 32 \<Longrightarrow> wrap_i32 i = i - 2 ^ 32"
proof -
  assume r: "2 ^ 31 \<le> i" "i < 2 ^ 32"
  have "(i + 2 ^ 31) mod 2 ^ 32 = ((i - 2 ^ 31) + 2 ^ 32) mod 2 ^ 32" by (rule arg_cong [of _ _ "\<lambda>x. x mod 2 ^ 32"]) simp
  also have "\<dots> = (i - 2 ^ 31) mod 2 ^ 32" by (rule mod_add_self2)
  also have "\<dots> = i - 2 ^ 31" using r by (intro mod_pos_pos_trivial) simp_all
  finally show ?thesis by (simp add: wrap_i32_def)
qed

text \<open>A key that was parsed is in normal form and has the number of its text.\<close>

lemma decimal_parse_pieces:
  assumes "decimal_parse raw = Inr k"
  obtains neg sg m e ex w f point where "utrim raw = sg @ m @ ex" "sign_text neg sg" "exponent_text e ex"
    "m = w @ point" "point = [] \<and> f = [] \<or> point = 46 # f" "all_digits w" "all_digits f" "w @ f \<noteq> []"
    "scaled_decimal neg (w @ f) (int (length f) - e) = Inr k"
proof -
  obtain neg body where sg: "sign_of (utrim raw) = (neg, body)" by (cases "sign_of (utrim raw)")
  have len: "length (bytes_of (utrim raw)) \<le> 4096"
    and st: "obind (split_exponent (utrim raw) body) (\<lambda>(mantissa, exponent).
        case split_mantissa mantissa of
          None \<Rightarrow> Inl (lit ''invalid decimal sync key '' @ in_quotes (utrim raw))
        | Some (whole, fraction) \<Rightarrow>
            scaled_decimal neg (whole @ fraction) (wrap_i32 (int (length fraction) - exponent))) = Inr k"
    using assms by (simp_all add: decimal_parse_def Let_def sg split: if_splits)
  then obtain m e w f where m: "split_exponent (utrim raw) body = Inr (m, e)"
    and w: "split_mantissa m = Some (w, f)"
    and k: "scaled_decimal neg (w @ f) (wrap_i32 (int (length f) - e)) = Inr k"
    by (auto simp: obind_eq_Inr split: option.splits)
  obtain sgn where sgn: "utrim raw = sgn @ body" "sign_text neg sgn" using sign_of_text [OF sg] by blast
  obtain ex where ex: "body = m @ ex" "exponent_text e ex" "- (2 ^ 31) \<le> e" "e < 2 ^ 31"
    using split_exponent_text [OF m] by blast
  obtain point where pt: "m = w @ point" "point = [] \<and> f = [] \<or> point = 46 # f"
    and d: "all_digits w" "all_digits f" "w @ f \<noteq> []"
    using split_mantissa_text [OF w] by blast
  have "length f \<le> length m" using pt by auto
  also have "\<dots> \<le> length (bytes_of (utrim raw))"
    using bytes_of_length [of "utrim raw"] sgn(1) ex(1) by simp
  finally have f: "int (length f) \<le> 4096" using len by simp
  have "int (length f) - e < 2 ^ 31"
  proof (rule ccontr)
    assume high: "\<not> int (length f) - e < 2 ^ 31"
    then have "wrap_i32 (int (length f) - e) = int (length f) - e - 2 ^ 32"
      using ex f by (intro wrap_i32_high) auto
    then show False using scaled_decimal_range [OF k] ex f by simp
  qed
  then have "wrap_i32 (int (length f) - e) = int (length f) - e"
    using ex f by (intro wrap_i32_exact) auto
  with k that [of sgn m ex neg e w point f] sgn ex pt d show ?thesis by simp
qed

lemma decimal_parse_canonical: "decimal_parse raw = Inr k \<Longrightarrow> canonical k"
  by (erule decimal_parse_pieces) (rule scaled_decimal_props, simp_all)

lemma decimal_parse_denotes:
  assumes "decimal_parse raw = Inr k"
  shows "denotes (utrim raw) (decimal_val k)"
proof -
  from assms obtain neg sg m e ex w f point where p: "utrim raw = sg @ m @ ex" "sign_text neg sg" "exponent_text e ex"
    "m = w @ point" "point = [] \<and> f = [] \<or> point = 46 # f" "all_digits w" "all_digits f" "w @ f \<noteq> []"
    "scaled_decimal neg (w @ f) (int (length f) - e) = Inr k"
    by (rule decimal_parse_pieces)
  then have "decimal_val k = signed neg (scaled_val (w @ f) (int (length f) - e))"
    by (intro scaled_decimal_props) simp_all
  with p show ?thesis unfolding denotes_def by (metis append.assoc)
qed

section \<open>Order\<close>

text \<open>
  The padded digit strings are compared as texts. That is the order of the magnitudes when both
  strings are as long as their integral parts say, which holds for zero and from one on.
\<close>

lemma padded_props:
  assumes "canonical k" "dk_scale k < length (dk_digits k)" "dk_scale k \<le> n"
  shows "all_digits (padded n k)" "length (padded n k) = integral_digits k + n"
    "(of_nat (digits_val (padded n k)) :: rat) = magnitude k * 10 ^ n"
proof -
  have "(10 ^ n :: rat) = 10 ^ (n - dk_scale k) * 10 ^ dk_scale k"
    using assms(3) by (simp flip: power_add)
  then show "(of_nat (digits_val (padded n k)) :: rat) = magnitude k * 10 ^ n"
    by (simp add: padded_def digits_val_append magnitude_def)
  show "all_digits (padded n k)" using canonical_digits [OF assms(1)] by (simp add: padded_def)
  show "length (padded n k) = integral_digits k + n" using assms(2,3) by (simp add: padded_def integral_digits_def)
qed

lemma magnitude_upper:
  assumes "canonical k" "dk_scale k \<le> length (dk_digits k)"
  shows "magnitude k < 10 ^ integral_digits k"
proof -
  have "digits_val (dk_digits k) < 10 ^ length (dk_digits k)"
    using canonical_digits [OF assms(1)] digits_val_upper by blast
  then have "(of_nat (digits_val (dk_digits k)) :: rat) < of_nat (10 ^ length (dk_digits k))" by (simp only: of_nat_less_iff)
  also have "\<dots> = 10 ^ integral_digits k * 10 ^ dk_scale k"
    using assms(2) by (simp add: integral_digits_def flip: power_add)
  finally show ?thesis by (simp add: magnitude_def field_simps)
qed

lemma magnitude_lower:
  assumes "canonical k" "k \<noteq> zero_key" "dk_scale k < length (dk_digits k)"
  shows "10 ^ (integral_digits k - 1) \<le> magnitude k"
proof -
  have "10 ^ (length (dk_digits k) - 1) \<le> digits_val (dk_digits k)"
    using assms(1,2) by (intro digits_val_lower) (auto simp: canonical_def)
  then have "(of_nat (10 ^ (length (dk_digits k) - 1)) :: rat) \<le> of_nat (digits_val (dk_digits k))"
    by (simp only: of_nat_le_iff)
  moreover have "(10 ^ (length (dk_digits k) - 1) :: rat) = 10 ^ (integral_digits k - 1) * 10 ^ dk_scale k"
    using assms(3) by (simp add: integral_digits_def flip: power_add)
  ultimately have "10 ^ (integral_digits k - 1) * 10 ^ dk_scale k \<le> (of_nat (digits_val (dk_digits k)) :: rat)"
    by (simp only: of_nat_power of_nat_numeral)
  then show ?thesis by (simp add: magnitude_def pos_le_divide_eq)
qed

lemma magnitude_mono:
  assumes "canonical a" "canonical b" "dk_scale a < length (dk_digits a)" "dk_scale b < length (dk_digits b)"
    "integral_digits a < integral_digits b"
  shows "magnitude a < magnitude b"
proof -
  have "b \<noteq> zero_key" using assms(3,5) by (auto simp: zero_key_def integral_digits_def)
  have "magnitude a < 10 ^ integral_digits a" using magnitude_upper assms by simp
  also have "\<dots> \<le> 10 ^ (integral_digits b - 1)" using assms(5) by (intro power_increasing) auto
  also have "\<dots> \<le> magnitude b" using magnitude_lower [OF assms(2) \<open>b \<noteq> zero_key\<close> assms(4)] .
  finally show ?thesis .
qed

lemma cmp_magnitude_exact:
  assumes "canonical a" "canonical b" "dk_scale a < length (dk_digits a)" "dk_scale b < length (dk_digits b)"
  shows "cmp_magnitude a b = cmp (magnitude a) (magnitude b)"
proof -
  let ?n = "max (dk_scale a) (dk_scale b)"
  note pa = padded_props [OF assms(1,3), of ?n, simplified] and pb = padded_props [OF assms(2,4), of ?n, simplified]
  consider "integral_digits a < integral_digits b" | "integral_digits b < integral_digits a"
    | "integral_digits a = integral_digits b" by linarith
  then show ?thesis
  proof cases
    case 1
    with magnitude_mono [OF assms(1,2,3,4)] show ?thesis
      by (simp add: cmp_magnitude_def then_with_def Let_def cmp_def)
  next
    case 2
    with magnitude_mono [OF assms(2,1,4,3)] show ?thesis
      by (simp add: cmp_magnitude_def then_with_def Let_def cmp_def)
  next
    case 3
    then have "cmp (padded ?n a) (padded ?n b) = cmp (digits_val (padded ?n a)) (digits_val (padded ?n b))"
      using pa pb by (intro digits_order) simp_all
    also have "\<dots> = cmp (magnitude a * 10 ^ ?n) (magnitude b * 10 ^ ?n)"
      by (simp only: cmp_def flip: pa(3) pb(3)) simp
    also have "\<dots> = cmp (magnitude a) (magnitude b)"
      by (simp add: cmp_def)
    finally show ?thesis using 3 by (simp add: cmp_magnitude_def then_with_def Let_def)
  qed
qed

lemma negative_value: "canonical k \<Longrightarrow> dk_negative k \<longleftrightarrow> decimal_val k < 0"
  using canonical_positive [of k] magnitude_nonneg [of k]
  by (cases "k = zero_key") (auto simp: decimal_val_def signed_def zero_key_def)

lemma cmp_decimal_exact:
  assumes "canonical a" "canonical b" "dk_scale a < length (dk_digits a)" "dk_scale b < length (dk_digits b)"
  shows "cmp_decimal a b = cmp (decimal_val a) (decimal_val b)"
proof (cases "dk_negative a = dk_negative b")
  case True
  with cmp_magnitude_exact [OF assms] show ?thesis
    by (auto simp: cmp_decimal_def decimal_val_def signed_def cmp_def)
next
  case False
  with negative_value [OF assms(1)] negative_value [OF assms(2)] show ?thesis
    by (auto simp: cmp_decimal_def cmp_def)
qed

text \<open>A number with an integral part, or zero, has a digit before the point.\<close>

lemma integral_part:
  assumes "canonical k" "decimal_val k = 0 \<or> 1 \<le> \<bar>decimal_val k\<bar>"
  shows "dk_scale k < length (dk_digits k)"
proof (cases "k = zero_key")
  case True
  then show ?thesis by (simp add: zero_key_def)
next
  case False
  then have "1 \<le> magnitude k"
    using assms canonical_positive [of k] by (auto simp: decimal_val_def signed_def split: if_splits)
  then have "(of_nat (10 ^ dk_scale k) :: rat) \<le> of_nat (digits_val (dk_digits k))"
    by (simp add: magnitude_def field_simps)
  then have "10 ^ dk_scale k \<le> digits_val (dk_digits k)" by (simp only: of_nat_le_iff)
  also have "\<dots> < 10 ^ length (dk_digits k)" using canonical_digits [OF assms(1)] digits_val_upper by blast
  finally show ?thesis by simp
qed

subsection \<open>Numbers below one\<close>

text \<open>
  A number below one has no digit before the point and loses the zeros after it: what is compared first
  is the number that has its leading digits directly after the point.
\<close>

definition leading_digits :: "decimal_key \<Rightarrow> rat" where
  "leading_digits k = of_nat (digits_val (dk_digits k)) / 10 ^ length (dk_digits k)"

lemma reverse_cmp: "reverse (cmp x y) = cmp y x"
  by (auto simp: cmp_def)

lemma reverse_then_with: "reverse (then_with p q) = then_with (reverse p) (reverse q)"
  by (cases p) (simp_all add: then_with_def)

lemma cmp_filled_up:
  "all_digits a \<Longrightarrow> all_digits b \<Longrightarrow> length a \<le> length b \<Longrightarrow>
   cmp a b = then_with (cmp (a @ replicate (length b - length a) 48) b) (cmp (length a) (length b))"
proof (induction a arbitrary: b)
  case Nil
  have "cmp (replicate (length b) 48) b = cmp (digits_val (replicate (length b) 48)) (digits_val b)"
    using Nil.prems by (intro digits_order) simp_all
  then have "cmp (replicate (length b) 48) b \<noteq> Greater" by (simp add: cmp_def)
  then show ?case by (cases b) (auto simp: cmp_def then_with_def split: if_splits)
next
  case (Cons x a)
  then obtain y b' where b: "b = y # b'" by (cases b) auto
  then have "cmp a b' = then_with (cmp (a @ replicate (length b' - length a) 48) b') (cmp (length a) (length b'))"
    using Cons by simp
  then show ?case by (auto simp: b cmp_def then_with_def split: if_splits)
qed

lemma cmp_digit_texts:
  assumes "all_digits a" "all_digits b" "n = max (length a) (length b)"
  shows "cmp a b = then_with (cmp (digits_val (a @ replicate (n - length a) 48)) (digits_val (b @ replicate (n - length b) 48)))
    (cmp (length a) (length b))"
proof -
  have "cmp a b = then_with (cmp (digits_val (a @ replicate (length b - length a) 48)) (digits_val b)) (cmp (length a) (length b))"
    if "all_digits a" "all_digits b" "length a \<le> length b" for a b
    using cmp_filled_up [OF that] digits_order [of "a @ replicate (length b - length a) 48" b] that by simp
  from this [of a b] this [of b a] show ?thesis
    using assms reverse_cmp [of b a] by (cases "length a \<le> length b") (auto simp: max_def reverse_then_with reverse_cmp)
qed

lemma below_one:
  assumes "canonical k" "0 < magnitude k" "magnitude k < 1"
  shows "length (dk_digits k) \<le> dk_scale k" "0 < leading_digits k"
    "magnitude k = leading_digits k / 10 ^ (dk_scale k - length (dk_digits k))"
proof -
  have "k \<noteq> zero_key" using assms(2) by auto
  show len: "length (dk_digits k) \<le> dk_scale k"
  proof (rule ccontr)
    assume "\<not> length (dk_digits k) \<le> dk_scale k"
    then have "10 ^ (integral_digits k - 1) \<le> magnitude k" using magnitude_lower [OF assms(1) \<open>k \<noteq> zero_key\<close>] by simp
    moreover have "(1 :: rat) \<le> 10 ^ (integral_digits k - 1)" by simp
    ultimately show False using assms(3) by linarith
  qed
  show "0 < leading_digits k" using assms(2) by (auto simp: leading_digits_def magnitude_def zero_less_divide_iff)
  have "(10 ^ dk_scale k :: rat) = 10 ^ length (dk_digits k) * 10 ^ (dk_scale k - length (dk_digits k))"
    using len by (simp flip: power_add)
  then show "magnitude k = leading_digits k / 10 ^ (dk_scale k - length (dk_digits k))"
    by (simp add: magnitude_def leading_digits_def)
qed

lemma padded_filled:
  assumes "length (dk_digits k) \<le> dk_scale k" "dk_scale k \<le> m" "length (padded m k) \<le> n"
  shows "(of_nat (digits_val (padded m k @ replicate (n - length (padded m k)) 48)) :: rat) = leading_digits k * 10 ^ n"
proof -
  let ?d = "dk_digits k"
  have "length (padded m k) = length ?d + (m - dk_scale k)" by (simp add: padded_def)
  then have "(m - dk_scale k) + (n - length (padded m k)) + length ?d = n" using assms(3) by linarith
  then have "(10 ^ n :: rat) = 10 ^ (m - dk_scale k) * 10 ^ (n - length (padded m k)) * 10 ^ length ?d"
    by (simp only: flip: power_add)
  then show ?thesis by (simp add: padded_def digits_val_append leading_digits_def power_add)
qed

lemma cmp_complement: "p \<le> m \<Longrightarrow> q \<le> m \<Longrightarrow> cmp (m - p) (m - q) = cmp q (p :: nat)"
  by (auto simp: cmp_def)

lemma cmp_power10: "cmp p q = cmp ((10 :: rat) ^ p) (10 ^ q)"
  by (simp add: cmp_def)

lemma cmp_divided: "0 < x \<Longrightarrow> 0 < p \<Longrightarrow> 0 < q \<Longrightarrow> cmp q p = cmp (x / p) (x / (q :: rat))"
  by (auto simp: cmp_def divide_less_cancel divide_strict_left_mono not_less_iff_gr_or_eq)

lemma length_padded: "length (dk_digits k) \<le> dk_scale k \<Longrightarrow> dk_scale k \<le> m \<Longrightarrow>
   length (padded m k) = m - (dk_scale k - length (dk_digits k))"
  by (simp add: padded_def)

lemma cmp_magnitude_below_one:
  assumes "canonical a" "canonical b" "0 < magnitude a" "magnitude a < 1" "0 < magnitude b" "magnitude b < 1"
  shows "cmp_magnitude a b = then_with (cmp (leading_digits a) (leading_digits b)) (cmp (magnitude a) (magnitude b))"
proof -
  note la = below_one [OF assms(1,3,4)] and lb = below_one [OF assms(2,5,6)]
  let ?m = "max (dk_scale a) (dk_scale b)"
  let ?A = "padded ?m a" and ?B = "padded ?m b"
  let ?n = "max (length ?A) (length ?B)"
  let ?a = "digits_val (?A @ replicate (?n - length ?A) 48)" and ?b = "digits_val (?B @ replicate (?n - length ?B) 48)"
  have digits: "all_digits ?A" "all_digits ?B" using canonical_digits assms(1,2) by (simp_all add: padded_def)
  have "cmp_magnitude a b = cmp ?A ?B"
    using la(1) lb(1) by (simp add: cmp_magnitude_def Let_def integral_digits_def then_with_def cmp_def)
  also have "\<dots> = then_with (cmp ?a ?b) (cmp (length ?A) (length ?B))" by (rule cmp_digit_texts [OF digits refl])
  also have "cmp ?a ?b = cmp (of_nat ?a :: rat) (of_nat ?b)" unfolding cmp_def of_nat_less_iff of_nat_eq_iff ..
  also have "\<dots> = cmp (leading_digits a * 10 ^ ?n) (leading_digits b * 10 ^ ?n)"
    by (simp only: padded_filled [OF la(1) max.cobounded1 max.cobounded1] padded_filled [OF lb(1) max.cobounded2 max.cobounded2])
  also have "\<dots> = cmp (leading_digits a) (leading_digits b)" by (simp add: cmp_def)
  also have "then_with (cmp (leading_digits a) (leading_digits b)) (cmp (length ?A) (length ?B)) =
      then_with (cmp (leading_digits a) (leading_digits b)) (cmp (magnitude a) (magnitude b))"
  proof (cases "leading_digits a = leading_digits b")
    case True
    let ?za = "dk_scale a - length (dk_digits a)" and ?zb = "dk_scale b - length (dk_digits b)"
    have "cmp (length ?A) (length ?B) = cmp (?m - ?za) (?m - ?zb)"
      by (simp only: length_padded [OF la(1) max.cobounded1] length_padded [OF lb(1) max.cobounded2])
    also have "\<dots> = cmp ?zb ?za" by (rule cmp_complement) (simp_all add: le_diff_conv le_max_iff_disj)
    also have "\<dots> = cmp ((10 :: rat) ^ ?zb) (10 ^ ?za)" by (rule cmp_power10)
    also have "\<dots> = cmp (magnitude a) (magnitude b)"
      unfolding la(3) lb(3) True [symmetric] by (rule cmp_divided [OF la(2)]) simp_all
    finally show ?thesis by simp
  qed (simp add: then_with_def cmp_def)
  finally show ?thesis .
qed

lemma cmp_magnitude_zero:
  assumes "canonical a" "0 < magnitude a" "magnitude a < 1"
  shows "cmp_magnitude a zero_key = Less"
  using below_one(1) [OF assms]
  by (simp add: cmp_magnitude_def Let_def integral_digits_def zero_key_def then_with_def cmp_def)

end
