(* ===== verification/Sync_Order.thy ===== *)
theory Sync_Order
  imports Sync_Keys
begin

text \<open>
  The order of the normalized keys is a total order, although it is not always the order of the
  numbers: the merge of the comparison is well defined on every kind of key.
\<close>

section \<open>Decimals\<close>

text \<open>Digit strings compare like their digits without the trailing zeros, then by length.\<close>

definition strip_zeros :: "utext \<Rightarrow> utext" where
  "strip_zeros s = rev (dropWhile (\<lambda>c. c = 48) (rev s))"

lemma strip_zeros_Nil [simp]: "strip_zeros [] = []"
  by (simp add: strip_zeros_def)

lemma strip_zeros_snoc: "strip_zeros (s @ [c]) = (if c = 48 then strip_zeros s else s @ [c])"
  by (simp add: strip_zeros_def)

lemma strip_zeros_Cons: "strip_zeros (c # s) = (if c = 48 \<and> strip_zeros s = [] then [] else c # strip_zeros s)"
proof (induction s rule: rev_induct)
  case Nil
  show ?case using strip_zeros_snoc [of "[]" c] by simp
next
  case (snoc d s)
  then show ?case using strip_zeros_snoc [of "c # s" d] by (auto simp: strip_zeros_snoc)
qed

lemma strip_zeros_pad [simp]: "strip_zeros (s @ replicate n 48) = strip_zeros s"
  by (induction n) (simp_all add: strip_zeros_snoc replicate_append_same [symmetric] flip: append_assoc)

lemma Nil_less: "s \<noteq> [] \<Longrightarrow> [] < (s :: utext)"
  by (cases s) simp_all

lemma cmp_strip:
  assumes "\<forall>c \<in> set a. 48 \<le> c" "\<forall>c \<in> set b. 48 \<le> c"
  shows "cmp a b = then_with (cmp (strip_zeros a) (strip_zeros b)) (cmp (length a) (length b))"
  using assms
proof (induction a arbitrary: b)
  case Nil
  then show ?case by (cases b) (auto simp: cmp_def then_with_def Nil_less)
next
  case (Cons x a)
  show ?case
  proof (cases b)
    case Nil
    then show ?thesis by (auto simp: cmp_def then_with_def)
  next
    case (Cons y b')
    have IH: "cmp a b' = then_with (cmp (strip_zeros a) (strip_zeros b')) (cmp (length a) (length b'))"
      using Cons.IH Cons.prems Cons by simp
    consider "x < y" | "y < x" | "x = y" by linarith
    then show ?thesis
    proof cases
      case 1
      then have "y \<noteq> 48" using Cons.prems by auto
      with 1 show ?thesis by (simp add: Cons strip_zeros_Cons cmp_def then_with_def)
    next
      case 2
      then have "x \<noteq> 48" using Cons.prems Cons by auto
      with 2 show ?thesis by (simp add: Cons strip_zeros_Cons cmp_def then_with_def)
    next
      case 3
      have "cmp (strip_zeros (x # a)) (strip_zeros (x # b')) = cmp (strip_zeros a) (strip_zeros b')"
        by (auto simp: strip_zeros_Cons cmp_def Nil_less)
      moreover have "cmp (x # a) (x # b') = cmp a b'" by (simp add: cmp_Cons)
      ultimately show ?thesis using IH by (simp add: Cons 3 cmp_def)
    qed
  qed
qed

definition magnitude_code :: "decimal_key \<Rightarrow> nat \<times> utext \<times> int" where
  "magnitude_code k =
     (integral_digits k, strip_zeros (dk_digits k), int (length (dk_digits k)) - int (dk_scale k))"

lemma cmp_pair: "cmp (a, b) (c, d) = then_with (cmp a c) (cmp b d)"
  by (auto simp: cmp_def then_with_def less_prod_def)

lemma digits_above: "all_digits s \<Longrightarrow> \<forall>c \<in> set s. 48 \<le> c"
  by (induction s) (auto simp: is_digit_def)

lemma cmp_magnitude_code:
  assumes "canonical a" "canonical b"
  shows "cmp_magnitude a b = cmp (magnitude_code a) (magnitude_code b)"
proof -
  let ?n = "max (dk_scale a) (dk_scale b)"
  have "\<forall>c \<in> set (padded ?n k). 48 \<le> c" if "canonical k" for k
    using digits_above canonical_digits [OF that] by (auto simp: padded_def)
  then have "cmp (padded ?n a) (padded ?n b) =
      then_with (cmp (strip_zeros (dk_digits a)) (strip_zeros (dk_digits b)))
        (cmp (length (padded ?n a)) (length (padded ?n b)))"
    using assms cmp_strip [of "padded ?n a" "padded ?n b"] by (simp add: padded_def)
  moreover have "cmp (length (padded ?n a)) (length (padded ?n b)) =
      cmp (int (length (dk_digits a)) - int (dk_scale a)) (int (length (dk_digits b)) - int (dk_scale b))"
    by (auto simp: cmp_def padded_def)
  ultimately show ?thesis
    by (simp add: cmp_magnitude_def magnitude_code_def cmp_pair Let_def)
qed

interpretation magnitude_order: coded_comparison cmp_magnitude canonical magnitude_code
  by unfold_locales (rule cmp_magnitude_code)

lemma reverse_reverse [simp]: "reverse (reverse x) = x"
  by (cases x) simp_all

lemma reverse_eq [simp]:
  "reverse x = Less \<longleftrightarrow> x = Greater" "reverse x = Equal \<longleftrightarrow> x = Equal" "reverse x = Greater \<longleftrightarrow> x = Less"
  by (cases x; simp)+

interpretation decimal_order: comparison cmp_decimal canonical
proof
  fix a b c
  assume v: "canonical a" "canonical b"
  show "cmp_decimal b a = reverse (cmp_decimal a b)"
    using magnitude_order.swap [OF v] by (auto simp: cmp_decimal_def)
  assume c: "canonical c"
  show "cmp_decimal a c = Less" if "cmp_decimal a b = Less" "cmp_decimal b c = Less"
    using that magnitude_order.less_trans [OF v c] magnitude_order.less_trans [OF c v(2,1)]
      magnitude_order.greater_iff v c
    by (auto simp: cmp_decimal_def split: if_splits)
  show "cmp_decimal a c = cmp_decimal b c" if "cmp_decimal a b = Equal"
    using that magnitude_order.equal_left [OF v c] by (auto simp: cmp_decimal_def split: if_splits)
qed

section \<open>Keys\<close>

fun valid_key :: "sync_key \<Rightarrow> bool" where
  "valid_key (KDecimal k) = canonical k"
| "valid_key _ = True"

interpretation text_order: coded_comparison cmp_text "\<lambda>_. True" bytes_of
  by unfold_locales (simp add: cmp_text_def)

lemma cmp_key_rank:
  "sync_key_kind_rank a \<noteq> sync_key_kind_rank b \<Longrightarrow> cmp_sync_key a b = cmp (sync_key_kind_rank a) (sync_key_kind_rank b)"
  by (cases a; cases b) simp_all

lemma cmp_key_swap:
  assumes "valid_key a" "valid_key b"
  shows "cmp_sync_key b a = reverse (cmp_sync_key a b)"
proof (cases "sync_key_kind_rank a = sync_key_kind_rank b")
  case False
  then show ?thesis
    using cmp_swap [of "sync_key_kind_rank b" "sync_key_kind_rank a"]
      cmp_key_rank [of a b] cmp_key_rank [of b a] by simp
next
  case True
  then consider i j where "a = KInteger i" "b = KInteger j" | s t where "a = KText s" "b = KText t"
    | j k where "a = KDecimal j" "b = KDecimal k" | s t where "a = KTimestamp s" "b = KTimestamp t"
    by (cases a; cases b) simp_all
  then show ?thesis
  proof cases
    case (1 i j)
    then show ?thesis using cmp_swap [of j i] by simp
  next
    case (2 s t)
    then show ?thesis using cmp_swap [of t s] by simp
  next
    case (3 j k)
    then show ?thesis using decimal_order.swap [of j k] assms by simp
  next
    case (4 s t)
    then show ?thesis using text_order.swap [of s t] by simp
  qed
qed

lemma cmp_key_less_rank: "cmp_sync_key a b = Less \<Longrightarrow> sync_key_kind_rank a \<le> sync_key_kind_rank b"
  by (cases a; cases b) (simp_all add: cmp_def)

lemma cmp_key_equal_rank: "cmp_sync_key a b = Equal \<Longrightarrow> sync_key_kind_rank a = sync_key_kind_rank b"
  by (cases a; cases b) (simp_all add: cmp_def)

interpretation key_order: comparison cmp_sync_key valid_key
proof
  fix a b c
  assume v: "valid_key a" "valid_key b"
  show "cmp_sync_key b a = reverse (cmp_sync_key a b)" using v by (rule cmp_key_swap)
  assume c: "valid_key c"
  show "cmp_sync_key a c = Less" if l: "cmp_sync_key a b = Less" "cmp_sync_key b c = Less"
  proof (cases "sync_key_kind_rank a = sync_key_kind_rank c")
    case False
    then show ?thesis
      using cmp_key_less_rank [OF l(1)] cmp_key_less_rank [OF l(2)] by (simp add: cmp_key_rank)
  next
    case True
    then have "sync_key_kind_rank a = sync_key_kind_rank b"
      using cmp_key_less_rank [OF l(1)] cmp_key_less_rank [OF l(2)] by simp
    note rank = this True
    show ?thesis
    proof (cases a)
      case (KInteger i)
      with rank l show ?thesis by (cases b; cases c) simp_all
    next
      case (KText t)
      with rank obtain tb tc where "b = KText tb" "c = KText tc" by (cases b; cases c) simp_all
      with KText l show ?thesis using order.strict_trans [of t tb tc] by simp
    next
      case (KDecimal k)
      with rank obtain kb kc where "b = KDecimal kb" "c = KDecimal kc" by (cases b; cases c) simp_all
      with KDecimal l v c show ?thesis using decimal_order.less_trans [of k kb kc] by simp
    next
      case (KTimestamp t)
      with rank obtain tb tc where "b = KTimestamp tb" "c = KTimestamp tc" by (cases b; cases c) simp_all
      with KTimestamp l show ?thesis using text_order.less_trans [of t tb tc] by simp
    qed
  qed
  show "cmp_sync_key a c = cmp_sync_key b c" if e: "cmp_sync_key a b = Equal"
  proof (cases "sync_key_kind_rank a = sync_key_kind_rank c")
    case False
    then show ?thesis using cmp_key_equal_rank [OF e] by (simp add: cmp_key_rank)
  next
    case True
    note rank = this cmp_key_equal_rank [OF e]
    show ?thesis
    proof (cases a)
      case (KDecimal k)
      with rank obtain kb kc where "b = KDecimal kb" "c = KDecimal kc" by (cases b; cases c) simp_all
      with KDecimal e v c show ?thesis using decimal_order.equal_left [of k kb kc] by simp
    next
      case (KTimestamp t)
      with rank obtain tb tc where "b = KTimestamp tb" "c = KTimestamp tc" by (cases b; cases c) simp_all
      with KTimestamp e show ?thesis using text_order.equal_left [of t tb tc] by simp
    qed (use rank e in \<open>cases b; cases c; simp\<close>)+
  qed
qed

lemma then_with_eq:
  "then_with x y = Less \<longleftrightarrow> x = Less \<or> x = Equal \<and> y = Less"
  "then_with x y = Equal \<longleftrightarrow> x = Equal \<and> y = Equal"
  by (auto simp: then_with_def)

lemma cmp_sync_keys_Nil: "cmp_sync_keys as [] = cmp (length as) 0"
  by (cases as) simp_all

lemma cmp_keys_swap:
  "list_all valid_key as \<Longrightarrow> list_all valid_key bs \<Longrightarrow> cmp_sync_keys bs as = reverse (cmp_sync_keys as bs)"
proof (induction as bs rule: cmp_sync_keys.induct)
  case (1 a as b bs)
  then show ?case using key_order.swap [of a b] by (auto simp: then_with_def)
qed (auto simp: cmp_sync_keys_Nil cmp_def)

lemma cmp_keys_trans:
  assumes "list_all valid_key as" "list_all valid_key bs" "list_all valid_key cs"
    "cmp_sync_keys as bs = Less" "cmp_sync_keys bs cs = Less"
  shows "cmp_sync_keys as cs = Less"
  using assms
proof (induction as arbitrary: bs cs)
  case Nil
  then show ?case by (cases bs; cases cs) (auto simp: cmp_def split: if_splits)
next
  case (Cons a as)
  then obtain b bs' where bs: "bs = b # bs'" by (cases bs) (auto simp: cmp_def split: if_splits)
  with Cons.prems obtain c cs' where cs: "cs = c # cs'" by (cases cs) (auto simp: cmp_def split: if_splits)
  show ?case
    using Cons.prems Cons.IH [of bs' cs'] key_order.less_trans [of a b c] key_order.equal_less [of a b c]
      key_order.less_equal [of a b c] key_order.equal_left [of a b c]
    by (auto simp: bs cs then_with_eq)
qed

lemma cmp_keys_equal:
  assumes "list_all valid_key as" "list_all valid_key bs" "list_all valid_key cs" "cmp_sync_keys as bs = Equal"
  shows "cmp_sync_keys as cs = cmp_sync_keys bs cs"
  using assms
proof (induction as arbitrary: bs cs)
  case Nil
  then show ?case by (cases bs) (auto simp: cmp_def split: if_splits)
next
  case (Cons a as)
  then obtain b bs' where bs: "bs = b # bs'" by (cases bs) (auto simp: cmp_def split: if_splits)
  then show ?case
  proof (cases cs)
    case Nil
    then show ?thesis by (simp add: bs cmp_def)
  next
    case (Cons c cs')
    then show ?thesis
      using Cons.prems Cons.IH [of bs' cs'] key_order.equal_left [of a b c] by (auto simp: bs then_with_eq)
  qed
qed

interpretation keys_order: comparison cmp_sync_keys "list_all valid_key"
  by unfold_locales (fact cmp_keys_swap cmp_keys_trans cmp_keys_equal)+

section \<open>Normalized values are valid\<close>

lemma normalize_text_valid: "normalize_text v = Inr k \<Longrightarrow> valid_key k"
  by (cases v) auto

lemma normalize_key_valid: "normalize_key env kind v = Inr k \<Longrightarrow> valid_key k"
  by (auto simp: normalize_key_def normalize_integer_def obind_eq_Inr normalize_text_valid decimal_parse_canonical
      split: option.splits cell.splits key_kind.splits if_splits)

lemma from_value_valid: "from_value v = Inr k \<Longrightarrow> valid_key k"
  by (cases v) auto

end
