(* ===== verification/Sync_Merge.thy ===== *)
theory Sync_Merge
  imports Sync_Compare Sync_Order
begin

text \<open>
  The streaming merge against the merge of whole lists. \<open>scans\<close> says which rows a source delivers when
  it is read to its end in checked pages; \<open>merge_all\<close> is the loop on the two lists of rows. The paged
  loop returns a result exactly when both scans end, and then the result of \<open>merge_all\<close>.
\<close>

section \<open>Scans\<close>

inductive scans ::
    "('s, 't, 'j, 'k) compare_env \<Rightarrow> ('p, 'j) page_source \<Rightarrow> 'p \<Rightarrow> 'j cell list option \<Rightarrow> 'j row list \<Rightarrow> bool"
  for E src where
  scan_end: "next_page src p after (so_batch_size (ce_options E)) = (Inr [], p') \<Longrightarrow>
     check_page E src [] after = Inr () \<Longrightarrow> scans E src p after []"
| scan_page: "next_page src p after (so_batch_size (ce_options E)) = (Inr page, p') \<Longrightarrow> page \<noteq> [] \<Longrightarrow>
     check_page E src page after = Inr () \<Longrightarrow> extract_key (last page) (ce_pk E) = Inr k \<Longrightarrow>
     scans E src p' (Some k) rows \<Longrightarrow> scans E src p after (page @ rows)"

fun merge_all ::
    "('s, 't, 'j, 'k) compare_env \<Rightarrow> 'j row list \<Rightarrow> 'j row list \<Rightarrow> 'k merge_progress \<Rightarrow> sync_error + 'k merge_progress" where
  "merge_all E [] [] p = round_check E p"
| "merge_all E [] (t # ts) p =
     obind (round_check E p) (\<lambda>p. obind (delete_row E t p) (\<lambda>(m, p'). merge_all E [] ts p'))"
| "merge_all E (s # ss) [] p =
     obind (round_check E p) (\<lambda>p. obind (insert_row E s p) (\<lambda>(m, p'). merge_all E ss [] p'))"
| "merge_all E (s # ss) (t # ts) p =
     obind (round_check E p) (\<lambda>p. obind (merge_rows E s t p) (\<lambda>(m, p').
       (case m of
          TakeSource \<Rightarrow> merge_all E ss (t # ts) p'
        | TakeTarget \<Rightarrow> merge_all E (s # ss) ts p'
        | TakeBoth \<Rightarrow> merge_all E ss ts p')))"

section \<open>The rows a cursor has left\<close>

definition unread ::
    "('s, 't, 'j, 'k) compare_env \<Rightarrow> ('p, 'j) page_source \<Rightarrow> ('p, 'j) cursor \<Rightarrow> 'j row list \<Rightarrow> bool" where
  "unread E src c rows \<longleftrightarrow>
     (if cu_page c = [] then rows = []
      else \<exists>k rest. cu_index c \<le> length (cu_page c) \<and> rows = drop (cu_index c) (cu_page c) @ rest \<and>
        extract_key (last (cu_page c)) (ce_pk E) = Inr k \<and> scans E src (cu_source c) (Some k) rest)"

lemma unreadI:
  "cu_page c \<noteq> [] \<Longrightarrow> cu_index c \<le> length (cu_page c) \<Longrightarrow> extract_key (last (cu_page c)) (ce_pk E) = Inr k \<Longrightarrow>
   scans E src (cu_source c) (Some k) rest \<Longrightarrow> unread E src c (drop (cu_index c) (cu_page c) @ rest)"
  by (auto simp: unread_def)

lemma unreadE:
  assumes "unread E src c rows" "cu_page c \<noteq> []"
  obtains k rest where "cu_index c \<le> length (cu_page c)" "rows = drop (cu_index c) (cu_page c) @ rest"
    "extract_key (last (cu_page c)) (ce_pk E) = Inr k" "scans E src (cu_source c) (Some k) rest"
  using assms by (auto simp: unread_def)

text \<open>A cursor has a row to show, or is at the end.\<close>

definition shows_row :: "('p, 'j) cursor \<Rightarrow> 'j row list \<Rightarrow> bool" where
  "shows_row c rows \<longleftrightarrow> (if rows = [] then cu_page c = []
     else cu_page c \<noteq> [] \<and> cu_index c < length (cu_page c) \<and> current_row c = hd rows)"

lemma refill_unread:
  assumes "unread E src c rows"
  obtains c' where "refill E src c = Inr c'" "unread E src c' rows" "shows_row c' rows"
proof (cases "cu_page c = []")
  case True
  with assms that [of c] show ?thesis by (simp add: refill_def unread_def shows_row_def)
next
  case page: False
  from assms page obtain k rest where u: "cu_index c \<le> length (cu_page c)"
    "rows = drop (cu_index c) (cu_page c) @ rest"
    "extract_key (last (cu_page c)) (ce_pk E) = Inr k" "scans E src (cu_source c) (Some k) rest"
    by (rule unreadE)
  show ?thesis
  proof (cases "cu_index c < length (cu_page c)")
    case True
    with page u assms that [of c] show ?thesis
      by (simp add: refill_def shows_row_def current_row_def hd_append hd_drop_conv_nth)
  next
    case False
    with u have rest: "rows = rest" by simp
    note unfold_refill = refill_def u(3) page False [unfolded not_less]
    from u(4) show ?thesis
    proof (cases rule: scans.cases)
      case (scan_end p')
      then show ?thesis
        using that [of "\<lparr>cu_source = p', cu_page = [], cu_index = 0\<rparr>"] rest
        by (simp add: unfold_refill unread_def shows_row_def)
    next
      case (scan_page page' p' k' rows')
      have "unread E src \<lparr>cu_source = p', cu_page = page', cu_index = 0\<rparr> rows"
        using scan_page rest by (simp add: unread_def)
      moreover have "shows_row \<lparr>cu_source = p', cu_page = page', cu_index = 0\<rparr> rows"
        using scan_page rest by (simp add: shows_row_def current_row_def hd_conv_nth nth_append)
      moreover have "refill E src c = Inr \<lparr>cu_source = p', cu_page = page', cu_index = 0\<rparr>"
        using scan_page by (simp add: unfold_refill)
      ultimately show ?thesis using that by blast
    qed
  qed
qed

lemma unread_advance:
  assumes "unread E src c rows" "shows_row c rows" "rows \<noteq> []"
  shows "unread E src (c\<lparr>cu_index := cu_index c + 1\<rparr>) (tl rows)"
proof -
  have page: "cu_page c \<noteq> []" "cu_index c < length (cu_page c)" using assms(2,3) by (simp_all add: shows_row_def)
  with assms(1) obtain k rest where "rows = drop (cu_index c) (cu_page c) @ rest"
    "extract_key (last (cu_page c)) (ce_pk E) = Inr k" "scans E src (cu_source c) (Some k) rest"
    by (auto elim: unreadE)
  moreover have "drop (cu_index c) (cu_page c) = cu_page c ! cu_index c # drop (Suc (cu_index c)) (cu_page c)"
    using page(2) by (rule Cons_nth_drop_Suc [symmetric])
  ultimately show ?thesis using page by (auto simp: unread_def)
qed

section \<open>The loop computes the merge\<close>

lemma settle_move_simps [simp]:
  "ms_source (settle_move TakeSource st) = (ms_source st)\<lparr>cu_index := cu_index (ms_source st) + 1\<rparr>"
  "ms_source (settle_move TakeBoth st) = (ms_source st)\<lparr>cu_index := cu_index (ms_source st) + 1\<rparr>"
  "ms_source (settle_move TakeTarget st) = ms_source st"
  "ms_target (settle_move TakeTarget st) = (ms_target st)\<lparr>cu_index := cu_index (ms_target st) + 1\<rparr>"
  "ms_target (settle_move TakeBoth st) = (ms_target st)\<lparr>cu_index := cu_index (ms_target st) + 1\<rparr>"
  "ms_target (settle_move TakeSource st) = ms_target st"
  "ms_progress (settle_move m st) = ms_progress st"
  by (simp_all add: settle_move_def split: merge_move.split)

lemma delete_row_move: "delete_row E t p = Inr (m, p') \<Longrightarrow> m = TakeTarget"
  by (auto simp: delete_row_def obind_eq_Inr)

lemma insert_row_move: "insert_row E t p = Inr (m, p') \<Longrightarrow> m = TakeSource"
  by (auto simp: insert_row_def obind_eq_Inr)

lemma merge_loop_merges:
  "unread E (ce_source E) (ms_source st) S \<Longrightarrow> unread E (ce_target E) (ms_target st) T \<Longrightarrow>
   merge_loop E st = Some (merge_all E S T (ms_progress st))"
proof (induction "length S + length T" arbitrary: st S T rule: less_induct)
  case less
  from less.prems(1) obtain src where src: "refill E (ce_source E) (ms_source st) = Inr src"
    "unread E (ce_source E) src S" "shows_row src S" by (rule refill_unread)
  from less.prems(2) obtain tgt where tgt: "refill E (ce_target E) (ms_target st) = Inr tgt"
    "unread E (ce_target E) tgt T" "shows_row tgt T" by (rule refill_unread)
  show ?case
  proof (cases "round_check E (ms_progress st)")
    case (Inl e)
    then show ?thesis by (cases S; cases T) (simp_all add: merge_loop.simps [of E st] merge_round_def)
  next
    case (Inr p)
    have loop: "merge_loop E st =
        (case (if cu_page src = [] \<and> cu_page tgt = [] then Inr (None, p)
          else obind
            (if cu_page src = [] then delete_row E (current_row tgt) p
             else if cu_page tgt = [] then insert_row E (current_row src) p
             else merge_rows E (current_row src) (current_row tgt) p)
            (\<lambda>(m, p'). Inr (Some (settle_move m \<lparr>ms_source = src, ms_target = tgt, ms_progress = p'\<rparr>), p'))) of
           Inl e \<Rightarrow> Some (Inl e) | Inr (None, p) \<Rightarrow> Some (Inr p) | Inr (Some st', _) \<Rightarrow> merge_loop E st')"
      by (simp add: merge_loop.simps [of E st] merge_round_def Inr src(1) tgt(1))
    have step: "merge_loop E (settle_move m \<lparr>ms_source = src, ms_target = tgt, ms_progress = p'\<rparr>) =
        Some (merge_all E S' T' p')"
      if "S' = (if m = TakeTarget then S else tl S)" "T' = (if m = TakeSource then T else tl T)"
         "m = TakeTarget \<or> S \<noteq> []" "m = TakeSource \<or> T \<noteq> []" for m p' S' T'
    proof -
      let ?st = "settle_move m \<lparr>ms_source = src, ms_target = tgt, ms_progress = p'\<rparr>"
      have "unread E (ce_source E) (ms_source ?st) S'"
        using that src unread_advance [of E "ce_source E" src S] by (cases m) simp_all
      moreover have "unread E (ce_target E) (ms_target ?st) T'"
        using that tgt unread_advance [of E "ce_target E" tgt T] by (cases m) simp_all
      moreover have "length S' + length T' < length S + length T"
        using that by (cases m; cases S; cases T) simp_all
      ultimately show ?thesis using less.hyps by fastforce
    qed
    show ?thesis
    proof (cases S)
      case S: Nil
      then have [simp]: "cu_page src = []" using src(3) by (simp add: shows_row_def)
      show ?thesis
      proof (cases T)
        case Nil
        then have "cu_page tgt = []" using tgt(3) by (simp add: shows_row_def)
        then show ?thesis by (simp add: loop S Nil Inr)
      next
        case (Cons t ts)
        then have "cu_page tgt \<noteq> []" "current_row tgt = t" using tgt(3) by (simp_all add: shows_row_def)
        then show ?thesis
          using step [of "[]" TakeTarget ts] delete_row_move [of E t p] S Cons
          by (cases "delete_row E t p") (auto simp: loop Inr)
      qed
    next
      case S: (Cons s ss)
      then have s: "cu_page src \<noteq> []" "current_row src = s" using src(3) by (simp_all add: shows_row_def)
      show ?thesis
      proof (cases T)
        case Nil
        then have "cu_page tgt = []" using tgt(3) by (simp add: shows_row_def)
        then show ?thesis
          using step [of ss TakeSource "[]"] insert_row_move [of E s p] S Nil s
          by (cases "insert_row E s p") (auto simp: loop Inr)
      next
        case (Cons t ts)
        then have t: "cu_page tgt \<noteq> []" "current_row tgt = t" using tgt(3) by (simp_all add: shows_row_def)
        show ?thesis
        proof (cases "merge_rows E s t p")
          case (Inr r)
          obtain m p' where r: "r = (m, p')" by (cases r)
          show ?thesis
            using s t Inr \<open>round_check E (ms_progress st) = Inr p\<close> S Cons
              step [of ss TakeSource T p'] step [of S TakeTarget ts p'] step [of ss TakeBoth ts p']
            by (cases m) (simp_all add: loop r)
        qed (use s t S Cons \<open>round_check E (ms_progress st) = Inr p\<close> in \<open>simp add: loop\<close>)
      qed
    qed
  qed
qed

section \<open>A result comes from two scans\<close>

text \<open>
  Conversely a comparison that returns a result has read both sources to their ends: the rows that a
  cursor has left are found by following the loop.
\<close>

definition cursor_ok ::
    "('s, 't, 'j, 'k) compare_env \<Rightarrow> ('p, 'j) cursor \<Rightarrow> bool" where
  "cursor_ok E c \<longleftrightarrow> cu_page c = [] \<or>
     cu_index c \<le> length (cu_page c) \<and> (\<exists>k. extract_key (last (cu_page c)) (ce_pk E) = Inr k)"

lemma validate_rows_keys:
  "validate_rows nrm pk names prev rows = Inr () \<Longrightarrow> row \<in> set rows \<Longrightarrow> \<exists>raw. extract_key row pk = Inr raw"
proof (induction rows arbitrary: prev)
  case (Cons r rows)
  then show ?case by (auto simp: obind_eq_Inr split: if_splits)
qed simp

lemma check_page_keys:
  "check_page E src page after = Inr () \<Longrightarrow> row \<in> set page \<Longrightarrow> \<exists>raw. extract_key row (ce_pk E) = Inr raw"
  unfolding check_page_def validate_page_def
  by (auto simp: obind_eq_Inr split: if_splits dest: validate_rows_keys)

lemma page_cursor_ok:
  "check_page E src page after = Inr () \<Longrightarrow> cursor_ok E \<lparr>cu_source = p, cu_page = page, cu_index = 0\<rparr>"
  using check_page_keys [of E src page after "last page"] by (cases "page = []") (auto simp: cursor_ok_def)

lemma refill_cases:
  assumes "refill E src c = Inr c'"
  obtains "c' = c" "cu_page c \<noteq> [] \<longrightarrow> cu_index c < length (cu_page c)"
  | after page p where "cu_page c \<noteq> []" "length (cu_page c) \<le> cu_index c"
      "extract_key (last (cu_page c)) (ce_pk E) = Inr after"
      "next_page src (cu_source c) (Some after) (so_batch_size (ce_options E)) = (Inr page, p)"
      "check_page E src page (Some after) = Inr ()"
      "c' = \<lparr>cu_source = p, cu_page = page, cu_index = 0\<rparr>"
proof (cases "length (cu_page c) \<le> cu_index c \<and> cu_page c \<noteq> []")
  case True
  with assms obtain after where after: "extract_key (last (cu_page c)) (ce_pk E) = Inr after"
    and st: "(let (r, p) = next_page src (cu_source c) (Some after) (so_batch_size (ce_options E))
         in obind r (\<lambda>page. obind (check_page E src page (Some after)) (\<lambda>_.
              Inr \<lparr>cu_source = p, cu_page = page, cu_index = 0\<rparr>))) = Inr c'"
    by (auto simp: refill_def obind_eq_Inr)
  obtain r p where np: "next_page src (cu_source c) (Some after) (so_batch_size (ce_options E)) = (r, p)"
    by (cases "next_page src (cu_source c) (Some after) (so_batch_size (ce_options E))")
  from st obtain page where "r = Inr page" "check_page E src page (Some after) = Inr ()"
    "c' = \<lparr>cu_source = p, cu_page = page, cu_index = 0\<rparr>"
    by (auto simp: np obind_eq_Inr)
  with True after np that(2) show ?thesis by blast
next
  case False
  with assms that(1) show ?thesis by (auto simp: refill_def)
qed

lemma refill_ok:
  assumes "refill E src c = Inr c'" "cursor_ok E c"
  shows "cursor_ok E c'" "cu_page c' \<noteq> [] \<longrightarrow> cu_index c' < length (cu_page c')"
proof -
  have "cursor_ok E c' \<and> (cu_page c' \<noteq> [] \<longrightarrow> cu_index c' < length (cu_page c'))"
    using assms(1)
  proof (cases rule: refill_cases)
    case (2 after page p)
    with page_cursor_ok [OF 2(5)] show ?thesis by auto
  qed (use assms(2) in simp)
  then show "cursor_ok E c'" "cu_page c' \<noteq> [] \<longrightarrow> cu_index c' < length (cu_page c')" by blast+
qed

lemma refill_unread_back:
  assumes "refill E src c = Inr c'" "cursor_ok E c" "unread E src c' rows"
  shows "unread E src c rows"
  using assms(1)
proof (cases rule: refill_cases)
  case 1
  with assms(3) show ?thesis by simp
next
  case (2 after page p)
  have idx: "cu_index c = length (cu_page c)" using 2(1,2) assms(2) by (simp add: cursor_ok_def)
  have "scans E src (cu_source c) (Some after) rows"
  proof (cases "page = []")
    case True
    with assms(3) 2 have "rows = []" by (simp add: unread_def)
    with True 2 show ?thesis by (auto intro: scan_end)
  next
    case False
    with assms(3) 2(6) obtain k rest where "rows = page @ rest" "extract_key (last page) (ce_pk E) = Inr k"
      "scans E src p (Some k) rest" by (auto elim: unreadE)
    with False 2 show ?thesis by (auto intro: scan_page)
  qed
  with 2 idx show ?thesis by (auto simp: unread_def)
qed

lemma unread_retreat:
  assumes "unread E src (c\<lparr>cu_index := cu_index c + 1\<rparr>) rows" "cu_page c \<noteq> []" "cu_index c < length (cu_page c)"
  shows "unread E src c (current_row c # rows)"
proof -
  from assms(1,2) obtain k rest where "rows = drop (cu_index c + 1) (cu_page c) @ rest"
    "extract_key (last (cu_page c)) (ce_pk E) = Inr k" "scans E src (cu_source c) (Some k) rest"
    by (auto elim: unreadE)
  moreover have "drop (cu_index c) (cu_page c) = current_row c # drop (cu_index c + 1) (cu_page c)"
    using Cons_nth_drop_Suc [OF assms(3)] by (simp add: current_row_def)
  ultimately show ?thesis using assms(2,3) by (auto simp: unread_def)
qed

lemma cursor_ok_advance:
  "cursor_ok E c \<Longrightarrow> cu_index c < length (cu_page c) \<Longrightarrow> cursor_ok E (c\<lparr>cu_index := cu_index c + 1\<rparr>)"
  by (auto simp: cursor_ok_def)

lemma merge_round_cases:
  assumes "merge_round E st = Inr (nxt, q)"
  obtains p src tgt where "round_check E (ms_progress st) = Inr p"
      "refill E (ce_source E) (ms_source st) = Inr src" "refill E (ce_target E) (ms_target st) = Inr tgt"
      "nxt = None" "cu_page src = []" "cu_page tgt = []" "q = p"
  | p src tgt m where "round_check E (ms_progress st) = Inr p"
      "refill E (ce_source E) (ms_source st) = Inr src" "refill E (ce_target E) (ms_target st) = Inr tgt"
      "nxt = Some (settle_move m \<lparr>ms_source = src, ms_target = tgt, ms_progress = q\<rparr>)"
      "m \<noteq> TakeTarget \<Longrightarrow> cu_page src \<noteq> []" "m \<noteq> TakeSource \<Longrightarrow> cu_page tgt \<noteq> []"
proof -
  from assms obtain p src tgt where r: "round_check E (ms_progress st) = Inr p"
      "refill E (ce_source E) (ms_source st) = Inr src" "refill E (ce_target E) (ms_target st) = Inr tgt"
    unfolding merge_round_def obind_eq_Inr by blast
  show ?thesis
  proof (cases "cu_page src = [] \<and> cu_page tgt = []")
    case True
    with assms r that(1) show ?thesis by (simp add: merge_round_def)
  next
    case False
    with assms r obtain m where m: "nxt = Some (settle_move m \<lparr>ms_source = src, ms_target = tgt, ms_progress = q\<rparr>)"
      "(if cu_page src = [] then delete_row E (current_row tgt) p
        else if cu_page tgt = [] then insert_row E (current_row src) p
        else merge_rows E (current_row src) (current_row tgt) p) = Inr (m, q)"
      by (auto simp: merge_round_def obind_eq_Inr)
    have "m \<noteq> TakeTarget \<Longrightarrow> cu_page src \<noteq> []" "m \<noteq> TakeSource \<Longrightarrow> cu_page tgt \<noteq> []"
      using m(2) False by (auto split: if_splits dest: delete_row_move insert_row_move)
    with m(1) r that(2) show ?thesis by blast
  qed
qed

lemma settle_unread_back:
  assumes "unread E src (ms_source (settle_move m st)) rows" "m \<noteq> TakeTarget \<Longrightarrow> cu_page (ms_source st) \<noteq> []"
    "cu_page (ms_source st) \<noteq> [] \<longrightarrow> cu_index (ms_source st) < length (cu_page (ms_source st))"
  shows "\<exists>rows. unread E src (ms_source st) rows"
  using assms unread_retreat [of E src "ms_source st" rows] by (cases m) auto

lemma settle_unread_back_target:
  assumes "unread E src (ms_target (settle_move m st)) rows" "m \<noteq> TakeSource \<Longrightarrow> cu_page (ms_target st) \<noteq> []"
    "cu_page (ms_target st) \<noteq> [] \<longrightarrow> cu_index (ms_target st) < length (cu_page (ms_target st))"
  shows "\<exists>rows. unread E src (ms_target st) rows"
  using assms unread_retreat [of E src "ms_target st" rows] by (cases m) auto

lemma settle_cursor_ok:
  assumes "cursor_ok E (ms_source st)" "cursor_ok E (ms_target st)"
    "m \<noteq> TakeTarget \<Longrightarrow> cu_page (ms_source st) \<noteq> []" "m \<noteq> TakeSource \<Longrightarrow> cu_page (ms_target st) \<noteq> []"
    "cu_page (ms_source st) \<noteq> [] \<longrightarrow> cu_index (ms_source st) < length (cu_page (ms_source st))"
    "cu_page (ms_target st) \<noteq> [] \<longrightarrow> cu_index (ms_target st) < length (cu_page (ms_target st))"
  shows "cursor_ok E (ms_source (settle_move m st))" "cursor_ok E (ms_target (settle_move m st))"
  using assms cursor_ok_advance [of E "ms_source st"] cursor_ok_advance [of E "ms_target st"]
  by (cases m; simp)+

lemma merge_loop_scans:
  assumes "merge_loop (E :: ('s, 't, 'j, 'k) compare_env) st = Some r"
  shows "r = Inr p \<longrightarrow> cursor_ok E (ms_source st) \<longrightarrow> cursor_ok E (ms_target st) \<longrightarrow>
    (\<exists>S T. unread E (ce_source E) (ms_source st) S \<and> unread E (ce_target E) (ms_target st) T)"
proof (rule merge_loop.raw_induct [OF _ assms])
  fix loop :: "('s, 't, 'j, 'k) compare_env \<Rightarrow> ('s, 't, 'j, 'k) merge_state \<Rightarrow> (sync_error + 'k merge_progress) option"
  fix E :: "('s, 't, 'j, 'k) compare_env" and st r
  assume IH: "\<And>E st r. loop E st = Some r \<Longrightarrow> r = Inr p \<longrightarrow> cursor_ok E (ms_source st) \<longrightarrow>
      cursor_ok E (ms_target st) \<longrightarrow>
      (\<exists>S T. unread E (ce_source E) (ms_source st) S \<and> unread E (ce_target E) (ms_target st) T)"
    and run: "(case merge_round E st of Inl e \<Rightarrow> Some (Inl e) | Inr (None, p) \<Rightarrow> Some (Inr p)
        | Inr (Some st', _) \<Rightarrow> loop E st') = Some r"
  show "r = Inr p \<longrightarrow> cursor_ok E (ms_source st) \<longrightarrow> cursor_ok E (ms_target st) \<longrightarrow>
      (\<exists>S T. unread E (ce_source E) (ms_source st) S \<and> unread E (ce_target E) (ms_target st) T)"
  proof (intro impI)
    assume r: "r = Inr p" and ok: "cursor_ok E (ms_source st)" "cursor_ok E (ms_target st)"
    with run obtain nxt q where mr: "merge_round E st = Inr (nxt, q)"
      by (cases "merge_round E st") auto
    then show "\<exists>S T. unread E (ce_source E) (ms_source st) S \<and> unread E (ce_target E) (ms_target st) T"
    proof (cases rule: merge_round_cases)
      case (1 p' src tgt)
      then have "unread E (ce_source E) src []" "unread E (ce_target E) tgt []" by (simp_all add: unread_def)
      with refill_unread_back [OF 1(2) ok(1)] refill_unread_back [OF 1(3) ok(2)] show ?thesis by blast
    next
      case (2 p' src tgt m)
      let ?st = "\<lparr>ms_source = src, ms_target = tgt, ms_progress = q\<rparr>"
      note oks = refill_ok [OF 2(2) ok(1)] refill_ok [OF 2(3) ok(2)]
      have "loop E (settle_move m ?st) = Some (Inr p)" using run r mr 2(4) by simp
      moreover have "cursor_ok E (ms_source (settle_move m ?st))" "cursor_ok E (ms_target (settle_move m ?st))"
        using settle_cursor_ok [of E ?st m] oks 2(5,6) by simp_all
      ultimately obtain S T where "unread E (ce_source E) (ms_source (settle_move m ?st)) S"
        "unread E (ce_target E) (ms_target (settle_move m ?st)) T"
        using IH by blast
      then obtain S T where "unread E (ce_source E) src S" "unread E (ce_target E) tgt T"
        using settle_unread_back [of E "ce_source E" m ?st] settle_unread_back_target [of E "ce_target E" m ?st]
          oks 2(5,6) by fastforce
      with refill_unread_back [OF 2(2) ok(1)] refill_unread_back [OF 2(3) ok(2)] show ?thesis by blast
    qed
  qed
qed

text \<open>The first pages.\<close>

lemma first_pages_iff:
  "first_pages E s t = Inr (src, tgt) \<longleftrightarrow>
     (\<exists>spage s' tpage t'. next_page (ce_source E) s None (so_batch_size (ce_options E)) = (Inr spage, s') \<and>
        next_page (ce_target E) t None (so_batch_size (ce_options E)) = (Inr tpage, t') \<and>
        check_page E (ce_source E) spage None = Inr () \<and> check_page E (ce_target E) tpage None = Inr () \<and>
        src = \<lparr>cu_source = s', cu_page = spage, cu_index = 0\<rparr> \<and>
        tgt = \<lparr>cu_source = t', cu_page = tpage, cu_index = 0\<rparr>)"
  unfolding first_pages_def Let_def
  by (cases "next_page (ce_source E) s None (so_batch_size (ce_options E))";
      cases "next_page (ce_target E) t None (so_batch_size (ce_options E))")
    (auto simp: obind_eq_Inr)

lemma scans_first:
  "scans E src p None rows \<longleftrightarrow>
     (\<exists>page p'. next_page src p None (so_batch_size (ce_options E)) = (Inr page, p') \<and>
        check_page E src page None = Inr () \<and>
        unread E src \<lparr>cu_source = p', cu_page = page, cu_index = 0\<rparr> rows)" (is "_ \<longleftrightarrow> ?R")
proof
  show ?R if "scans E src p None rows"
    using that by (cases rule: scans.cases) (auto simp: unread_def)
  show "scans E src p None rows" if ?R
  proof -
    from that obtain page p' where np: "next_page src p None (so_batch_size (ce_options E)) = (Inr page, p')"
      "check_page E src page None = Inr ()" and u: "unread E src \<lparr>cu_source = p', cu_page = page, cu_index = 0\<rparr> rows"
      by blast
    show ?thesis
    proof (cases "page = []")
      case True
      with u np show ?thesis by (auto simp: unread_def intro: scan_end)
    next
      case False
      with u obtain k rest where "rows = page @ rest" "extract_key (last page) (ce_pk E) = Inr k"
        "scans E src p' (Some k) rest" by (auto elim: unreadE)
      with np False show ?thesis by (auto intro: scan_page)
    qed
  qed
qed

definition finished_result ::
    "('s, 't, 'j, 'k) compare_env \<Rightarrow> utext \<Rightarrow> utext \<Rightarrow> 'k merge_progress \<Rightarrow> 'j table_result" where
  "finished_result E a b p =
     (matched_table a b [])\<lparr>tr_columns := ce_columns E, tr_primary_keys := map (\<lambda>i. ce_columns E ! i) (ce_pk E),
        tr_unchanged := mp_unchanged p\<rparr>"

lemma compare_into_scans:
  assumes "options_validate (ce_options E) = None"
    "scans E (ce_source E) s None S" "scans E (ce_target E) t None T"
  shows "compare_table_pages_into E a b s t k =
    Some (obind (merge_all E S T (start_progress k)) (\<lambda>p. Inr (finished_result E a b p, mp_sink p)))"
proof -
  obtain src tgt where fp: "first_pages E s t = Inr (src, tgt)"
    and u: "unread E (ce_source E) src S" "unread E (ce_target E) tgt T"
    using assms(2,3) unfolding scans_first first_pages_iff by blast
  have "merge_loop E \<lparr>ms_source = src, ms_target = tgt, ms_progress = start_progress k\<rparr> =
      Some (merge_all E S T (start_progress k))"
    using merge_loop_merges [of E "\<lparr>ms_source = src, ms_target = tgt, ms_progress = start_progress k\<rparr>" S T] u by simp
  then show ?thesis by (simp add: compare_table_pages_into_def assms(1) fp finished_result_def)
qed

lemma compare_into_result:
  assumes "compare_table_pages_into E a b s t k = Some (Inr r)"
  obtains S T where "options_validate (ce_options E) = None"
    "scans E (ce_source E) s None S" "scans E (ce_target E) t None T"
proof -
  have opts: "options_validate (ce_options E) = None"
    using assms by (auto simp: compare_table_pages_into_def split: option.splits)
  obtain src tgt where fp: "first_pages E s t = Inr (src, tgt)"
    using assms opts by (cases "first_pages E s t") (auto simp: compare_table_pages_into_def)
  obtain p where loop: "merge_loop E \<lparr>ms_source = src, ms_target = tgt, ms_progress = start_progress k\<rparr> = Some (Inr p)"
    using assms by (auto simp: compare_table_pages_into_def opts fp obind_eq_Inr)
  from fp obtain spage s' tpage t' where np: "next_page (ce_source E) s None (so_batch_size (ce_options E)) = (Inr spage, s')"
      "next_page (ce_target E) t None (so_batch_size (ce_options E)) = (Inr tpage, t')"
      "check_page E (ce_source E) spage None = Inr ()" "check_page E (ce_target E) tpage None = Inr ()"
      "src = \<lparr>cu_source = s', cu_page = spage, cu_index = 0\<rparr>" "tgt = \<lparr>cu_source = t', cu_page = tpage, cu_index = 0\<rparr>"
    unfolding first_pages_iff by blast
  have "cursor_ok E src" "cursor_ok E tgt"
    using page_cursor_ok [OF np(3)] page_cursor_ok [OF np(4)] np(5,6) by simp_all
  then obtain S T where "unread E (ce_source E) src S" "unread E (ce_target E) tgt T"
    using merge_loop_scans [OF loop, of p] by auto
  with that opts np show ?thesis unfolding scans_first by blast
qed

end
