(* ===== verification/Sync_Classify.thy ===== *)
theory Sync_Classify
  imports Sync_Merge
begin

text \<open>
  Which differences a merge reports. \<open>merge_pairs\<close> is the merge of two lists as a list of pairs; under
  a comparison contract it pairs exactly the rows of equal keys. The rows a checked scan delivers are
  strictly increasing in their normalized keys, so the contract applies to them.
\<close>

section \<open>Merging sorted lists\<close>

fun merge_pairs :: "('a \<Rightarrow> 'b \<Rightarrow> ordering) \<Rightarrow> 'a list \<Rightarrow> 'b list \<Rightarrow> ('a option \<times> 'b option) list" where
  "merge_pairs c [] [] = []"
| "merge_pairs c [] (t # ts) = (None, Some t) # merge_pairs c [] ts"
| "merge_pairs c (s # ss) [] = (Some s, None) # merge_pairs c ss []"
| "merge_pairs c (s # ss) (t # ts) =
     (case c s t of
        Less \<Rightarrow> (Some s, None) # merge_pairs c ss (t # ts)
      | Greater \<Rightarrow> (None, Some t) # merge_pairs c (s # ss) ts
      | Equal \<Rightarrow> (Some s, Some t) # merge_pairs c ss ts)"

lemma merge_induct [case_names Both_Nil Source_Nil Target_Nil Both]:
  assumes "P [] []" "\<And>t ts. P [] ts \<Longrightarrow> P [] (t # ts)" "\<And>s ss. P ss [] \<Longrightarrow> P (s # ss) []"
    "\<And>s ss t ts. (c s t = Less \<Longrightarrow> P ss (t # ts)) \<Longrightarrow> (c s t = Equal \<Longrightarrow> P ss ts) \<Longrightarrow>
       (c s t = Greater \<Longrightarrow> P (s # ss) ts) \<Longrightarrow> P (s # ss) (t # ts)"
  shows "P S T"
proof -
  have "c' = c \<Longrightarrow> P S T" for c'
    by (induction c' S T rule: merge_pairs.induct) (use assms in blast)+
  then show ?thesis by blast
qed

context comparison
begin

text \<open>A row is ahead of every row of the other side, or equal to the first one only.\<close>

lemma less_all:
  assumes "compare (f s) (g t) = Less" "sorted_wrt (\<lambda>a b. compare (g a) (g b) = Less) (t # ts)"
    "valid (f s)" "\<forall>t \<in> set (t # ts). valid (g t)" "u \<in> set (t # ts)"
  shows "compare (f s) (g u) = Less"
proof (cases "u = t")
  case False
  then have "compare (g t) (g u) = Less" "valid (g t)" "valid (g u)" using assms by auto
  with assms show ?thesis using less_trans by blast
qed (use assms in simp)

lemma equal_rest:
  assumes "compare (f s) (g t) = Equal" "sorted_wrt (\<lambda>a b. compare (g a) (g b) = Less) (t # ts)"
    "valid (f s)" "\<forall>t \<in> set (t # ts). valid (g t)" "u \<in> set ts"
  shows "compare (f s) (g u) = Less"
proof -
  have "compare (g t) (g u) = Less" "valid (g t)" "valid (g u)" using assms by auto
  with assms show ?thesis using equal_less by blast
qed

lemma merge_pairs_cases:
  assumes "sorted_wrt (\<lambda>a b. compare (f a) (f b) = Less) (s # ss)"
    "sorted_wrt (\<lambda>a b. compare (g a) (g b) = Less) (t # ts)"
    "\<forall>s \<in> set (s # ss). valid (f s)" "\<forall>t \<in> set (t # ts). valid (g t)"
  obtains "compare (f s) (g t) = Less" "\<forall>u \<in> set (t # ts). compare (f s) (g u) \<noteq> Equal"
  | "compare (f s) (g t) = Greater" "\<forall>r \<in> set (s # ss). compare (f r) (g t) \<noteq> Equal"
  | "compare (f s) (g t) = Equal" "\<forall>u \<in> set ts. compare (f s) (g u) \<noteq> Equal"
      "\<forall>r \<in> set ss. compare (f r) (g t) \<noteq> Equal"
proof -
  have v: "valid (f s)" "valid (g t)" using assms(3,4) by simp_all
  show ?thesis
  proof (cases "compare (f s) (g t)")
    case Less
    have "compare (f s) (g u) = Less" if "u \<in> set (t # ts)" for u
      using Less assms(2) v(1) assms(4) that by (rule less_all)
    then have "\<forall>u \<in> set (t # ts). compare (f s) (g u) \<noteq> Equal" by (metis ordering.distinct(1))
    with Less that(1) show ?thesis by blast
  next
    case Greater
    then have gt: "compare (g t) (f s) = Less" using greater_iff v by blast
    have "compare (f r) (g t) \<noteq> Equal" if "r \<in> set (s # ss)" for r
    proof
      assume "compare (f r) (g t) = Equal"
      then have "compare (g t) (f r) = Equal" using equal_sym assms(3) v(2) that by blast
      moreover have "compare (g t) (f r) = Less" using gt assms(1) v(2) assms(3) that by (rule less_all)
      ultimately show False by simp
    qed
    with Greater that(2) show ?thesis by blast
  next
    case Equal
    then have eq: "compare (g t) (f s) = Equal" using equal_sym v by blast
    have "compare (f r) (g t) \<noteq> Equal" if "r \<in> set ss" for r
    proof
      assume "compare (f r) (g t) = Equal"
      moreover have "valid (f r)" using assms(3) that by simp
      ultimately have "compare (g t) (f r) = Equal" using equal_sym v(2) by blast
      moreover have "compare (g t) (f r) = Less" using eq assms(1) v(2) assms(3) that by (rule equal_rest)
      ultimately show False by simp
    qed
    moreover have "compare (f s) (g u) \<noteq> Equal" if "u \<in> set ts" for u
    proof -
      have "compare (f s) (g u) = Less" using Equal assms(2) v(1) assms(4) that by (rule equal_rest)
      then show ?thesis by simp
    qed
    ultimately show ?thesis using Equal that(3) by blast
  qed
qed

lemma merge_pairs_set:
  assumes "sorted_wrt (\<lambda>a b. compare (f a) (f b) = Less) S" "sorted_wrt (\<lambda>a b. compare (g a) (g b) = Less) T"
    "\<forall>s \<in> set S. valid (f s)" "\<forall>t \<in> set T. valid (g t)"
  shows "set (merge_pairs (\<lambda>s t. compare (f s) (g t)) S T) =
      {(Some s, Some t) |s t. s \<in> set S \<and> t \<in> set T \<and> compare (f s) (g t) = Equal}
    \<union> {(Some s, None) |s. s \<in> set S \<and> (\<forall>t \<in> set T. compare (f s) (g t) \<noteq> Equal)}
    \<union> {(None, Some t) |t. t \<in> set T \<and> (\<forall>s \<in> set S. compare (f s) (g t) \<noteq> Equal)}"
  using assms
proof (induction S T rule: merge_induct [where c = "\<lambda>s t. compare (f s) (g t)"])
  case (Both s ss t ts)
  from Both.prems show ?case
  proof (cases rule: merge_pairs_cases)
    case 1
    with Both show ?thesis by (auto)
  next
    case 2
    with Both show ?thesis by (auto)
  next
    case 3
    with Both show ?thesis by (auto)
  qed
qed auto

text \<open>The pairs with a property are as many as the rows that have such a partner.\<close>

lemma merge_pairs_count:
  assumes "sorted_wrt (\<lambda>a b. compare (f a) (f b) = Less) S" "sorted_wrt (\<lambda>a b. compare (g a) (g b) = Less) T"
    "\<forall>s \<in> set S. valid (f s)" "\<forall>t \<in> set T. valid (g t)"
  shows "length (filter (\<lambda>p. case p of (Some s, Some t) \<Rightarrow> P s t | _ \<Rightarrow> False)
        (merge_pairs (\<lambda>s t. compare (f s) (g t)) S T)) =
      length (filter (\<lambda>s. \<exists>t \<in> set T. compare (f s) (g t) = Equal \<and> P s t) S)"
  using assms
proof (induction S T rule: merge_induct [where c = "\<lambda>s t. compare (f s) (g t)"])
  case (Both s ss t ts)
  from Both.prems show ?case
  proof (cases rule: merge_pairs_cases)
    case 1
    with Both show ?thesis by auto
  next
    case 2
    then have "filter (\<lambda>s. \<exists>t \<in> set (t # ts). compare (f s) (g t) = Equal \<and> P s t) (s # ss) =
        filter (\<lambda>s. \<exists>t \<in> set ts. compare (f s) (g t) = Equal \<and> P s t) (s # ss)"
      by (intro filter_cong) auto
    with 2 Both show ?thesis by simp
  next
    case 3
    then have "filter (\<lambda>s. \<exists>t \<in> set (t # ts). compare (f s) (g t) = Equal \<and> P s t) ss =
        filter (\<lambda>s. \<exists>t \<in> set ts. compare (f s) (g t) = Equal \<and> P s t) ss"
      by (intro filter_cong) auto
    with 3 Both show ?thesis by auto
  qed
qed auto

end

section \<open>Scanned rows are sorted\<close>

definition raw_key :: "('s, 't, 'j, 'k) compare_env \<Rightarrow> 'j row \<Rightarrow> 'j cell list" where
  "raw_key E row = key_or_default (ce_pk E) row"

definition row_key :: "('s, 't, 'j, 'k) compare_env \<Rightarrow> ('p, 'j) page_source \<Rightarrow> 'j row \<Rightarrow> sync_key list" where
  "row_key E src row = (case normalize_raw src (raw_key E row) of Inl _ \<Rightarrow> [] | Inr k \<Rightarrow> k)"

definition keyed :: "('s, 't, 'j, 'k) compare_env \<Rightarrow> ('p, 'j) page_source \<Rightarrow> 'j row \<Rightarrow> bool" where
  "keyed E src row \<longleftrightarrow> extract_key row (ce_pk E) = Inr (raw_key E row) \<and>
     normalize_raw src (raw_key E row) = Inr (row_key E src row)"

definition valid_normalizer :: "('p, 'j) page_source \<Rightarrow> bool" where
  "valid_normalizer src \<longleftrightarrow> (\<forall>raw. case normalize_raw src raw of Inl _ \<Rightarrow> True | Inr k \<Rightarrow> list_all valid_key k)"

lemma valid_normalizerD: "valid_normalizer src \<Longrightarrow> normalize_raw src raw = Inr k \<Longrightarrow> list_all valid_key k"
  unfolding valid_normalizer_def by (metis sum.simps(6))

lemma keyedI:
  "extract_key row (ce_pk E) = Inr raw \<Longrightarrow> normalize_raw src raw = Inr k \<Longrightarrow>
   keyed E src row \<and> raw_key E row = raw \<and> row_key E src row = k"
  by (simp add: keyed_def raw_key_def row_key_def key_or_default_def)

lemma row_key_valid: "valid_normalizer src \<Longrightarrow> keyed E src row \<Longrightarrow> list_all valid_key (row_key E src row)"
  by (auto simp: keyed_def dest: valid_normalizerD)

abbreviation keys_less :: "('s, 't, 'j, 'k) compare_env \<Rightarrow> ('p, 'j) page_source \<Rightarrow> 'j row \<Rightarrow> 'j row \<Rightarrow> bool" where
  "keys_less E src a b \<equiv> cmp_sync_keys (row_key E src a) (row_key E src b) = Less"

definition sorted_scan ::
    "('s, 't, 'j, 'k) compare_env \<Rightarrow> ('p, 'j) page_source \<Rightarrow> sync_key list option \<Rightarrow> 'j row list \<Rightarrow> bool" where
  "sorted_scan E src prev rows \<longleftrightarrow>
     (\<forall>row \<in> set rows. keyed E src row) \<and> sorted_wrt (keys_less E src) rows \<and>
     (\<forall>k \<in> set_option prev. \<forall>row \<in> set rows. cmp_sync_keys k (row_key E src row) = Less)"

lemma validate_rows_sorted:
  assumes "validate_rows (normalize_raw src) (ce_pk E) (ce_columns E) prev rows = Inr ()"
    "valid_normalizer src" "\<forall>k \<in> set_option prev. list_all valid_key k"
  shows "sorted_scan E src prev rows"
  using assms
proof (induction rows arbitrary: prev)
  case Nil
  then show ?case by (simp add: sorted_scan_def)
next
  case (Cons r rows)
  then obtain raw k where ex: "extract_key r (ce_pk E) = Inr raw" "normalize_raw src raw = Inr k"
    and gt: "\<not> (case prev of None \<Rightarrow> False | Some p \<Rightarrow> cmp_sync_keys k p \<noteq> Greater)"
    and rest: "validate_rows (normalize_raw src) (ce_pk E) (ce_columns E) (Some k) rows = Inr ()"
    by (auto simp: obind_eq_Inr split: if_splits)
  note kd = keyedI [OF ex]
  have vk: "list_all valid_key k" using valid_normalizerD [OF Cons.prems(2) ex(2)] .
  have IH: "sorted_scan E src (Some k) rows" using Cons.IH [OF rest Cons.prems(2)] vk by simp
  have prev: "cmp_sync_keys p k = Less" if "p \<in> set_option prev" for p
    using gt that keys_order.greater_iff [of k p] vk Cons.prems(3) by (auto split: option.splits)
  have "cmp_sync_keys p (row_key E src row) = Less" if "p \<in> set_option prev" "row \<in> set rows" for p row
    using keys_order.less_trans [of p k "row_key E src row"] prev [OF that(1)] IH that vk Cons.prems(2,3)
      row_key_valid [of src E row] by (auto simp: sorted_scan_def)
  with prev IH kd show ?case by (auto simp: sorted_scan_def)
qed

lemma sorted_scan_append:
  assumes "sorted_scan E src prev page" "page \<noteq> []" "sorted_scan E src (Some (row_key E src (last page))) rows"
    "valid_normalizer src" "\<forall>k \<in> set_option prev. list_all valid_key k"
  shows "sorted_scan E src prev (page @ rows)"
proof -
  have last: "last page \<in> set page" using assms(2) by simp
  have v: "list_all valid_key (row_key E src row)" if "row \<in> set page \<union> set rows" for row
    using that assms(1,3,4) row_key_valid by (auto simp: sorted_scan_def)
  have gap: "keys_less E src a b" if "a \<in> set page" "b \<in> set rows" for a b
  proof (cases "a = last page")
    case True
    then show ?thesis using that assms(3) by (simp add: sorted_scan_def)
  next
    case False
    obtain xs where page: "page = xs @ [last page]" using assms(2) by (metis append_butlast_last_id)
    with False that(1) have "a \<in> set xs" by (metis Un_iff empty_iff empty_set insert_iff list.simps(15) set_append)
    moreover have "sorted_wrt (keys_less E src) (xs @ [last page])" using assms(1) page by (simp add: sorted_scan_def)
    ultimately have "keys_less E src a (last page)" by (simp add: sorted_wrt_append)
    moreover have "keys_less E src (last page) b" using that assms(3) by (simp add: sorted_scan_def)
    ultimately show ?thesis using keys_order.less_trans v that last by blast
  qed
  moreover have "cmp_sync_keys k (row_key E src b) = Less" if "k \<in> set_option prev" "b \<in> set rows" for k b
  proof -
    have "cmp_sync_keys k (row_key E src (last page)) = Less" using assms(1) that last by (simp add: sorted_scan_def)
    moreover have "keys_less E src (last page) b" using that assms(3) by (simp add: sorted_scan_def)
    ultimately show ?thesis using keys_order.less_trans v that last assms(5) by blast
  qed
  ultimately show ?thesis using assms(1,3) by (auto simp: sorted_scan_def sorted_wrt_append)
qed

lemma check_page_sorted:
  assumes "check_page E src page after = Inr ()" "valid_normalizer src"
    "normalize_after (normalize_raw src) after = Inr prev"
  shows "sorted_scan E src prev page"
proof (rule validate_rows_sorted)
  show "validate_rows (normalize_raw src) (ce_pk E) (ce_columns E) prev page = Inr ()"
    using assms(1,3) by (auto simp: check_page_def validate_page_def obind_eq_Inr split: if_splits)
  show "\<forall>k \<in> set_option prev. list_all valid_key k"
    using assms(2,3) by (cases after) (auto simp: obind_eq_Inr dest: valid_normalizerD)
qed fact

lemma scans_sorted:
  assumes "scans E src p after rows" "valid_normalizer src" "normalize_after (normalize_raw src) after = Inr prev"
  shows "sorted_scan E src prev rows"
  using assms
proof (induction arbitrary: prev rule: scans.induct)
  case (scan_end p after p')
  then show ?case by (simp add: sorted_scan_def)
next
  case (scan_page p after page p' k rows)
  have page: "sorted_scan E src prev page" by (rule check_page_sorted) fact+
  then have kd: "keyed E src (last page)" using scan_page.hyps(2) by (simp add: sorted_scan_def)
  then have "k = raw_key E (last page)" using scan_page.hyps(4) by (simp add: keyed_def)
  then have "normalize_after (normalize_raw src) (Some k) = Inr (Some (row_key E src (last page)))"
    using kd by (simp add: keyed_def)
  from scan_page.IH [OF scan_page.prems(1) this]
  have rest: "sorted_scan E src (Some (row_key E src (last page))) rows" .
  have "\<forall>k \<in> set_option prev. list_all valid_key k"
    using scan_page.prems by (cases after) (auto simp: obind_eq_Inr dest: valid_normalizerD)
  with page scan_page.hyps(2) rest scan_page.prems(1) show ?case by (rule sorted_scan_append)
qed

section \<open>The changes of a merge\<close>

fun pair_changes :: "('s, 't, 'j, 'k) compare_env \<Rightarrow> 'j row option \<times> 'j row option \<Rightarrow> 'j sync_change list" where
  "pair_changes E (Some s, None) = [insert_change (raw_key E s) s (ce_options E)]"
| "pair_changes E (None, Some t) = [delete_change (raw_key E t) t (ce_options E)]"
| "pair_changes E (Some s, Some t) =
     (let cols = diff_changed_columns s t (ce_columns E) (ce_pk E)
      in if cols = [] then [] else [update_change (raw_key E s) s t cols (ce_options E)])"
| "pair_changes E (None, None) = []"

definition same_row :: "('s, 't, 'j, 'k) compare_env \<Rightarrow> 'j row \<Rightarrow> 'j row \<Rightarrow> bool" where
  "same_row E s t \<longleftrightarrow>
     list_all (\<lambda>i. i \<in> set (ce_pk E) \<or> optional_values_equal (s ! i) (t ! i))
       [0..<min (length (ce_columns E)) (min (length s) (length t))]"

lemma no_changed_columns: "diff_changed_columns s t (ce_columns E) (ce_pk E) = [] \<longleftrightarrow> same_row E s t"
  by (auto simp: diff_changed_columns_def same_row_def filter_empty_conv list_all_iff)

abbreviation pair_cmp :: "('s, 't, 'j, 'k) compare_env \<Rightarrow> 'j row \<Rightarrow> 'j row \<Rightarrow> ordering" where
  "pair_cmp E s t \<equiv> cmp_sync_keys (row_key E (ce_source E) s) (row_key E (ce_target E) t)"

abbreviation unchanged_pair :: "('s, 't, 'j, 'k) compare_env \<Rightarrow> 'j row option \<times> 'j row option \<Rightarrow> bool" where
  "unchanged_pair E p \<equiv> (case p of (Some s, Some t) \<Rightarrow> same_row E s t | _ \<Rightarrow> False)"

definition vector_sink :: "('s, 't, 'j, 'j sync_change list) compare_env \<Rightarrow> bool" where
  "vector_sink E \<longleftrightarrow> ce_push E = (\<lambda>c rows. Inr (rows @ [c])) \<and> ce_unchanged E = Inr"

lemma record_change_vec:
  "vector_sink E \<Longrightarrow> record_change E c p = Inr p' \<Longrightarrow> mp_sink p' = mp_sink p @ [c] \<and> mp_unchanged p' = mp_unchanged p"
  by (auto simp: record_change_def vector_sink_def obind_eq_Inr split: if_splits)

lemma record_unchanged_vec:
  "vector_sink E \<Longrightarrow> record_unchanged E p = Inr p' \<Longrightarrow> mp_sink p' = mp_sink p \<and> mp_unchanged p' = mp_unchanged p + 1"
  by (auto simp: record_unchanged_def vector_sink_def)

lemma round_check_vec: "round_check E p = Inr p' \<Longrightarrow> mp_sink p' = mp_sink p \<and> mp_unchanged p' = mp_unchanged p"
  by (auto simp: round_check_def split: if_splits)

lemma merge_rows_result:
  assumes "merge_rows E s t p = Inr (m, p')" "keyed E (ce_source E) s" "keyed E (ce_target E) t" "vector_sink E"
  shows "(pair_cmp E s t = Less \<and> m = TakeSource \<and>
            mp_sink p' = mp_sink p @ pair_changes E (Some s, None) \<and> mp_unchanged p' = mp_unchanged p)
       \<or> (pair_cmp E s t = Greater \<and> m = TakeTarget \<and>
            mp_sink p' = mp_sink p @ pair_changes E (None, Some t) \<and> mp_unchanged p' = mp_unchanged p)
       \<or> (pair_cmp E s t = Equal \<and> m = TakeBoth \<and>
            mp_sink p' = mp_sink p @ pair_changes E (Some s, Some t) \<and>
            mp_unchanged p' = mp_unchanged p + (if same_row E s t then 1 else 0))"
proof (cases "pair_cmp E s t")
  case Less
  with assms show ?thesis
    by (auto simp: merge_rows_def keyed_def obind_eq_Inr split: if_splits dest!: record_change_vec)
next
  case Greater
  with assms show ?thesis
    by (auto simp: merge_rows_def keyed_def obind_eq_Inr split: if_splits dest!: record_change_vec)
next
  case Equal
  show ?thesis
  proof (cases "same_row E s t")
    case True
    with Equal assms show ?thesis
      by (auto simp: merge_rows_def keyed_def obind_eq_Inr Let_def no_changed_columns
          split: if_splits dest!: record_unchanged_vec)
  next
    case False
    with Equal assms show ?thesis
      by (auto simp: merge_rows_def keyed_def obind_eq_Inr Let_def no_changed_columns
          split: if_splits dest!: record_change_vec)
  qed
qed

lemma merge_all_result:
  assumes "merge_all E S T p = Inr p'" "\<forall>s \<in> set S. keyed E (ce_source E) s" "\<forall>t \<in> set T. keyed E (ce_target E) t"
    "vector_sink E"
  shows "mp_sink p' = mp_sink p @ concat (map (pair_changes E) (merge_pairs (pair_cmp E) S T)) \<and>
    mp_unchanged p' = mp_unchanged p + length (filter (unchanged_pair E) (merge_pairs (pair_cmp E) S T))"
  using assms
proof (induction S T arbitrary: p rule: merge_induct [where c = "pair_cmp E"])
  case Both_Nil
  then show ?case by (simp add: round_check_vec)
next
  case (Source_Nil t ts)
  then obtain q m q' where q: "round_check E p = Inr q" "delete_row E t q = Inr (m, q')" "merge_all E [] ts q' = Inr p'"
    by (auto simp: obind_eq_Inr)
  have "mp_sink q' = mp_sink q @ pair_changes E (None, Some t) \<and> mp_unchanged q' = mp_unchanged q"
    using q(2) Source_Nil by (auto simp: delete_row_def obind_eq_Inr keyed_def dest!: record_change_vec)
  with Source_Nil q round_check_vec [OF q(1)] show ?case by simp
next
  case (Target_Nil s ss)
  then obtain q m q' where q: "round_check E p = Inr q" "insert_row E s q = Inr (m, q')" "merge_all E ss [] q' = Inr p'"
    by (auto simp: obind_eq_Inr)
  have "mp_sink q' = mp_sink q @ pair_changes E (Some s, None) \<and> mp_unchanged q' = mp_unchanged q"
    using q(2) Target_Nil by (auto simp: insert_row_def obind_eq_Inr keyed_def dest!: record_change_vec)
  with Target_Nil q round_check_vec [OF q(1)] show ?case by simp
next
  case (Both s ss t ts)
  then obtain q m q' where q: "round_check E p = Inr q" "merge_rows E s t q = Inr (m, q')"
    "(case m of TakeSource \<Rightarrow> merge_all E ss (t # ts) q' | TakeTarget \<Rightarrow> merge_all E (s # ss) ts q'
        | TakeBoth \<Rightarrow> merge_all E ss ts q') = Inr p'"
    by (auto simp: obind_eq_Inr)
  note rc = round_check_vec [OF q(1)]
  have "keyed E (ce_source E) s" "keyed E (ce_target E) t" using Both.prems by simp_all
  from merge_rows_result [OF q(2) this Both.prems(4)] show ?case
  proof (elim disjE conjE)
    assume a: "pair_cmp E s t = Less" "m = TakeSource" "mp_sink q' = mp_sink q @ pair_changes E (Some s, None)"
      "mp_unchanged q' = mp_unchanged q"
    have "merge_all E ss (t # ts) q' = Inr p'" using q(3) a(2) by simp
    from Both.IH(1) [OF a(1) this] Both.prems a rc show ?thesis by simp
  next
    assume a: "pair_cmp E s t = Greater" "m = TakeTarget" "mp_sink q' = mp_sink q @ pair_changes E (None, Some t)"
      "mp_unchanged q' = mp_unchanged q"
    have "merge_all E (s # ss) ts q' = Inr p'" using q(3) a(2) by simp
    from Both.IH(3) [OF a(1) this] Both.prems a rc show ?thesis by simp
  next
    assume a: "pair_cmp E s t = Equal" "m = TakeBoth" "mp_sink q' = mp_sink q @ pair_changes E (Some s, Some t)"
      "mp_unchanged q' = mp_unchanged q + (if same_row E s t then 1 else 0)"
    have "merge_all E ss ts q' = Inr p'" using q(3) a(2) by simp
    from Both.IH(2) [OF a(1) this] Both.prems a rc show ?thesis by simp
  qed
qed

end
