(* ===== verification/Sync_Apply.thy ===== *)
theory Sync_Apply
  imports Sync_Classify
begin

text \<open>
  Compare, apply, compare again (\<open>migration/data_sync/apply_loop.rs\<close>): a table in memory is a map from
  the serialized key to the row, and a change set is applied row by row. \<open>kb\<close> is the serialization of
  a key. Applying every change of a comparison leaves a table without a difference.
\<close>

section \<open>Tables in memory\<close>

type_synonym 'j table_map = "(nat list, 'j row) btree"

fun rows_to_map ::
    "('j cell list \<Rightarrow> nat list) \<Rightarrow> nat list \<Rightarrow> 'j row list \<Rightarrow> 'j table_map \<Rightarrow> sync_error + 'j table_map" where
  "rows_to_map kb pk [] m = Inr m"
| "rows_to_map kb pk (r # rs) m =
     obind (extract_key r pk) (\<lambda>key. rows_to_map kb pk rs (bt_insert (kb key) r m))"

definition map_to_sorted_rows :: "('j \<Rightarrow> utext) \<Rightarrow> nat list \<Rightarrow> 'j table_map \<Rightarrow> 'j row list" where
  "map_to_sorted_rows jt pk m = sort_by (cmp_rows jt pk) (bt_values m)"

text \<open>The map is changed in place: it is returned also when a change fails.\<close>

fun apply_changeset_to_rows ::
    "('j cell list \<Rightarrow> nat list) \<Rightarrow> nat list \<Rightarrow> 'j sync_change list \<Rightarrow> nat \<Rightarrow> 'j table_map \<Rightarrow>
     (sync_error + nat) \<times> 'j table_map" where
  "apply_changeset_to_rows kb pk [] n m = (Inr n, m)"
| "apply_changeset_to_rows kb pk (c # cs) n m =
     (case rc_operation c of
        OpDelete \<Rightarrow> apply_changeset_to_rows kb pk cs (n + 1) (bt_remove (kb (rc_key c)) m)
      | OpUnchanged \<Rightarrow> apply_changeset_to_rows kb pk cs n m
      | _ \<Rightarrow>
          (case rc_source c of
             None \<Rightarrow> (Inl (invalid ''apply requires a source row''), m)
           | Some row \<Rightarrow>
               (case extract_key row pk of
                  Inl e \<Rightarrow> (Inl e, m)
                | Inr key \<Rightarrow> apply_changeset_to_rows kb pk cs (n + 1) (bt_insert (kb key) row m))))"

definition recompare_table ::
    "('j \<Rightarrow> utext) \<Rightarrow> nat list \<Rightarrow> utext list \<Rightarrow> sync_options \<Rightarrow> 'j row list \<Rightarrow> 'j row list \<Rightarrow>
     sync_error + 'j table_result" where
  "recompare_table jt pk names os S T =
     obind (compare_sorted_rows jt pk names os S T) (\<lambda>rows. Inr (matched_table (lit ''src'') (lit ''tgt'') rows))"

definition remaining_mutating_changes :: "'j table_result \<Rightarrow> nat" where
  "remaining_mutating_changes t =
     count_op OpInsert (tr_rows t) + count_op OpUpdate (tr_rows t) + count_op OpDelete (tr_rows t)"

section \<open>Sorting\<close>

lemma set_insert_by [simp]: "set (insert_by c x ys) = insert x (set ys)"
  by (induction ys) auto

lemma set_sort_by [simp]: "set (sort_by c xs) = set xs"
  by (induction xs) (simp_all add: sort_by_def)

lemma length_insert_by [simp]: "length (insert_by c x ys) = Suc (length ys)"
  by (induction ys) auto

lemma length_sort_by [simp]: "length (sort_by c xs) = length xs"
  by (induction xs) (simp_all add: sort_by_def)

context coded_comparison
begin

lemma insert_by_sorted:
  assumes "sorted_wrt (\<lambda>a b. code (f a) < code (f b)) ys" "\<forall>y \<in> set (x # ys). valid (f y)"
    "code (f x) \<notin> (\<lambda>y. code (f y)) ` set ys"
  shows "sorted_wrt (\<lambda>a b. code (f a) < code (f b)) (insert_by (\<lambda>a b. compare (f a) (f b)) x ys)"
  using assms
proof (induction ys)
  case (Cons y ys)
  then show ?case by (auto simp: compare_code intro: order.strict_trans dest: linorder_cases)
qed simp

lemma sort_by_sorted:
  assumes "\<forall>x \<in> set xs. valid (f x)" "distinct (map (\<lambda>x. code (f x)) xs)"
  shows "sorted_wrt (\<lambda>a b. code (f a) < code (f b)) (sort_by (\<lambda>a b. compare (f a) (f b)) xs)"
  using assms
proof (induction xs)
  case (Cons x xs)
  then have "sorted_wrt (\<lambda>a b. code (f a) < code (f b)) (sort_by (\<lambda>a b. compare (f a) (f b)) xs)" by simp
  then have "sorted_wrt (\<lambda>a b. code (f a) < code (f b))
      (insert_by (\<lambda>a b. compare (f a) (f b)) x (sort_by (\<lambda>a b. compare (f a) (f b)) xs))"
    using Cons.prems by (intro insert_by_sorted) auto
  then show ?case by (simp add: sort_by_def)
qed (simp add: sort_by_def)

text \<open>Sorting rows of distinct keys gives the one list in which they are increasing.\<close>

lemma sort_by_unique:
  assumes "\<forall>x \<in> set ys. valid (f x)" "sorted_wrt (\<lambda>a b. compare (f a) (f b) = Less) ys" "set xs = set ys" "distinct xs"
  shows "sort_by (\<lambda>a b. compare (f a) (f b)) xs = ys"
proof -
  let ?k = "\<lambda>x. code (f x)"
  have ys: "sorted_wrt (\<lambda>a b. ?k a < ?k b) ys"
    using assms(1,2) by (induction ys) (auto simp: compare_code)
  then have "sorted_wrt (<) (map ?k ys)" by (simp add: sorted_wrt_map)
  then have inj: "inj_on ?k (set ys)" by (simp add: strict_sorted_iff distinct_map)
  have "distinct (map ?k xs)" using assms(3,4) inj by (simp add: distinct_map)
  then have "sorted_wrt (\<lambda>a b. ?k a < ?k b) (sort_by (\<lambda>a b. compare (f a) (f b)) xs)"
    using assms(1,3) by (intro sort_by_sorted) auto
  then have "map ?k (sort_by (\<lambda>a b. compare (f a) (f b)) xs) = map ?k ys"
    using ys assms(3) by (intro strict_sorted_equal) (simp_all add: sorted_wrt_map)
  then show ?thesis using inj assms(3) by (simp add: inj_on_map_eq_map)
qed

end

section \<open>The merge in memory\<close>

definition has_key :: "nat list \<Rightarrow> 'j row \<Rightarrow> bool" where
  "has_key pk row \<longleftrightarrow> extract_key row pk = Inr (key_or_default pk row)"

lemma has_key_iff: "has_key pk row \<longleftrightarrow> (\<forall>i \<in> set pk. i < length row)"
proof (induction pk)
  case (Cons i pk)
  have "has_key pk row \<longleftrightarrow> (\<exists>k. extract_key row pk = Inr k)" for pk
    by (auto simp: has_key_def key_or_default_def split: sum.splits)
  with Cons show ?case by (auto simp: obind_eq_Inr)
qed (simp add: has_key_def key_or_default_def)

fun memory_change ::
    "nat list \<Rightarrow> utext list \<Rightarrow> sync_options \<Rightarrow> 'j row option \<times> 'j row option \<Rightarrow> 'j sync_change list" where
  "memory_change pk names os (Some s, None) = [insert_change (key_or_default pk s) s os]"
| "memory_change pk names os (None, Some t) = [delete_change (key_or_default pk t) t os]"
| "memory_change pk names os (Some s, Some t) = [paired_change (key_or_default pk s) s t pk names os]"
| "memory_change pk names os (None, None) = []"

lemma compare_sorted_rows_pairs:
  assumes "\<forall>s \<in> set S. has_key pk s" "\<forall>t \<in> set T. has_key pk t"
  shows "compare_sorted_rows jt pk names os S T =
    Inr (concat (map (memory_change pk names os) (merge_pairs (cmp_rows jt pk) S T)))"
  using assms
  by (induction S T rule: merge_induct [where c = "cmp_rows jt pk"])
    (auto simp: has_key_def prepend_def cmp_rows_def split: ordering.splits)

section \<open>Applying a comparison\<close>

fun pair_row :: "'j row option \<times> 'j row option \<Rightarrow> 'j row" where
  "pair_row (Some s, _) = s"
| "pair_row (None, Some t) = t"
| "pair_row (None, None) = []"

definition keeps_target :: "nat list \<Rightarrow> utext list \<Rightarrow> 'j row \<Rightarrow> 'j row \<Rightarrow> bool" where
  "keeps_target pk names s t \<longleftrightarrow> diff_changed_columns s t names pk = []"

text \<open>The effect of a pair on the map, and the row it leaves.\<close>

fun pair_effect ::
    "('j cell list \<Rightarrow> nat list) \<Rightarrow> nat list \<Rightarrow> utext list \<Rightarrow> 'j row option \<times> 'j row option \<Rightarrow> 'j table_map \<Rightarrow> 'j table_map" where
  "pair_effect kb pk names (Some s, None) m = bt_insert (kb (key_or_default pk s)) s m"
| "pair_effect kb pk names (None, Some t) m = bt_remove (kb (key_or_default pk t)) m"
| "pair_effect kb pk names (Some s, Some t) m =
     (if keeps_target pk names s t then m else bt_insert (kb (key_or_default pk s)) s m)"
| "pair_effect kb pk names (None, None) m = m"

fun pair_result :: "nat list \<Rightarrow> utext list \<Rightarrow> 'j row option \<times> 'j row option \<Rightarrow> 'j row option \<Rightarrow> 'j row option" where
  "pair_result pk names (Some s, None) old = Some s"
| "pair_result pk names (None, t) old = None"
| "pair_result pk names (Some s, Some t) old = (if keeps_target pk names s t then old else Some s)"

definition pair_bytes :: "('j cell list \<Rightarrow> nat list) \<Rightarrow> nat list \<Rightarrow> 'j row option \<times> 'j row option \<Rightarrow> nat list" where
  "pair_bytes kb pk p = kb (key_or_default pk (pair_row p))"

definition proper_pair :: "'j row option \<times> 'j row option \<Rightarrow> bool" where
  "proper_pair p \<longleftrightarrow> p \<noteq> (None, None)"

lemma pair_cases:
  assumes "proper_pair p"
  obtains s where "p = (Some s, None)" | t where "p = (None, Some t)" | s t where "p = (Some s, Some t)"
  using assms by (cases p; cases "fst p"; cases "snd p") (auto simp: proper_pair_def)

lemma merge_pairs_proper: "p \<in> set (merge_pairs c S T) \<Longrightarrow> proper_pair p"
  by (induction c S T rule: merge_pairs.induct) (auto simp: proper_pair_def split: ordering.splits)

lemma merge_pairs_rows: "p \<in> set (merge_pairs c S T) \<Longrightarrow> pair_row p \<in> set S \<union> set T"
  by (induction c S T rule: merge_pairs.induct) (auto split: ordering.splits)

lemma merge_pairs_sources: "List.map_filter fst (merge_pairs c S T) = S"
  by (induction c S T rule: merge_pairs.induct) (auto simp: map_filter_simps split: ordering.splits)

lemma pair_effect_get:
  "proper_pair p \<Longrightarrow> bt_get (pair_effect kb pk names p m) k =
     (if k = pair_bytes kb pk p then pair_result pk names p (bt_get m k) else bt_get m k)"
  by (erule pair_cases) (auto simp: pair_bytes_def map_laws)

lemma pair_effect_wf: "bt_wf m \<Longrightarrow> bt_wf (pair_effect kb pk names p m)"
  by (cases "(kb, pk, names, p, m)" rule: pair_effect.cases) (auto simp: bt_wf_insert bt_wf_remove)

lemma pair_effects_wf: "bt_wf m \<Longrightarrow> bt_wf (fold (pair_effect kb pk names) ps m)"
  by (induction ps arbitrary: m) (simp_all add: pair_effect_wf)

text \<open>Pairs of distinct keys act independently.\<close>

lemma pair_effects_get:
  assumes "\<forall>p \<in> set ps. proper_pair p" "distinct (map (pair_bytes kb pk) ps)"
  shows "bt_get (fold (pair_effect kb pk names) ps m) k =
    (case find (\<lambda>p. pair_bytes kb pk p = k) ps of
       None \<Rightarrow> bt_get m k | Some p \<Rightarrow> pair_result pk names p (bt_get m k))"
  using assms
proof (induction ps arbitrary: m)
  case (Cons p ps)
  have tail: "find (\<lambda>q. pair_bytes kb pk q = pair_bytes kb pk p) ps = None"
    unfolding find_None_iff using Cons.prems(2) by (metis distinct.simps(2) image_eqI image_set list.simps(9))
  have "bt_get (fold (pair_effect kb pk names) (p # ps) m) k =
      (case find (\<lambda>p. pair_bytes kb pk p = k) ps of
         None \<Rightarrow> bt_get (pair_effect kb pk names p m) k
       | Some q \<Rightarrow> pair_result pk names q (bt_get (pair_effect kb pk names p m) k))"
    using Cons by simp
  then show ?case
    using Cons.prems(1) tail by (cases "pair_bytes kb pk p = k") (auto simp: pair_effect_get split: option.splits)
qed simp

definition select_row :: "'j sync_change \<Rightarrow> 'j sync_change" where
  "select_row c = c\<lparr>rc_selected := True\<rparr>"

text \<open>The change set of a comparison in which every row is selected.\<close>

definition selected_changes :: "sync_options \<Rightarrow> 'j sync_change list \<Rightarrow> 'j sync_change list" where
  "selected_changes os rows =
     concat (map tc_changes (cs_tables (from_comparison [] [matched_table [] [] (map select_row rows)] os)))"

lemma selected_changes_filter: "selected_changes os rows = filter (eligible_for_changeset os) (map select_row rows)"
  by (simp add: selected_changes_def from_comparison_def matched_table_def table_changeset_def map_filter_simps Let_def)

definition all_allowed :: "sync_options \<Rightarrow> bool" where
  "all_allowed os \<longleftrightarrow> so_insert os \<and> so_update os \<and> so_delete os"

lemma apply_pairs:
  assumes "\<forall>p \<in> set ps. proper_pair p \<and> (case fst p of None \<Rightarrow> True | Some s \<Rightarrow> has_key pk s)" "all_allowed os"
  shows "\<exists>n'. apply_changeset_to_rows kb pk
      (filter (eligible_for_changeset os) (map select_row (concat (map (memory_change pk names os) ps)))) n m =
      (Inr n', fold (pair_effect kb pk names) ps m)"
  using assms(1)
proof (induction ps arbitrary: n m)
  case (Cons p ps)
  then have "proper_pair p" by simp
  then show ?case
  proof (cases rule: pair_cases)
    case (1 s)
    then show ?thesis using Cons assms(2)
      by (simp add: change_defs select_row_def eligible_for_changeset_def all_allowed_def has_key_def)
  next
    case (2 t)
    then show ?thesis using Cons assms(2)
      by (simp add: change_defs select_row_def eligible_for_changeset_def all_allowed_def)
  next
    case (3 s t)
    then show ?thesis using Cons assms(2)
      by (simp add: paired_change_def Let_def change_defs select_row_def eligible_for_changeset_def all_allowed_def
          has_key_def keeps_target_def)
  qed
qed simp

subsection \<open>The table after the change set\<close>

definition rows_increase :: "('j \<Rightarrow> utext) \<Rightarrow> nat list \<Rightarrow> 'j row list \<Rightarrow> bool" where
  "rows_increase jt pk rows \<longleftrightarrow>
     list_all (has_key pk) rows \<and> sorted_wrt (\<lambda>a b. cmp_rows jt pk a b = Less) rows"

text \<open>The serialization tells two keys of the tables apart exactly when the comparison does.\<close>

definition keys_distinguished ::
    "('j \<Rightarrow> utext) \<Rightarrow> ('j cell list \<Rightarrow> nat list) \<Rightarrow> nat list \<Rightarrow> 'j row list \<Rightarrow> bool" where
  "keys_distinguished jt kb pk rows \<longleftrightarrow>
     list_all (\<lambda>a. list_all (\<lambda>b. kb (key_or_default pk a) = kb (key_or_default pk b)
       \<longleftrightarrow> cmp_rows jt pk a b = Equal) rows) rows"

lemma keys_distinguishedD:
  "keys_distinguished jt kb pk rows \<Longrightarrow> a \<in> set rows \<Longrightarrow> b \<in> set rows \<Longrightarrow>
   kb (key_or_default pk a) = kb (key_or_default pk b) \<longleftrightarrow> cmp_rows jt pk a b = Equal"
  by (simp add: keys_distinguished_def list_all_iff)

interpretation row_order: coded_comparison "cmp_rows jt pk" "\<lambda>_. True" "\<lambda>row. map (value_code jt) (key_or_default pk row)"
  for jt pk
  by unfold_locales (simp add: cmp_rows_def cmp_keys_code)

lemma merge_pairs_sorted:
  assumes "sorted_wrt (\<lambda>a b. cmp_rows jt pk a b = Less) S" "sorted_wrt (\<lambda>a b. cmp_rows jt pk a b = Less) T"
  shows "sorted_wrt (\<lambda>p q. cmp_rows jt pk (pair_row p) (pair_row q) = Less) (merge_pairs (cmp_rows jt pk) S T)"
  using assms
proof (induction S T rule: merge_induct [where c = "cmp_rows jt pk"])
  case (Source_Nil t ts)
  then show ?case using merge_pairs_rows [of _ "cmp_rows jt pk" "[]" ts] by auto
next
  case (Target_Nil s ss)
  then show ?case using merge_pairs_rows [of _ "cmp_rows jt pk" ss "[]"] by auto
next
  case (Both s ss t ts)
  show ?case
  proof (cases "cmp_rows jt pk s t")
    case Less
    have "cmp_rows jt pk s (pair_row p) = Less" if "p \<in> set (merge_pairs (cmp_rows jt pk) ss (t # ts))" for p
      using merge_pairs_rows [OF that] Both.prems Less row_order.less_trans [where jt = jt and pk = pk and a = s and b = t and c = "pair_row p"] by auto
    with Less Both show ?thesis by simp
  next
    case Greater
    then have ts: "cmp_rows jt pk t s = Less" by (simp add: row_order.greater_iff)
    have "cmp_rows jt pk t (pair_row p) = Less" if "p \<in> set (merge_pairs (cmp_rows jt pk) (s # ss) ts)" for p
      using merge_pairs_rows [OF that] Both.prems ts row_order.less_trans [where jt = jt and pk = pk and a = t and b = s and c = "pair_row p"] by auto
    with Greater Both show ?thesis by simp
  next
    case Equal
    have "cmp_rows jt pk s (pair_row p) = Less" if "p \<in> set (merge_pairs (cmp_rows jt pk) ss ts)" for p
      using merge_pairs_rows [OF that] Both.prems Equal row_order.equal_less [where jt = jt and pk = pk and a = s and b = t and c = "pair_row p"] by auto
    with Equal Both show ?thesis by simp
  qed
qed simp

lemma merge_pairs_equal: "(Some s, Some t) \<in> set (merge_pairs c S T) \<Longrightarrow> c s t = Equal"
  by (induction c S T rule: merge_pairs.induct) (auto split: ordering.splits)

lemma merge_pairs_targets: "t \<in> set T \<Longrightarrow> \<exists>p \<in> set (merge_pairs c S T). snd p = Some t"
  by (induction c S T rule: merge_pairs.induct) (auto split: ordering.splits)

lemma merge_pairs_members:
  "(a, Some t) \<in> set (merge_pairs c S T) \<Longrightarrow> t \<in> set T" "(Some s, b) \<in> set (merge_pairs c S T) \<Longrightarrow> s \<in> set S"
  by (induction c S T rule: merge_pairs.induct) (auto split: ordering.splits)

subsection \<open>Comparing again\<close>

fun final_row :: "nat list \<Rightarrow> utext list \<Rightarrow> 'j row option \<times> 'j row option \<Rightarrow> 'j row option" where
  "final_row pk names (None, _) = None"
| "final_row pk names (Some s, None) = Some s"
| "final_row pk names (Some s, Some t) = Some (if keeps_target pk names s t then t else s)"

lemma sorted_neq_distinct: "sorted_wrt (\<lambda>a b. f a \<noteq> f b) xs \<Longrightarrow> distinct (map f xs)"
  by (induction xs) auto

lemma sorted_wrt_weaken:
  "sorted_wrt P xs \<Longrightarrow> (\<And>a b. a \<in> set xs \<Longrightarrow> b \<in> set xs \<Longrightarrow> P a b \<Longrightarrow> Q a b) \<Longrightarrow> sorted_wrt Q xs"
  by (induction xs) auto

lemma sorted_map_filter:
  "sorted_wrt P ps \<Longrightarrow> (\<And>p q r u. p \<in> set ps \<Longrightarrow> q \<in> set ps \<Longrightarrow> P p q \<Longrightarrow> f p = Some r \<Longrightarrow> f q = Some u \<Longrightarrow> Q r u) \<Longrightarrow>
   sorted_wrt Q (List.map_filter f ps)"
proof (induction ps)
  case (Cons p ps)
  then have "sorted_wrt Q (List.map_filter f ps)" by auto
  moreover have "Q r u" if "f p = Some r" "u \<in> set (List.map_filter f ps)" for r u
  proof -
    from that(2) obtain q where "q \<in> set ps" "f q = Some u" by (auto simp: List.map_filter_def)
    with that(1) Cons.prems show ?thesis by (metis list.set_intros(1) list.set_intros(2) sorted_wrt.simps(2))
  qed
  ultimately show ?case by (simp add: map_filter_simps split: option.split)
qed (simp add: map_filter_simps)

lemma map_filter_all2:
  "(\<And>p. p \<in> set ps \<Longrightarrow> f p = None \<and> g p = None \<or> (\<exists>x y. f p = Some x \<and> g p = Some y \<and> P x y)) \<Longrightarrow>
   list_all2 P (List.map_filter f ps) (List.map_filter g ps)"
proof (induction ps)
  case (Cons p ps)
  then have "list_all2 P (List.map_filter f ps) (List.map_filter g ps)" by simp
  with Cons.prems [of p] show ?case by (auto simp: map_filter_simps)
qed (simp add: map_filter_simps)

lemma find_member: "x \<in> set xs \<Longrightarrow> distinct (map f xs) \<Longrightarrow> find (\<lambda>y. f y = f x) xs = Some x"
  by (induction xs) (auto simp: image_iff)

lemma find_SomeD: "find P xs = Some x \<Longrightarrow> x \<in> set xs \<and> P x"
  by (induction xs) (auto split: if_splits)

lemma rows_increase_distinct:
  assumes "rows_increase jt pk rows" "keys_distinguished jt kb pk all" "set rows \<subseteq> set all"
  shows "distinct (map (\<lambda>r. kb (key_or_default pk r)) rows)"
proof (rule sorted_neq_distinct)
  show "sorted_wrt (\<lambda>a b. kb (key_or_default pk a) \<noteq> kb (key_or_default pk b)) rows"
  proof (rule sorted_wrt_weaken)
    show "sorted_wrt (\<lambda>a b. cmp_rows jt pk a b = Less) rows" using assms(1) by (simp add: rows_increase_def)
    fix a b
    assume "a \<in> set rows" "b \<in> set rows" "cmp_rows jt pk a b = Less"
    with assms(3) keys_distinguishedD [OF assms(2), of a b]
    show "kb (key_or_default pk a) \<noteq> kb (key_or_default pk b)" by auto
  qed
qed

lemma rows_to_map_get:
  assumes "\<forall>r \<in> set rows. has_key pk r" "distinct (map (\<lambda>r. kb (key_or_default pk r)) rows)" "bt_wf m0"
  shows "\<exists>m. rows_to_map kb pk rows m0 = Inr m \<and> bt_wf m \<and> (\<forall>k. bt_get m k =
    (case find (\<lambda>r. kb (key_or_default pk r) = k) rows of None \<Rightarrow> bt_get m0 k | Some r \<Rightarrow> Some r))"
  using assms
proof (induction rows arbitrary: m0)
  case (Cons r rows)
  let ?m = "bt_insert (kb (key_or_default pk r)) r m0"
  have "bt_wf ?m" using Cons.prems(3) by (rule bt_wf_insert)
  then obtain m where m: "rows_to_map kb pk rows ?m = Inr m" "bt_wf m"
    "\<forall>k. bt_get m k = (case find (\<lambda>r. kb (key_or_default pk r) = k) rows of None \<Rightarrow> bt_get ?m k | Some r \<Rightarrow> Some r)"
    using Cons.IH [of ?m] Cons.prems(1,2) by auto
  have none: "find (\<lambda>x. kb (key_or_default pk x) = kb (key_or_default pk r)) rows = None"
    using Cons.prems(2) by (auto simp: find_None_iff image_iff)
  have "rows_to_map kb pk (r # rows) m0 = Inr m" using m(1) Cons.prems(1) by (simp add: has_key_def)
  moreover have "bt_get m k = (case find (\<lambda>r. kb (key_or_default pk r) = k) (r # rows) of
      None \<Rightarrow> bt_get m0 k | Some r \<Rightarrow> Some r)" for k
    using m(3) none by (cases "kb (key_or_default pk r) = k") (auto simp: map_laws split: option.split)
  ultimately show ?case using m(2) by blast
qed simp

lemma optional_values_equal_refl [simp]: "optional_values_equal v v"
proof (cases v)
  case (Some x)
  then show ?thesis by (cases x) simp_all
qed simp

lemma diff_self [simp]: "diff_changed_columns s s names pk = []"
  by (simp add: diff_changed_columns_def)

lemma compare_equal_rows:
  "list_all2 (\<lambda>s r. cmp_rows jt pk s r = Equal \<and> keeps_target pk names s r \<and> has_key pk s \<and> has_key pk r) S R \<Longrightarrow>
   compare_sorted_rows jt pk names os S R =
     Inr (map (\<lambda>(s, r). unchanged_change (key_or_default pk s) s r) (zip S R))"
  by (induction S R rule: list_all2_induct)
    (simp_all add: has_key_def cmp_rows_def prepend_def paired_change_def keeps_target_def)

lemma count_unchanged:
  "count_op p (map (\<lambda>(s, r). unchanged_change (f s) s r) xs) = (if p = OpUnchanged then length xs else 0)"
  unfolding count_op_def unchanged_change_def
  by (induction xs rule: rev_induct) (auto simp del: filter_map)

lemma cmp_rows_refl [simp]: "cmp_rows jt pk r r = Equal"
  by (simp add: cmp_rows_def cmp_keys_code)

text \<open>The row a pair leaves has the key of the pair.\<close>

lemma final_row_equal:
  assumes "p \<in> set (merge_pairs (cmp_rows jt pk) S T)" "final_row pk names p = Some r"
  shows "cmp_rows jt pk (pair_row p) r = Equal \<and> r \<in> set S \<union> set T"
proof (cases rule: pair_cases [OF merge_pairs_proper [OF assms(1)]])
  case (1 s)
  with assms merge_pairs_members(2) [of s None] show ?thesis by auto
next
  case (2 t)
  with assms(2) show ?thesis by simp
next
  case (3 s t)
  have "s \<in> set S" using merge_pairs_members(2) assms(1) unfolding 3 by fast
  moreover have "t \<in> set T" using merge_pairs_members(1) assms(1) unfolding 3 by fast
  moreover have "cmp_rows jt pk s t = Equal" using merge_pairs_equal assms(1) unfolding 3 by fast
  ultimately show ?thesis using 3 assms(2) by (auto split: if_splits)
qed

lemma target_pair_equal:
  assumes "p \<in> set (merge_pairs (cmp_rows jt pk) S T)" "snd p = Some t"
  shows "cmp_rows jt pk (pair_row p) t = Equal \<and> t \<in> set T"
proof (cases rule: pair_cases [OF merge_pairs_proper [OF assms(1)]])
  case (2 u)
  with assms merge_pairs_members(1) [of None u] show ?thesis by auto
next
  case (3 s u)
  have "cmp_rows jt pk s u = Equal" using merge_pairs_equal assms(1) unfolding 3 by fast
  moreover have "u \<in> set T" using merge_pairs_members(1) assms(1) unfolding 3 by fast
  ultimately show ?thesis using 3 assms(2) by simp
qed (use assms(2) in simp)

lemma applied_get:
  assumes "rows_increase jt pk S" "rows_increase jt pk T" "keys_distinguished jt kb pk (S @ T)"
    and m: "\<And>k. bt_get m k = find (\<lambda>t. kb (key_or_default pk t) = k) T"
  defines "ps \<equiv> merge_pairs (cmp_rows jt pk) S T"
  shows "bt_get (fold (pair_effect kb pk names) ps m) k = Some r \<longleftrightarrow>
    (\<exists>p \<in> set ps. pair_bytes kb pk p = k \<and> final_row pk names p = Some r)"
proof -
  let ?m = "fold (pair_effect kb pk names) ps m" and ?final = "final_row pk names"
  let ?b = "\<lambda>r. kb (key_or_default pk r)"
  note dist = keys_distinguishedD [OF assms(3)]
  have sorted: "sorted_wrt (\<lambda>p q. cmp_rows jt pk (pair_row p) (pair_row q) = Less) ps"
    using assms(1,2) unfolding ps_def rows_increase_def by (intro merge_pairs_sorted) simp_all
  have rows: "pair_row p \<in> set (S @ T)" if "p \<in> set ps" for p
    using merge_pairs_rows [OF that [unfolded ps_def]] by simp
  have "sorted_wrt (\<lambda>p q. pair_bytes kb pk p \<noteq> pair_bytes kb pk q) ps"
    using sorted by (rule sorted_wrt_weaken) (use rows dist in \<open>auto simp: pair_bytes_def\<close>)
  then have distinct: "distinct (map (pair_bytes kb pk) ps)" by (rule sorted_neq_distinct)
  have proper: "\<forall>p \<in> set ps. proper_pair p" using merge_pairs_proper by (auto simp: ps_def)
  have distT: "distinct (map ?b T)" using rows_increase_distinct [OF assms(2,3)] by simp
  show ?thesis
  proof (cases "find (\<lambda>p. pair_bytes kb pk p = k) ps")
    case None
    have "bt_get m k = None"
    proof (rule ccontr)
      assume "bt_get m k \<noteq> None"
      then obtain t where t: "t \<in> set T" "?b t = k" using m find_SomeD by (metis (mono_tags, lifting) option.exhaust)
      then obtain p where p: "p \<in> set ps" "snd p = Some t" using merge_pairs_targets [OF t(1)] unfolding ps_def by blast
      then have "cmp_rows jt pk (pair_row p) t = Equal" using target_pair_equal unfolding ps_def by blast
      then have "pair_bytes kb pk p = k" using dist [of "pair_row p" t] rows [OF p(1)] t by (simp add: pair_bytes_def)
      with None p(1) show False by (metis (mono_tags, lifting) find_None_iff)
    qed
    then have "bt_get ?m k = None" using pair_effects_get [OF proper distinct, of names m k] None by simp
    moreover have "\<not> (\<exists>p \<in> set ps. pair_bytes kb pk p = k)" using None by (metis (mono_tags, lifting) find_None_iff)
    ultimately show ?thesis by auto
  next
    case (Some p)
    then have p: "p \<in> set ps" "pair_bytes kb pk p = k" using find_SomeD by fastforce+
    have only: "q = p" if "q \<in> set ps" "pair_bytes kb pk q = k" for q
      using that p distinct by (auto simp: distinct_map dest: inj_onD)
    have "pair_result pk names p (bt_get m k) = ?final p"
    proof (cases rule: pair_cases [OF proper [rule_format, OF p(1)]])
      case (3 s t)
      then have t: "cmp_rows jt pk (pair_row p) t = Equal" "t \<in> set T"
        using target_pair_equal [of p jt pk S T t] p(1) unfolding ps_def by simp_all
      then have "?b t = k" using dist [of "pair_row p" t] rows [OF p(1)] p(2) by (simp add: pair_bytes_def)
      with t(2) have "bt_get m k = Some t" using find_member [OF _ distT] m by auto
      with 3 show ?thesis by simp
    qed simp_all
    moreover have "bt_get ?m k = pair_result pk names p (bt_get m k)"
      using pair_effects_get [OF proper distinct, of names m k] Some by simp
    ultimately have "bt_get ?m k = ?final p" by (simp only:)
    show ?thesis
    proof
      assume "bt_get ?m k = Some r"
      then show "\<exists>p \<in> set ps. pair_bytes kb pk p = k \<and> ?final p = Some r"
        using p \<open>bt_get ?m k = ?final p\<close> by (intro bexI [of _ p]) simp_all
    next
      assume "\<exists>p \<in> set ps. pair_bytes kb pk p = k \<and> ?final p = Some r"
      then obtain q where "q \<in> set ps" "pair_bytes kb pk q = k" "?final q = Some r" by (elim bexE conjE)
      with only [of q] \<open>bt_get ?m k = ?final p\<close> show "bt_get ?m k = Some r" by simp
    qed
  qed
qed

lemma applied_table:
  assumes "rows_increase jt pk S" "rows_increase jt pk T" "keys_distinguished jt kb pk (S @ T)"
    and m: "bt_wf m" "\<And>k. bt_get m k = find (\<lambda>t. kb (key_or_default pk t) = k) T"
  defines "ps \<equiv> merge_pairs (cmp_rows jt pk) S T"
  shows "map_to_sorted_rows jt pk (fold (pair_effect kb pk names) ps m) = List.map_filter (final_row pk names) ps"
proof -
  let ?m = "fold (pair_effect kb pk names) ps m" and ?final = "final_row pk names"
  let ?b = "\<lambda>r. kb (key_or_default pk r)"
  note get = applied_get [OF assms(1-3) m(2), of names, folded ps_def]
  have sorted: "sorted_wrt (\<lambda>p q. cmp_rows jt pk (pair_row p) (pair_row q) = Less) ps"
    using assms(1,2) unfolding ps_def rows_increase_def by (intro merge_pairs_sorted) simp_all
  have rows: "pair_row p \<in> set (S @ T)" if "p \<in> set ps" for p
    using merge_pairs_rows [OF that [unfolded ps_def]] by simp
  have final: "cmp_rows jt pk (pair_row p) r = Equal \<and> r \<in> set (S @ T) \<and> pair_bytes kb pk p = ?b r"
    if p: "p \<in> set ps" "?final p = Some r" for p r
  proof -
    have "cmp_rows jt pk (pair_row p) r = Equal \<and> r \<in> set (S @ T)"
      using final_row_equal [OF p(1) [unfolded ps_def] p(2)] by simp
    then show ?thesis using keys_distinguishedD [OF assms(3), of "pair_row p" r] rows [OF p(1)] by (simp add: pair_bytes_def)
  qed
  have wf: "bt_wf ?m" using m(1) by (rule pair_effects_wf)
  have set: "set (bt_values ?m) = set (List.map_filter ?final ps)"
  proof (intro set_eqI)
    fix r
    have "r \<in> set (bt_values ?m) \<longleftrightarrow> (\<exists>p \<in> set ps. ?final p = Some r)"
      unfolding bt_values_get [OF wf] get by blast
    then show "r \<in> set (bt_values ?m) \<longleftrightarrow> r \<in> set (List.map_filter ?final ps)"
      by (force simp: List.map_filter_def image_iff)
  qed
  have "fst e = ?b (snd e)" if "e \<in> set ?m" for e
    using that get [of "fst e" "snd e"] final bt_get_Some_iff [OF wf, of "fst e" "snd e"] by auto
  then have "map fst ?m = map ?b (bt_values ?m)" by (simp add: bt_values_def)
  then have dv: "distinct (bt_values ?m)" using bt_wf_distinct [OF wf] by (simp add: distinct_map)
  have "sorted_wrt (\<lambda>a b. cmp_rows jt pk a b = Less) (List.map_filter ?final ps)"
    using sorted
  proof (rule sorted_map_filter)
    fix p q r u
    assume a: "p \<in> set ps" "q \<in> set ps" "cmp_rows jt pk (pair_row p) (pair_row q) = Less" "?final p = Some r" "?final q = Some u"
    show "cmp_rows jt pk r u = Less"
      using a(3) final [OF a(1,4)] final [OF a(2,5)] by (simp add: cmp_rows_def cmp_keys_code)
  qed
  then show ?thesis
    unfolding map_to_sorted_rows_def using set dv row_order.sort_by_unique [where f = "\<lambda>x. x"] by auto
qed

end
