(* ===== verification/Sync_Theorems.thy ===== *)
theory Sync_Theorems
  imports Sync_Apply Sync_Keys
begin

text \<open>
  Properties of the comparison of two tables: the streaming merge against the merge of whole lists,
  the differences it reports, what applying them leaves, and the normalized decimal keys that the
  order of the rows rests on.
\<close>

section \<open>The streaming comparison\<close>

text \<open>
  C11. The comparison returns a result for a sink exactly when the batch size is valid, both sources can
  be read to their end in pages that pass every check, and the merge of the two whole lists of rows
  succeeds, and then its result and its sink are those of that merge. How the rows are cut into pages
  does not matter, and the loop comes to its end on every pair of sources that end.
\<close>

theorem paged_comparison_is_list_merge:
  "compare_table_pages_into E a b s t k = Some (Inr (res, k')) \<longleftrightarrow>
     options_validate (ce_options E) = None \<and>
     (\<exists>S T p. scans E (ce_source E) s None S \<and> scans E (ce_target E) t None T \<and>
        merge_all E S T (start_progress k) = Inr p \<and> res = finished_result E a b p \<and> k' = mp_sink p)"
proof
  assume result: "compare_table_pages_into E a b s t k = Some (Inr (res, k'))"
  then obtain S T where st: "options_validate (ce_options E) = None"
    "scans E (ce_source E) s None S" "scans E (ce_target E) t None T" by (rule compare_into_result)
  with result show "options_validate (ce_options E) = None \<and>
     (\<exists>S T p. scans E (ce_source E) s None S \<and> scans E (ce_target E) t None T \<and>
        merge_all E S T (start_progress k) = Inr p \<and> res = finished_result E a b p \<and> k' = mp_sink p)"
    unfolding compare_into_scans [OF st] by (auto simp: obind_eq_Inr)
next
  assume "options_validate (ce_options E) = None \<and>
     (\<exists>S T p. scans E (ce_source E) s None S \<and> scans E (ce_target E) t None T \<and>
        merge_all E S T (start_progress k) = Inr p \<and> res = finished_result E a b p \<and> k' = mp_sink p)"
  then show "compare_table_pages_into E a b s t k = Some (Inr (res, k'))"
    by (elim conjE exE) (simp add: compare_into_scans)
qed

subsection \<open>The reported differences\<close>

lemma vec_env [simp]:
  "ce_source (vec_sink E) = ce_source E" "ce_target (vec_sink E) = ce_target E" "ce_pk (vec_sink E) = ce_pk E"
  "ce_columns (vec_sink E) = ce_columns E" "ce_options (vec_sink E) = ce_options E"
  "vector_sink (vec_sink E)" "check_page (vec_sink E) src page after = check_page E src page after"
  by (simp_all add: vec_sink_def vector_sink_def check_page_def)

lemma vec_rows [simp]:
  "raw_key (vec_sink E) row = raw_key E row" "row_key (vec_sink E) src row = row_key E src row"
  "same_row (vec_sink E) u v = same_row E u v" "keyed (vec_sink E) src row = keyed E src row"
  by (simp_all add: raw_key_def row_key_def same_row_def keyed_def)

lemma vec_pair_changes [simp]: "pair_changes (vec_sink E) = pair_changes E"
proof
  fix p show "pair_changes (vec_sink E) p = pair_changes E p"
    by (cases "(E, p)" rule: pair_changes.cases) (simp_all add: Let_def)
qed

lemma vec_scans [simp]: "scans (vec_sink E) src p after rows \<longleftrightarrow> scans E src p after rows"
proof
  assume "scans (vec_sink E) src p after rows"
  then show "scans E src p after rows" by induction (auto intro: scans.intros)
next
  assume "scans E src p after rows"
  then show "scans (vec_sink E) src p after rows" by induction (auto intro: scans.intros)
qed

lemma compare_table_pages_result:
  assumes "compare_table_pages E a b s t = Some (Inr res)"
  obtains S T p where "scans E (ce_source E) s None S" "scans E (ce_target E) t None T"
    "merge_all (vec_sink E) S T (start_progress []) = Inr p"
    "tr_rows res = mp_sink p" "tr_unchanged res = mp_unchanged p"
proof -
  obtain r rows where into: "compare_table_pages_into (vec_sink E) a b s t [] = Some (Inr (r, rows))"
    "res = r\<lparr>tr_rows := rows\<rparr>"
    using assms by (auto simp: compare_table_pages_def obind_eq_Inr)
  obtain S T where st: "options_validate (ce_options (vec_sink E)) = None"
    "scans (vec_sink E) (ce_source (vec_sink E)) s None S" "scans (vec_sink E) (ce_target (vec_sink E)) t None T"
    using compare_into_result [OF into(1)] .
  from into(1) obtain p where "merge_all (vec_sink E) S T (start_progress []) = Inr p"
    "r = finished_result (vec_sink E) a b p" "rows = mp_sink p"
    unfolding compare_into_scans [OF st] by (auto simp: obind_eq_Inr)
  with that st into(2) show ?thesis by (simp add: finished_result_def)
qed

definition reported_inserts :: "('s, 't, 'j, 'k) compare_env \<Rightarrow> 'j row list \<Rightarrow> 'j row list \<Rightarrow> 'j sync_change set" where
  "reported_inserts E S T = {insert_change (raw_key E s) s (ce_options E) |s.
     s \<in> set S \<and> (\<forall>t \<in> set T. pair_cmp E s t \<noteq> Equal)}"

definition reported_deletes :: "('s, 't, 'j, 'k) compare_env \<Rightarrow> 'j row list \<Rightarrow> 'j row list \<Rightarrow> 'j sync_change set" where
  "reported_deletes E S T = {delete_change (raw_key E t) t (ce_options E) |t.
     t \<in> set T \<and> (\<forall>s \<in> set S. pair_cmp E s t \<noteq> Equal)}"

definition reported_updates :: "('s, 't, 'j, 'k) compare_env \<Rightarrow> 'j row list \<Rightarrow> 'j row list \<Rightarrow> 'j sync_change set" where
  "reported_updates E S T = {update_change (raw_key E s) s t (diff_changed_columns s t (ce_columns E) (ce_pk E)) (ce_options E) |s t.
     s \<in> set S \<and> t \<in> set T \<and> pair_cmp E s t = Equal \<and> \<not> same_row E s t}"

lemma pair_changes_sets:
  "set (pair_changes E (Some s, None)) = {insert_change (raw_key E s) s (ce_options E)}"
  "set (pair_changes E (None, Some t)) = {delete_change (raw_key E t) t (ce_options E)}"
  "set (pair_changes E (Some s, Some t)) = (if same_row E s t then {} else
     {update_change (raw_key E s) s t (diff_changed_columns s t (ce_columns E) (ce_pk E)) (ce_options E)})"
  by (simp_all add: no_changed_columns Let_def)

lemma changes_of_pairs:
  "(\<Union>q \<in> {(Some s, None) |s. P s}. set (pair_changes E q)) = {insert_change (raw_key E s) s (ce_options E) |s. P s}"
  "(\<Union>q \<in> {(None, Some t) |t. P t}. set (pair_changes E q)) = {delete_change (raw_key E t) t (ce_options E) |t. P t}"
  "(\<Union>q \<in> {(Some s, Some t) |s t. Q s t}. set (pair_changes E q)) =
     {update_change (raw_key E s) s t (diff_changed_columns s t (ce_columns E) (ce_pk E)) (ce_options E) |s t.
        Q s t \<and> \<not> same_row E s t}"
proof -
  have "(\<Union>q \<in> {(Some s, Some t) |s t. Q s t}. set (pair_changes E q)) =
      {c. \<exists>s t. Q s t \<and> c \<in> set (pair_changes E (Some s, Some t))}" by blast
  also have "\<dots> = {update_change (raw_key E s) s t (diff_changed_columns s t (ce_columns E) (ce_pk E)) (ce_options E) |s t.
        Q s t \<and> \<not> same_row E s t}"
    unfolding pair_changes_sets by (auto split: if_splits) 
  finally show "(\<Union>q \<in> {(Some s, Some t) |s t. Q s t}. set (pair_changes E q)) =
      {update_change (raw_key E s) s t (diff_changed_columns s t (ce_columns E) (ce_pk E)) (ce_options E) |s t.
        Q s t \<and> \<not> same_row E s t}" .
qed (auto simp: pair_changes_sets simp del: pair_changes.simps)

text \<open>
  C4. The comparison reports every difference and nothing else: for two page sources whose normalizer
  yields valid keys, the reported changes are an insert for each source row without a target row of
  equal key, a delete for each target row without a source row, an update with its changed columns
  for each pair of equal keys that differs, and the count of unchanged rows is that of the pairs that do
  not. The rows of each side have strictly increasing keys, so no row is paired twice.
\<close>

theorem every_difference_is_reported:
  assumes "compare_table_pages E a b s t = Some (Inr res)"
    "valid_normalizer (ce_source E)" "valid_normalizer (ce_target E)"
  shows "\<exists>S T. scans E (ce_source E) s None S \<and> scans E (ce_target E) t None T \<and>
    sorted_wrt (keys_less E (ce_source E)) S \<and> sorted_wrt (keys_less E (ce_target E)) T \<and>
    set (tr_rows res) = reported_inserts E S T \<union> reported_deletes E S T \<union> reported_updates E S T \<and>
    tr_unchanged res = length (filter (\<lambda>s. \<exists>t \<in> set T. pair_cmp E s t = Equal \<and> same_row E s t) S)"
proof -
  obtain S T p where r: "scans E (ce_source E) s None S" "scans E (ce_target E) t None T"
    "merge_all (vec_sink E) S T (start_progress []) = Inr p" "tr_rows res = mp_sink p" "tr_unchanged res = mp_unchanged p"
    by (rule compare_table_pages_result [OF assms(1)])
  have sorted: "sorted_scan E (ce_source E) None S" "sorted_scan E (ce_target E) None T"
    using scans_sorted [OF r(1) assms(2)] scans_sorted [OF r(2) assms(3)] by simp_all
  then have keyed: "\<forall>s \<in> set S. keyed E (ce_source E) s" "\<forall>t \<in> set T. keyed E (ce_target E) t"
    and less: "sorted_wrt (keys_less E (ce_source E)) S" "sorted_wrt (keys_less E (ce_target E)) T"
    by (simp_all add: sorted_scan_def)
  have valid: "\<forall>s \<in> set S. list_all valid_key (row_key E (ce_source E) s)"
    "\<forall>t \<in> set T. list_all valid_key (row_key E (ce_target E) t)"
    using keyed row_key_valid assms(2,3) by blast+
  let ?ps = "merge_pairs (pair_cmp E) S T"
  have m: "mp_sink p = concat (map (pair_changes E) ?ps)" "mp_unchanged p = length (filter (unchanged_pair E) ?ps)"
    using merge_all_result [OF r(3)] keyed by (simp_all add: start_progress_def cong: option.case_cong)
  have "set (mp_sink p) = (\<Union>q \<in> set ?ps. set (pair_changes E q))" by (simp add: m(1))
  also have "\<dots> = reported_inserts E S T \<union> reported_deletes E S T \<union> reported_updates E S T"
    unfolding keys_order.merge_pairs_set [OF less valid] UN_Un reported_inserts_def reported_deletes_def
      reported_updates_def changes_of_pairs
    by (simp only: conj_assoc Un_ac)
  finally show ?thesis
    using r less m(2) keys_order.merge_pairs_count [OF less valid, of "same_row E"] by auto
qed

text \<open>A source of two rows and a target of two rows in memory.\<close>

definition demo_row :: "int \<Rightarrow> nat \<Rightarrow> unit row" where
  "demo_row i c = [Some (VInteger i), Some (VString [c])]"

definition demo_source :: "unit row list" where
  "demo_source = [demo_row 1 97, demo_row 2 98]"

definition demo_target :: "unit row list" where
  "demo_target = [demo_row 2 99, demo_row 3 100]"

definition demo_pages :: "(unit row list, unit) page_source" where
  "demo_pages = slice_source (\<lambda>_. []) [0]"

definition demo_env :: "(unit row list, unit row list, unit, unit) compare_env" where
  "demo_env = \<lparr>ce_source = demo_pages, ce_target = demo_pages, ce_pk = [0], ce_columns = [lit ''id'', lit ''name''],
     ce_options = default_options, ce_page_bytes = (\<lambda>_. Inr 0), ce_change_bytes = (\<lambda>_. Inr 1),
     ce_push = (\<lambda>_ k. Inr k), ce_unchanged = Inr, ce_cancelled = (\<lambda>_. False), ce_limits = None\<rparr>"

definition demo_result :: "unit table_result" where
  "demo_result = \<lparr>tr_source_table = (lit ''users''), tr_target_table = (lit ''users''), tr_status = Matched, tr_reason = None,
     tr_columns = [lit ''id'', lit ''name''], tr_primary_keys = [lit ''id''], tr_unchanged = 0,
     tr_rows = [insert_change [VInteger 1] (demo_row 1 97) default_options,
       update_change [VInteger 2] (demo_row 2 98) (demo_row 2 99) [lit ''name''] default_options,
       delete_change [VInteger 3] (demo_row 3 100) default_options]\<rparr>"

lemma normalize_cells_valid: "normalize_cells vs = Inr ks \<Longrightarrow> list_all valid_key ks"
  by (induction vs arbitrary: ks) (auto simp: obind_eq_Inr dest: from_value_valid split: sum.splits)

lemma slice_valid_normalizer: "valid_normalizer (slice_source jt pk)"
  by (auto simp: valid_normalizer_def slice_source_def dest: normalize_cells_valid split: sum.splits)

lemma demo_scans:
  "scans demo_env demo_pages demo_source None demo_source" "scans demo_env demo_pages demo_target None demo_target"
proof -
  have page: "next_page demo_pages demo_source None (so_batch_size (ce_options demo_env)) = (Inr demo_source, demo_source)"
    "demo_source \<noteq> []" "check_page demo_env demo_pages demo_source None = Inr ()"
    "extract_key (last demo_source) (ce_pk demo_env) = Inr [VInteger 2]" by code_simp+
  have "next_page demo_pages demo_source (Some [VInteger 2]) (so_batch_size (ce_options demo_env)) = (Inr [], demo_source)"
    "check_page demo_env demo_pages [] (Some [VInteger 2]) = Inr ()" by code_simp+
  from scan_page [OF page scan_end [OF this]]
  have "scans demo_env demo_pages demo_source None (demo_source @ [])" .
  then show "scans demo_env demo_pages demo_source None demo_source" by simp
next
  have page: "next_page demo_pages demo_target None (so_batch_size (ce_options demo_env)) = (Inr demo_target, demo_target)"
    "demo_target \<noteq> []" "check_page demo_env demo_pages demo_target None = Inr ()"
    "extract_key (last demo_target) (ce_pk demo_env) = Inr [VInteger 3]" by code_simp+
  have "next_page demo_pages demo_target (Some [VInteger 3]) (so_batch_size (ce_options demo_env)) = (Inr [], demo_target)"
    "check_page demo_env demo_pages [] (Some [VInteger 3]) = Inr ()" by code_simp+
  from scan_page [OF page scan_end [OF this]]
  have "scans demo_env demo_pages demo_target None (demo_target @ [])" .
  then show "scans demo_env demo_pages demo_target None demo_target" by simp
qed

lemma demo_merge:
  "merge_all (vec_sink demo_env) demo_source demo_target (start_progress []) =
     Inr \<lparr>mp_unchanged = 0, mp_bytes = 3, mp_count = 3, mp_sink = tr_rows demo_result, mp_round = 4\<rparr>"
  by code_simp

lemma demo_compare: "compare_table_pages demo_env (lit ''users'') (lit ''users'') demo_source demo_target = Some (Inr demo_result)"
proof -
  have e: "ce_source (vec_sink demo_env) = demo_pages" "ce_target (vec_sink demo_env) = demo_pages"
    "options_validate (ce_options (vec_sink demo_env)) = None"
    by (simp_all add: demo_env_def default_options_def options_validate_def)
  have "compare_table_pages_into (vec_sink demo_env) (lit ''users'') (lit ''users'') demo_source demo_target [] =
      Some (obind (merge_all (vec_sink demo_env) demo_source demo_target (start_progress []))
        (\<lambda>p. Inr (finished_result (vec_sink demo_env) (lit ''users'') (lit ''users'') p, mp_sink p)))"
    using demo_scans e(3) by (intro compare_into_scans) (simp_all only: e vec_scans)
  then show ?thesis
    unfolding compare_table_pages_def demo_merge
    by (simp add: finished_result_def matched_table_def demo_result_def demo_env_def)
qed

lemma every_difference_is_reported_witness:
  "\<exists>S T. scans demo_env demo_pages demo_source None S \<and> scans demo_env demo_pages demo_target None T \<and>
     set (tr_rows demo_result) = reported_inserts demo_env S T \<union> reported_deletes demo_env S T \<union> reported_updates demo_env S T"
proof -
  have "valid_normalizer demo_pages" by (simp add: demo_pages_def slice_valid_normalizer)
  then show ?thesis
    using every_difference_is_reported [OF demo_compare] by (auto simp: demo_env_def)
qed

section \<open>Applying the changes\<close>

text \<open>
  C10. Comparing two tables, applying every reported change to the target and comparing again finds no
  difference: for tables of increasing keys, whose keys the serialization tells apart, with inserts,
  updates and deletes allowed, the change set of the comparison is applied without an error, and the
  second comparison reports as many unchanged rows as the source has and nothing else.
\<close>

theorem apply_leaves_no_difference:
  assumes "rows_increase jt pk S" "rows_increase jt pk T" "keys_distinguished jt kb pk (S @ T)" "all_allowed os"
  shows "\<exists>changes m n m' result.
    compare_sorted_rows jt pk names os S T = Inr changes \<and> rows_to_map kb pk T [] = Inr m \<and>
    apply_changeset_to_rows kb pk (selected_changes os changes) 0 m = (Inr n, m') \<and>
    recompare_table jt pk names os S (map_to_sorted_rows jt pk m') = Inr result \<and>
    remaining_mutating_changes result = 0 \<and> unchanged_row_count result = length S"
proof -
  define ps where "ps = merge_pairs (cmp_rows jt pk) S T"
  have keys: "\<forall>s \<in> set S. has_key pk s" "\<forall>t \<in> set T. has_key pk t"
    using assms(1,2) by (simp_all add: rows_increase_def list_all_iff)
  note first = compare_sorted_rows_pairs [OF keys, of jt names os, folded ps_def]
  have "distinct (map (\<lambda>r. kb (key_or_default pk r)) T)" using rows_increase_distinct [OF assms(2,3)] by simp
  then obtain m where m: "rows_to_map kb pk T [] = Inr m" "bt_wf m"
    "\<forall>k. bt_get m k = find (\<lambda>t. kb (key_or_default pk t) = k) T"
    using rows_to_map_get [OF keys(2), of kb "[]"] by (auto split: option.splits) (metis option.exhaust)
  have ps: "\<forall>p \<in> set ps. proper_pair p \<and> (case fst p of None \<Rightarrow> True | Some s \<Rightarrow> has_key pk s)"
    using merge_pairs_proper keys(1) merge_pairs_members(2) unfolding ps_def
    by (fastforce split: option.splits)
  then obtain n where n: "apply_changeset_to_rows kb pk
      (selected_changes os (concat (map (memory_change pk names os) ps))) 0 m = (Inr n, fold (pair_effect kb pk names) ps m)"
    using apply_pairs [OF ps assms(4), of kb names 0 m] by (auto simp: selected_changes_filter)
  let ?R = "List.map_filter (final_row pk names) ps"
  have table: "map_to_sorted_rows jt pk (fold (pair_effect kb pk names) ps m) = ?R"
    unfolding ps_def using assms(1-3) m(2,3) by (intro applied_table) simp_all
  have "list_all2 (\<lambda>s r. cmp_rows jt pk s r = Equal \<and> keeps_target pk names s r \<and> has_key pk s \<and> has_key pk r)
      (List.map_filter fst ps) ?R"
  proof (rule map_filter_all2)
    fix p assume p: "p \<in> set ps"
    then have eq: "cmp_rows jt pk (pair_row p) r = Equal \<and> r \<in> set S \<union> set T" if "final_row pk names p = Some r" for r
      using final_row_equal that unfolding ps_def by blast
    from ps p have "proper_pair p" by blast
    then show "fst p = None \<and> final_row pk names p = None \<or>
      (\<exists>s r. fst p = Some s \<and> final_row pk names p = Some r \<and> cmp_rows jt pk s r = Equal \<and>
         keeps_target pk names s r \<and> has_key pk s \<and> has_key pk r)"
      using eq keys ps p by (cases rule: pair_cases) (auto simp: keeps_target_def)
  qed
  then have "list_all2 (\<lambda>s r. cmp_rows jt pk s r = Equal \<and> keeps_target pk names s r \<and> has_key pk s \<and> has_key pk r) S ?R"
    using merge_pairs_sources [of "cmp_rows jt pk" S T] by (simp add: ps_def)
  note second = compare_equal_rows [OF this, of os] and len = list_all2_lengthD [OF this]
  have "recompare_table jt pk names os S (map_to_sorted_rows jt pk (fold (pair_effect kb pk names) ps m)) =
      Inr (matched_table (lit ''src'') (lit ''tgt'') (map (\<lambda>(s, r). unchanged_change (key_or_default pk s) s r) (zip S ?R)))"
    by (simp add: recompare_table_def table second)
  with first m(1) n show ?thesis
    by (auto simp: remaining_mutating_changes_def unchanged_row_count_def matched_table_def count_unchanged len)
qed

definition demo_bytes :: "unit cell list \<Rightarrow> nat list" where
  "demo_bytes k = (case k of [VInteger i] \<Rightarrow> [nat i] | _ \<Rightarrow> [])"

definition sync_all :: sync_options where
  "sync_all = default_options\<lparr>so_delete := True\<rparr>"

lemma apply_leaves_no_difference_witness:
  "\<exists>changes m n m' result.
    compare_sorted_rows (\<lambda>_. []) [0] [lit ''id'', lit ''name''] sync_all demo_source demo_target = Inr changes \<and>
    rows_to_map demo_bytes [0] demo_target [] = Inr m \<and>
    apply_changeset_to_rows demo_bytes [0] (selected_changes sync_all changes) 0 m = (Inr n, m') \<and>
    recompare_table (\<lambda>_. []) [0] [lit ''id'', lit ''name''] sync_all demo_source (map_to_sorted_rows (\<lambda>_. []) [0] m') = Inr result \<and>
    remaining_mutating_changes result = 0 \<and> unchanged_row_count result = 2"
proof -
  have "rows_increase (\<lambda>_. []) [0] demo_source" "rows_increase (\<lambda>_. []) [0] demo_target"
    "keys_distinguished (\<lambda>_. []) demo_bytes [0] (demo_source @ demo_target)" "all_allowed sync_all"
    "length demo_source = 2" by code_simp+
  with apply_leaves_no_difference [OF this(1-4), of "[lit ''id'', lit ''name'']"] show ?thesis by simp
qed

section \<open>Decimal keys\<close>

text \<open>
  C23. A decimal key stands for the number of its text: every accepted text is an optional sign, digits with
  at most one point and an optional exponent, and two accepted texts have equal keys exactly when they
  write the same number, however many zeros, points or exponents they use.
\<close>

theorem decimal_key_identifies_number:
  assumes "decimal_parse x = Inr a" "decimal_parse y = Inr b"
  shows "denotes (utrim x) (decimal_val a) \<and> denotes (utrim y) (decimal_val b) \<and>
    (a = b \<longleftrightarrow> decimal_val a = decimal_val b)"
  using assms decimal_parse_denotes decimal_parse_canonical canonical_unique by metis

lemma decimal_key_identifies_number_witness:
  "decimal_parse (lit ''1.50'') = decimal_parse (lit '' 15e-1'') \<and>
   (\<exists>a. decimal_parse (lit ''1.50'') = Inr a \<and> denotes (utrim (lit ''1.50'')) (decimal_val a))"
proof -
  have "decimal_parse (lit ''1.50'') = Inr \<lparr>dk_negative = False, dk_digits = [49, 53], dk_scale = 1\<rparr>"
    "decimal_parse (lit '' 15e-1'') = Inr \<lparr>dk_negative = False, dk_digits = [49, 53], dk_scale = 1\<rparr>" by code_simp+
  with decimal_key_identifies_number [OF this] show ?thesis by auto
qed

lemma contract_keys_valid: "contract_keys env kinds raw = Inr ks \<Longrightarrow> list_all valid_key ks"
proof -
  have "contract_values env kinds raw = Inr ks \<Longrightarrow> list_all valid_key ks" for kinds and raw :: "'a cell list" and ks
    by (induction env kinds raw arbitrary: ks rule: contract_values.induct)
      (auto simp: obind_eq_Inr dest: normalize_key_valid split: sum.splits)
  then show "contract_keys env kinds raw = Inr ks \<Longrightarrow> list_all valid_key ks"
    by (simp add: contract_keys_def split: if_splits)
qed

text \<open>The variant of the normalized values of a contract.\<close>

fun contract_rank :: "key_kind \<Rightarrow> nat" where
  "contract_rank (IntegerKind _) = 0"
| "contract_rank TextKind = 1"
| "contract_rank (DecimalKind _) = 2"
| "contract_rank (TimestampKind _ _) = 3"

lemma normalize_text_rank: "normalize_text w = Inr k \<Longrightarrow> sync_key_kind_rank k = 1"
  by (cases w) auto

lemma normalize_integer_rank: "normalize_integer u t = Inr k \<Longrightarrow> sync_key_kind_rank k = 0"
  by (auto simp: normalize_integer_def simp del: lit_simps split: option.splits if_splits)

lemma normalize_key_rank: "normalize_key env kind v = Inr k \<Longrightarrow> sync_key_kind_rank k = contract_rank kind"
  by (cases kind) (auto simp: normalize_key_def obind_eq_Inr normalize_text_rank normalize_integer_rank
      simp del: lit_simps normalize_text.simps integer_text.simps decimal_text.simps timestamp_text.simps
      split: option.splits cell.splits)

lemma contract_keys_ranks: "contract_keys env kinds raw = Inr ks \<Longrightarrow> map sync_key_kind_rank ks = map contract_rank kinds"
proof -
  have "contract_values env kinds raw = Inr ks \<Longrightarrow> length raw = length kinds \<Longrightarrow>
      map sync_key_kind_rank ks = map contract_rank kinds" for kinds and raw :: "'a cell list" and ks
    by (induction env kinds raw arbitrary: ks rule: contract_values.induct)
      (auto simp: obind_eq_Inr dest: normalize_key_rank split: sum.splits)
  then show "contract_keys env kinds raw = Inr ks \<Longrightarrow> map sync_key_kind_rank ks = map contract_rank kinds"
    by (simp add: contract_keys_def split: if_splits)
qed

lemma same_contract_ranks:
  assumes "map sync_key_kind_rank a = map sync_key_kind_rank b"
  shows "same_contract a b"
proof -
  have len: "length a = length b" using assms by (rule map_eq_imp_length_eq)
  have "sync_key_kind_rank (a ! i) = sync_key_kind_rank (b ! i)" if "i < length a" for i
    using arg_cong [OF assms, of "\<lambda>xs. xs ! i"] that len by simp
  with len show ?thesis by (force simp: same_contract_def same_kind_def list_all_iff set_zip)
qed

text \<open>
  C39. The keys of a table are typed by its contracts: a normalized key has one value per contract, of the
  contract's variant, in the canonical form that the order needs. So the two sides of a comparison with
  the same contracts never fail the check that their keys can be compared, whatever their drivers return.
\<close>

theorem contract_keys_are_typed:
  assumes "contract_keys env kinds a = Inr x" "contract_keys env' kinds b = Inr y"
  shows "map sync_key_kind_rank x = map contract_rank kinds \<and> list_all valid_key x \<and> same_contract x y"
  using contract_keys_ranks [OF assms(1)] contract_keys_ranks [OF assms(2)] contract_keys_valid [OF assms(1)]
    same_contract_ranks [of x y] by simp

lemma contract_keys_are_typed_witness:
  "\<exists>x y. contract_keys \<lparr>float_text = \<lambda>_. [], chrono_utc = \<lambda>_. None, chrono_naive = \<lambda>_. None\<rparr> [IntegerKind True, TextKind]
       [VInteger 7, VString [97] :: unit cell] = Inr x \<and>
     contract_keys \<lparr>float_text = \<lambda>_. [], chrono_utc = \<lambda>_. None, chrono_naive = \<lambda>_. None\<rparr> [IntegerKind True, TextKind]
       [VString [55], VBytes [98] :: unit cell] = Inr y \<and> same_contract x y"
proof -
  have "contract_keys \<lparr>float_text = \<lambda>_. [], chrono_utc = \<lambda>_. None, chrono_naive = \<lambda>_. None\<rparr> [IntegerKind True, TextKind]
       [VInteger 7, VString [97] :: unit cell] = Inr [KInteger 7, KText [97]]"
    "contract_keys \<lparr>float_text = \<lambda>_. [], chrono_utc = \<lambda>_. None, chrono_naive = \<lambda>_. None\<rparr> [IntegerKind True, TextKind]
       [VString [55], VBytes [98] :: unit cell] = Inr [KInteger 7, KText [98]]" by code_simp+
  with contract_keys_are_typed [OF this] show ?thesis by auto
qed

lemma value_below_one:
  assumes "canonical k" "0 < decimal_val k" "decimal_val k < 1"
  shows "0 < magnitude k" "magnitude k < 1" "magnitude k = decimal_val k" "\<not> dk_negative k"
proof -
  show plus: "\<not> dk_negative k" using negative_value [OF assms(1)] assms(2) by linarith
  then show same: "magnitude k = decimal_val k" by (simp add: decimal_val_def Sync_Keys.signed_def)
  show "0 < magnitude k" "magnitude k < 1" unfolding same by (fact assms(2), fact assms(3))
qed

text \<open>
  C40. The order of the decimal keys of any two texts, compared with the order of their numbers. It is the
  same, negative numbers included, if each number is zero or at least one in absolute value. Between
  zero and one it is not: there the numbers are compared first as if the zeros after the point were not
  there, and by their value only if that gives no difference; and zero is greater than every number
  between zero and one.
\<close>

theorem decimal_order_characterized:
  assumes "decimal_parse x = Inr a" "decimal_parse y = Inr b"
  shows "((decimal_val a = 0 \<or> 1 \<le> \<bar>decimal_val a\<bar>) \<and> (decimal_val b = 0 \<or> 1 \<le> \<bar>decimal_val b\<bar>) \<longrightarrow>
      cmp_sync_key (KDecimal a) (KDecimal b) = cmp (decimal_val a) (decimal_val b)) \<and>
    (0 < decimal_val a \<and> decimal_val a < 1 \<and> 0 < decimal_val b \<and> decimal_val b < 1 \<longrightarrow>
      cmp_sync_key (KDecimal a) (KDecimal b) =
        then_with (cmp (leading_digits a) (leading_digits b)) (cmp (decimal_val a) (decimal_val b))) \<and>
    (0 < decimal_val a \<and> decimal_val a < 1 \<and> decimal_val b = 0 \<longrightarrow> cmp_sync_key (KDecimal a) (KDecimal b) = Less)"
proof (intro conjI impI)
  note can = decimal_parse_canonical [OF assms(1)] decimal_parse_canonical [OF assms(2)]
  show "cmp_sync_key (KDecimal a) (KDecimal b) = cmp (decimal_val a) (decimal_val b)"
    if "(decimal_val a = 0 \<or> 1 \<le> \<bar>decimal_val a\<bar>) \<and> (decimal_val b = 0 \<or> 1 \<le> \<bar>decimal_val b\<bar>)"
    unfolding cmp_sync_key.simps using that
    by (intro cmp_decimal_exact [OF can] integral_part [OF can(1)] integral_part [OF can(2)]) blast+
  show "cmp_sync_key (KDecimal a) (KDecimal b) =
      then_with (cmp (leading_digits a) (leading_digits b)) (cmp (decimal_val a) (decimal_val b))"
    if "0 < decimal_val a \<and> decimal_val a < 1 \<and> 0 < decimal_val b \<and> decimal_val b < 1"
    using that can value_below_one [OF can(1)] value_below_one [OF can(2)] cmp_magnitude_below_one [OF can]
    by (simp add: cmp_decimal_def)
  show "cmp_sync_key (KDecimal a) (KDecimal b) = Less" if small: "0 < decimal_val a \<and> decimal_val a < 1 \<and> decimal_val b = 0"
  proof -
    have "canonical zero_key" by (simp add: canonical_def)
    moreover have "decimal_val zero_key = 0" by (simp add: decimal_val_def Sync_Keys.signed_def)
    ultimately have "b = zero_key" using canonical_unique [OF can(2)] small by simp
    then show ?thesis
      using small value_below_one [OF can(1)] cmp_magnitude_zero [OF can(1)]
      by (simp add: cmp_decimal_def) (simp add: zero_key_def)
  qed
qed

lemma small_decimals:
  "decimal_parse (lit ''0.06'') = Inr \<lparr>dk_negative = False, dk_digits = [54], dk_scale = 2\<rparr>"
  "decimal_parse (lit ''0.5'') = Inr \<lparr>dk_negative = False, dk_digits = [53], dk_scale = 1\<rparr>"
  by code_simp+

text \<open>So 0.06 is greater than 0.5.\<close>

theorem decimal_order_characterized_witness:
  "\<exists>a b. decimal_parse (lit ''0.06'') = Inr a \<and> decimal_parse (lit ''0.5'') = Inr b \<and> decimal_val a < decimal_val b \<and>
     cmp_sync_key (KDecimal a) (KDecimal b) = Greater"
proof -
  let ?a = "\<lparr>dk_negative = False, dk_digits = [54], dk_scale = 2\<rparr>" and ?b = "\<lparr>dk_negative = False, dk_digits = [53], dk_scale = 1\<rparr>"
  have "decimal_val ?a = 6 / 100" "decimal_val ?b = 5 / 10" "leading_digits ?a = 6 / 10" "leading_digits ?b = 5 / 10"
    by (simp_all add: decimal_val_def Sync_Keys.signed_def magnitude_def digits_val_def leading_digits_def)
  with decimal_order_characterized [OF small_decimals] small_decimals show ?thesis
    by (intro exI [of _ ?a] exI [of _ ?b]) (simp add: then_with_def cmp_def del: cmp_sync_key.simps lit_simps)
qed

text \<open>A table with a numeric key whose rows 0.06 and 0.5 come in their correct order is refused as not increasing.\<close>

lemma correct_order_refused:
  "validate_rows (contract_keys env [DecimalKind None]) [0] [lit ''id''] None
     [[Some (VString (lit ''0.06''))], [Some (VString (lit ''0.5''))]] = Inl key_order_error"
proof -
  have trims: "utrim (lit ''0.06'') = lit ''0.06''" "utrim (lit ''0.5'') = lit ''0.5''" by code_simp+
  have c: "cmp_decimal \<lparr>dk_negative = False, dk_digits = [53], dk_scale = 1\<rparr> \<lparr>dk_negative = False, dk_digits = [54], dk_scale = 2\<rparr> = Less"
    "cmp_decimal \<lparr>dk_negative = False, dk_digits = [54], dk_scale = 2\<rparr> \<lparr>dk_negative = False, dk_digits = [53], dk_scale = 1\<rparr> = Greater"
    by code_simp+
  show ?thesis
    using c by (simp add: contract_keys_def normalize_key_def trims small_decimals then_with_def del: lit_simps)
qed

end
