(* ===== verification/Sync_Execute.thy ===== *)
theory Sync_Execute
  imports Sync_Model
begin

text \<open>
  The execution of a change set (\<open>migration/data_sync/execute.rs\<close>): one transaction, the statements in
  order, the session-wide identity toggle of SQL Server, cancellation and the conflict policy. The
  executor is the driver's: it answers every call as it likes, depending on all calls before, so its
  model is a function of the log of calls and replies. The cancel flag is read as a function of the
  log, too: it may be set at any moment. Row counts are unbounded here.
\<close>

section \<open>Executors\<close>

record identity_target =
  it_database :: utext
  it_schema :: "utext option"
  it_table :: utext

record 'j sql_statement =
  sm_table :: utext
  sm_operation :: change_operation
  sm_sql :: utext
  sm_preview :: utext
  sm_parameters :: "'j cell list"
  sm_row_key :: "'j cell list"
  sm_identity :: "identity_target option"

datatype 'j exec_call =
    CallBegin
  | CallExecute utext "'j cell list"
  | CallIdentity identity_target bool
  | CallDiscard
  | CallCommit
  | CallRollback

type_synonym 'j exec_log = "('j exec_call \<times> (sync_error + nat)) list"

record 'j executor =
  ex_read_only :: bool
  ex_reply :: "'j exec_log \<Rightarrow> 'j exec_call \<Rightarrow> sync_error + nat"

definition call_executor :: "'j executor \<Rightarrow> 'j exec_call \<Rightarrow> 'j exec_log \<Rightarrow> (sync_error + nat) \<times> 'j exec_log" where
  "call_executor X c log = (let r = ex_reply X log c in (r, log @ [(c, r)]))"

fun error_text :: "sync_error \<Rightarrow> utext" where
  "error_text (DsValidation s) = s"
| "error_text (DsConflict s) = s"
| "error_text (DsIllegalTransition a b) =
     lit ''illegal phase transition: '' @ 34 # lit a @ [34, 32, 8594, 32, 34] @ lit b @ [34]"
| "error_text (DsIncompatible s) = s"
| "error_text (DsCancelled s) = s"
| "error_text (DsNotStarted s) = s"
| "error_text (DsOutcomeUnknown s) = s"

section \<open>Identity toggle\<close>

record identity_state =
  id_active :: "identity_target option"
  id_cleanup :: "utext option"

definition fresh_identity :: identity_state where
  "fresh_identity = \<lparr>id_active = None, id_cleanup = None\<rparr>"

text \<open>Switch the active toggle off.\<close>

definition identity_off ::
    "'j executor \<Rightarrow> identity_state \<Rightarrow> 'j exec_log \<Rightarrow> sync_error option \<times> identity_state \<times> 'j exec_log" where
  "identity_off X st log =
     (case id_active st of
        None \<Rightarrow> (None, st, log)
      | Some cur \<Rightarrow>
          (case call_executor X (CallIdentity cur False) log of
             (Inr _, log') \<Rightarrow> (None, st\<lparr>id_active := None\<rparr>, log')
           | (Inl e, log') \<Rightarrow> (Some e, st\<lparr>id_cleanup := Some (error_text e)\<rparr>, log')))"

definition set_for_statement ::
    "'j executor \<Rightarrow> identity_target option \<Rightarrow> identity_state \<Rightarrow> 'j exec_log \<Rightarrow>
     sync_error option \<times> identity_state \<times> 'j exec_log" where
  "set_for_statement X tgt st log =
     (if id_active st = tgt then (None, st, log)
      else (case identity_off X st log of
         (Some e, st', log') \<Rightarrow> (Some e, st', log')
       | (None, st', log') \<Rightarrow>
           (case tgt of
              None \<Rightarrow> (None, st', log')
            | Some t \<Rightarrow>
                (case call_executor X (CallIdentity t True) log' of
                   (Inr _, log'') \<Rightarrow> (None, st'\<lparr>id_active := Some t\<rparr>, log'')
                 | (Inl e, log'') \<Rightarrow> (Some e, st'\<lparr>id_active := Some t\<rparr>, log'')))))"

definition cleanup_note :: "utext option \<Rightarrow> utext" where
  "cleanup_note c = (case c of None \<Rightarrow> [] | Some m \<Rightarrow> lit ''; identity insert cleanup failed: '' @ m)"

definition discard_if_needed ::
    "'j executor \<Rightarrow> identity_state \<Rightarrow> 'j exec_log \<Rightarrow> (sync_error + nat) option \<times> 'j exec_log" where
  "discard_if_needed X st log =
     (if id_cleanup st = None then (None, log)
      else (case call_executor X CallDiscard log of (r, log') \<Rightarrow> (Some r, log')))"

definition rollback_reason :: "utext \<Rightarrow> identity_state \<Rightarrow> utext" where
  "rollback_reason reason st =
     (case id_cleanup st of
        None \<Rightarrow> reason
      | Some e \<Rightarrow> reason @ lit ''; identity insert cleanup failed: '' @ e @
          lit ''; target connection discarded after rollback'')"

definition identity_rollback ::
    "'j executor \<Rightarrow> utext \<Rightarrow> identity_state \<Rightarrow> 'j exec_log \<Rightarrow> (sync_error + utext) \<times> 'j exec_log" where
  "identity_rollback X reason st0 log0 =
     (let (st, log) = (if id_cleanup st0 = None then snd (identity_off X st0 log0) else (st0, log0));
          (rolled, log) = call_executor X CallRollback log;
          (discarded, log) = discard_if_needed X st log
      in case rolled of
           Inl e \<Rightarrow>
             (Inl (DsOutcomeUnknown (reason @ cleanup_note (id_cleanup st) @
                lit ''; rollback failed, outcome UNKNOWN: '' @ error_text e @
                (case discarded of Some (Inl d) \<Rightarrow> lit ''; connection discard failed: '' @ error_text d | _ \<Rightarrow> []))), log)
         | Inr _ \<Rightarrow>
             (case discarded of
                Some (Inl d) \<Rightarrow>
                  (Inl (DsOutcomeUnknown (reason @ cleanup_note (id_cleanup st) @
                     lit ''; connection discard failed, session state UNKNOWN: '' @ error_text d)), log)
              | _ \<Rightarrow> (Inr (rollback_reason reason st), log)))"

section \<open>Statements\<close>

record 'j sync_conflict =
  sc_table :: utext
  sc_operation :: change_operation
  sc_row_key :: "'j cell list"
  sc_message :: utext

record 'j exec_result =
  xr_applied :: nat
  xr_rolled_back :: bool
  xr_reason :: "utext option"
  xr_affected :: nat
  xr_skipped :: nat
  xr_conflicts :: "'j sync_conflict list"

record 'j exec_progress =
  ep_applied :: nat
  ep_affected :: nat
  ep_skipped :: nat
  ep_conflicts :: "'j sync_conflict list"
  ep_identity :: identity_state

datatype 'j run_outcome =
    Stopped "sync_error + 'j exec_result"
  | Continue "'j exec_progress"

definition fresh_progress :: "'j exec_progress" where
  "fresh_progress = \<lparr>ep_applied = 0, ep_affected = 0, ep_skipped = 0, ep_conflicts = [], ep_identity = fresh_identity\<rparr>"

text \<open>Roll back and return.\<close>

definition stop_rolled_back ::
    "'j executor \<Rightarrow> utext \<Rightarrow> 'j sync_conflict list \<Rightarrow> 'j exec_progress \<Rightarrow> 'j exec_log \<Rightarrow> 'j run_outcome \<times> 'j exec_log" where
  "stop_rolled_back X reason conflicts p log =
     (case identity_rollback X reason (ep_identity p) log of
        (Inl e, log') \<Rightarrow> (Stopped (Inl e), log')
      | (Inr text, log') \<Rightarrow>
          (Stopped (Inr \<lparr>xr_applied = ep_applied p, xr_rolled_back = True, xr_reason = Some text,
             xr_affected = ep_affected p, xr_skipped = 0, xr_conflicts = conflicts\<rparr>), log'))"

definition cancel_reason :: utext where
  "cancel_reason = lit ''execute cancelled; all changes were rolled back''"

definition operation_word :: "change_operation \<Rightarrow> utext" where
  "operation_word p = (case p of OpUpdate \<Rightarrow> lit ''UPDATE'' | OpDelete \<Rightarrow> lit ''DELETE'' | _ \<Rightarrow> lit ''write'')"

definition conflict_of :: "'j sql_statement \<Rightarrow> 'j sync_conflict" where
  "conflict_of s =
     \<lparr>sc_table = sm_table s, sc_operation = sm_operation s, sc_row_key = sm_row_key s,
      sc_message = lit ''optimistic sync conflict: '' @ operation_word (sm_operation s) @ lit '' for table '' @
        39 # sm_table s @ 39 # lit '' affected zero rows''\<rparr>"

definition lost_row :: "'j sql_statement \<Rightarrow> nat \<Rightarrow> bool" where
  "lost_row s affected \<longleftrightarrow> (sm_operation s = OpUpdate \<or> sm_operation s = OpDelete) \<and> affected = 0"

definition run_statement ::
    "'j executor \<Rightarrow> ('j exec_log \<Rightarrow> bool) \<Rightarrow> conflict_policy \<Rightarrow> 'j sql_statement \<Rightarrow> 'j exec_progress \<Rightarrow> 'j exec_log \<Rightarrow>
     'j run_outcome \<times> 'j exec_log" where
  "run_statement X cancelled policy s p log =
     (if cancelled log then stop_rolled_back X cancel_reason [] p log
      else (case set_for_statement X (sm_identity s) (ep_identity p) log of
         (Some e, st, log) \<Rightarrow>
           stop_rolled_back X (lit ''identity insert setup failed: '' @ error_text e) [] (p\<lparr>ep_identity := st\<rparr>) log
       | (None, st, log) \<Rightarrow>
           (case call_executor X (CallExecute (sm_sql s) (sm_parameters s)) log of
              (Inr affected, log) \<Rightarrow>
                if lost_row s affected then
                  if policy = SkipConflict then
                    (Continue (p\<lparr>ep_identity := st, ep_skipped := ep_skipped p + 1,
                       ep_conflicts := ep_conflicts p @ [conflict_of s]\<rparr>), log)
                  else stop_rolled_back X (sc_message (conflict_of s)) [conflict_of s] (p\<lparr>ep_identity := st\<rparr>) log
                else (Continue (p\<lparr>ep_identity := st, ep_applied := ep_applied p + 1,
                       ep_affected := ep_affected p + affected\<rparr>), log)
            | (Inl e, log) \<Rightarrow>
                stop_rolled_back X (lit ''execution failed after '' @ int_text (int (ep_applied p)) @
                  lit '' statements: '' @ error_text e) [] (p\<lparr>ep_identity := st\<rparr>) log)))"

fun run_statements ::
    "'j executor \<Rightarrow> ('j exec_log \<Rightarrow> bool) \<Rightarrow> conflict_policy \<Rightarrow> 'j sql_statement list \<Rightarrow> 'j exec_progress \<Rightarrow> 'j exec_log \<Rightarrow>
     'j run_outcome \<times> 'j exec_log" where
  "run_statements X cancelled policy [] p log = (Continue p, log)"
| "run_statements X cancelled policy (s # ss) p log =
     (case run_statement X cancelled policy s p log of
        (Stopped r, log') \<Rightarrow> (Stopped r, log')
      | (Continue p', log') \<Rightarrow> run_statements X cancelled policy ss p' log')"

section \<open>Transactions\<close>

definition preflight :: "'j executor \<Rightarrow> ('j exec_log \<Rightarrow> bool) \<Rightarrow> 'j sql_statement list \<Rightarrow> 'j exec_log \<Rightarrow> sync_error option" where
  "preflight X cancelled stmts log =
     (if stmts = [] then Some (invalid ''change set is empty; nothing to execute'')
      else if ex_read_only X
        then Some (invalid ''target connection is read-only; Data Synchronization cannot execute'')
      else if cancelled log
        then Some (DsNotStarted (lit ''execute cancelled before any changes were applied''))
      else None)"

definition begin_transaction :: "'j executor \<Rightarrow> 'j exec_log \<Rightarrow> sync_error option \<times> 'j exec_log" where
  "begin_transaction X log =
     (case call_executor X CallBegin log of
        (Inr _, log') \<Rightarrow> (None, log')
      | (Inl e, log') \<Rightarrow>
          (Some (DsNotStarted (lit ''transaction could not start; no changes were applied: '' @ error_text e)), log'))"

definition commit_transaction :: "'j executor \<Rightarrow> 'j exec_progress \<Rightarrow> 'j exec_log \<Rightarrow> 'j run_outcome \<times> 'j exec_log" where
  "commit_transaction X p log =
     (case call_executor X CallCommit log of
        (Inl e, log') \<Rightarrow>
          (Stopped (Inl (DsOutcomeUnknown (lit ''commit result could not be confirmed; outcome UNKNOWN: '' @ error_text e))), log')
      | (Inr _, log') \<Rightarrow>
          (Stopped (Inr \<lparr>xr_applied = ep_applied p, xr_rolled_back = False, xr_reason = None,
             xr_affected = ep_affected p, xr_skipped = ep_skipped p, xr_conflicts = ep_conflicts p\<rparr>), log'))"

definition disable_identity :: "'j executor \<Rightarrow> 'j exec_progress \<Rightarrow> 'j exec_log \<Rightarrow> 'j run_outcome \<times> 'j exec_log" where
  "disable_identity X p log =
     (case set_for_statement X None (ep_identity p) log of
        (Some e, st, log') \<Rightarrow>
          stop_rolled_back X (lit ''cannot disable identity insert before commit: '' @ error_text e) []
            (p\<lparr>ep_identity := st\<rparr>) log'
      | (None, st, log') \<Rightarrow> (Continue (p\<lparr>ep_identity := st\<rparr>), log'))"

definition check_cancelled ::
    "'j executor \<Rightarrow> ('j exec_log \<Rightarrow> bool) \<Rightarrow> 'j exec_progress \<Rightarrow> 'j exec_log \<Rightarrow> 'j run_outcome \<times> 'j exec_log" where
  "check_cancelled X cancelled p log =
     (if cancelled log then stop_rolled_back X cancel_reason [] p log else (Continue p, log))"

definition and_then ::
    "'j run_outcome \<times> 'j exec_log \<Rightarrow> ('j exec_progress \<Rightarrow> 'j exec_log \<Rightarrow> 'j run_outcome \<times> 'j exec_log) \<Rightarrow>
     'j run_outcome \<times> 'j exec_log" where
  "and_then r f = (case r of (Stopped e, log) \<Rightarrow> (Stopped e, log) | (Continue p, log) \<Rightarrow> f p log)"

text \<open>The list of statements is known: the flag is checked, then the toggle is switched off.\<close>

definition run_transaction ::
    "'j executor \<Rightarrow> ('j exec_log \<Rightarrow> bool) \<Rightarrow> conflict_policy \<Rightarrow> 'j sql_statement list \<Rightarrow> 'j exec_log \<Rightarrow>
     'j run_outcome \<times> 'j exec_log" where
  "run_transaction X cancelled policy stmts log =
     and_then (run_statements X cancelled policy stmts fresh_progress log) (\<lambda>p log.
     and_then (check_cancelled X cancelled p log) (\<lambda>p log.
     and_then (disable_identity X p log) (commit_transaction X)))"

definition execute_statements_with_policy ::
    "'j executor \<Rightarrow> ('j exec_log \<Rightarrow> bool) \<Rightarrow> conflict_policy \<Rightarrow> 'j sql_statement list \<Rightarrow> 'j run_outcome \<times> 'j exec_log" where
  "execute_statements_with_policy X cancelled policy stmts =
     (case preflight X cancelled stmts [] of
        Some e \<Rightarrow> (Stopped (Inl e), [])
      | None \<Rightarrow>
          (case begin_transaction X [] of
             (Some e, log) \<Rightarrow> (Stopped (Inl e), log)
           | (None, log) \<Rightarrow> run_transaction X cancelled policy stmts log))"

definition execute_statements ::
    "'j executor \<Rightarrow> ('j exec_log \<Rightarrow> bool) \<Rightarrow> 'j sql_statement list \<Rightarrow> 'j run_outcome \<times> 'j exec_log" where
  "execute_statements X cancelled = execute_statements_with_policy X cancelled AbortOnConflict"

section \<open>Batches\<close>

text \<open>
  A \<open>StatementBatchSource\<close> is the list of its answers; after the last one it answers that there is
  nothing more.
\<close>

type_synonym 'j batch_source = "(sync_error + 'j sql_statement list option) list"

fun run_batches ::
    "'j executor \<Rightarrow> ('j exec_log \<Rightarrow> bool) \<Rightarrow> conflict_policy \<Rightarrow> 'j batch_source \<Rightarrow> 'j exec_progress \<Rightarrow> 'j exec_log \<Rightarrow>
     'j run_outcome \<times> 'j exec_log" where
  "run_batches X cancelled policy [] p log = (Continue p, log)"
| "run_batches X cancelled policy (b # bs) p log =
     (case b of
        Inr None \<Rightarrow> (Continue p, log)
      | Inr (Some ss) \<Rightarrow>
          if ss = [] then run_batches X cancelled policy bs p log
          else (case run_statements X cancelled policy ss p log of
                  (Stopped r, log') \<Rightarrow> (Stopped r, log')
                | (Continue p', log') \<Rightarrow> run_batches X cancelled policy bs p' log')
      | Inl e \<Rightarrow>
          stop_rolled_back X (lit ''statement generation failed after '' @ int_text (int (ep_applied p)) @
            lit '' statements: '' @ error_text e) [] p log)"

text \<open>Here the toggle is switched off before the last check of the flag.\<close>

definition run_batch_transaction ::
    "'j executor \<Rightarrow> ('j exec_log \<Rightarrow> bool) \<Rightarrow> conflict_policy \<Rightarrow> 'j sql_statement list \<Rightarrow> 'j batch_source \<Rightarrow> 'j exec_log \<Rightarrow>
     'j run_outcome \<times> 'j exec_log" where
  "run_batch_transaction X cancelled policy batch source log =
     and_then (run_statements X cancelled policy batch fresh_progress log) (\<lambda>p log.
     and_then (run_batches X cancelled policy source p log) (\<lambda>p log.
     and_then (disable_identity X p log) (\<lambda>p log.
     and_then (check_cancelled X cancelled p log) (commit_transaction X))))"

definition execute_statement_batches_with_policy ::
    "'j executor \<Rightarrow> ('j exec_log \<Rightarrow> bool) \<Rightarrow> conflict_policy \<Rightarrow> 'j sql_statement list \<Rightarrow> 'j batch_source \<Rightarrow>
     'j run_outcome \<times> 'j exec_log" where
  "execute_statement_batches_with_policy X cancelled policy batch source =
     (case preflight X cancelled batch [] of
        Some e \<Rightarrow> (Stopped (Inl e), [])
      | None \<Rightarrow>
          (case begin_transaction X [] of
             (Some e, log) \<Rightarrow> (Stopped (Inl e), log)
           | (None, log) \<Rightarrow> run_batch_transaction X cancelled policy batch source log))"

section \<open>The reported outcome\<close>

datatype execution_outcome = ExecNotStarted | ExecCommitted | ExecPartiallyApplied | ExecRolledBack | ExecUnknown

definition outcome_of_result :: "'j exec_result \<Rightarrow> execution_outcome" where
  "outcome_of_result r = (if xr_rolled_back r then ExecRolledBack else ExecCommitted)"

record 'j exec_response =
  er_result :: "'j exec_result"
  er_outcome :: execution_outcome
  er_error :: "utext option"

definition response_of :: "'j exec_result \<Rightarrow> 'j exec_response" where
  "response_of r = \<lparr>er_result = r, er_outcome = outcome_of_result r, er_error = None\<rparr>"

definition empty_result :: "nat \<Rightarrow> 'j exec_result" where
  "empty_result n =
     \<lparr>xr_applied = n, xr_rolled_back = False, xr_reason = None, xr_affected = n, xr_skipped = 0, xr_conflicts = []\<rparr>"

definition partially_applied :: "nat \<Rightarrow> 'j exec_response" where
  "partially_applied committed =
     \<lparr>er_result = empty_result committed, er_outcome = ExecPartiallyApplied,
      er_error = Some (lit ''Some batches committed before execution stopped. Compare current data before continuing.'')\<rparr>"

definition failed_before_start :: "utext \<Rightarrow> 'j exec_response" where
  "failed_before_start e =
     \<lparr>er_result = empty_result 0, er_outcome = ExecNotStarted,
      er_error = Some (lit ''Execution did not start. Check the plan and endpoint context, then compare again.'')\<rparr>"

definition unknown_response :: "utext \<Rightarrow> 'j exec_response" where
  "unknown_response e =
     \<lparr>er_result = empty_result 0, er_outcome = ExecUnknown,
      er_error = Some (lit ''Commit or rollback could not be confirmed. Compare current data before continuing.'')\<rparr>"

section \<open>The recording executor\<close>

text \<open>
  The executor the code ships for its own tests: it counts the statements it was asked to run, fails or
  reports zero rows at a chosen one, and refuses a chosen toggle. \<open>recording_cancelled\<close> is the flag that
  it sets after a statement.
\<close>

record recording =
  rc_read_only :: bool
  rc_fail_at :: "nat option"
  rc_zero_at :: "nat option"
  rc_fail_toggle :: "(utext \<times> bool) option"
  rc_fail_discard :: bool

definition execute_count :: "'j exec_log \<Rightarrow> nat" where
  "execute_count log = length (List.filter (\<lambda>(c, r). case c of CallExecute s ps \<Rightarrow> True | _ \<Rightarrow> False) log)"

fun recording_reply :: "recording \<Rightarrow> 'j exec_log \<Rightarrow> 'j exec_call \<Rightarrow> sync_error + nat" where
  "recording_reply c log (CallExecute s ps) =
     (if rc_fail_at c = Some (execute_count log) then Inl (invalid ''injected failure'')
      else if rc_zero_at c = Some (execute_count log) then Inr 0 else Inr 1)"
| "recording_reply c log (CallIdentity t enabled) =
     (if rc_fail_toggle c = Some (it_table t, enabled) then Inl (invalid ''injected identity toggle failure'')
      else Inr 0)"
| "recording_reply c log CallDiscard =
     (if rc_fail_discard c then Inl (invalid ''injected discard failure'') else Inr 0)"
| "recording_reply c log _ = Inr 0"

definition recording_executor :: "recording \<Rightarrow> 'j executor" where
  "recording_executor c = \<lparr>ex_read_only = rc_read_only c, ex_reply = recording_reply c\<rparr>"

definition recording_cancelled :: "'j exec_log \<Rightarrow> bool" where
  "recording_cancelled log =
     list_ex (\<lambda>(c, r). case c of CallExecute s ps \<Rightarrow> \<not> isl r | _ \<Rightarrow> False) log"

end
