(* ===== verification/Sync_Outcomes.thy ===== *)
theory Sync_Outcomes
  imports Sync_Execute
begin

text \<open>
  What the log of an execution says about its outcome. \<open>log_grows\<close> describes the calls an operation
  adds; a toggle counts as on from the first attempt to switch it on until it was switched off or the
  connection was discarded.
\<close>

section \<open>Logs\<close>

definition calls :: "'j exec_log \<Rightarrow> 'j exec_call list" where
  "calls log = map fst log"

definition executed :: "'j exec_log \<Rightarrow> ((utext \<times> 'j cell list) \<times> (sync_error + nat)) list" where
  "executed log = List.map_filter (\<lambda>(c, r). case c of CallExecute s ps \<Rightarrow> Some ((s, ps), r) | _ \<Rightarrow> None) log"

fun toggle_step :: "'j exec_call \<times> (sync_error + nat) \<Rightarrow> identity_target set \<Rightarrow> identity_target set" where
  "toggle_step (CallIdentity t True, _) on = insert t on"
| "toggle_step (CallIdentity t False, Inr _) on = on - {t}"
| "toggle_step (CallDiscard, Inr _) on = {}"
| "toggle_step _ on = on"

definition toggles_on :: "'j exec_log \<Rightarrow> identity_target set" where
  "toggles_on log = fold toggle_step log {}"

definition rolled_back_log :: "'j exec_log \<Rightarrow> bool" where
  "rolled_back_log log \<longleftrightarrow> list_ex (\<lambda>e. case e of (CallRollback, Inr _) \<Rightarrow> True | _ \<Rightarrow> False) log"

definition finish_failed :: "'j exec_log \<Rightarrow> bool" where
  "finish_failed log \<longleftrightarrow> list_ex (\<lambda>e. case e of (CallRollback, Inl _) \<Rightarrow> True | (CallDiscard, Inl _) \<Rightarrow> True | _ \<Rightarrow> False) log"

definition discard_failed :: "'j exec_log \<Rightarrow> bool" where
  "discard_failed log \<longleftrightarrow> list_ex (\<lambda>e. case e of (CallDiscard, Inl _) \<Rightarrow> True | _ \<Rightarrow> False) log"

lemma calls_simps [simp]: "calls [] = []" "calls (a @ b) = calls a @ calls b" "calls [(c, r)] = [c]"
  by (simp_all add: calls_def)

lemma executed_simps [simp]:
  "executed [] = []" "executed (a @ b) = executed a @ executed b"
  "executed [(CallExecute s ps, r)] = [((s, ps), r)]" "executed [(CallIdentity t v, r)] = []"
  "executed [(CallDiscard, r)] = []" "executed [(CallCommit, r)] = []" "executed [(CallRollback, r)] = []"
  "executed [(CallBegin, r)] = []"
  by (simp_all add: executed_def map_filter_simps List.map_filter_def)

lemma toggles_on_snoc [simp]: "toggles_on (log @ [e]) = toggle_step e (toggles_on log)"
  by (simp add: toggles_on_def)

lemma toggles_on_Nil [simp]: "toggles_on [] = {}"
  by (simp add: toggles_on_def)

lemma log_tests [simp]:
  "rolled_back_log [] = False" "rolled_back_log (a @ b) = (rolled_back_log a \<or> rolled_back_log b)"
  "finish_failed [] = False" "finish_failed (a @ b) = (finish_failed a \<or> finish_failed b)"
  "discard_failed [] = False" "discard_failed (a @ b) = (discard_failed a \<or> discard_failed b)"
  by (simp_all add: rolled_back_log_def finish_failed_def discard_failed_def)

lemma log_tests_single [simp]:
  "rolled_back_log [(CallExecute s ps, r)] = False" "rolled_back_log [(CallIdentity t v, r)] = False"
  "rolled_back_log [(CallDiscard, r)] = False" "rolled_back_log [(CallCommit, r)] = False"
  "rolled_back_log [(CallBegin, r)] = False" "rolled_back_log [(CallRollback, Inr n)] = True"
  "rolled_back_log [(CallRollback, Inl e)] = False"
  "finish_failed [(CallRollback, Inl e)] = True" "finish_failed [(CallDiscard, Inl e)] = True"
  "discard_failed [(CallDiscard, Inl e)] = True"
  by (simp_all add: rolled_back_log_def finish_failed_def discard_failed_def)

section \<open>The toggle\<close>

text \<open>The active toggle is the one that may be on.\<close>

definition identity_inv :: "identity_state \<Rightarrow> 'j exec_log \<Rightarrow> bool" where
  "identity_inv st log \<longleftrightarrow> toggles_on log \<subseteq> set_option (id_active st)"

text \<open>\<open>toggles_only log log'\<close>: the log grew by toggle calls only.\<close>

definition toggles_only :: "'j exec_log \<Rightarrow> 'j exec_log \<Rightarrow> bool" where
  "toggles_only log log' \<longleftrightarrow> (\<exists>xs. log' = log @ xs \<and> list_all (\<lambda>c. \<exists>t b. c = CallIdentity t b) (calls xs))"

lemma toggles_only_refl [simp]: "toggles_only log log"
  by (auto simp: toggles_only_def)

lemma toggles_only_step: "toggles_only log log' \<Longrightarrow> toggles_only log (log' @ [(CallIdentity t b, r)])"
  by (auto simp: toggles_only_def)

lemma toggles_only_trans: "toggles_only a b \<Longrightarrow> toggles_only b c \<Longrightarrow> toggles_only a c"
  by (auto simp: toggles_only_def)

lemma toggles_only_calls:
  assumes "toggles_only log log'"
  shows "executed log' = executed log" "CallCommit \<in> set (calls log') \<longleftrightarrow> CallCommit \<in> set (calls log)"
    "CallRollback \<in> set (calls log') \<longleftrightarrow> CallRollback \<in> set (calls log)"
proof -
  from assms obtain xs where xs: "log' = log @ xs" "list_all (\<lambda>c. \<exists>t b. c = CallIdentity t b) (calls xs)"
    by (auto simp: toggles_only_def)
  from xs(2) have "executed xs = [] \<and> CallCommit \<notin> set (calls xs) \<and> CallRollback \<notin> set (calls xs)"
    by (induction xs) (auto simp: executed_def calls_def map_filter_simps)
  with xs(1) show "executed log' = executed log" "CallCommit \<in> set (calls log') \<longleftrightarrow> CallCommit \<in> set (calls log)"
    "CallRollback \<in> set (calls log') \<longleftrightarrow> CallRollback \<in> set (calls log)" by simp_all
qed

lemma identity_off_props:
  assumes "identity_off X st log = (err, st', log')" "identity_inv st log"
  shows "toggles_only log log' \<and> identity_inv st' log' \<and>
    (case err of None \<Rightarrow> id_active st' = None \<and> id_cleanup st' = id_cleanup st | Some e \<Rightarrow> id_cleanup st' \<noteq> None)"
  using assms
  by (cases "id_active st"; cases "call_executor X (CallIdentity (the (id_active st)) False) log"; cases "fst (call_executor X (CallIdentity (the (id_active st)) False) log)")
    (auto simp: identity_off_def call_executor_def Let_def identity_inv_def intro: toggles_only_step)

lemma set_for_statement_props:
  assumes "set_for_statement X tgt st log = (err, st', log')" "identity_inv st log"
  shows "toggles_only log log' \<and> identity_inv st' log' \<and> (err = None \<longrightarrow> id_active st' = tgt \<and> id_cleanup st' = id_cleanup st)"
proof (cases "id_active st = tgt")
  case True
  with assms show ?thesis by (simp add: set_for_statement_def)
next
  case False
  obtain err1 st1 log1 where off: "identity_off X st log = (err1, st1, log1)" by (cases "identity_off X st log")
  note p = identity_off_props [OF off assms(2)]
  show ?thesis
  proof (cases err1)
    case (Some e)
    with False off assms(1) p show ?thesis by (auto simp: set_for_statement_def)
  next
    case None
    then have p': "toggles_only log log1" "toggles_on log1 = {}" "id_active st1 = None" "id_cleanup st1 = id_cleanup st"
      using p by (auto simp: identity_inv_def)
    show ?thesis
    proof (cases tgt)
      case None
      with False off assms(1) p' \<open>err1 = None\<close> show ?thesis
        by (cases "id_active st") (auto simp: set_for_statement_def identity_inv_def)
    next
      case (Some t)
      with False off assms(1) p' \<open>err1 = None\<close> show ?thesis
        by (cases "ex_reply X log1 (CallIdentity t True)")
          (auto simp: set_for_statement_def call_executor_def Let_def identity_inv_def intro: toggles_only_step)
    qed
  qed
qed

section \<open>Rolling back\<close>

text \<open>What an execution that stops early has done and reports.\<close>

definition stopped_report :: "sync_error + 'a \<Rightarrow> 'j exec_log \<Rightarrow> bool" where
  "stopped_report r log \<longleftrightarrow> CallCommit \<notin> set (calls log) \<and>
     (case r of
        Inr _ \<Rightarrow> rolled_back_log log \<and> toggles_on log = {}
      | Inl e \<Rightarrow> (\<exists>t. e = DsOutcomeUnknown t) \<and> finish_failed log \<and> (toggles_on log = {} \<or> discard_failed log))"

lemma identity_rollback_report:
  assumes "identity_rollback X reason st0 log0 = (r, log)" "identity_inv st0 log0" "CallCommit \<notin> set (calls log0)"
  shows "stopped_report r log \<and> executed log = executed log0"
proof -
  obtain st log1 where st: "(if id_cleanup st0 = None then snd (identity_off X st0 log0) else (st0, log0)) = (st, log1)"
    by fastforce
  have one: "executed log1 = executed log0 \<and> CallCommit \<notin> set (calls log1) \<and>
      (toggles_on log1 = {} \<or> id_cleanup st \<noteq> None)"
  proof (cases "id_cleanup st0")
    case None
    then obtain err where off: "identity_off X st0 log0 = (err, st, log1)"
      using st by (cases "identity_off X st0 log0") auto
    note p = identity_off_props [OF off assms(2)]
    then have "toggles_on log1 = {} \<or> id_cleanup st \<noteq> None" by (cases err) (auto simp: identity_inv_def)
    with p toggles_only_calls assms(3) show ?thesis by blast
  next
    case (Some c)
    with st assms(3) show ?thesis by auto
  qed
  define rb where "rb = ex_reply X log1 CallRollback"
  let ?log2 = "log1 @ [(CallRollback, rb)]"
  have two: "toggles_on ?log2 = toggles_on log1" by (cases rb) simp_all
  have roll: "rolled_back_log ?log2 \<longleftrightarrow> rolled_back_log log1 \<or> \<not> isl rb" "isl rb \<Longrightarrow> finish_failed ?log2"
    by (cases rb; simp)+
  note run = assms(1) [unfolded identity_rollback_def st discard_if_needed_def call_executor_def Let_def prod.case,
    folded rb_def]
  show ?thesis
  proof (cases "id_cleanup st")
    case None
    show ?thesis
    proof (cases rb)
      case (Inl e)
      with run None have "isl r" "\<exists>t. r = Inl (DsOutcomeUnknown t)" "log = ?log2" by (auto simp del: lit_simps)
      with one two roll None Inl show ?thesis by (auto simp: stopped_report_def)
    next
      case (Inr n)
      with run None have "\<exists>t. r = Inr t" "log = ?log2" by (auto simp del: lit_simps)
      with one two roll None Inr show ?thesis by (auto simp: stopped_report_def)
    qed
  next
    case (Some c)
    define d where "d = ex_reply X ?log2 CallDiscard"
    note run2 = run [folded d_def]
    have log: "log = ?log2 @ [(CallDiscard, d)]"
      using run2 Some by (cases rb; cases d) (auto simp del: lit_simps)
    then have log': "log = (log1 @ [(CallRollback, rb)]) @ [(CallDiscard, d)]" by simp
    have three: "executed log = executed log0" "CallCommit \<notin> set (calls log)"
      "isl rb \<or> isl d \<Longrightarrow> finish_failed log" "isl d \<Longrightarrow> discard_failed log"
      "\<not> isl d \<Longrightarrow> toggles_on log = {}" "\<not> isl rb \<Longrightarrow> rolled_back_log log"
      unfolding log' using one roll by (cases d; simp del: append_assoc)+
    have "if isl rb \<or> isl d then \<exists>t. r = Inl (DsOutcomeUnknown t) else \<exists>t. r = Inr t"
      using run2 Some by (cases rb; cases d) (auto simp del: lit_simps)
    with three show ?thesis by (cases "isl d"; cases "isl rb") (auto simp: stopped_report_def)
  qed
qed

lemma stop_rolled_back_report:
  assumes "stop_rolled_back X reason cs p log0 = (out, log)" "identity_inv (ep_identity p) log0"
    "CallCommit \<notin> set (calls log0)"
  shows "\<exists>r. out = Stopped r \<and> stopped_report r log \<and> executed log = executed log0 \<and>
    (case r of Inr res \<Rightarrow> xr_rolled_back res | Inl _ \<Rightarrow> True)"
proof -
  obtain r log' where r: "identity_rollback X reason (ep_identity p) log0 = (r, log')"
    by (cases "identity_rollback X reason (ep_identity p) log0")
  from identity_rollback_report [OF this assms(2,3)] r assms(1) show ?thesis
    by (cases r) (auto simp: stop_rolled_back_def stopped_report_def)
qed

section \<open>Running statements\<close>

definition statement_call :: "'j sql_statement \<Rightarrow> utext \<times> 'j cell list" where
  "statement_call s = (sm_sql s, sm_parameters s)"

definition reply_rows :: "(utext \<times> 'j cell list) \<times> (sync_error + nat) \<Rightarrow> nat" where
  "reply_rows e = (case snd e of Inr n \<Rightarrow> n | Inl _ \<Rightarrow> 0)"

text \<open>After the statements \<open>ss\<close> the transaction is open and the counts agree with the log.\<close>

definition progress_inv :: "conflict_policy \<Rightarrow> 'j sql_statement list \<Rightarrow> 'j exec_progress \<Rightarrow> 'j exec_log \<Rightarrow> bool" where
  "progress_inv policy ss p log \<longleftrightarrow>
     map fst (executed log) = map statement_call ss \<and> list_all (\<lambda>e. isl (snd e) = False) (executed log) \<and>
     ep_applied p + ep_skipped p = length ss \<and> ep_affected p = sum_list (map reply_rows (executed log)) \<and>
     ep_skipped p = length (ep_conflicts p) \<and> (policy \<noteq> SkipConflict \<longrightarrow> ep_skipped p = 0) \<and>
     CallCommit \<notin> set (calls log) \<and> CallRollback \<notin> set (calls log) \<and> identity_inv (ep_identity p) log"

text \<open>The calls of a stopped run are a prefix of the statements.\<close>

definition stopped_run :: "'j sql_statement list \<Rightarrow> sync_error + 'j exec_result \<Rightarrow> 'j exec_log \<Rightarrow> bool" where
  "stopped_run ss r log \<longleftrightarrow> stopped_report r log \<and> (case r of Inr res \<Rightarrow> xr_rolled_back res | Inl _ \<Rightarrow> True) \<and>
     (\<exists>n. map fst (executed log) = take n (map statement_call ss))"

definition run_ok ::
    "conflict_policy \<Rightarrow> 'j sql_statement list \<Rightarrow> 'j sql_statement list \<Rightarrow> 'j run_outcome \<times> 'j exec_log \<Rightarrow> bool" where
  "run_ok policy all ss out =
     (case out of
        (Continue p, log) \<Rightarrow> progress_inv policy ss p log
      | (Stopped r, log) \<Rightarrow> stopped_run all r log)"

lemma stop_run:
  assumes "identity_inv (ep_identity p) log0" "CallCommit \<notin> set (calls log0)"
    "map fst (executed log0) = take n (map statement_call all)"
  shows "run_ok policy all ss (stop_rolled_back X reason cs p log0)"
proof -
  obtain out log where out: "stop_rolled_back X reason cs p log0 = (out, log)"
    by (cases "stop_rolled_back X reason cs p log0")
  from stop_rolled_back_report [OF this assms(1,2)] assms(3) show ?thesis
    by (auto simp: out run_ok_def stopped_run_def)
qed

lemma stop_never_continues [simp]: "stop_rolled_back X reason cs p log0 \<noteq> (Continue p', log)"
  by (cases "identity_rollback X reason (ep_identity p) log0"; cases "fst (identity_rollback X reason (ep_identity p) log0)")
    (auto simp: stop_rolled_back_def)

lemma executed_toggles_only: "toggles_only log log' \<Longrightarrow> executed log' = executed log"
  by (rule toggles_only_calls)

lemma run_statement_ok:
  assumes inv: "progress_inv policy ss p log" and all: "all = ss @ s # rest"
  shows "run_ok policy all (ss @ [s]) (run_statement X cancelled policy s p log)"
proof -
  have pre: "map fst (executed log) = take (length ss) (map statement_call all)"
    "CallCommit \<notin> set (calls log)" "identity_inv (ep_identity p) log"
    using inv by (simp_all add: progress_inv_def all)
  show ?thesis
  proof (cases "cancelled log")
    case True
    then show ?thesis using stop_run [OF pre(3,2,1)] by (simp add: run_statement_def)
  next
    case False
    obtain err st log1 where set: "set_for_statement X (sm_identity s) (ep_identity p) log = (err, st, log1)"
      by (cases "set_for_statement X (sm_identity s) (ep_identity p) log")
    note q = set_for_statement_props [OF set pre(3)]
    have one: "executed log1 = executed log" "CallCommit \<notin> set (calls log1)" "CallRollback \<notin> set (calls log1)"
      using q toggles_only_calls [of log log1] inv by (simp_all add: progress_inv_def)
    show ?thesis
    proof (cases err)
      case (Some e)
      then show ?thesis
        using False set q one stop_run [of "p\<lparr>ep_identity := st\<rparr>" log1 "length ss" all] pre(1)
        by (simp add: run_statement_def)
    next
      case None
      obtain rep where rep: "ex_reply X log1 (CallExecute (sm_sql s) (sm_parameters s)) = rep" by blast
      let ?log2 = "log1 @ [(CallExecute (sm_sql s) (sm_parameters s), rep)]"
      have two: "map fst (executed ?log2) = take (Suc (length ss)) (map statement_call all)"
        "CallCommit \<notin> set (calls ?log2)" "CallRollback \<notin> set (calls ?log2)" "identity_inv st ?log2"
        using one pre(1) q by (simp_all add: all statement_call_def take_Suc_conv_app_nth identity_inv_def)
      note stop = stop_run [of "p\<lparr>ep_identity := st\<rparr>" ?log2 "Suc (length ss)" all]
      note unfolded = run_statement_def False set None call_executor_def Let_def rep
      show ?thesis
      proof (cases rep)
        case (Inl e)
        then show ?thesis using stop two by (simp add: unfolded)
      next
        case (Inr n)
        show ?thesis
        proof (cases "lost_row s n \<and> policy \<noteq> SkipConflict")
          case True
          then show ?thesis using stop two Inr by (simp add: unfolded)
        next
          case ok: False
          have "lost_row s n \<Longrightarrow> n = 0" by (simp add: lost_row_def)
          then show ?thesis
            using ok two one inv Inr q
            by (auto simp: unfolded run_ok_def progress_inv_def statement_call_def reply_rows_def all)
        qed
      qed
    qed
  qed
qed

lemma run_ok_cases:
  assumes "run_ok policy all ss out"
  obtains p log where "out = (Continue p, log)" "progress_inv policy ss p log"
  | r log where "out = (Stopped r, log)" "stopped_run all r log"
  using assms by (cases out; cases "fst out") (auto simp: run_ok_def)

lemma run_statements_ok:
  "progress_inv policy ss p log \<Longrightarrow> all = ss @ ts @ rest \<Longrightarrow>
   run_ok policy all (ss @ ts) (run_statements X cancelled policy ts p log)"
proof (induction ts arbitrary: ss p log)
  case Nil
  then show ?case by (simp add: run_ok_def)
next
  case (Cons t ts)
  have "run_ok policy all (ss @ [t]) (run_statement X cancelled policy t p log)"
    using run_statement_ok [OF Cons.prems(1)] Cons.prems(2) by simp
  then show ?case
  proof (cases rule: run_ok_cases)
    case (1 p' log')
    then show ?thesis using Cons.IH [of "ss @ [t]" p' log'] Cons.prems(2) by simp
  next
    case (2 r log')
    then show ?thesis by (simp add: run_ok_def)
  qed
qed

text \<open>The statements a source delivers before it ends or fails.\<close>

fun source_statements :: "'j batch_source \<Rightarrow> 'j sql_statement list" where
  "source_statements (Inr (Some ss) # bs) = ss @ source_statements bs"
| "source_statements _ = []"

lemma run_batches_ok:
  "progress_inv policy ss p log \<Longrightarrow>
   run_ok policy (ss @ source_statements bs) (ss @ source_statements bs) (run_batches X cancelled policy bs p log)"
proof (induction bs arbitrary: ss p log)
  case Nil
  then show ?case by (simp add: run_ok_def)
next
  case (Cons b bs)
  show ?case
  proof (cases b)
    case (Inl e)
    have "map fst (executed log) = take (length ss) (map statement_call ss)" "CallCommit \<notin> set (calls log)"
      "identity_inv (ep_identity p) log" using Cons.prems by (simp_all add: progress_inv_def)
    then show ?thesis using Inl stop_run by fastforce
  next
    case (Inr x)
    show ?thesis
    proof (cases x)
      case None
      with Inr Cons.prems show ?thesis by (simp add: run_ok_def)
    next
      case (Some ts)
      show ?thesis
      proof (cases "ts = []")
        case True
        with Inr Some Cons show ?thesis by simp
      next
        case False
        have "run_ok policy (ss @ ts @ source_statements bs) (ss @ ts) (run_statements X cancelled policy ts p log)"
          using run_statements_ok [OF Cons.prems] by blast
        then show ?thesis
        proof (cases rule: run_ok_cases)
          case (1 p' log')
          then show ?thesis using Cons.IH [of "ss @ ts" p' log'] Inr Some False by simp
        next
          case (2 r log')
          then show ?thesis using Inr Some False by (simp add: run_ok_def)
        qed
      qed
    qed
  qed
qed

section \<open>Finishing\<close>

lemma disable_identity_ok:
  assumes "progress_inv policy ss p log"
  shows "run_ok policy ss ss (disable_identity X p log) \<and>
    (case disable_identity X p log of (Continue _, log') \<Rightarrow> toggles_on log' = {} | _ \<Rightarrow> True)"
proof -
  obtain err st log1 where set: "set_for_statement X None (ep_identity p) log = (err, st, log1)"
    by (cases "set_for_statement X None (ep_identity p) log")
  have "identity_inv (ep_identity p) log" using assms by (simp add: progress_inv_def)
  note q = set_for_statement_props [OF set this]
  have one: "executed log1 = executed log" "CallCommit \<notin> set (calls log1)" "CallRollback \<notin> set (calls log1)"
    using q toggles_only_calls [of log log1] assms by (simp_all add: progress_inv_def)
  show ?thesis
  proof (cases err)
    case None
    with set q one assms show ?thesis
      by (auto simp: disable_identity_def run_ok_def progress_inv_def identity_inv_def)
  next
    case (Some e)
    have "run_ok policy ss ss (stop_rolled_back X (lit ''cannot disable identity insert before commit: '' @ error_text e) []
        (p\<lparr>ep_identity := st\<rparr>) log1)"
      using q one assms by (intro stop_run [where n = "length ss"]) (simp_all add: progress_inv_def)
    then show ?thesis
      using set Some
      by (auto simp: disable_identity_def simp del: lit_simps split: prod.splits run_outcome.splits)
  qed
qed

lemma check_cancelled_ok:
  assumes "progress_inv policy ss p log"
  shows "run_ok policy ss ss (check_cancelled X cancelled p log)"
    "check_cancelled X cancelled p log = (Continue p', log') \<Longrightarrow> p' = p \<and> log' = log"
proof -
  show "run_ok policy ss ss (check_cancelled X cancelled p log)"
    using assms stop_run [of p log "length ss" ss]
    by (auto simp: check_cancelled_def run_ok_def progress_inv_def)
  show "check_cancelled X cancelled p log = (Continue p', log') \<Longrightarrow> p' = p \<and> log' = log"
    by (auto simp: check_cancelled_def simp del: lit_simps split: if_splits)
qed

section \<open>Whole executions\<close>

text \<open>What the result of an execution of the statements \<open>ss\<close> says, and that the log agrees.\<close>

definition committed_report :: "conflict_policy \<Rightarrow> 'j sql_statement list \<Rightarrow> 'j exec_result \<Rightarrow> 'j exec_log \<Rightarrow> bool" where
  "committed_report policy ss res log \<longleftrightarrow>
     map fst (executed log) = map statement_call ss \<and> list_all (\<lambda>e. isl (snd e) = False) (executed log) \<and>
     xr_applied res + xr_skipped res = length ss \<and> xr_affected res = sum_list (map reply_rows (executed log)) \<and>
     xr_skipped res = length (xr_conflicts res) \<and> (policy \<noteq> SkipConflict \<longrightarrow> xr_skipped res = 0)"

definition commit_last :: "(sync_error + nat \<Rightarrow> bool) \<Rightarrow> 'j exec_log \<Rightarrow> bool" where
  "commit_last ok log \<longleftrightarrow>
     (\<exists>log0 r. log = log0 @ [(CallCommit, r)] \<and> ok r \<and> CallCommit \<notin> set (calls log0) \<and> CallRollback \<notin> set (calls log0))"

fun honest_report ::
    "conflict_policy \<Rightarrow> 'j sql_statement list \<Rightarrow> sync_error + 'j exec_result \<Rightarrow> 'j exec_log \<Rightarrow> bool" where
  "honest_report policy ss (Inr res) log =
     (if xr_rolled_back res
      then CallCommit \<notin> set (calls log) \<and> rolled_back_log log \<and>
        (\<exists>n. map fst (executed log) = take n (map statement_call ss))
      else commit_last (\<lambda>r. \<not> isl r) log \<and> committed_report policy ss res log)"
| "honest_report policy ss (Inl (DsValidation e)) log = (log = [])"
| "honest_report policy ss (Inl (DsNotStarted e)) log = (executed log = [] \<and> CallCommit \<notin> set (calls log))"
| "honest_report policy ss (Inl (DsOutcomeUnknown e)) log =
     (commit_last isl log \<or> CallCommit \<notin> set (calls log) \<and> finish_failed log)"
| "honest_report policy ss (Inl e) log = False"

definition clean_toggles :: "sync_error + 'a \<Rightarrow> 'j exec_log \<Rightarrow> bool" where
  "clean_toggles r log \<longleftrightarrow> toggles_on log = {} \<or> discard_failed log \<and> (\<exists>t. r = Inl (DsOutcomeUnknown t))"

definition good_end ::
    "conflict_policy \<Rightarrow> 'j sql_statement list \<Rightarrow> 'j run_outcome \<times> 'j exec_log \<Rightarrow> bool" where
  "good_end policy ss out \<longleftrightarrow>
     (\<exists>r log. out = (Stopped r, log) \<and> honest_report policy ss r log \<and> clean_toggles r log)"

lemma stopped_run_good:
  assumes "stopped_run ss r log"
  shows "good_end policy ss (Stopped r, log)"
  using assms by (cases r) (auto simp: stopped_run_def stopped_report_def good_end_def clean_toggles_def)

lemma run_ok_and_then:
  assumes "run_ok policy all ss out" "\<And>p log. out = (Continue p, log) \<Longrightarrow> progress_inv policy ss p log \<Longrightarrow> good_end policy all (f p log)"
  shows "good_end policy all (and_then out f)"
  using assms(1)
proof (cases rule: run_ok_cases)
  case (1 p log)
  then show ?thesis using assms(2) by (simp add: and_then_def)
next
  case (2 r log)
  then show ?thesis using stopped_run_good by (simp add: and_then_def)
qed

lemma commit_good:
  assumes "progress_inv policy ss p log" "toggles_on log = {}"
  shows "good_end policy ss (commit_transaction X p log)"
  using assms
  by (cases "ex_reply X log CallCommit")
    (auto simp: commit_transaction_def call_executor_def Let_def good_end_def clean_toggles_def commit_last_def
      committed_report_def progress_inv_def simp del: lit_simps)

lemma begin_inv:
  assumes "begin_transaction X [] = (None, log)"
  shows "progress_inv policy [] fresh_progress log"
  using assms
  by (cases "ex_reply X [] CallBegin")
    (auto simp: begin_transaction_def call_executor_def Let_def progress_inv_def identity_inv_def
      fresh_progress_def fresh_identity_def toggles_on_def)

lemma begin_refused:
  assumes "begin_transaction X [] = (Some e, log)"
  shows "good_end policy ss (Stopped (Inl e), log)"
  using assms
  by (cases "ex_reply X [] CallBegin")
    (auto simp: begin_transaction_def call_executor_def Let_def good_end_def clean_toggles_def toggles_on_def simp del: lit_simps)

lemma preflight_good:
  assumes "preflight X c ss [] = Some e"
  shows "good_end policy all (Stopped (Inl e), [])"
  using assms by (auto simp: preflight_def good_end_def clean_toggles_def invalid_def split: if_splits simp del: lit_simps)

lemma disable_good:
  assumes "progress_inv policy ss p log"
    "\<And>p' log'. progress_inv policy ss p' log' \<Longrightarrow> toggles_on log' = {} \<Longrightarrow> good_end policy ss (f p' log')"
  shows "good_end policy ss (and_then (disable_identity X p log) f)"
proof (rule run_ok_and_then)
  show "run_ok policy ss ss (disable_identity X p log)" using disable_identity_ok [OF assms(1)] by blast
  fix p' log' assume "disable_identity X p log = (Continue p', log')" "progress_inv policy ss p' log'"
  with disable_identity_ok [OF assms(1), of X] assms(2) show "good_end policy ss (f p' log')" by auto
qed

lemma run_transaction_good:
  assumes "progress_inv policy [] fresh_progress log"
  shows "good_end policy ss (run_transaction X c policy ss log)"
  unfolding run_transaction_def
proof (rule run_ok_and_then [where ss = ss])
  show "run_ok policy ss ss (run_statements X c policy ss fresh_progress log)"
    using run_statements_ok [OF assms, of ss ss "[]"] by simp
next
  fix p log assume inv: "progress_inv policy ss p log"
  show "good_end policy ss (and_then (check_cancelled X c p log)
      (\<lambda>p log. and_then (disable_identity X p log) (commit_transaction X)))"
    by (rule run_ok_and_then [OF check_cancelled_ok(1) [OF inv]]) (rule disable_good, assumption, rule commit_good)
qed

lemma run_batch_transaction_good:
  assumes "progress_inv policy [] fresh_progress log"
  shows "good_end policy (batch @ source_statements source) (run_batch_transaction X c policy batch source log)"
  unfolding run_batch_transaction_def
proof (rule run_ok_and_then [where ss = batch])
  show "run_ok policy (batch @ source_statements source) batch (run_statements X c policy batch fresh_progress log)"
    using run_statements_ok [OF assms, of "batch @ source_statements source" batch "source_statements source"] by simp
next
  fix p log assume inv: "progress_inv policy batch p log"
  let ?all = "batch @ source_statements source"
  show "good_end policy ?all (and_then (run_batches X c policy source p log) (\<lambda>p log.
      and_then (disable_identity X p log) (\<lambda>p log. and_then (check_cancelled X c p log) (commit_transaction X))))"
  proof (rule run_ok_and_then [OF run_batches_ok [OF inv]], rule disable_good, assumption)
    fix p log assume inv: "progress_inv policy ?all p log" and off: "toggles_on log = {}"
    show "good_end policy ?all (and_then (check_cancelled X c p log) (commit_transaction X))"
      by (rule run_ok_and_then [OF check_cancelled_ok(1) [OF inv]])
        (use check_cancelled_ok(2) [OF inv] off commit_good inv in blast)
  qed
qed

section \<open>Batches and lists\<close>

text \<open>The error a source answers before it ends.\<close>

fun source_error :: "'j batch_source \<Rightarrow> sync_error option" where
  "source_error [] = None"
| "source_error (Inl e # bs) = Some e"
| "source_error (Inr None # bs) = None"
| "source_error (Inr (Some ss) # bs) = source_error bs"

lemma and_then_assoc: "and_then (and_then r f) g = and_then r (\<lambda>p log. and_then (f p log) g)"
  by (cases r; cases "fst r") (auto simp: and_then_def)

lemma and_then_simps [simp]:
  "and_then (Continue p, log) f = f p log" "and_then (Stopped r, log) f = (Stopped r, log)"
  by (simp_all add: and_then_def)

lemma run_statements_Cons:
  "run_statements X c policy (s # ss) p log = and_then (run_statement X c policy s p log) (run_statements X c policy ss)"
  by (auto simp: and_then_def split: prod.splits run_outcome.splits)

lemma run_statements_append:
  "run_statements X c policy (xs @ ys) p log =
     and_then (run_statements X c policy xs p log) (run_statements X c policy ys)"
  unfolding and_then_def
  by (induction xs arbitrary: p log) (simp_all split: prod.splits run_outcome.splits)

lemma run_batches_statements:
  "source_error bs = None \<Longrightarrow> run_batches X c policy bs p log = run_statements X c policy (source_statements bs) p log"
proof (induction bs arbitrary: p log rule: source_error.induct)
  case (4 ss bs)
  then have "run_batches X c policy bs p log = run_statements X c policy (source_statements bs) p log" for p log
    by simp
  then show ?case by (auto simp: run_statements_append and_then_def split: prod.splits run_outcome.splits)
qed simp_all

lemma run_batches_error:
  "source_error bs = Some e \<Longrightarrow> run_batches X c policy bs p log \<noteq> (Continue p', log')"
  by (induction bs arbitrary: p log rule: source_error.induct)
    (auto split: prod.splits run_outcome.splits simp del: lit_simps)

end
