(* ===== verification/Sync_Sessions.thy ===== *)
theory Sync_Sessions
  imports Sync_Model
begin

text \<open>
  The session of a data synchronization as a state machine: a history is a sequence of calls on a new
  session, refused calls included, because a refused call may still change the session. What a session
  may execute was generated from a reported comparison and passed the check of \<open>start_revalidate\<close>.
\<close>

section \<open>Operations and runs\<close>

datatype 'j session_command =
    Configure | StartCompare | FinishCompare "'j comparison_result" | FailCompare | BeginReview
  | GenerateChangeSet | StartRevalidate | StartExecute | CompleteRun | FailValidation | FailExecution
  | RollbackRun | CancelRun | ResetToDraft

fun session_operation :: "'j session_command \<Rightarrow> 'j session_op" where
  "session_operation Configure = configure"
| "session_operation StartCompare = start_compare"
| "session_operation (FinishCompare c) = finish_compare c"
| "session_operation FailCompare = fail_compare"
| "session_operation BeginReview = begin_review"
| "session_operation GenerateChangeSet = generate_change_set"
| "session_operation StartRevalidate = start_revalidate"
| "session_operation StartExecute = start_execute"
| "session_operation CompleteRun = complete_session"
| "session_operation FailValidation = fail_validation"
| "session_operation FailExecution = fail_execution"
| "session_operation RollbackRun = rollback_session"
| "session_operation CancelRun = cancel_session"
| "session_operation ResetToDraft = reset_to_draft"

definition session_after :: "'j session_command list \<Rightarrow> 'j sync_session \<Rightarrow> 'j sync_session" where
  "session_after cmds s = fold (\<lambda>c s. snd (session_operation c s)) cmds s"

lemma session_after_simps [simp]:
  "session_after [] s = s" "session_after (cmds @ [c]) s = snd (session_operation c (session_after cmds s))"
  by (simp_all add: session_after_def)

text \<open>The phases from which each phase is entered.\<close>

lemma entered_from:
  "can_transition_to p Draft \<longleftrightarrow> p = Configured \<or> p = SyncCancelled"
  "can_transition_to p Configured \<longleftrightarrow> p = Draft \<or> p = CompareFailed \<or> p = SyncCancelled"
  "can_transition_to p Comparing \<longleftrightarrow>
     p = Configured \<or> p = Compared \<or> p = Reviewing \<or> p = Completed \<or> p = CompareFailed \<or> p = SyncRolledBack"
  "can_transition_to p Compared \<longleftrightarrow> p = Comparing"
  "can_transition_to p CompareFailed \<longleftrightarrow> p = Comparing"
  "can_transition_to p Reviewing \<longleftrightarrow>
     p = Compared \<or> p = ReadyToExecute \<or> p = ValidationFailed \<or> p = SyncRolledBack"
  "can_transition_to p Revalidating \<longleftrightarrow> p = ReadyToExecute"
  "can_transition_to p Executing \<longleftrightarrow> p = Revalidating"
  "can_transition_to p Completed \<longleftrightarrow> p = Executing"
  "can_transition_to p ExecutionFailed \<longleftrightarrow> p = Executing"
  "can_transition_to p SyncRolledBack \<longleftrightarrow> p = Executing \<or> p = ExecutionFailed"
  "can_transition_to p ValidationFailed \<longleftrightarrow> p = GeneratingSql \<or> p = ReadyToExecute \<or> p = Revalidating"
  "can_transition_to p SyncCancelled \<longleftrightarrow> p \<noteq> Draft \<and> p \<noteq> SyncCancelled \<or> p = Draft"
  by (cases p; simp add: can_transition_to_def is_execute_related_def)+

section \<open>What one call changes\<close>

definition runs_changes :: "sync_phase \<Rightarrow> bool" where
  "runs_changes p \<longleftrightarrow> p \<in> {Revalidating, Executing, Completed, ExecutionFailed, SyncRolledBack}"

definition has_changes :: "'j sync_session \<Rightarrow> bool" where
  "has_changes s \<longleftrightarrow> (\<exists>cs. ss_change_set s = Some cs \<and> \<not> change_set_empty cs)"

lemma go_fields [simp]:
  "ss_task (snd (go q s)) = ss_task s" "ss_comparison (snd (go q s)) = ss_comparison s"
  "ss_change_set (snd (go q s)) = ss_change_set s"
  by (simp_all add: go_def split: sum.split)

lemma go_phase: "ss_phase (snd (go q s)) = (if can_transition_to (ss_phase s) q then q else ss_phase s)"
  by (simp add: go_def phase_transition_def)

lemma go_cases: "go q s = (None, s\<lparr>ss_phase := q\<rparr>) \<and> can_transition_to (ss_phase s) q \<or>
   (\<exists>e. go q s = (Some e, s)) \<and> \<not> can_transition_to (ss_phase s) q"
  by (simp add: go_def phase_transition_def)

lemma generate_result:
  "snd (generate_change_set s) =
     (if ss_phase s \<noteq> Reviewing then s
      else case ss_comparison s of
          None \<Rightarrow> s\<lparr>ss_phase := GeneratingSql\<rparr>
        | Some r \<Rightarrow> s\<lparr>ss_phase := ReadyToExecute,
            ss_change_set := Some (from_comparison (st_id (ss_task s)) r (st_options (ss_task s)))\<rparr>)"
proof -
  have "can_transition_to (ss_phase s) GeneratingSql \<longleftrightarrow> ss_phase s = Reviewing"
    by (cases "ss_phase s") (simp_all add: can_transition_to_def is_execute_related_def)
  moreover have "can_transition_to GeneratingSql ReadyToExecute" by (simp add: can_transition_to_def)
  ultimately show ?thesis
    by (auto simp: generate_change_set_def go_def phase_transition_def split: option.split)
qed

lemma call_task: "ss_task (snd (session_operation c s)) = ss_task s"
  by (cases c) (simp_all add: generate_result session_op_defs(1-5) session_op_defs(7-) split: option.split)

lemma call_comparison:
  "ss_comparison (snd (session_operation c s)) = Some r \<Longrightarrow> ss_comparison s = Some r \<or> c = FinishCompare r"
  by (cases c) (auto simp: generate_result session_op_defs(1-5) session_op_defs(7-) split: option.splits if_splits)

lemma call_change_set:
  "ss_change_set (snd (session_operation c s)) = Some cs \<Longrightarrow> ss_change_set s = Some cs \<or>
   ss_phase s = Reviewing \<and> (\<exists>r. ss_comparison s = Some r \<and> cs = from_comparison (st_id (ss_task s)) r (st_options (ss_task s)))"
  by (cases c) (auto simp: generate_result session_op_defs(1-5) session_op_defs(7-) split: option.splits if_splits)

lemma call_drops:
  "ss_change_set (snd (session_operation c s)) = None \<Longrightarrow> ss_change_set s = None \<or> c = StartCompare \<or> c = ResetToDraft"
  by (cases c) (auto simp: generate_result session_op_defs(1-5) session_op_defs(7-) split: option.splits if_splits)

lemma call_enters:
  assumes "runs_changes (ss_phase (snd (session_operation c s)))"
  shows "runs_changes (ss_phase s) \<or>
    c = StartRevalidate \<and> ss_phase s = ReadyToExecute \<and> has_changes s \<and> ss_change_set (snd (session_operation c s)) = ss_change_set s"
  using assms
  by (cases c)
    (auto simp: generate_result session_op_defs(1-5) session_op_defs(7-) go_phase entered_from runs_changes_def has_changes_def
      validate_executable_def split: option.splits if_splits)

lemma call_validates:
  assumes "ss_phase (snd (session_operation c s)) \<notin> {Draft, SyncCancelled}"
  shows "ss_phase s \<notin> {Draft, SyncCancelled} \<or> task_validate (ss_task s) = None"
  using assms
  by (cases c)
    (auto simp: generate_result session_op_defs(1-5) session_op_defs(7-) go_phase entered_from split: option.splits if_splits)

section \<open>Histories\<close>

definition reported :: "sync_task \<Rightarrow> 'j session_command list \<Rightarrow> 'j change_set \<Rightarrow> bool" where
  "reported t cmds cs \<longleftrightarrow> (\<exists>r. FinishCompare r \<in> set cmds \<and> cs = from_comparison (st_id t) r (st_options t))"

lemma reported_later: "reported t cmds cs \<Longrightarrow> reported t (cmds @ more_cmds) cs"
  by (auto simp: reported_def)

lemma history_fields:
  "ss_task (session_after cmds (session_new t)) = t \<and>
   (\<forall>r. ss_comparison (session_after cmds (session_new t)) = Some r \<longrightarrow> FinishCompare r \<in> set cmds) \<and>
   (\<forall>cs. ss_change_set (session_after cmds (session_new t)) = Some cs \<longrightarrow> reported t cmds cs) \<and>
   (ss_phase (session_after cmds (session_new t)) \<notin> {Draft, SyncCancelled} \<longrightarrow> task_validate t = None)"
proof (induction cmds rule: rev_induct)
  case Nil
  then show ?case by (simp add: session_new_def)
next
  case (snoc c cmds)
  let ?s = "session_after cmds (session_new t)"
  have "FinishCompare r \<in> set (cmds @ [c])" if "ss_comparison (snd (session_operation c ?s)) = Some r" for r
    using call_comparison [OF that] snoc by auto
  moreover have "reported t (cmds @ [c]) cs" if "ss_change_set (snd (session_operation c ?s)) = Some cs" for cs
    using call_change_set [OF that] snoc reported_later by (auto simp: reported_def)
  moreover have "task_validate t = None" if "ss_phase (snd (session_operation c ?s)) \<notin> {Draft, SyncCancelled}"
    using call_validates [OF that] snoc by auto
  ultimately show ?case using snoc call_task [of c ?s] by simp
qed

text \<open>
  \<open>revalidated\<close>: a change set that was ready, not empty and generated from a reported comparison was
  revalidated; the session still holds it, or a later call to compare or to reset dropped it.
\<close>

definition revalidated :: "sync_task \<Rightarrow> 'j session_command list \<Rightarrow> bool" where
  "revalidated t cmds \<longleftrightarrow> (\<exists>pre post cs. cmds = pre @ StartRevalidate # post \<and>
     reported t pre cs \<and> \<not> change_set_empty cs \<and>
     ss_phase (session_after pre (session_new t)) = ReadyToExecute \<and>
     ss_change_set (session_after pre (session_new t)) = Some cs \<and>
     (ss_change_set (session_after cmds (session_new t)) = Some cs \<or>
      ss_change_set (session_after cmds (session_new t)) = None \<and> (StartCompare \<in> set post \<or> ResetToDraft \<in> set post)))"

lemma history_runs:
  "runs_changes (ss_phase (session_after cmds (session_new t))) \<Longrightarrow> revalidated t cmds"
proof (induction cmds rule: rev_induct)
  case Nil
  then show ?case by (simp add: session_new_def runs_changes_def)
next
  case (snoc c cmds)
  let ?s = "session_after cmds (session_new t)"
  let ?s' = "snd (session_operation c ?s)"
  consider "runs_changes (ss_phase ?s)"
    | "c = StartRevalidate" "ss_phase ?s = ReadyToExecute" "has_changes ?s" "ss_change_set ?s' = ss_change_set ?s"
    using call_enters [of c ?s] snoc.prems by auto
  then show ?case
  proof cases
    case 1
    then obtain pre post cs where old: "cmds = pre @ StartRevalidate # post" "reported t pre cs" "\<not> change_set_empty cs"
      "ss_phase (session_after pre (session_new t)) = ReadyToExecute" "ss_change_set (session_after pre (session_new t)) = Some cs"
      "ss_change_set ?s = Some cs \<or> ss_change_set ?s = None \<and> (StartCompare \<in> set post \<or> ResetToDraft \<in> set post)"
      using snoc.IH unfolding revalidated_def by blast
    have "ss_phase ?s \<noteq> Reviewing" using 1 by (auto simp: runs_changes_def)
    then have "ss_change_set ?s' = ss_change_set ?s \<or> ss_change_set ?s' = None \<and> (c = StartCompare \<or> c = ResetToDraft)"
      using call_change_set [of c ?s] call_drops [of c ?s] by (cases "ss_change_set ?s'") auto
    then have "ss_change_set ?s' = Some cs \<or>
        ss_change_set ?s' = None \<and> (StartCompare \<in> set (post @ [c]) \<or> ResetToDraft \<in> set (post @ [c]))"
      using old(6) by auto
    moreover have "cmds @ [c] = pre @ StartRevalidate # (post @ [c])" using old(1) by simp
    ultimately show ?thesis
      using old(2-5) unfolding revalidated_def session_after_simps(2)
      by - (rule exI [of _ pre], rule exI [of _ "post @ [c]"], rule exI [of _ cs], blast)
  next
    case 2
    then obtain cs where cs: "ss_change_set ?s = Some cs" "\<not> change_set_empty cs" by (auto simp: has_changes_def)
    moreover have "reported t cmds cs" using history_fields [of cmds t] cs(1) by blast
    ultimately show ?thesis
      using 2 unfolding revalidated_def by (intro exI [of _ cmds] exI [of _ "[]"] exI [of _ cs]) simp
  qed
qed

end
