(* ===== verification/Sync_Run_Theorems.thy ===== *)
theory Sync_Run_Theorems
  imports Sync_Outcomes Sync_Sessions
begin

text \<open>
  Properties of a synchronization run: what an execution reports about the transaction, that no identity
  toggle stays on behind it, that batches are executed like one list, and what a session executes.
\<close>

section \<open>Executions\<close>

lemma list_execution_good:
  "good_end policy ss (execute_statements_with_policy X c policy ss)"
proof (cases "preflight X c ss []")
  case None
  obtain e log where b: "begin_transaction X [] = (e, log)" by (cases "begin_transaction X []")
  show ?thesis
  proof (cases e)
    case None
    with b run_transaction_good [OF begin_inv, where X = X and c = c] \<open>preflight X c ss [] = None\<close> show ?thesis
      by (simp add: execute_statements_with_policy_def)
  next
    case (Some err)
    with b begin_refused \<open>preflight X c ss [] = None\<close> show ?thesis
      by (simp add: execute_statements_with_policy_def)
  qed
qed (simp add: execute_statements_with_policy_def preflight_good)

lemma batch_execution_good:
  "good_end policy (batch @ source_statements source)
     (execute_statement_batches_with_policy X c policy batch source)"
proof (cases "preflight X c batch []")
  case None
  obtain e log where b: "begin_transaction X [] = (e, log)" by (cases "begin_transaction X []")
  show ?thesis
  proof (cases e)
    case None
    with b run_batch_transaction_good [OF begin_inv, where X = X and c = c] \<open>preflight X c batch [] = None\<close> show ?thesis
      by (simp add: execute_statement_batches_with_policy_def)
  next
    case (Some err)
    with b begin_refused \<open>preflight X c batch [] = None\<close> show ?thesis
      by (simp add: execute_statement_batches_with_policy_def)
  qed
qed (simp add: execute_statement_batches_with_policy_def preflight_good)

text \<open>
  C3. The report of an execution agrees with the calls the driver has seen, whatever the driver
  answers and whenever the run is cancelled. A committed result ends in an acknowledged commit, no
  rollback was sent, the statements were executed once each, in order and with success, and the counts
  of applied, skipped and affected rows are those of the replies. A rolled back result was never
  committed and its rollback was acknowledged. A validation error comes before the first call, a run
  that did not start executed nothing, and an unknown outcome is reported only when the answer to the
  commit, the rollback or the discard was an error.
\<close>

theorem execution_report_is_honest:
  "(\<exists>r log. execute_statements_with_policy X c policy ss = (Stopped r, log) \<and> honest_report policy ss r log) \<and>
   (\<exists>r log. execute_statement_batches_with_policy X c policy batch source = (Stopped r, log) \<and>
      honest_report policy (batch @ source_statements source) r log)"
  using list_execution_good [of policy ss X c] batch_execution_good [of policy batch source X c]
  unfolding good_end_def by blast

text \<open>
  C12. The session-wide identity toggle never outlives an execution: at its end every toggle that was
  switched on, even by a call whose answer was an error, was switched off with success or its
  connection was discarded. The only exception is a discard that failed, and then the outcome is
  reported as unknown.
\<close>

theorem identity_toggle_never_left_on:
  "(\<exists>r log. execute_statements_with_policy X c policy ss = (Stopped r, log) \<and> clean_toggles r log) \<and>
   (\<exists>r log. execute_statement_batches_with_policy X c policy batch source = (Stopped r, log) \<and> clean_toggles r log)"
  using list_execution_good [of policy ss X c] batch_execution_good [of policy batch source X c]
  unfolding good_end_def by blast

section \<open>Batches\<close>

abbreviation never_cancelled :: "'j exec_log \<Rightarrow> bool" where
  "never_cancelled \<equiv> (\<lambda>_. False)"

lemma run_batches_transaction:
  assumes "source_error source = None"
  shows "run_batch_transaction X never_cancelled policy batch source log =
    run_transaction X never_cancelled policy (batch @ source_statements source) log"
proof -
  have check: "check_cancelled X never_cancelled p log = (Continue p, log)" for p log
    by (simp add: check_cancelled_def)
  have batches: "run_batches X never_cancelled policy source = run_statements X never_cancelled policy (source_statements source)"
    using run_batches_statements [OF assms] by (intro ext)
  show ?thesis
    by (simp add: run_batch_transaction_def run_transaction_def check batches run_statements_append and_then_assoc)
qed

text \<open>When a later batch cannot be generated, nothing is committed.\<close>

lemma failed_batch_commits_nothing:
  assumes "source_error source = Some e"
  shows "\<exists>r log. execute_statement_batches_with_policy X c policy batch source = (Stopped r, log) \<and>
    CallCommit \<notin> set (calls log) \<and> (\<forall>res. r = Inr res \<longrightarrow> xr_rolled_back res \<and> rolled_back_log log)"
proof -
  let ?all = "batch @ source_statements source"
  let ?done = "\<lambda>out. \<exists>r log. out = (Stopped r, log) \<and> CallCommit \<notin> set (calls log) \<and>
    (\<forall>res. r = Inr res \<longrightarrow> xr_rolled_back res \<and> rolled_back_log log)"
  have stopped: "?done (Stopped r, log)" if "stopped_run ss r log" for ss r and log :: "'a exec_log"
    using that by (cases r) (auto simp: stopped_run_def stopped_report_def)
  have run: "?done (run_batch_transaction X c policy batch source log)" if "begin_transaction X [] = (None, log)" for log
  proof -
    have "run_ok policy ?all batch (run_statements X c policy batch fresh_progress log)"
      using run_statements_ok [OF begin_inv [OF that], of ?all batch] by simp
    then show ?thesis
    proof (cases rule: run_ok_cases)
      case (2 r log')
      with stopped show ?thesis by (simp add: run_batch_transaction_def)
    next
      case (1 p log')
      from run_batches_ok [OF 1(2), of source X c] show ?thesis
      proof (cases rule: run_ok_cases)
        case (1 q log2)
        with run_batches_error [OF assms] show ?thesis by blast
      next
        case (2 r log2)
        with 1 stopped show ?thesis by (simp add: run_batch_transaction_def)
      qed
    qed
  qed
  show ?thesis
  proof (cases "preflight X c batch []")
    case None
    obtain err log where b: "begin_transaction X [] = (err, log)" by (cases "begin_transaction X []")
    show ?thesis
    proof (cases err)
      case None
      with b run \<open>preflight X c batch [] = None\<close> show ?thesis
        by (simp add: execute_statement_batches_with_policy_def)
    next
      case (Some e')
      have "calls log = [CallBegin]" using b by (auto simp: begin_transaction_def call_executor_def Let_def split: sum.splits)
      with Some b None show ?thesis by (simp add: execute_statement_batches_with_policy_def)
    qed
  qed (simp add: execute_statement_batches_with_policy_def)
qed

text \<open>
  C21. How statements are divided into batches does not matter to a run that is not cancelled and whose
  batches can all be generated: executing a first batch that is not empty and then the batches of a
  source gives the same calls, the same result and the same error as executing the list of all
  statements at once; empty batches in between do not matter. If a later batch cannot be generated,
  nothing is committed, whenever the run is cancelled: it ends with a confirmed rollback of everything
  it wrote or with an error.
\<close>

theorem batches_execute_like_one_list:
  assumes "batch \<noteq> []"
  shows "(source_error source = None \<longrightarrow>
      execute_statement_batches_with_policy X never_cancelled policy batch source =
      execute_statements_with_policy X never_cancelled policy (batch @ source_statements source)) \<and>
    (source_error source \<noteq> None \<longrightarrow>
      (\<exists>r log. execute_statement_batches_with_policy X c policy batch source = (Stopped r, log) \<and>
         CallCommit \<notin> set (calls log) \<and> (\<forall>res. r = Inr res \<longrightarrow> xr_rolled_back res \<and> rolled_back_log log)))"
proof (intro conjI impI)
  assume "source_error source = None"
  then show "execute_statement_batches_with_policy X never_cancelled policy batch source =
      execute_statements_with_policy X never_cancelled policy (batch @ source_statements source)"
    using assms
    by (simp add: execute_statement_batches_with_policy_def execute_statements_with_policy_def preflight_def
        run_batches_transaction split: prod.splits option.splits)
next
  assume "source_error source \<noteq> None"
  then show "\<exists>r log. execute_statement_batches_with_policy X c policy batch source = (Stopped r, log) \<and>
      CallCommit \<notin> set (calls log) \<and> (\<forall>res. r = Inr res \<longrightarrow> xr_rolled_back res \<and> rolled_back_log log)"
    using failed_batch_commits_nothing by auto
qed

definition write_row :: "string \<Rightarrow> unit sql_statement" where
  "write_row s = \<lparr>sm_table = lit ''users'', sm_operation = OpInsert, sm_sql = lit s, sm_preview = lit s, sm_parameters = [VInteger 1],
     sm_row_key = [VInteger 1], sm_identity = None\<rparr>"

definition plain_recording :: recording where
  "plain_recording = \<lparr>rc_read_only = False, rc_fail_at = None, rc_zero_at = None, rc_fail_toggle = None,
     rc_fail_discard = False\<rparr>"

theorem batches_execute_like_one_list_witness:
  "execute_statement_batches_with_policy (recording_executor plain_recording) never_cancelled AbortOnConflict
     [write_row ''a''] [Inr (Some []), Inr (Some [write_row ''b'', write_row ''c'']), Inr None] =
   execute_statements_with_policy (recording_executor plain_recording) never_cancelled AbortOnConflict
     [write_row ''a'', write_row ''b'', write_row ''c''] \<and>
   CallCommit \<notin> set (calls (snd (execute_statement_batches_with_policy (recording_executor plain_recording) never_cancelled AbortOnConflict
     [write_row ''a''] [Inr (Some [write_row ''b'']), Inl (DsConflict [])])))"
  using batches_execute_like_one_list [of "[write_row ''a'']"
      "[Inr (Some []), Inr (Some [write_row ''b'', write_row ''c'']), Inr None]" "recording_executor plain_recording"
      AbortOnConflict never_cancelled]
    batches_execute_like_one_list [of "[write_row ''a'']" "[Inr (Some [write_row ''b'']), Inl (DsConflict [])]"
      "recording_executor plain_recording" AbortOnConflict never_cancelled]
  by auto

section \<open>Sessions\<close>

text \<open>
  C22. What a session executes passed the revalidation. Take any history of calls on a new session,
  refused calls included, after which the session revalidates, executes, or has executed, failed or
  rolled back. Then its task is valid, and at some call to revalidate in the history the session
  was ready and held a change set that is not empty and is the one of a comparison reported before, for
  the options of the task. The session still holds this change set, or it holds none because a later
  call to compare or to reset dropped it.
\<close>

theorem session_executes_its_comparison:
  assumes "runs_changes (ss_phase (session_after cmds (session_new t)))"
  shows "task_validate t = None \<and> revalidated t cmds"
proof -
  have "ss_phase (session_after cmds (session_new t)) \<notin> {Draft, SyncCancelled}" using assms by (auto simp: runs_changes_def)
  then show ?thesis using history_fields [of cmds t] history_runs [OF assms] by blast
qed

definition demo_task :: sync_task where
  "demo_task = \<lparr>st_id = lit ''t'', st_source = \<lparr>er_session = lit ''a'', er_database = lit ''x'', er_schema = None\<rparr>,
     st_target = \<lparr>er_session = lit ''b'', er_database = lit ''x'', er_schema = None\<rparr>, st_options = default_options\<rparr>"

definition demo_comparison :: "unit comparison_result" where
  "demo_comparison = [matched_table (lit ''users'') (lit ''users'') [insert_change [VInteger 1] [Some (VInteger 1)] default_options]]"

definition demo_run :: "unit session_command list" where
  "demo_run = [Configure, StartCompare, FinishCompare demo_comparison, BeginReview, GenerateChangeSet,
     StartRevalidate, StartExecute]"

definition demo_session :: "unit sync_session" where
  "demo_session = session_after demo_run (session_new demo_task)"

lemma demo_session_value:
  "demo_session = \<lparr>ss_task = demo_task, ss_phase = Executing, ss_comparison = Some demo_comparison,
     ss_change_set = Some (from_comparison (st_id demo_task) demo_comparison (st_options demo_task))\<rparr>"
  by code_simp

text \<open>The last two calls are refused, and the change set is gone.\<close>

theorem session_executes_its_comparison_witness:
  "revalidated demo_task demo_run \<and> revalidated demo_task (demo_run @ [GenerateChangeSet, StartCompare])"
proof -
  have "runs_changes (ss_phase (session_after demo_run (session_new demo_task)))"
    using demo_session_value by (simp add: demo_session_def runs_changes_def)
  moreover have "ss_phase (session_after (demo_run @ [GenerateChangeSet, StartCompare]) (session_new demo_task)) = Executing"
    by code_simp
  ultimately show ?thesis
    using session_executes_its_comparison [of demo_run demo_task]
      session_executes_its_comparison [of "demo_run @ [GenerateChangeSet, StartCompare]" demo_task]
    by (simp add: runs_changes_def)
qed

text \<open>
  A refused operation is not without effect: asking a session that executes to compare again, or to
  go back to the draft, is refused as an illegal transition and leaves the phase alone, but the change
  set and the comparison are gone; a comparison reported at the wrong moment is refused and still
  replaces the one that was reviewed.
\<close>

theorem refused_operation_drops_change_set:
  assumes "ss_phase s = Executing" "task_validate (ss_task s) = None"
  shows "(\<exists>s'. start_compare s = (Some (DsIllegalTransition ''EXECUTING'' ''COMPARING''), s') \<and>
      ss_phase s' = Executing \<and> ss_change_set s' = None \<and> ss_comparison s' = None) \<and>
    (\<exists>s'. reset_to_draft s = (Some (DsIllegalTransition ''EXECUTING'' ''DRAFT''), s') \<and>
      ss_phase s' = Executing \<and> ss_change_set s' = None \<and> ss_comparison s' = None) \<and>
    (\<exists>s'. finish_compare r s = (Some (DsIllegalTransition ''EXECUTING'' ''COMPARED''), s') \<and>
      ss_phase s' = Executing \<and> ss_comparison s' = Some r \<and> ss_change_set s' = ss_change_set s)"
  using assms
  by (simp add: start_compare_def reset_to_draft_def finish_compare_def go_def phase_transition_def can_transition_to_def
      is_execute_related_def)

lemma refused_operation_drops_change_set_witness:
  "ss_change_set demo_session \<noteq> None \<and> (\<exists>s'. start_compare demo_session =
     (Some (DsIllegalTransition ''EXECUTING'' ''COMPARING''), s') \<and> ss_change_set s' = None)"
proof -
  have demo: "ss_phase demo_session = Executing" "ss_change_set demo_session \<noteq> None" "ss_task demo_session = demo_task"
    by (simp_all add: demo_session_value)
  have "task_validate demo_task = None" by code_simp
  with refused_operation_drops_change_set [of demo_session] demo show ?thesis by auto
qed

end
