(* ===== verification/Sync_Sql.thy ===== *)
theory Sync_Sql
  imports Sync_Execute Sql_Params
begin

text \<open>
  The statements of a change set (\<open>migration/data_sync/sql.rs\<close> and \<open>datazen-driver-support/src/sql_identifiers.rs\<close>):
  quoted identifiers, parameterized INSERT, UPDATE and DELETE with the conditions that guard the reviewed
  row, and the preview. What the driver owns (quoting, placeholders, preview literals) is the record
  \<open>sql_env\<close>; the table's columns are the record \<open>sql_shape\<close>.
\<close>

section \<open>Texts\<close>

fun join_with :: "utext \<Rightarrow> utext list \<Rightarrow> utext" where
  "join_with sep [] = []"
| "join_with sep [t] = t"
| "join_with sep (t # u # ts) = t @ sep @ join_with sep (u # ts)"

fun contains_utext :: "utext \<Rightarrow> utext \<Rightarrow> bool" where
  "contains_utext p [] = (p = [])"
| "contains_utext p (c # cs) = (take (length p) (c # cs) = p \<or> contains_utext p cs)"

definition starts_text :: "utext \<Rightarrow> utext \<Rightarrow> bool" where
  "starts_text p t \<longleftrightarrow> take (length p) t = p"

text \<open>A name that is given and not blank.\<close>

definition given_name :: "utext option \<Rightarrow> utext option" where
  "given_name s = (case s of None \<Rightarrow> None | Some n \<Rightarrow> (let t = utrim n in if t = [] then None else Some t))"

section \<open>Identifiers\<close>

text \<open>91 and 93 are the brackets of SQL Server.\<close>

definition quote_ident_sql :: "utext \<Rightarrow> nat \<Rightarrow> utext" where
  "quote_ident_sql name quote =
     (if quote = 91 then 91 # double_char 93 name @ [93] else quote # double_char quote name @ [quote])"

definition qualify_table_ident :: "utext option \<Rightarrow> utext \<Rightarrow> (utext \<Rightarrow> utext) \<Rightarrow> utext" where
  "qualify_table_ident schema table quote =
     (case given_name schema of Some s \<Rightarrow> quote s @ [46] @ quote table | None \<Rightarrow> quote table)"

definition qualify_table_sql :: "utext option \<Rightarrow> utext \<Rightarrow> nat \<Rightarrow> utext" where
  "qualify_table_sql schema table quote = qualify_table_ident schema table (\<lambda>n. quote_ident_sql n quote)"

definition qualify_relation_sql :: "utext \<Rightarrow> utext option \<Rightarrow> utext option \<Rightarrow> utext \<Rightarrow> nat \<Rightarrow> utext" where
  "qualify_relation_sql family database schema table quote =
     (let f = map ascii_lower family
      in if f \<in> {lit ''mysql'', lit ''mariadb'', lit ''clickhouse''} then qualify_table_sql database table quote
         else if f = lit ''sqlserver'' then
           join_with [46] (map (\<lambda>p. quote_ident_sql p quote)
             (List.map_filter id [given_name database, given_name schema, Some table]))
         else qualify_table_sql schema table quote)"

section \<open>Placeholders and literals\<close>

definition mysql_placeholder :: "nat \<Rightarrow> utext" where
  "mysql_placeholder i = lit ''?''"

definition postgres_placeholder :: "nat \<Rightarrow> utext" where
  "postgres_placeholder i = 36 # lit (dec i)"

definition postgres_type_cast :: "utext \<Rightarrow> string option" where
  "postgres_type_cast data_type =
     (let t = map ascii_lower (utrim data_type)
      in if t = lit ''uuid'' then Some ''uuid''
         else if contains_utext (lit ''timestamp with time zone'') t \<or> t = lit ''timestamptz'' then Some ''timestamptz''
         else if contains_utext (lit ''timestamp without time zone'') t \<or> t = lit ''timestamp'' then Some ''timestamp''
         else if t = lit ''date'' then Some ''date''
         else if t = lit ''numeric'' \<or> starts_text (lit ''numeric('') t \<or> t = lit ''decimal'' \<or> starts_text (lit ''decimal('') t
           then Some ''numeric''
         else if t = lit ''time without time zone'' \<or> t = lit ''time'' then Some ''time''
         else if t = lit ''jsonb'' then Some ''jsonb''
         else if t = lit ''json'' then Some ''json''
         else None)"

definition cast_of :: "utext option \<Rightarrow> string option" where
  "cast_of ty = (case ty of None \<Rightarrow> None | Some t \<Rightarrow> postgres_type_cast t)"

definition postgres_typed_placeholder :: "nat \<Rightarrow> utext option \<Rightarrow> utext" where
  "postgres_typed_placeholder i ty =
     (case cast_of ty of
        Some c \<Rightarrow> postgres_placeholder i @ lit ''::'' @ lit c
      | None \<Rightarrow> postgres_placeholder i)"

definition hex_char :: "nat \<Rightarrow> nat" where
  "hex_char n = (if n < 10 then 48 + n else 87 + n)"

definition binary_literal_placeholder :: "nat list \<Rightarrow> utext" where
  "binary_literal_placeholder bytes =
     lit ''/* binary 0x'' @ concat (map (\<lambda>b. [hex_char (b div 16), hex_char (b mod 16)]) bytes) @
     lit ''; target driver literal required */ __DATAZEN_BINARY_LITERAL_REQUIRED__''"

definition quoted_text :: "utext \<Rightarrow> utext" where
  "quoted_text s = 39 # double_char 39 s @ [39]"

fun format_literal :: "(64 word \<Rightarrow> utext) \<Rightarrow> ('j \<Rightarrow> utext) \<Rightarrow> 'j cell option \<Rightarrow> utext" where
  "format_literal fl jt None = lit ''NULL''"
| "format_literal fl jt (Some VNull) = lit ''NULL''"
| "format_literal fl jt (Some (VBool b)) = (if b then lit ''TRUE'' else lit ''FALSE'')"
| "format_literal fl jt (Some (VInteger i)) = int_text i"
| "format_literal fl jt (Some (VFloat w)) = fl w"
| "format_literal fl jt (Some (VString s)) = quoted_text s"
| "format_literal fl jt (Some (VBytes bs)) = binary_literal_placeholder bs"
| "format_literal fl jt (Some (VTimestamp s)) = quoted_text s"
| "format_literal fl jt (Some (VJson j)) = quoted_text (jt j)"

definition format_typed_literal ::
    "(64 word \<Rightarrow> utext) \<Rightarrow> ('j \<Rightarrow> utext) \<Rightarrow> 'j cell option \<Rightarrow> utext option \<Rightarrow> utext" where
  "format_typed_literal fl jt v ty =
     (let t = format_literal fl jt v
      in if t \<in> {lit ''NULL'', lit ''TRUE'', lit ''FALSE''} then t
         else (case cast_of ty of
                 Some c \<Rightarrow> if starts_text [39] t then t @ lit ''::'' @ lit c else t
               | None \<Rightarrow> t))"

section \<open>Conditions\<close>

record 'j sql_env =
  se_quote :: "utext \<Rightarrow> utext"
  se_place :: "nat \<Rightarrow> utext option \<Rightarrow> sync_error + utext"
  se_literal :: "utext \<Rightarrow> 'j cell option \<Rightarrow> utext option \<Rightarrow> sync_error + utext"

record sql_shape =
  sh_pk :: "utext list"
  sh_columns :: "utext list"
  sh_types :: "utext list"

fun position :: "utext \<Rightarrow> utext list \<Rightarrow> nat option" where
  "position c [] = None"
| "position c (d # ds) = (if d = c then Some 0 else map_option Suc (position c ds))"

definition type_at :: "sql_shape \<Rightarrow> nat \<Rightarrow> utext option" where
  "type_at sh i = (if i < length (sh_types sh) then Some (sh_types sh ! i) else None)"

definition column_type :: "sql_shape \<Rightarrow> utext \<Rightarrow> utext option" where
  "column_type sh col = (case position col (sh_columns sh) of None \<Rightarrow> None | Some i \<Rightarrow> type_at sh i)"

definition or_null :: "'j cell option \<Rightarrow> 'j cell" where
  "or_null c = (case c of None \<Rightarrow> VNull | Some v \<Rightarrow> v)"

definition cell_at :: "'j row \<Rightarrow> nat \<Rightarrow> 'j cell option" where
  "cell_at row i = (if i < length row then row ! i else None)"

text \<open>Terms for the statement, terms for the preview, and the bound values.\<close>

type_synonym 'j rendered = "utext list \<times> utext list \<times> 'j cell list"

definition with_term :: "utext \<Rightarrow> utext \<Rightarrow> 'j cell list \<Rightarrow> sync_error + 'j rendered \<Rightarrow> sync_error + 'j rendered" where
  "with_term p l vs r = obind r (\<lambda>(ps, ls, ws). Inr (p # ps, l # ls, vs @ ws))"

fun pk_terms :: "'j sql_env \<Rightarrow> sql_shape \<Rightarrow> nat \<Rightarrow> (utext \<times> 'j cell) list \<Rightarrow> sync_error + 'j rendered" where
  "pk_terms env sh i [] = Inr ([], [], [])"
| "pk_terms env sh i ((col, v) # rest) =
     (let q = se_quote env col; ty = column_type sh col
      in if v = VNull then with_term (q @ lit '' IS NULL'') (q @ lit '' IS NULL'') [] (pk_terms env sh i rest)
         else obind (se_place env i ty) (\<lambda>p. obind (se_literal env col (Some v) ty) (\<lambda>l.
           with_term (q @ lit '' = '' @ p) (q @ lit '' = '' @ l) [v] (pk_terms env sh (i + 1) rest))))"

definition and_join :: "utext list \<Rightarrow> utext" where
  "and_join = join_with (lit '' AND '')"

definition where_pk :: "'j sql_env \<Rightarrow> sql_shape \<Rightarrow> 'j cell list \<Rightarrow> nat \<Rightarrow> sync_error + utext \<times> utext \<times> 'j cell list" where
  "where_pk env sh key i =
     (if length (sh_pk sh) \<noteq> length key then Inl (invalid ''primary key arity does not match row key'')
      else obind (pk_terms env sh i (zip (sh_pk sh) key)) (\<lambda>(ps, ls, vs). Inr (and_join ps, and_join ls, vs)))"

definition null_safe :: "utext \<Rightarrow> utext \<Rightarrow> utext \<Rightarrow> utext" where
  "null_safe q a b = lit ''('' @ q @ lit '' = '' @ a @ lit '' OR ('' @ q @ lit '' IS NULL AND '' @ b @ lit '' IS NULL))''"

fun expected_terms ::
    "'j sql_env \<Rightarrow> sql_shape \<Rightarrow> 'j row \<Rightarrow> nat \<Rightarrow> (nat \<times> utext) list \<Rightarrow> sync_error + 'j rendered" where
  "expected_terms env sh row i [] = Inr ([], [], [])"
| "expected_terms env sh row i ((n, col) # rest) =
     (if col \<in> set (sh_pk sh) then expected_terms env sh row i rest
      else (let q = se_quote env col; v = or_null (row ! n); ty = type_at sh n
            in obind (se_place env i ty) (\<lambda>a. obind (se_place env (i + 1) ty) (\<lambda>b.
               obind (se_literal env col (Some v) ty) (\<lambda>l.
                 with_term (null_safe q a b) (null_safe q l l) [v, v] (expected_terms env sh row (i + 2) rest))))))"

definition where_expected_target ::
    "'j sql_env \<Rightarrow> sql_shape \<Rightarrow> 'j row option \<Rightarrow> nat \<Rightarrow> sync_error + utext \<times> utext \<times> 'j cell list" where
  "where_expected_target env sh target i =
     (case target of
        None \<Rightarrow> Inl (invalid ''UPDATE/DELETE requires an expected target row'')
      | Some row \<Rightarrow>
          if length row \<noteq> length (sh_columns sh)
          then Inl (invalid ''expected target row width does not match column list'')
          else obind (expected_terms env sh row i (enumerate 0 (sh_columns sh)))
                 (\<lambda>(ps, ls, vs). Inr (and_join ps, and_join ls, vs)))"

definition join_where_clauses :: "utext \<Rightarrow> utext \<Rightarrow> utext" where
  "join_where_clauses primary expected =
     (if expected = [] then primary else if primary = [] then expected else primary @ lit '' AND '' @ expected)"

definition expected_clause ::
    "'j sql_env \<Rightarrow> sql_shape \<Rightarrow> conflict_policy \<Rightarrow> 'j row option \<Rightarrow> nat \<Rightarrow> sync_error + utext \<times> utext \<times> 'j cell list" where
  "expected_clause env sh policy target i =
     (if policy \<noteq> ForceWrite then where_expected_target env sh target i else Inr ([], [], []))"

section \<open>Statements\<close>

fun insert_values ::
    "'j sql_env \<Rightarrow> sql_shape \<Rightarrow> nat \<Rightarrow> 'j row \<Rightarrow> sync_error + 'j rendered" where
  "insert_values env sh i [] = Inr ([], [], [])"
| "insert_values env sh i (c # cs) =
     obind (se_place env (i + 1) (type_at sh i)) (\<lambda>p. obind (se_literal env (sh_columns sh ! i) c (type_at sh i)) (\<lambda>l.
       with_term p l [or_null c] (insert_values env sh (i + 1) cs)))"

definition comma_join :: "utext list \<Rightarrow> utext" where
  "comma_join = join_with (lit '', '')"

definition insert_text :: "'j sql_env \<Rightarrow> sql_shape \<Rightarrow> utext \<Rightarrow> utext list \<Rightarrow> utext" where
  "insert_text env sh relation vals =
     lit ''INSERT INTO '' @ relation @ lit '' ('' @ comma_join (map (se_quote env) (sh_columns sh)) @
     lit '') VALUES ('' @ comma_join vals @ lit '')''"

definition insert_sql ::
    "'j sql_env \<Rightarrow> sql_shape \<Rightarrow> utext \<Rightarrow> utext \<Rightarrow> 'j sync_change \<Rightarrow> sync_error + 'j sql_statement" where
  "insert_sql env sh table relation ch =
     (case rc_source ch of
        None \<Rightarrow> Inl (invalid ''INSERT requires a source row'')
      | Some row \<Rightarrow>
          if length row \<noteq> length (sh_columns sh) then Inl (invalid ''INSERT row width does not match column list'')
          else obind (insert_values env sh 0 row) (\<lambda>(ps, ls, vs).
            Inr \<lparr>sm_table = table, sm_operation = OpInsert, sm_sql = insert_text env sh relation ps,
              sm_preview = insert_text env sh relation ls, sm_parameters = vs, sm_row_key = rc_key ch,
              sm_identity = None\<rparr>))"

fun set_terms :: "'j sql_env \<Rightarrow> sql_shape \<Rightarrow> 'j row \<Rightarrow> nat \<Rightarrow> utext list \<Rightarrow> sync_error + 'j rendered" where
  "set_terms env sh row i [] = Inr ([], [], [])"
| "set_terms env sh row i (col # cols) =
     (case position col (sh_columns sh) of
        None \<Rightarrow> Inl (DsValidation (lit ''changed column '' @ 39 # col @ 39 # lit '' is not in the column list''))
      | Some n \<Rightarrow>
          (let q = se_quote env col; c = cell_at row n; ty = column_type sh col
           in obind (se_place env i ty) (\<lambda>p. obind (se_literal env col c ty) (\<lambda>l.
                with_term (q @ lit '' = '' @ p) (q @ lit '' = '' @ l) [or_null c] (set_terms env sh row (i + 1) cols)))))"

definition update_text :: "utext \<Rightarrow> utext list \<Rightarrow> utext \<Rightarrow> utext" where
  "update_text relation sets cond = lit ''UPDATE '' @ relation @ lit '' SET '' @ comma_join sets @ lit '' WHERE '' @ cond"

definition update_sql ::
    "'j sql_env \<Rightarrow> sql_shape \<Rightarrow> conflict_policy \<Rightarrow> utext \<Rightarrow> utext \<Rightarrow> 'j sync_change \<Rightarrow> sync_error + 'j sql_statement" where
  "update_sql env sh policy table relation ch =
     (case rc_source ch of
        None \<Rightarrow> Inl (invalid ''UPDATE requires a source row'')
      | Some row \<Rightarrow>
          if rc_columns ch = [] then Inl (invalid ''UPDATE requires at least one changed column'')
          else obind (set_terms env sh row 1 (rc_columns ch)) (\<lambda>(sps, sls, svs).
            let i = 1 + length (rc_columns ch) in
            obind (where_pk env sh (rc_key ch) i) (\<lambda>(wp, wl, wvs).
            obind (expected_clause env sh policy (rc_target ch) (i + length wvs)) (\<lambda>(ep, el, evs).
              Inr \<lparr>sm_table = table, sm_operation = OpUpdate,
                sm_sql = update_text relation sps (join_where_clauses wp ep),
                sm_preview = update_text relation sls (join_where_clauses wl el),
                sm_parameters = svs @ wvs @ evs, sm_row_key = rc_key ch, sm_identity = None\<rparr>))))"

definition delete_text :: "utext \<Rightarrow> utext \<Rightarrow> utext" where
  "delete_text relation cond = lit ''DELETE FROM '' @ relation @ lit '' WHERE '' @ cond"

definition delete_target_error :: "sql_shape \<Rightarrow> conflict_policy \<Rightarrow> 'j row option \<Rightarrow> sync_error option" where
  "delete_target_error sh policy target =
     (if policy = ForceWrite then None
      else (case target of
              None \<Rightarrow> Some (invalid ''DELETE requires an expected target row'')
            | Some row \<Rightarrow> if length row \<noteq> length (sh_columns sh)
                          then Some (invalid ''DELETE target row width does not match column list'') else None))"

definition delete_sql ::
    "'j sql_env \<Rightarrow> sql_shape \<Rightarrow> conflict_policy \<Rightarrow> utext \<Rightarrow> utext \<Rightarrow> 'j sync_change \<Rightarrow> sync_error + 'j sql_statement" where
  "delete_sql env sh policy table relation ch =
     (case delete_target_error sh policy (rc_target ch) of
        Some e \<Rightarrow> Inl e
      | None \<Rightarrow>
          obind (where_pk env sh (rc_key ch) 1) (\<lambda>(wp, wl, wvs).
          obind (expected_clause env sh policy (rc_target ch) (1 + length wvs)) (\<lambda>(ep, el, evs).
            Inr \<lparr>sm_table = table, sm_operation = OpDelete,
              sm_sql = delete_text relation (join_where_clauses wp ep),
              sm_preview = delete_text relation (join_where_clauses wl el),
              sm_parameters = wvs @ evs, sm_row_key = rc_key ch, sm_identity = None\<rparr>)))"

definition statement_for_change ::
    "'j sql_env \<Rightarrow> sql_shape \<Rightarrow> conflict_policy \<Rightarrow> utext \<Rightarrow> utext \<Rightarrow> 'j sync_change \<Rightarrow> sync_error + 'j sql_statement" where
  "statement_for_change env sh policy table relation ch =
     (case rc_operation ch of
        OpInsert \<Rightarrow> insert_sql env sh table relation ch
      | OpUpdate \<Rightarrow> update_sql env sh policy table relation ch
      | OpDelete \<Rightarrow> delete_sql env sh policy table relation ch
      | OpUnchanged \<Rightarrow> Inl (invalid ''unchanged rows must not generate SQL''))"

fun statements_for_changes ::
    "'j sql_env \<Rightarrow> sql_shape \<Rightarrow> conflict_policy \<Rightarrow> utext \<Rightarrow> utext \<Rightarrow> 'j sync_change list \<Rightarrow> sync_error + 'j sql_statement list" where
  "statements_for_changes env sh policy table relation [] = Inr []"
| "statements_for_changes env sh policy table relation (c # cs) =
     obind (statement_for_change env sh policy table relation c) (\<lambda>s.
     obind (statements_for_changes env sh policy table relation cs) (\<lambda>ss. Inr (s # ss)))"

text \<open>\<open>generate_table_sql_with_qualified_table_and_policy\<close>\<close>

definition generate_qualified ::
    "'j sql_env \<Rightarrow> sql_shape \<Rightarrow> conflict_policy \<Rightarrow> utext \<Rightarrow> 'j table_changes \<Rightarrow> sync_error + 'j sql_statement list" where
  "generate_qualified env sh policy relation tc =
     (if sh_pk sh = [] then Inl (invalid ''cannot generate SQL without primary key columns'')
      else statements_for_changes env sh policy (tc_target_table tc) relation (tc_changes tc))"

definition generate_with_policy ::
    "'j sql_env \<Rightarrow> sql_shape \<Rightarrow> conflict_policy \<Rightarrow> utext option \<Rightarrow> 'j table_changes \<Rightarrow> sync_error + 'j sql_statement list" where
  "generate_with_policy env sh policy schema tc =
     generate_qualified env sh policy (qualify_table_ident schema (tc_target_table tc) (se_quote env)) tc"

definition generate_table_sql ::
    "(64 word \<Rightarrow> utext) \<Rightarrow> ('j \<Rightarrow> utext) \<Rightarrow> (utext \<Rightarrow> utext) \<Rightarrow> (nat \<Rightarrow> utext option \<Rightarrow> utext) \<Rightarrow> sql_shape \<Rightarrow>
     utext option \<Rightarrow> 'j table_changes \<Rightarrow> sync_error + 'j sql_statement list" where
  "generate_table_sql fl jt quote place sh schema tc =
     generate_with_policy \<lparr>se_quote = quote, se_place = (\<lambda>i ty. Inr (place i ty)),
       se_literal = (\<lambda>col v ty. Inr (format_typed_literal fl jt v ty))\<rparr> sh AbortOnConflict schema tc"

section \<open>Reading one row by its key\<close>

fun key_conditions ::
    "(utext \<Rightarrow> utext) \<Rightarrow> (nat \<Rightarrow> utext option \<Rightarrow> sync_error + utext) \<Rightarrow> (utext \<rightharpoonup> utext) \<Rightarrow> nat \<Rightarrow> utext list \<Rightarrow>
     sync_error + utext list" where
  "key_conditions quote place types i [] = Inr []"
| "key_conditions quote place types i (pk # pks) =
     obind (place i (types pk)) (\<lambda>p.
     obind (key_conditions quote place types (i + 1) pks) (\<lambda>cs. Inr ((quote pk @ lit '' = '' @ p) # cs)))"

definition select_by_key_sql ::
    "(nat \<Rightarrow> utext option \<Rightarrow> sync_error + utext) \<Rightarrow> nat \<Rightarrow> utext \<Rightarrow> utext option \<Rightarrow> utext \<Rightarrow> utext list \<Rightarrow> utext list \<Rightarrow>
     (utext \<rightharpoonup> utext) \<Rightarrow> sync_error + utext" where
  "select_by_key_sql place quote database schema table columns pk types =
     (if pk = [] then
        Inl (DsValidation (lit ''target relation '' @ database @ 46 # table @
          lit '' has no primary key, so its reviewed row cannot be re-read before the write ('' @ [167] @ lit ''5.3)''))
      else
        (let q = (\<lambda>n. quote_ident_sql n quote);
             parts = database # (case schema of None \<Rightarrow> [] | Some s \<Rightarrow> [s]) @ [table]
         in obind (key_conditions q place types 1 pk) (\<lambda>cs.
              Inr (lit ''SELECT '' @ comma_join (map q columns) @ lit '' FROM '' @ join_with [46] (map q parts) @
                lit '' WHERE '' @ and_join cs @ lit '' ORDER BY '' @ comma_join (map q pk)))))"

end
