(* ===== verification/Sync_Conditions.thy ===== *)
theory Sync_Conditions
  imports Sync_Sql
begin

text \<open>
  What the generated statements mean: every statement is a sequence of fixed text and placeholders, its
  condition is a conjunction of terms, and a term is evaluated on a row with the three-valued logic of
  SQL. The equality of two non-null values is the server's and a parameter.
\<close>

section \<open>Pieces and terms\<close>

datatype piece = Fixed utext | Param nat "utext option"

fun render :: "'j sql_env \<Rightarrow> piece \<Rightarrow> utext" where
  "render env (Fixed t) = t"
| "render env (Param i ty) = (case se_place env i ty of Inr t \<Rightarrow> t | Inl _ \<Rightarrow> [])"

definition render_all :: "'j sql_env \<Rightarrow> piece list \<Rightarrow> utext" where
  "render_all env ps = concat (map (render env) ps)"

fun params_in :: "piece list \<Rightarrow> nat list" where
  "params_in [] = []"
| "params_in (Fixed t # ps) = params_in ps"
| "params_in (Param i ty # ps) = i # params_in ps"

datatype sql_term =
    Equals utext nat "utext option"
  | IsNull utext
  | SameAs utext nat nat "utext option"

fun pieces_of :: "'j sql_env \<Rightarrow> sql_term \<Rightarrow> piece list" where
  "pieces_of env (Equals c i ty) = [Fixed (se_quote env c @ lit '' = ''), Param i ty]"
| "pieces_of env (IsNull c) = [Fixed (se_quote env c @ lit '' IS NULL'')]"
| "pieces_of env (SameAs c i j ty) =
     [Fixed (lit ''('' @ se_quote env c @ lit '' = ''), Param i ty,
      Fixed (lit '' OR ('' @ se_quote env c @ lit '' IS NULL AND ''), Param j ty, Fixed (lit '' IS NULL))'')]"

definition term_text :: "'j sql_env \<Rightarrow> sql_term \<Rightarrow> utext" where
  "term_text env t = render_all env (pieces_of env t)"

lemma params_in_append [simp]: "params_in (a @ b) = params_in a @ params_in b"
  by (induction a rule: params_in.induct) simp_all

lemma render_all_simps [simp]:
  "render_all env [] = []" "render_all env (p # ps) = render env p @ render_all env ps"
  "render_all env (a @ b) = render_all env a @ render_all env b"
  by (simp_all add: render_all_def)

text \<open>Joining texts is joining their pieces.\<close>

fun join_pieces :: "utext \<Rightarrow> piece list list \<Rightarrow> piece list" where
  "join_pieces sep [] = []"
| "join_pieces sep [t] = t"
| "join_pieces sep (t # u # ts) = t @ Fixed sep # join_pieces sep (u # ts)"

lemma join_pieces_text: "render_all env (join_pieces sep tss) = join_with sep (map (render_all env) tss)"
  by (induction sep tss rule: join_pieces.induct) simp_all

lemma join_pieces_params: "params_in (join_pieces sep tss) = concat (map params_in tss)"
  by (induction sep tss rule: join_pieces.induct) simp_all

lemma join_with_append:
  "a \<noteq> [] \<Longrightarrow> b \<noteq> [] \<Longrightarrow> join_with sep (a @ b) = join_with sep a @ sep @ join_with sep b"
proof (induction sep a rule: join_with.induct)
  case (2 sep t)
  then show ?case by (cases b) simp_all
qed simp_all

fun term_params :: "sql_term \<Rightarrow> nat list" where
  "term_params (Equals c i ty) = [i]"
| "term_params (IsNull c) = []"
| "term_params (SameAs c i j ty) = [i, j]"

lemma params_of_term [simp]: "params_in (pieces_of env t) = term_params t"
  by (cases t) simp_all

section \<open>The terms of the conditions\<close>

fun pk_ast :: "sql_shape \<Rightarrow> nat \<Rightarrow> (utext \<times> 'j cell) list \<Rightarrow> sql_term list" where
  "pk_ast sh i [] = []"
| "pk_ast sh i ((c, v) # rest) =
     (if v = VNull then IsNull c # pk_ast sh i rest else Equals c i (column_type sh c) # pk_ast sh (i + 1) rest)"

fun pk_values :: "(utext \<times> 'j cell) list \<Rightarrow> 'j cell list" where
  "pk_values [] = []"
| "pk_values ((c, v) # rest) = (if v = VNull then pk_values rest else v # pk_values rest)"

fun expected_ast :: "sql_shape \<Rightarrow> nat \<Rightarrow> (nat \<times> utext) list \<Rightarrow> sql_term list" where
  "expected_ast sh i [] = []"
| "expected_ast sh i ((n, c) # rest) =
     (if c \<in> set (sh_pk sh) then expected_ast sh i rest
      else SameAs c i (i + 1) (type_at sh n) # expected_ast sh (i + 2) rest)"

fun expected_values :: "sql_shape \<Rightarrow> 'j row \<Rightarrow> (nat \<times> utext) list \<Rightarrow> 'j cell list" where
  "expected_values sh row [] = []"
| "expected_values sh row ((n, c) # rest) =
     (if c \<in> set (sh_pk sh) then expected_values sh row rest
      else or_null (row ! n) # or_null (row ! n) # expected_values sh row rest)"

fun set_ast :: "sql_shape \<Rightarrow> nat \<Rightarrow> utext list \<Rightarrow> sql_term list" where
  "set_ast sh i [] = []"
| "set_ast sh i (c # cs) = Equals c i (column_type sh c) # set_ast sh (i + 1) cs"

definition set_value :: "sql_shape \<Rightarrow> 'j row \<Rightarrow> utext \<Rightarrow> 'j cell" where
  "set_value sh row c = or_null (case position c (sh_columns sh) of None \<Rightarrow> None | Some n \<Rightarrow> cell_at row n)"

lemma with_term_Inr:
  "with_term p l vs r = Inr (ps, ls, ws) \<longleftrightarrow>
     (\<exists>ps' ls' ws'. r = Inr (ps', ls', ws') \<and> ps = p # ps' \<and> ls = l # ls' \<and> ws = vs @ ws')"
  by (cases r) (auto simp: with_term_def)

lemma pk_terms_ast:
  "pk_terms env sh i prs = Inr (ps, ls, vs) \<Longrightarrow> ps = map (term_text env) (pk_ast sh i prs) \<and> vs = pk_values prs"
proof (induction env sh i prs arbitrary: ps ls vs rule: pk_terms.induct)
  case (2 env sh i col v rest)
  then show ?case
    by (cases "v = VNull") (auto simp: Let_def obind_eq_Inr with_term_Inr term_text_def simp del: lit_simps)
qed simp

lemma expected_terms_ast:
  "expected_terms env sh row i prs = Inr (ps, ls, vs) \<Longrightarrow>
     ps = map (term_text env) (expected_ast sh i prs) \<and> vs = expected_values sh row prs"
proof (induction env sh row i prs arbitrary: ps ls vs rule: expected_terms.induct)
  case (2 env sh row i n col rest)
  then show ?case
    by (cases "col \<in> set (sh_pk sh)")
      (auto simp: Let_def obind_eq_Inr with_term_Inr term_text_def null_safe_def simp del: lit_simps)
qed simp

lemma set_terms_ast:
  "set_terms env sh row i cols = Inr (ps, ls, vs) \<Longrightarrow>
     ps = map (term_text env) (set_ast sh i cols) \<and> vs = map (set_value sh row) cols \<and>
     list_all (\<lambda>c. position c (sh_columns sh) \<noteq> None) cols"
proof (induction env sh row i cols arbitrary: ps ls vs rule: set_terms.induct)
  case (2 env sh row i col cols)
  then show ?case
    by (cases "position col (sh_columns sh)")
      (auto simp: Let_def obind_eq_Inr with_term_Inr term_text_def set_value_def simp del: lit_simps)
qed simp

subsection \<open>Numbers of the placeholders\<close>

lemma pk_ast_params: "concat (map term_params (pk_ast sh i prs)) = [i..<i + length (pk_values prs)]"
  by (induction sh i prs rule: pk_ast.induct) (auto simp: upt_rec)

lemma expected_ast_params:
  "concat (map term_params (expected_ast sh i prs)) = [i..<i + length (expected_values sh row prs)]"
proof (induction sh i prs rule: expected_ast.induct)
  case (2 sh i n c rest)
  have "[i..<i + (2 + k)] = i # (i + 1) # [i + 2..<i + 2 + k]" for k by (simp add: upt_rec)
  with 2 show ?case by auto
qed simp

lemma set_ast_params: "concat (map term_params (set_ast sh i cols)) = [i..<i + length cols]"
  by (induction sh i cols rule: set_ast.induct) (auto simp: upt_rec)

section \<open>Evaluation\<close>

definition sql_or :: "bool option \<Rightarrow> bool option \<Rightarrow> bool option" where
  "sql_or a b = (if a = Some True \<or> b = Some True then Some True
     else if a = Some False \<and> b = Some False then Some False else None)"

definition sql_and :: "bool option \<Rightarrow> bool option \<Rightarrow> bool option" where
  "sql_and a b = (if a = Some False \<or> b = Some False then Some False
     else if a = Some True \<and> b = Some True then Some True else None)"

definition sql_equal :: "('j cell \<Rightarrow> 'j cell \<Rightarrow> bool) \<Rightarrow> 'j cell \<Rightarrow> 'j cell \<Rightarrow> bool option" where
  "sql_equal eq a b = (if a = VNull \<or> b = VNull then None else Some (eq a b))"

text \<open>A row of the server maps a column to its value; parameters are numbered from one.\<close>

definition bound :: "'j cell list \<Rightarrow> nat \<Rightarrow> 'j cell" where
  "bound vs i = vs ! (i - 1)"

fun term_value :: "('j cell \<Rightarrow> 'j cell \<Rightarrow> bool) \<Rightarrow> (utext \<Rightarrow> 'j cell) \<Rightarrow> 'j cell list \<Rightarrow> sql_term \<Rightarrow> bool option" where
  "term_value eq r vs (Equals c i ty) = sql_equal eq (r c) (bound vs i)"
| "term_value eq r vs (IsNull c) = Some (r c = VNull)"
| "term_value eq r vs (SameAs c i j ty) =
     sql_or (sql_equal eq (r c) (bound vs i)) (sql_and (Some (r c = VNull)) (Some (bound vs j = VNull)))"

definition condition_holds ::
    "('j cell \<Rightarrow> 'j cell \<Rightarrow> bool) \<Rightarrow> (utext \<Rightarrow> 'j cell) \<Rightarrow> 'j cell list \<Rightarrow> sql_term list \<Rightarrow> bool" where
  "condition_holds eq r vs ts \<longleftrightarrow> foldr sql_and (map (term_value eq r vs) ts) (Some True) = Some True"

lemma sql_and_true: "sql_and a b = Some True \<longleftrightarrow> a = Some True \<and> b = Some True"
  by (auto simp: sql_and_def)

lemma sql_or_true: "sql_or a b = Some True \<longleftrightarrow> a = Some True \<or> b = Some True"
  by (auto simp: sql_or_def)

lemma condition_holds_Cons [simp]:
  "condition_holds eq r vs [] = True"
  "condition_holds eq r vs (t # ts) \<longleftrightarrow> term_value eq r vs t = Some True \<and> condition_holds eq r vs ts"
  by (simp_all add: condition_holds_def sql_and_true)

lemma condition_holds_append [simp]:
  "condition_holds eq r vs (a @ b) \<longleftrightarrow> condition_holds eq r vs a \<and> condition_holds eq r vs b"
  by (induction a) auto

text \<open>NULL agrees with NULL only.\<close>

definition same_cell :: "('j cell \<Rightarrow> 'j cell \<Rightarrow> bool) \<Rightarrow> 'j cell \<Rightarrow> 'j cell \<Rightarrow> bool" where
  "same_cell eq a b \<longleftrightarrow> (if b = VNull then a = VNull else a \<noteq> VNull \<and> eq a b)"

lemma bound_nth: "bound (base @ v # rest) (Suc (length base)) = v"
  by (simp add: bound_def)

lemma pk_ast_holds:
  "condition_holds eq r (base @ pk_values prs @ others) (pk_ast sh (Suc (length base)) prs) \<longleftrightarrow>
     list_all (\<lambda>(c, v). same_cell eq (r c) v) prs"
proof (induction prs arbitrary: base)
  case (Cons p prs)
  obtain c v where p: "p = (c, v)" by (cases p)
  show ?case
  proof (cases "v = VNull")
    case True
    with Cons [of base] show ?thesis by (simp add: p same_cell_def)
  next
    case False
    with Cons [of "base @ [v]"] show ?thesis by (auto simp: p same_cell_def sql_equal_def bound_def nth_append)
  qed
qed simp

lemma expected_ast_holds:
  "condition_holds eq r (base @ expected_values sh row prs @ others) (expected_ast sh (Suc (length base)) prs) \<longleftrightarrow>
     list_all (\<lambda>(n, c). c \<in> set (sh_pk sh) \<or> same_cell eq (r c) (or_null (row ! n))) prs"
proof (induction prs arbitrary: base)
  case (Cons p prs)
  obtain n c where p: "p = (n, c)" by (cases p)
  show ?case
  proof (cases "c \<in> set (sh_pk sh)")
    case True
    with Cons [of base] show ?thesis by (simp add: p)
  next
    case False
    let ?v = "or_null (row ! n)"
    have "bound (base @ ?v # ?v # rest) (Suc (Suc (length base))) = ?v" for rest
      by (simp add: bound_def nth_append)
    with False Cons [of "base @ [?v, ?v]"] show ?thesis
      by (auto simp: p same_cell_def sql_equal_def bound_nth sql_or_true sql_and_true split: if_splits)
  qed
qed simp

end
