(* ===== verification/Sync_Sql_Theorems.thy ===== *)
theory Sync_Sql_Theorems
  imports Sync_Conditions
begin

text \<open>
  Properties of the generated statements: an UPDATE or DELETE binds its values in the order of its
  placeholders and its condition holds for the reviewed row only.
\<close>

section \<open>Terms of a condition\<close>

lemma term_text_not_Nil: "term_text env t \<noteq> []"
  by (cases t) (simp_all add: term_text_def)

lemma join_with_Nil: "list_all (\<lambda>t. t \<noteq> []) ts \<Longrightarrow> join_with sep ts = [] \<longleftrightarrow> ts = []"
  by (induction sep ts rule: join_with.induct) simp_all

lemma and_join_Nil: "and_join [] = []"
  by (simp add: and_join_def)

lemma joined_clauses:
  assumes "as \<noteq> []"
  shows "join_where_clauses (and_join (map (term_text env) as)) (and_join (map (term_text env) bs)) =
    and_join (map (term_text env) (as @ bs))"
proof -
  have "and_join (map (term_text env) ts) = [] \<longleftrightarrow> ts = []" for ts
    unfolding and_join_def by (subst join_with_Nil) (simp_all add: list_all_iff term_text_not_Nil)
  moreover have "and_join (map (term_text env) (as @ bs)) =
      and_join (map (term_text env) as) @ lit '' AND '' @ and_join (map (term_text env) bs)" if "bs \<noteq> []"
    using assms that unfolding and_join_def by (simp only: map_append) (rule join_with_append, simp_all)
  ultimately show ?thesis using assms by (cases "bs = []") (simp_all add: join_where_clauses_def and_join_Nil del: lit_simps)
qed

text \<open>The terms that guard an update or a delete, with placeholders from \<open>i\<close>.\<close>

definition key_pairs :: "sql_shape \<Rightarrow> 'j sync_change \<Rightarrow> (utext \<times> 'j cell) list" where
  "key_pairs sh ch = zip (sh_pk sh) (rc_key ch)"

definition guard_terms :: "sql_shape \<Rightarrow> conflict_policy \<Rightarrow> 'j sync_change \<Rightarrow> nat \<Rightarrow> sql_term list" where
  "guard_terms sh policy ch i =
     pk_ast sh i (key_pairs sh ch) @
     (if policy = ForceWrite then []
      else expected_ast sh (i + length (pk_values (key_pairs sh ch))) (enumerate 0 (sh_columns sh)))"

text \<open>
  The row that was reviewed: its key is the key of the change and, unless writes are forced, every
  column outside the key has the value of the reviewed target row.
\<close>

definition reviewed_row ::
    "('j cell \<Rightarrow> 'j cell \<Rightarrow> bool) \<Rightarrow> sql_shape \<Rightarrow> conflict_policy \<Rightarrow> 'j sync_change \<Rightarrow> (utext \<Rightarrow> 'j cell) \<Rightarrow> bool" where
  "reviewed_row eq sh policy ch r \<longleftrightarrow>
     list_all (\<lambda>(c, v). same_cell eq (r c) v) (key_pairs sh ch) \<and>
     (policy = ForceWrite \<or>
      (\<exists>row. rc_target ch = Some row \<and> length row = length (sh_columns sh) \<and>
         list_all (\<lambda>(n, c). c \<in> set (sh_pk sh) \<or> same_cell eq (r c) (or_null (row ! n))) (enumerate 0 (sh_columns sh))))"

section \<open>The clauses\<close>

lemma where_pk_terms:
  assumes "where_pk env sh key i = Inr (p, l, vs)"
  shows "p = and_join (map (term_text env) (pk_ast sh i (zip (sh_pk sh) key))) \<and> vs = pk_values (zip (sh_pk sh) key) \<and>
    length (sh_pk sh) = length key"
  using assms pk_terms_ast by (fastforce simp: where_pk_def obind_eq_Inr split: if_splits)

lemma expected_clause_terms:
  assumes "expected_clause env sh policy target i = Inr (p, l, vs)" "policy \<noteq> ForceWrite"
  obtains row where "target = Some row" "length row = length (sh_columns sh)"
    "p = and_join (map (term_text env) (expected_ast sh i (enumerate 0 (sh_columns sh))))"
    "vs = expected_values sh row (enumerate 0 (sh_columns sh))"
  using assms expected_terms_ast
  by (fastforce simp: expected_clause_def where_expected_target_def obind_eq_Inr split: option.splits if_splits)

lemma guard_of_clauses:
  assumes "where_pk env sh (rc_key ch) (Suc (length base)) = Inr (wp, wl, wvs)"
    and "expected_clause env sh policy (rc_target ch) (Suc (length base) + length wvs) = Inr (ep, el, evs)"
    and "sh_pk sh \<noteq> []"
  shows "join_where_clauses wp ep = and_join (map (term_text env) (guard_terms sh policy ch (Suc (length base)))) \<and>
    concat (map term_params (guard_terms sh policy ch (Suc (length base)))) = [Suc (length base)..<Suc (length (base @ wvs @ evs))] \<and>
    (\<forall>eq r. condition_holds eq r (base @ wvs @ evs) (guard_terms sh policy ch (Suc (length base))) \<longleftrightarrow> reviewed_row eq sh policy ch r)"
proof -
  let ?i = "Suc (length base)" and ?prs = "key_pairs sh ch"
  have pk: "wp = and_join (map (term_text env) (pk_ast sh ?i ?prs))" "wvs = pk_values ?prs" "?prs \<noteq> []"
    using where_pk_terms [OF assms(1)] assms(3) by (auto simp: key_pairs_def zip_eq_Nil_iff)
  then have some: "pk_ast sh ?i ?prs \<noteq> []" by (cases ?prs) (auto split: if_splits)
  have key: "condition_holds eq r (base @ wvs @ others) (pk_ast sh ?i ?prs) \<longleftrightarrow> list_all (\<lambda>(c, v). same_cell eq (r c) v) ?prs"
    for eq r others unfolding pk(2) by (rule pk_ast_holds)
  show ?thesis
  proof (cases "policy = ForceWrite")
    case True
    then have "ep = []" "evs = []" using assms(2) by (simp_all add: expected_clause_def)
    with True show ?thesis
      using pk some key [where others = "[]"] pk_ast_params [of sh ?i ?prs]
      by (simp add: guard_terms_def reviewed_row_def join_where_clauses_def)
  next
    case False
    obtain row where e: "rc_target ch = Some row" "length row = length (sh_columns sh)"
      "ep = and_join (map (term_text env) (expected_ast sh (?i + length wvs) (enumerate 0 (sh_columns sh))))"
      "evs = expected_values sh row (enumerate 0 (sh_columns sh))"
      by (rule expected_clause_terms [OF assms(2) False])
    have "condition_holds eq r ((base @ wvs) @ evs @ []) (expected_ast sh (Suc (length (base @ wvs))) (enumerate 0 (sh_columns sh))) \<longleftrightarrow>
        list_all (\<lambda>(n, c). c \<in> set (sh_pk sh) \<or> same_cell eq (r c) (or_null (row ! n))) (enumerate 0 (sh_columns sh))" for eq r
      unfolding e(4) by (rule expected_ast_holds)
    moreover have "concat (map term_params (guard_terms sh policy ch ?i)) = [?i..<Suc (length (base @ wvs @ evs))]"
    proof -
      have "concat (map term_params (guard_terms sh policy ch ?i)) =
          [?i..<?i + length wvs] @ [?i + length wvs..<?i + length wvs + length evs]"
        using False pk(2) e(4) pk_ast_params [of sh ?i ?prs]
          expected_ast_params [of sh "?i + length wvs" "enumerate 0 (sh_columns sh)" row]
        by (simp add: guard_terms_def del: upt_Suc)
      also have "\<dots> = [?i..<?i + length wvs + length evs]" using upt_add_eq_append [of ?i "?i + length wvs" "length evs"] by simp
      finally show ?thesis by (simp add: add.assoc)
    qed
    moreover have "join_where_clauses wp ep = and_join (map (term_text env) (guard_terms sh policy ch ?i))"
      using False pk(1,2) e(3) some by (simp add: guard_terms_def joined_clauses)
    ultimately show ?thesis
      using False pk(2) key [where others = evs] e(1,2) by (simp add: guard_terms_def reviewed_row_def add.assoc del: upt_Suc)
  qed
qed

section \<open>Writes\<close>

text \<open>
  C9. A generated UPDATE or DELETE writes the reviewed row and no other. Its text is the assignments of the
  changed columns and a conjunction of conditions; the placeholders are numbered from one in the order
  they stand in the text, one for each bound value; the assigned values are those of the source row; and,
  read with the three-valued logic of SQL and any equality of the server on values that are not NULL,
  the condition holds for exactly the rows whose key is the key of the change and, unless writes are
  forced, whose every other column has the value of the reviewed target row, NULL agreeing with NULL.
\<close>

theorem write_selects_reviewed_row:
  assumes "statement_for_change env sh policy table relation ch = Inr st" "sh_pk sh \<noteq> []"
    and "rc_operation ch = OpUpdate \<or> rc_operation ch = OpDelete"
    and "assigned = (if rc_operation ch = OpUpdate then rc_columns ch else [])"
    and "guard = guard_terms sh policy ch (Suc (length assigned))"
  shows "sm_sql st = (if rc_operation ch = OpUpdate
        then update_text relation (map (term_text env) (set_ast sh 1 assigned)) (and_join (map (term_text env) guard))
        else delete_text relation (and_join (map (term_text env) guard))) \<and>
    concat (map term_params (set_ast sh 1 assigned @ guard)) = [1..<Suc (length (sm_parameters st))] \<and>
    (\<forall>row. rc_source ch = Some row \<longrightarrow> take (length assigned) (sm_parameters st) = map (set_value sh row) assigned) \<and>
    (\<forall>eq r. condition_holds eq r (sm_parameters st) guard \<longleftrightarrow> reviewed_row eq sh policy ch r)"
proof (cases "rc_operation ch = OpUpdate")
  case True
  then obtain row sps sls svs wp wl wvs ep el evs where u: "rc_source ch = Some row"
    "set_terms env sh row 1 (rc_columns ch) = Inr (sps, sls, svs)"
    "where_pk env sh (rc_key ch) (1 + length (rc_columns ch)) = Inr (wp, wl, wvs)"
    "expected_clause env sh policy (rc_target ch) (1 + length (rc_columns ch) + length wvs) = Inr (ep, el, evs)"
    "sm_sql st = update_text relation sps (join_where_clauses wp ep)" "sm_parameters st = svs @ wvs @ evs"
    using assms(1) by (auto simp: statement_for_change_def update_sql_def Let_def obind_eq_Inr split: option.splits if_splits)
  have sets: "sps = map (term_text env) (set_ast sh 1 (rc_columns ch))" "svs = map (set_value sh row) (rc_columns ch)"
    using set_terms_ast [OF u(2)] by simp_all
  have "length svs = length (rc_columns ch)" using sets by simp
  then have w: "where_pk env sh (rc_key ch) (Suc (length svs)) = Inr (wp, wl, wvs)"
    "expected_clause env sh policy (rc_target ch) (Suc (length svs) + length wvs) = Inr (ep, el, evs)" using u(3,4) by simp_all
  have "[1..<1 + length (rc_columns ch)] @ [Suc (length svs)..<Suc (length (svs @ wvs @ evs))] = [1..<Suc (length (svs @ wvs @ evs))]"
    using upt_add_eq_append [of 1 "Suc (length svs)" "length (wvs @ evs)"] \<open>length svs = _\<close> by simp
  then show ?thesis
    using True u(1,5,6) sets guard_of_clauses [OF w assms(2)] assms(4,5) set_ast_params [of sh 1 "rc_columns ch"] by simp
next
  case False
  then have delete: "rc_operation ch = OpDelete" using assms(3) by simp
  then obtain wp wl wvs ep el evs where d: "where_pk env sh (rc_key ch) (Suc (length ([] :: 'a cell list))) = Inr (wp, wl, wvs)"
    "expected_clause env sh policy (rc_target ch) (Suc (length ([] :: 'a cell list)) + length wvs) = Inr (ep, el, evs)"
    "sm_sql st = delete_text relation (join_where_clauses wp ep)" "sm_parameters st = wvs @ evs"
    using assms(1) by (auto simp: statement_for_change_def delete_sql_def obind_eq_Inr split: option.splits if_splits)
  show ?thesis
    using delete d(3,4) guard_of_clauses [OF d(1,2) assms(2)] assms(4,5) by simp
qed

section \<open>A reviewed row\<close>

definition demo_sql_env :: "unit sql_env" where
  "demo_sql_env = \<lparr>se_quote = (\<lambda>n. quote_ident_sql n 34), se_place = (\<lambda>i ty. Inr (postgres_typed_placeholder i ty)),
     se_literal = (\<lambda>col v ty. Inr (format_typed_literal (\<lambda>_. []) (\<lambda>_. []) v ty))\<rparr>"

definition demo_shape :: sql_shape where
  "demo_shape = \<lparr>sh_pk = [lit ''id''], sh_columns = [lit ''id'', lit ''a'', lit ''b''], sh_types = [lit ''int4'', lit ''text'', lit ''uuid'']\<rparr>"

definition demo_update :: "unit sync_change" where
  "demo_update = update_change [VInteger 7] [Some (VInteger 7), Some (VString [120]), None]
     [Some (VInteger 7), None, Some (VString [121])] [lit ''a''] default_options"

definition demo_update_statement :: "unit sql_statement" where
  "demo_update_statement = (case statement_for_change demo_sql_env demo_shape AbortOnConflict (lit ''t'') (lit ''t'') demo_update of
     Inr st \<Rightarrow> st | Inl _ \<Rightarrow> undefined)"

lemma demo_update_facts:
  "statement_for_change demo_sql_env demo_shape AbortOnConflict (lit ''t'') (lit ''t'') demo_update = Inr demo_update_statement"
  "sh_pk demo_shape \<noteq> []" "rc_operation demo_update = OpUpdate \<or> rc_operation demo_update = OpDelete"
  "[lit ''a''] = (if rc_operation demo_update = OpUpdate then rc_columns demo_update else [])"
  by code_simp+

lemma demo_update_text:
  "sm_sql demo_update_statement = lit ''UPDATE t SET \"a\" = $1 WHERE \"id\" = $2 AND (\"a\" = $3 OR (\"a\" IS NULL AND $4 IS NULL)) AND (\"b\" = $5::uuid OR (\"b\" IS NULL AND $6::uuid IS NULL))''"
  by code_simp

theorem write_selects_reviewed_row_witness:
  "\<forall>eq r. condition_holds eq r (sm_parameters demo_update_statement)
      (guard_terms demo_shape AbortOnConflict demo_update (Suc (length [lit ''a'']))) \<longleftrightarrow>
    reviewed_row eq demo_shape AbortOnConflict demo_update r"
  using write_selects_reviewed_row [OF demo_update_facts refl] by (elim conjE)

end
