(* ===== verification/Spec2Isabelle.thy ===== *)
theory Spec2Isabelle
  imports Prelude Errors Budget_Theorems Pool_Theorems Job_Theorems Job_Host_Theorems Sql_Theorems Sync_Theorems Sync_Run_Theorems Sync_Sql_Theorems
begin

text \<open>
  Verification development for the kernel of DataZen (\<^verbatim>\<open>src/crates/datazen/src\<close>): the resource budget
  of a node, the pool budget of the drivers, the durable jobs with their runtime, the guard that every
  SQL text passes before it reaches a connection, and the synchronization of table data between two
  databases.

  \<^bold>\<open>Parts and theories.\<close>

  \<^item> \<^verbatim>\<open>Prelude\<close>: the ordered maps (\<^verbatim>\<open>BTreeMap\<close> as sorted association list), saturating u32 and u64
    arithmetic, decimal printing, list helpers and the simp collections that the parts share.
  \<^item> \<^verbatim>\<open>Errors\<close>: \<^verbatim>\<open>shared/error.rs\<close>, the failures of the ports and the closed vocabulary of the wire.
  \<^item> Budget (\<^verbatim>\<open>execution/runtime/budget\<close>): \<^verbatim>\<open>Budget_Quota\<close> (quotas.rs, classes.rs), \<^verbatim>\<open>Budget_Queue\<close> and
    \<^verbatim>\<open>Budget_Rotation\<close> (queues.rs: the lanes of a class and the weighted rotation), \<^verbatim>\<open>Budget_Ledger\<close>
    (ledger.rs, records.rs: admission, batches, release), \<^verbatim>\<open>Budget_Dispatch\<close> (dispatch.rs: the scheduler
    round), \<^verbatim>\<open>Budget_Sessions\<close> (sessions.rs) and \<^verbatim>\<open>Budget_Coordinator\<close> (coordinator.rs: every section
    under the lock is one step). \<^verbatim>\<open>Budget_Invariant\<close> and \<^verbatim>\<open>Budget_Operations\<close> prove that each operation
    keeps the ledger invariant, \<^verbatim>\<open>Budget_Numbers\<close> that permit numbers are never used twice, and
    \<^verbatim>\<open>Budget_Theorems\<close> holds the properties.
  \<^item> Pool (\<^verbatim>\<open>execution/application/budget/pool_ledger.rs\<close> with dimension.rs and pool.rs): \<^verbatim>\<open>Pool_Ledger\<close>,
    \<^verbatim>\<open>Pool_Store\<close>, \<^verbatim>\<open>Pool_Invariant\<close>, \<^verbatim>\<open>Pool_Theorems\<close>. A connection is booked in a chain of cells and every
    cell counts exactly what is booked on it.
  \<^item> Jobs (\<^verbatim>\<open>jobs/domain\<close>, \<^verbatim>\<open>jobs/engine\<close>, \<^verbatim>\<open>jobs/application\<close>): \<^verbatim>\<open>Job_Model\<close> (records, frozen plans, fingerprints),
    \<^verbatim>\<open>Job_Repository\<close> and \<^verbatim>\<open>Job_Writes\<close> (the in-process repository), \<^verbatim>\<open>Job_Contract\<close>, \<^verbatim>\<open>Job_Operations\<close> and
    \<^verbatim>\<open>Job_Invariant\<close> (what one step may change in a row, the store invariant, runs), \<^verbatim>\<open>Job_Demo\<close> and
    \<^verbatim>\<open>Job_Theorems\<close>; \<^verbatim>\<open>Job_Endpoints\<close> (domain/budget.rs: overlap and reservation on the ledger),
    \<^verbatim>\<open>Job_Runtime\<close> (engine/runtime.rs and application/handler.rs), \<^verbatim>\<open>Job_Runs\<close> and \<^verbatim>\<open>Job_Run_Theorems\<close>;
    \<^verbatim>\<open>Job_Host\<close> (application/host.rs, domain/recovery.rs) and \<^verbatim>\<open>Job_Host_Theorems\<close>.
  \<^item> SQL guard (\<^verbatim>\<open>execution/domain/sql_guard\<close>): \<^verbatim>\<open>Sql_Text\<close>, \<^verbatim>\<open>Sql_Scanner\<close> (scanner.rs), \<^verbatim>\<open>Sql_Tokens\<close>
    (keyword.rs), \<^verbatim>\<open>Sql_Safety\<close> (safety.rs), \<^verbatim>\<open>Sql_Params\<close> (params.rs); \<^verbatim>\<open>Sql_Lexing\<close> (splitting at
    separators in general), \<^verbatim>\<open>Sql_Binding\<close> and \<^verbatim>\<open>Sql_Placeholders\<close> (what binding writes and which pieces of
    the text it changes), \<^verbatim>\<open>Sql_Splitting\<close> (where the splitter cuts, in terms of the binder's scanner),
    \<^verbatim>\<open>Sql_Guard\<close> (the data-modifying bodies that are found are exactly those that are there),
    \<^verbatim>\<open>Sql_Theorems\<close>.
  \<^item> Data synchronization (\<^verbatim>\<open>migration/data_sync\<close> and \<^verbatim>\<open>datazen-driver-api/src/sync/key.rs\<close>): values, keys and
    their order in \<^verbatim>\<open>Sync_Values\<close> (values and cells), \<^verbatim>\<open>Sync_Decimal\<close> (key.rs: decimal keys, contracts),
    \<^verbatim>\<open>Sync_Keys\<close> (what a decimal key denotes, and its order against the order of the numbers) and
    \<^verbatim>\<open>Sync_Order\<close> (the order laws of keys); \<^verbatim>\<open>Sync_Model\<close> (model.rs, changeset.rs, state.rs, session.rs);
    \<^verbatim>\<open>Sync_Compare\<close> (compare.rs), \<^verbatim>\<open>Sync_Merge\<close> (the streaming merge against the merge of lists) and
    \<^verbatim>\<open>Sync_Classify\<close> (which rows are paired); \<^verbatim>\<open>Sync_Apply\<close> (apply_loop.rs); \<^verbatim>\<open>Sync_Execute\<close> (execute.rs) with
    \<^verbatim>\<open>Sync_Outcomes\<close> (what every path leaves in the log of driver calls); \<^verbatim>\<open>Sync_Sessions\<close> (histories of
    calls on a session); \<^verbatim>\<open>Sync_Sql\<close> (sql.rs and driver-support/sql_identifiers.rs) with
    \<^verbatim>\<open>Sync_Conditions\<close> (the terms of a generated condition and their three-valued value). The properties
    are in \<^verbatim>\<open>Sync_Theorems\<close>, \<^verbatim>\<open>Sync_Run_Theorems\<close> and \<^verbatim>\<open>Sync_Sql_Theorems\<close>.

  \<^bold>\<open>How the parts interact.\<close> A job run reserves one permit per endpoint on the budget ledger, all or
  none, claims the job in the repository, runs the stages of its handler under that claim, and gives
  the permits back on every path. Between any two of these calls other tasks may use the repository
  and the ledger: the environment of a run is an arbitrary function that performs steps the invariants
  allow, and the theorems about runs hold for all of them. The guard and the binder are pure functions
  of the text; they use the scanner and the tokens. A synchronization compares two page sources by their normalized
  keys, turns the reviewed differences into a change set, generates a guarded statement for each
  change, and executes the statements in one transaction on a driver; the session only admits these
  steps in their order.

  \<^bold>\<open>State and operations.\<close> A struct is a record with the fields of the struct, an enum a datatype, a
  table the ordered map of \<^verbatim>\<open>Prelude\<close>. A method on \<^verbatim>\<open>&mut self\<close> is a function that returns its result
  and the new state; a \<^verbatim>\<open>Result\<close> is a sum with the error on the left. Counters are natural numbers with
  saturation and overflow written out; credits of the rotation are integers, proved to stay within
  [-5, 4]. SQL text is the list of its code points; where the code keeps an index into a vector of
  characters or tokens, the functions here take the rest of the list from that index.

  \<^bold>\<open>Interfaces.\<close> Each locale states a contract between two parts and is interpreted on the definitions
  that provide it: the operations of a repository that work under a claim (\<^verbatim>\<open>Job_Contract\<close>, interpreted in
  \<^verbatim>\<open>Job_Operations\<close>), the desk that hands out permits (\<^verbatim>\<open>Job_Endpoints\<close>, interpreted on the ledger), the
  ordered maps (\<^verbatim>\<open>Prelude\<close>), and the opaque pieces of a text (\<^verbatim>\<open>Sql_Lexing\<close>, interpreted for quotes,
  comments, dollar quotes and their combinations), and the order of keys that a merge relies on
  (the locales \<^verbatim>\<open>comparison\<close> and \<^verbatim>\<open>coded_comparison\<close> of \<^verbatim>\<open>Sync_Values\<close>, interpreted there on the values,
  in \<^verbatim>\<open>Sync_Order\<close> on the normalized keys and in \<^verbatim>\<open>Sync_Apply\<close> on the rows).

  \<^bold>\<open>What is shown.\<close> Budget: no class, shared pool or physical capacity is oversold, a round of the
  scheduler ends, loses no waiter and leaves none that it could serve, permits are released once,
  batches are all or nothing, waiting is fair within proved bounds. Pool: occupancy is exact, releases
  and reuse revoke old tickets. Jobs: a superseded claim can write nothing, submissions are
  idempotent, organizations are separated, every run ends in a settled job with its permits returned,
  success means that all stages succeeded, and the scan after a restart leaves nothing open. SQL: which
  texts a read-only connection accepts is characterized exactly, data-modifying bodies at any depth
  included; a bound string adds exactly one quoted piece to the text; binding is a splice; the splitter
  cuts at exactly the semicolons outside of quotes and comments. Synchronization: the streaming
  comparison is the merge of the whole tables and reports exactly their differences, applying them
  leaves none, a generated UPDATE or DELETE selects exactly the reviewed row, the report of an execution
  agrees with the calls the driver saw, no identity toggle stays on, batches execute like one list, and
  a session runs only a change set that was revalidated; decimal keys identify numbers, and their order
  is described on all of them. Several theorems and lemmas show where the code does not do what its
  documentation says, the guard's blind spots and the order of decimals below one among them.

  \<^bold>\<open>Bounds and hypotheses.\<close> \<^verbatim>\<open>cfg_bounds\<close>, \<^verbatim>\<open>counters_fit\<close>, \<^verbatim>\<open>quotas_fit\<close> and \<^verbatim>\<open>versions_fit\<close> say that
  u32 and u64 counters have not reached their maximum, which takes more operations than a process can
  perform; no other bound is used. Loops of the scheduler are partial functions in the option monad
  and are proved to return under the ledger invariant. The loop of the streaming comparison is one too,
  because a source may never end: it is proved to return exactly when both sources end in checked pages.
  No fuel is used.

  \<^bold>\<open>Parameters.\<close> Clock readings; timestamp arithmetic (\<^verbatim>\<open>after\<close>, chrono); printing of JSON values
  (\<^verbatim>\<open>printed\<close>, \<^verbatim>\<open>shown\<close>, serde_json) and of denial reasons; decoding of recovery targets (\<^verbatim>\<open>decode\<close>); the
  handler of a job and the recovery verifier, which are trait objects supplied by the domains. For the
  synchronization: the page sources and the driver (any function of the calls made so far), the cancel
  flag, the quoting, placeholders and literals of a driver, the size and text of serialized JSON, the
  printing of floats and the two chrono functions that read timestamps. The equality of two values on a
  server is an arbitrary relation where a condition is evaluated.

  \<^bold>\<open>Not modelled.\<close> Mutex, Notify, tokio tasks and timers are the steps between which other tasks act;
  tracing and serde derives have no state of their own. Of the synchronization the filters, the keyset
  queries, the mapping of tables and columns and the stores of plans and comparisons are not modelled.
  The drivers, the SQLite storage of the server, the Tauri commands of the desktop, the web user
  interface, the transfer of data and the comparison of schemas (the rest of \<^verbatim>\<open>migration\<close>), the AI and MCP
  adapters, the workflow engine and the gateway are not modelled: they are input and output around the
  kernel, or parts of their own that nothing here depends on.
\<close>

end
